(* ===== verification/Dspam_Prelude.thy ===== *)
theory Dspam_Prelude
  imports Complex_Main "HOL-Library.Multiset" "HOL-Library.Word"
begin

text \<open>
  Shared vocabulary of the development: the faults of C code that the models report as
  values, the machine types the sources use, the lemma collections the component theories
  fill, and generic facts on lists and multisets.
\<close>

section \<open>Faults and machine types\<close>

text \<open>
  A C function whose behaviour is undefined on some inputs is modelled with the result type
  \<open>c_fault + 'a\<close>: \<open>Inl\<close> names the undefined access, \<open>Inr\<close> carries the result.
\<close>

datatype c_fault = OutOfBounds | UseAfterFree | NullDeref | Uninitialised | BadConversion | BadShift | DivByZero | NoReturn

type_synonym u64 = "64 word"
type_synonym u32 = "32 word"
type_synonym 'a cres = "c_fault + 'a"

text \<open>The value of a C \<open>char\<close>, which is signed on the platforms the program targets.\<close>

definition schar :: "char \<Rightarrow> int" where
  "schar c = (if of_char c \<ge> (128::int) then of_char c - 256 else of_char c)"

text \<open>The error codes of \<^verbatim>\<open>error.h\<close> and \<^verbatim>\<open>libdspam.h\<close>.\<close>

definition EINVAL :: int where "EINVAL = 22"
definition EUNKNOWN :: int where "EUNKNOWN = - 2"
definition EFILE :: int where "EFILE = - 3"
definition EFAILURE :: int where "EFAILURE = - 5"

named_theorems fp_simps \<open>floating-point operations on finite arguments\<close>
named_theorems tbl_simps \<open>chained hash tables\<close>
named_theorems str_simps \<open>C string functions\<close>
named_theorems ctx_defs \<open>definitions of the classification context\<close>

section \<open>Sequencing of faulting computations\<close>

fun cbind :: "'a cres \<Rightarrow> ('a \<Rightarrow> 'b cres) \<Rightarrow> 'b cres" where
  "cbind (Inl e) f = Inl e"
| "cbind (Inr x) f = f x"

lemma cbind_Inr_iff: "cbind m f = Inr y \<longleftrightarrow> (\<exists>x. m = Inr x \<and> f x = Inr y)"
  by (cases m) auto

lemma cbind_Inl_iff: "cbind m f = Inl e \<longleftrightarrow> m = Inl e \<or> (\<exists>x. m = Inr x \<and> f x = Inl e)"
  by (cases m) auto

fun cfold :: "('s \<Rightarrow> 'a \<Rightarrow> 's cres) \<Rightarrow> 's \<Rightarrow> 'a list \<Rightarrow> 's cres" where
  "cfold f s [] = Inr s"
| "cfold f s (x # xs) = cbind (f s x) (\<lambda>s'. cfold f s' xs)"

lemma cfold_append: "cfold f s (xs @ ys) = cbind (cfold f s xs) (\<lambda>t. cfold f t ys)"
proof (induction xs arbitrary: s)
  case (Cons x xs)
  then show ?case by (cases "f s x") auto
qed simp

lemma cfold_pure: "(\<And>s x. f s x = Inr (g s x)) \<Longrightarrow> cfold f s xs = Inr (foldl g s xs)"
  by (induction xs arbitrary: s) auto

section \<open>Lists and multisets\<close>

lemma sorted_insert_at:
  assumes "sorted (map f xs)" "i \<le> length xs"
    and "\<forall>x\<in>set (take i xs). f x \<le> f y" and "\<forall>x\<in>set (drop i xs). f y \<le> f x"
  shows "sorted (map f (take i xs @ y # drop i xs))"
proof -
  have "sorted (map f (take i xs @ drop i xs))" using assms(1) by simp
  then show ?thesis
    unfolding map_append sorted_append using assms(3,4) by auto
qed

lemma mset_insert_at: "mset (take i xs @ y # drop i xs) = add_mset y (mset xs)"
  by (metis append_take_drop_id mset.simps(2) mset_append union_mset_add_mset_right)

end
