(* ===== verification/Ds_Table.thy ===== *)
theory Ds_Table
  imports Dspam_Prelude
begin

text \<open>
  Chained hash tables, the representation that diction.c and hash.c share: an array of
  singly linked chains, new nodes linked at the end of a chain. A node is addressed by its
  key, which is unique in the table; following a pointer to a node that is no longer linked
  is a use after free. The cursor is the pair of the next bucket to visit and the next node.
\<close>

section \<open>Chains\<close>

definition chain_find :: "('e \<Rightarrow> 'k) \<Rightarrow> 'k \<Rightarrow> 'e list \<Rightarrow> 'e option" where
  "chain_find key k xs = List.find (\<lambda>e. key e = k) xs"

primrec chain_upd :: "('e \<Rightarrow> 'k) \<Rightarrow> 'k \<Rightarrow> ('e \<Rightarrow> 'e) \<Rightarrow> 'e list \<Rightarrow> 'e list" where
  "chain_upd key k f [] = []"
| "chain_upd key k f (e # es) = (if key e = k then f e # es else e # chain_upd key k f es)"

primrec chain_del :: "('e \<Rightarrow> 'k) \<Rightarrow> 'k \<Rightarrow> 'e list \<Rightarrow> 'e list" where
  "chain_del key k [] = []"
| "chain_del key k (e # es) = (if key e = k then es else e # chain_del key k es)"

fun first_key :: "('e \<Rightarrow> 'k) \<Rightarrow> 'e list \<Rightarrow> 'k option" where
  "first_key key [] = None"
| "first_key key (e # es) = Some (key e)"

definition chain_succ :: "('e \<Rightarrow> 'k) \<Rightarrow> 'k \<Rightarrow> 'e list \<Rightarrow> 'k option cres" where
  "chain_succ key k xs =
     (case dropWhile (\<lambda>e. key e \<noteq> k) xs of
        [] \<Rightarrow> Inl UseAfterFree
      | e # rest \<Rightarrow> Inr (first_key key rest))"

section \<open>Cursors\<close>

type_synonym 'k cursor = "nat \<times> 'k option"

text \<open>The search for the next non-empty bucket, from bucket \<open>i\<close>.\<close>

function bucket_scan :: "('e \<Rightarrow> 'k) \<Rightarrow> nat \<Rightarrow> 'e list list \<Rightarrow> nat \<Rightarrow> 'k cursor \<times> 'k option" where
  "bucket_scan key n tbl i =
     (if i < n then
        (case tbl ! i of
           [] \<Rightarrow> bucket_scan key n tbl (Suc i)
         | e # rest \<Rightarrow> ((Suc i, first_key key rest), Some (key e)))
      else ((i, None), None))"
  by pat_completeness auto
termination by (relation "measure (\<lambda>(key, n, tbl, i). n - i)") auto

declare bucket_scan.simps [simp del]

definition tbl_next ::
    "('e \<Rightarrow> 'k) \<Rightarrow> ('k \<Rightarrow> nat) \<Rightarrow> nat \<Rightarrow> 'e list list \<Rightarrow> 'k cursor \<Rightarrow> ('k cursor \<times> 'k option) cres" where
  "tbl_next key idx n tbl cur =
     (case cur of
        (i, Some k) \<Rightarrow> cbind (chain_succ key k (tbl ! idx k)) (\<lambda>nx. Inr ((i, nx), Some k))
      | (i, None) \<Rightarrow> Inr (bucket_scan key n tbl i))"

text \<open>
  The two loops over a cursor: the traversal every client writes, and the destruction of
  all nodes, which fetches the next node before it unlinks and frees the current one.
\<close>

fun tbl_walk ::
    "('e \<Rightarrow> 'k) \<Rightarrow> ('k \<Rightarrow> nat) \<Rightarrow> nat \<Rightarrow> 'e list list \<Rightarrow> nat \<Rightarrow> 'k cursor \<Rightarrow> 'k list cres" where
  "tbl_walk key idx n tbl 0 cur = Inl NoReturn"
| "tbl_walk key idx n tbl (Suc fuel) cur =
     cbind (tbl_next key idx n tbl cur) (\<lambda>(cur', r).
       case r of
         None \<Rightarrow> Inr []
       | Some k \<Rightarrow> cbind (tbl_walk key idx n tbl fuel cur') (\<lambda>ks. Inr (k # ks)))"

fun tbl_destroy ::
    "('e \<Rightarrow> 'k) \<Rightarrow> ('k \<Rightarrow> nat) \<Rightarrow> nat \<Rightarrow> nat \<Rightarrow> 'e list list \<Rightarrow> 'k cursor \<Rightarrow> 'k option \<Rightarrow> 'e list list cres" where
  "tbl_destroy key idx n fuel tbl cur None = Inr tbl"
| "tbl_destroy key idx n 0 tbl cur (Some k) = Inl NoReturn"
| "tbl_destroy key idx n (Suc fuel) tbl cur (Some k) =
     cbind (tbl_next key idx n tbl cur) (\<lambda>(cur', r).
       case chain_find key k (tbl ! idx k) of
         None \<Rightarrow> Inl UseAfterFree
       | Some e \<Rightarrow> tbl_destroy key idx n fuel (tbl[idx k := chain_del key k (tbl ! idx k)]) cur' r)"

section \<open>Well-formed tables\<close>

text \<open>Every node is in the bucket of its key, and no key occurs twice.\<close>

definition tbl_ok :: "('e \<Rightarrow> 'k) \<Rightarrow> ('k \<Rightarrow> nat) \<Rightarrow> nat \<Rightarrow> 'e list list \<Rightarrow> bool" where
  "tbl_ok key idx n tbl \<longleftrightarrow> length tbl = n \<and>
     (\<forall>b<n. distinct (map key (tbl ! b)) \<and> (\<forall>e\<in>set (tbl ! b). idx (key e) = b))"

lemma chain_find_None: "chain_find key k xs = None \<longleftrightarrow> k \<notin> key ` set xs"
  by (auto simp: chain_find_def find_None_iff)

lemma chain_find_Some: "chain_find key k xs = Some e \<Longrightarrow> e \<in> set xs \<and> key e = k"
  by (auto simp: chain_find_def find_Some_iff)

lemma chain_find_append:
  "chain_find key k (xs @ [e]) =
     (case chain_find key k xs of Some x \<Rightarrow> Some x | None \<Rightarrow> if key e = k then Some e else None)"
  by (induction xs) (auto simp: chain_find_def)

lemma chain_find_upd:
  assumes "\<And>e. key (f e) = key e"
  shows "chain_find key k' (chain_upd key k f xs) =
    (if k' = k then map_option f (chain_find key k xs) else chain_find key k' xs)"
  using assms by (induction xs) (auto simp: chain_find_def)

lemma map_key_chain_upd [simp]:
  assumes "\<And>e. key (f e) = key e"
  shows "map key (chain_upd key k f xs) = map key xs"
  using assms by (induction xs) auto

lemma length_chain_upd [simp]: "length (chain_upd key k f xs) = length xs"
  by (induction xs) auto

lemma set_chain_del: "set (chain_del key k xs) \<subseteq> set xs"
  by (induction xs) auto

lemma chain_del_notin: "k \<notin> key ` set xs \<Longrightarrow> chain_del key k xs = xs"
  by (induction xs) auto

lemma map_key_chain_del: "distinct (map key xs) \<Longrightarrow> map key (chain_del key k xs) = filter (\<lambda>k'. k' \<noteq> k) (map key xs)"
proof (induction xs)
  case (Cons e es)
  have "filter (\<lambda>k'. k' \<noteq> k) (map key es) = map key es" if "key e = k"
    using Cons.prems that by (intro filter_True) (metis distinct.simps(2) list.simps(9) set_map)
  then show ?case using Cons by auto
qed simp

lemma chain_find_del:
  assumes "distinct (map key xs)"
  shows "chain_find key k' (chain_del key k xs) = (if k' = k then None else chain_find key k' xs)"
  using assms
proof (induction xs)
  case (Cons e es)
  then show ?case by (auto simp: chain_find_def find_None_iff image_iff)
qed (simp add: chain_find_def)

lemma length_chain_del: "k \<in> key ` set xs \<Longrightarrow> Suc (length (chain_del key k xs)) = length xs"
  by (induction xs) auto

section \<open>The contract of a bucket array\<close>

text \<open>
  A bucket function that stays within the array is all the two tables need: over it, the
  array behaves as a finite map from keys to nodes, and the cursor visits every node once.
\<close>

locale buckets =
  fixes key :: "'e \<Rightarrow> 'k" and idx :: "nat \<Rightarrow> 'k \<Rightarrow> nat"
  assumes idx_less: "0 < n \<Longrightarrow> idx n k < n"
begin

lemma ok_chain: "tbl_ok key (idx n) n tbl \<Longrightarrow> 0 < n \<Longrightarrow> distinct (map key (tbl ! idx n k))"
  using idx_less by (simp add: tbl_ok_def)

lemma find_in_set:
  assumes "tbl_ok key (idx n) n tbl" "0 < n"
  shows "chain_find key k (tbl ! idx n k) = Some e \<longleftrightarrow> e \<in> set (concat tbl) \<and> key e = k"
proof
  assume "chain_find key k (tbl ! idx n k) = Some e"
  moreover have "idx n k < length tbl" using idx_less assms by (simp add: tbl_ok_def)
  ultimately show "e \<in> set (concat tbl) \<and> key e = k"
    using chain_find_Some[of key k "tbl ! idx n k" e] by (auto dest: nth_mem)
next
  assume e: "e \<in> set (concat tbl) \<and> key e = k"
  then obtain b where b: "b < length tbl" "e \<in> set (tbl ! b)"
    by (metis concat_eq_concat_iff in_set_conv_nth set_concat UN_E)
  then have "idx n k = b" using assms e by (auto simp: tbl_ok_def)
  moreover have d: "distinct (map key (tbl ! b))" using assms b by (simp add: tbl_ok_def)
  ultimately have "chain_find key k (tbl ! idx n k) \<noteq> None" using b e by (auto simp: chain_find_None)
  then obtain x where x: "chain_find key k (tbl ! idx n k) = Some x" by auto
  then have "x \<in> set (tbl ! b)" "key x = key e" using chain_find_Some[OF x] \<open>idx n k = b\<close> e by auto
  then have "x = e" using d b(2) by (meson distinct_map inj_onD)
  with x show "chain_find key k (tbl ! idx n k) = Some e" by simp
qed

lemma distinct_keys:
  assumes "tbl_ok key (idx n) n tbl"
  shows "distinct (map key (concat tbl))"
proof -
  have "distinct (map key (concat (take m tbl)))" if "m \<le> length tbl" for m
    using that
  proof (induction m)
    case (Suc m)
    have "key ` set (concat (take m tbl)) \<inter> key ` set (tbl ! m) = {}"
    proof (rule ccontr)
      assume "\<not> ?thesis"
      then obtain x y where xy: "x \<in> set (concat (take m tbl))" "y \<in> set (tbl ! m)" "key x = key y"
        by auto
      then obtain c where c: "c \<in> set (take m tbl)" "x \<in> set c" by auto
      then obtain b where "b < m" "x \<in> set (tbl ! b)"
        using Suc.prems by (auto simp: in_set_conv_nth[of c])
      moreover have "idx n (key x) = b" "idx n (key y) = m"
        using calculation xy(2) assms Suc.prems by (auto simp: tbl_ok_def simp del: set_concat)
      ultimately show False using xy(3) by simp
    qed
    then show ?case using Suc assms by (auto simp: take_Suc_conv_app_nth tbl_ok_def)
  qed simp
  from this[of "length tbl"] show ?thesis by simp
qed

lemma find_None_iff:
  assumes "tbl_ok key (idx n) n tbl" "0 < n"
  shows "chain_find key k (tbl ! idx n k) = None \<longleftrightarrow> k \<notin> key ` set (concat tbl)"
  using find_in_set[OF assms, of k] by (metis image_iff not_None_eq)

lemma length_concat_update:
  "b < length tbl \<Longrightarrow> length (concat (tbl[b := c])) + length (tbl ! b) = length (concat tbl) + length c"
proof (induction tbl arbitrary: b)
  case (Cons x xs)
  then show ?case by (cases b) auto
qed simp

lemma put_ok:
  assumes "tbl_ok key (idx n) n tbl" "0 < n" "chain_find key (key e) (tbl ! idx n (key e)) = None"
  shows "tbl_ok key (idx n) n (tbl[idx n (key e) := tbl ! idx n (key e) @ [e]])"
  using assms idx_less[OF assms(2)] by (auto simp: tbl_ok_def chain_find_None nth_list_update)

lemma put_find:
  assumes "tbl_ok key (idx n) n tbl" "0 < n" "chain_find key (key e) (tbl ! idx n (key e)) = None"
  shows "chain_find key k (tbl[idx n (key e) := tbl ! idx n (key e) @ [e]] ! idx n k) =
    (if k = key e then Some e else chain_find key k (tbl ! idx n k))"
  using assms idx_less[OF assms(2)]
  by (auto simp: tbl_ok_def nth_list_update chain_find_append split: option.splits)

lemma put_length:
  assumes "tbl_ok key (idx n) n tbl" "0 < n"
  shows "length (concat (tbl[idx n k := tbl ! idx n k @ [e]])) = Suc (length (concat tbl))"
  using length_concat_update[of "idx n k" tbl "tbl ! idx n k @ [e]"] assms idx_less
  by (simp add: tbl_ok_def)

lemma upd_ok:
  assumes "tbl_ok key (idx n) n tbl" "0 < n" "\<And>e. key (f e) = key e"
  shows "tbl_ok key (idx n) n (tbl[idx n k := chain_upd key k f (tbl ! idx n k)])"
proof -
  have "key ` set (chain_upd key k f xs) = key ` set xs" for xs
    using map_key_chain_upd[of key f k xs, OF assms(3)] by (metis set_map)
  then have "idx n (key e) = b" if "e \<in> set (chain_upd key k f (tbl ! b))" "b < n" for e b
    using that assms(1) unfolding tbl_ok_def by (metis (no_types, lifting) image_iff)
  then show ?thesis using assms idx_less[OF assms(2)] by (auto simp: tbl_ok_def nth_list_update)
qed

lemma upd_find:
  assumes "tbl_ok key (idx n) n tbl" "0 < n" "\<And>e. key (f e) = key e"
  shows "chain_find key k' (tbl[idx n k := chain_upd key k f (tbl ! idx n k)] ! idx n k') =
    (if k' = k then map_option f (chain_find key k (tbl ! idx n k)) else chain_find key k' (tbl ! idx n k'))"
  using assms idx_less[OF assms(2)] by (auto simp: tbl_ok_def nth_list_update chain_find_upd)

lemma upd_length:
  assumes "tbl_ok key (idx n) n tbl" "0 < n"
  shows "length (concat (tbl[idx n k := chain_upd key k f (tbl ! idx n k)])) = length (concat tbl)"
  using length_concat_update[of "idx n k" tbl "chain_upd key k f (tbl ! idx n k)"] assms idx_less
  by (simp add: tbl_ok_def)

lemma upd_keys:
  assumes "\<And>e. key (f e) = key e"
  shows "map key (concat (tbl[b := chain_upd key k f (tbl ! b)])) = map key (concat tbl)"
proof (cases "b < length tbl")
  case True
  have "map (map key) (tbl[b := chain_upd key k f (tbl ! b)]) = map (map key) tbl"
    using True map_key_chain_upd[of key f, OF assms] by (simp add: map_update) (metis list_update_id map_update nth_map)
  then show ?thesis unfolding map_concat by simp
qed (simp add: list_update_beyond)

lemma del_ok:
  assumes "tbl_ok key (idx n) n tbl" "0 < n"
  shows "tbl_ok key (idx n) n (tbl[idx n k := chain_del key k (tbl ! idx n k)])"
proof -
  have "distinct (map key (chain_del key k (tbl ! idx n k)))"
    using ok_chain[OF assms, of k] by (simp add: map_key_chain_del)
  then show ?thesis using assms idx_less[OF assms(2)] set_chain_del[of key k]
    by (fastforce simp: tbl_ok_def nth_list_update)
qed

lemma del_find:
  assumes "tbl_ok key (idx n) n tbl" "0 < n"
  shows "chain_find key k' (tbl[idx n k := chain_del key k (tbl ! idx n k)] ! idx n k') =
    (if k' = k then None else chain_find key k' (tbl ! idx n k'))"
  using assms idx_less[OF assms(2)] ok_chain[OF assms]
  by (auto simp: tbl_ok_def nth_list_update chain_find_del)

lemma del_length:
  assumes "tbl_ok key (idx n) n tbl" "0 < n" "chain_find key k (tbl ! idx n k) \<noteq> None"
  shows "Suc (length (concat (tbl[idx n k := chain_del key k (tbl ! idx n k)]))) = length (concat tbl)"
  using length_concat_update[of "idx n k" tbl "chain_del key k (tbl ! idx n k)"] assms idx_less
    length_chain_del[of k key "tbl ! idx n k"]
  by (auto simp: tbl_ok_def chain_find_None)

text \<open>What a cursor has left to visit.\<close>

lemma bucket_scan_left:
  assumes "length tbl = n" "i \<le> n"
  shows "case bucket_scan key n tbl i of
    ((i', nx), None) \<Rightarrow> concat (drop i tbl) = [] |
    ((i', nx), Some k) \<Rightarrow> \<exists>e es. i < i' \<and> i' \<le> n \<and> concat (drop i tbl) = e # es @ concat (drop i' tbl) \<and>
       tbl ! (i' - 1) = e # es \<and> k = key e \<and> nx = first_key key es"
  using assms
proof (induction key n tbl i rule: bucket_scan.induct)
  case (1 key n tbl i)
  show ?case
  proof (cases "i < n")
    case True
    then have dr: "drop i tbl = tbl ! i # drop (Suc i) tbl" using 1 by (simp add: Cons_nth_drop_Suc)
    show ?thesis
    proof (cases "tbl ! i")
      case Nil
      then show ?thesis using 1 True dr
        by (subst bucket_scan.simps) (auto split: option.splits prod.splits)
    next
      case (Cons e es)
      then show ?thesis using True dr by (subst bucket_scan.simps) auto
    qed
  next
    case False
    then show ?thesis using 1 by (subst bucket_scan.simps) auto
  qed
qed

end

definition cursor_left ::
    "('e \<Rightarrow> 'k) \<Rightarrow> ('k \<Rightarrow> nat) \<Rightarrow> 'e list list \<Rightarrow> 'k cursor \<Rightarrow> 'e list" where
  "cursor_left key idx tbl cur =
     (case snd cur of None \<Rightarrow> [] | Some k \<Rightarrow> dropWhile (\<lambda>e. key e \<noteq> k) (tbl ! idx k)) @
     concat (drop (fst cur) tbl)"

text \<open>A cursor in use: its bucket is in range, its node is linked in an earlier bucket.\<close>

definition cursor_ok ::
    "('e \<Rightarrow> 'k) \<Rightarrow> ('k \<Rightarrow> nat) \<Rightarrow> nat \<Rightarrow> 'e list list \<Rightarrow> 'k cursor \<Rightarrow> bool" where
  "cursor_ok key idx n tbl cur \<longleftrightarrow> fst cur \<le> n \<and>
     (case snd cur of None \<Rightarrow> True | Some k \<Rightarrow> k \<in> key ` set (tbl ! idx k) \<and> idx k < fst cur)"

context buckets
begin

lemma dropWhile_suffix:
  assumes "distinct (map key (xs @ e # es))"
  shows "dropWhile (\<lambda>x. key x \<noteq> key e) (xs @ e # es) = e # es"
  using assms by (induction xs) auto

lemma next_left:
  assumes ok: "tbl_ok key (idx n) n tbl" "0 < n" and cur: "cursor_ok key (idx n) n tbl cur"
  shows "\<exists>cur' r. tbl_next key (idx n) n tbl cur = Inr (cur', r) \<and>
    (case r of
       None \<Rightarrow> cursor_left key (idx n) tbl cur = []
     | Some k \<Rightarrow> cursor_ok key (idx n) n tbl cur' \<and>
         (\<exists>e. key e = k \<and> cursor_left key (idx n) tbl cur = e # cursor_left key (idx n) tbl cur'))"
proof -
  have len: "length tbl = n" using ok by (simp add: tbl_ok_def)
  obtain i nx where c: "cur = (i, nx)" by (cases cur)
  show ?thesis
  proof (cases nx)
    case None
    obtain i' nx' r where sc: "bucket_scan key n tbl i = ((i', nx'), r)"
      by (metis surj_pair)
    have in_le: "i \<le> n" using cur c None by (simp add: cursor_ok_def)
    show ?thesis
    proof (cases r)
      case None
      then show ?thesis using bucket_scan_left[OF len in_le] sc c \<open>nx = None\<close>
        by (simp add: tbl_next_def cursor_left_def)
    next
      case (Some k)
      then obtain e es where e: "i < i'" "i' \<le> n" "concat (drop i tbl) = e # es @ concat (drop i' tbl)"
        "tbl ! (i' - 1) = e # es" "k = key e" "nx' = first_key key es"
        using bucket_scan_left[OF len in_le] sc by auto
      have "i' - 1 < n" using e(1,2) by simp
      then have b: "\<forall>x\<in>set (e # es). idx n (key x) = i' - 1" "distinct (map key (e # es))"
        using ok(1) unfolding tbl_ok_def e(4)[symmetric] by blast+
      have left: "cursor_left key (idx n) tbl (i', nx') = es @ concat (drop i' tbl)"
        using e b by (cases es) (auto simp: cursor_left_def)
      have "cursor_ok key (idx n) n tbl (i', nx')"
        using e b by (cases es) (auto simp: cursor_ok_def)
      then show ?thesis using sc c \<open>nx = None\<close> Some e left
        by (auto simp: tbl_next_def cursor_left_def)
    qed
  next
    case (Some k)
    have k: "k \<in> key ` set (tbl ! idx n k)" "idx n k < i" "i \<le> n" using cur c Some by (auto simp: cursor_ok_def)
    then obtain e where e: "e \<in> set (tbl ! idx n k)" "key e = k" by auto
    then obtain xs es where sp: "tbl ! idx n k = xs @ e # es" by (auto simp: in_set_conv_decomp)
    have d: "distinct (map key (xs @ e # es))" using ok_chain[OF ok, of k] sp by simp
    have b: "\<forall>x\<in>set (tbl ! idx n k). idx n (key x) = idx n k" using ok k by (auto simp: tbl_ok_def)
    have dw: "dropWhile (\<lambda>x. key x \<noteq> k) (tbl ! idx n k) = e # es"
      using dropWhile_suffix[OF d] sp e by simp
    have left: "cursor_left key (idx n) tbl (i, first_key key es) = es @ concat (drop i tbl)"
    proof (cases es)
      case (Cons e' es')
      then have "idx n (key e') = idx n k" using b sp by simp
      then show ?thesis using dropWhile_suffix[of "xs @ [e]" e' es'] d Cons sp
        by (simp add: cursor_left_def)
    qed (simp add: cursor_left_def)
    have "cursor_ok key (idx n) n tbl (i, first_key key es)"
      using b k sp by (cases es) (auto simp: cursor_ok_def)
    then show ?thesis using left dw c Some e
      by (auto simp: tbl_next_def chain_succ_def cursor_left_def)
  qed
qed

lemma walk_left:
  assumes "tbl_ok key (idx n) n tbl" "0 < n" "cursor_ok key (idx n) n tbl cur"
    and "length (cursor_left key (idx n) tbl cur) < fuel"
  shows "tbl_walk key (idx n) n tbl fuel cur = Inr (map key (cursor_left key (idx n) tbl cur))"
  using assms(3,4)
proof (induction fuel arbitrary: cur)
  case (Suc fuel)
  from next_left[OF assms(1,2) Suc.prems(1)] obtain cur' r where
    nx: "tbl_next key (idx n) n tbl cur = Inr (cur', r)" and
    left: "case r of
       None \<Rightarrow> cursor_left key (idx n) tbl cur = []
     | Some k \<Rightarrow> cursor_ok key (idx n) n tbl cur' \<and>
         (\<exists>e. key e = k \<and> cursor_left key (idx n) tbl cur = e # cursor_left key (idx n) tbl cur')"
    by blast
  show ?case
  proof (cases r)
    case (Some k)
    with left obtain e where e: "key e = k" "cursor_ok key (idx n) n tbl cur'"
      "cursor_left key (idx n) tbl cur = e # cursor_left key (idx n) tbl cur'" by auto
    then show ?thesis using Suc.IH[OF e(2)] Suc.prems nx Some by simp
  qed (use nx left in simp)
qed simp

text \<open>A full traversal yields every key exactly once, in the order of the buckets.\<close>

lemma walk_all:
  assumes "tbl_ok key (idx n) n tbl" "0 < n" "length (concat tbl) < fuel"
  shows "tbl_walk key (idx n) n tbl fuel (0, None) = Inr (map key (concat tbl))"
  using walk_left[OF assms(1,2), of "(0, None)" fuel] assms(3)
  by (simp add: cursor_left_def cursor_ok_def)

text \<open>Deleting a node the cursor has passed leaves the rest of the traversal as it was.\<close>

lemma dropWhile_chain_del:
  assumes "k2 \<in> key ` set c" "k \<notin> key ` set (dropWhile (\<lambda>e. key e \<noteq> k2) c)"
  shows "dropWhile (\<lambda>e. key e \<noteq> k2) (chain_del key k c) = dropWhile (\<lambda>e. key e \<noteq> k2) c"
  using assms by (induction c) (auto simp: chain_del_notin)

lemma chain_del_append:
  "chain_del key k (xs @ ys) = (if k \<in> key ` set xs then chain_del key k xs @ ys else xs @ chain_del key k ys)"
  by (induction xs) auto

lemma concat_chain_del:
  assumes "b < length tbl" "k \<in> key ` set (tbl ! b)" "\<forall>b'<b. k \<notin> key ` set (tbl ! b')"
  shows "concat (tbl[b := chain_del key k (tbl ! b)]) = chain_del key k (concat tbl)"
  using assms
proof (induction tbl arbitrary: b)
  case (Cons x xs)
  show ?case
  proof (cases b)
    case (Suc b')
    then have "k \<notin> key ` set x" "\<forall>b''<b'. k \<notin> key ` set (xs ! b'')" using Cons.prems(3) by force+
    then show ?thesis using Cons Suc by (simp add: chain_del_append)
  qed (use Cons in \<open>simp add: chain_del_append\<close>)
qed simp

lemma del_cursor:
  assumes ok: "tbl_ok key (idx n) n tbl" "0 < n" and cur: "cursor_ok key (idx n) n tbl cur"
    and k: "k \<notin> key ` set (cursor_left key (idx n) tbl cur)"
  defines "tbl' \<equiv> tbl[idx n k := chain_del key k (tbl ! idx n k)]"
  shows "cursor_left key (idx n) tbl' cur = cursor_left key (idx n) tbl cur \<and>
    cursor_ok key (idx n) n tbl' cur"
proof -
  have b: "idx n k < length tbl" using ok idx_less by (simp add: tbl_ok_def)
  obtain i nx where c: "cur = (i, nx)" by (cases cur)
  have dr: "drop i tbl' = drop i tbl"
  proof (cases "idx n k < i")
    case False
    then have "tbl ! idx n k \<in> set (drop i tbl)"
      using b nth_mem[of "idx n k - i" "drop i tbl"] by simp
    then have "set (tbl ! idx n k) \<subseteq> set (concat (drop i tbl))" by auto
    then have "chain_del key k (tbl ! idx n k) = tbl ! idx n k"
      using k c by (intro chain_del_notin) (auto simp: cursor_left_def)
    then show ?thesis by (simp add: tbl'_def)
  qed (simp add: tbl'_def)
  show ?thesis
  proof (cases nx)
    case (Some k2)
    have k2: "k2 \<in> key ` set (tbl ! idx n k2)" using cur c Some by (simp add: cursor_ok_def)
    have dw: "dropWhile (\<lambda>e. key e \<noteq> k2) (tbl' ! idx n k2) = dropWhile (\<lambda>e. key e \<noteq> k2) (tbl ! idx n k2)"
      using dropWhile_chain_del[OF k2] k c Some b
      by (auto simp: tbl'_def nth_list_update cursor_left_def)
    have "dropWhile (\<lambda>e. key e \<noteq> k2) (tbl ! idx n k2) \<noteq> []" using k2 by (auto simp: dropWhile_eq_Nil_conv)
    then have "k2 \<in> key ` set (tbl' ! idx n k2)"
      unfolding dw[symmetric] by (auto simp: dropWhile_eq_Nil_conv)
    then show ?thesis using cur c Some dw dr by (auto simp: cursor_left_def cursor_ok_def)
  qed (use cur c dr in \<open>auto simp: cursor_left_def cursor_ok_def\<close>)
qed

lemma del_first:
  assumes "tbl_ok key (idx n) n tbl" "0 < n" "concat tbl = e # es"
  shows "concat (tbl[idx n (key e) := chain_del key (key e) (tbl ! idx n (key e))]) = es"
    and "chain_find key (key e) (tbl ! idx n (key e)) = Some e"
proof -
  show f: "chain_find key (key e) (tbl ! idx n (key e)) = Some e"
    using assms(3) find_in_set[OF assms(1,2)] by (metis list.set_intros(1))
  have "key e \<notin> key ` set (tbl ! b')" if "b' < idx n (key e)" for b'
  proof
    assume "key e \<in> key ` set (tbl ! b')"
    then have "idx n (key e) = b'"
      using assms(1) that idx_less[OF assms(2), of "key e"] unfolding tbl_ok_def
      by (metis (no_types, lifting) imageE order.strict_trans)
    with that show False by simp
  qed
  moreover have "idx n (key e) < length tbl" "key e \<in> key ` set (tbl ! idx n (key e))"
    using assms(1) idx_less[OF assms(2)] chain_find_Some[OF f] by (simp_all add: tbl_ok_def)
  ultimately have "concat (tbl[idx n (key e) := chain_del key (key e) (tbl ! idx n (key e))]) =
      chain_del key (key e) (concat tbl)"
    by (intro concat_chain_del) auto
  then show "concat (tbl[idx n (key e) := chain_del key (key e) (tbl ! idx n (key e))]) = es"
    by (simp add: assms(3))
qed

lemma destroy_left:
  assumes "tbl_ok key (idx n) n tbl" "0 < n" "cursor_ok key (idx n) n tbl cur"
    and "concat tbl = (case r of None \<Rightarrow> [] | Some e \<Rightarrow> e # cursor_left key (idx n) tbl cur)"
    and "length (concat tbl) \<le> fuel"
  shows "\<exists>tbl'. tbl_destroy key (idx n) n fuel tbl cur (map_option key r) = Inr tbl' \<and>
    tbl_ok key (idx n) n tbl' \<and> concat tbl' = []"
  using assms
proof (induction fuel arbitrary: tbl cur r)
  case (Suc fuel)
  show ?case
  proof (cases r)
    case (Some e)
    define tbl1 where "tbl1 = tbl[idx n (key e) := chain_del key (key e) (tbl ! idx n (key e))]"
    have cc: "concat tbl = e # cursor_left key (idx n) tbl cur" using Suc.prems Some by simp
    have d: "distinct (map key (concat tbl))" using distinct_keys Suc.prems by blast
    note first = del_first[OF Suc.prems(1,2) cc, folded tbl1_def]
    from next_left[OF Suc.prems(1-3)] obtain cur' r' where
      nx: "tbl_next key (idx n) n tbl cur = Inr (cur', r')" and
      left: "case r' of
         None \<Rightarrow> cursor_left key (idx n) tbl cur = []
       | Some k \<Rightarrow> cursor_ok key (idx n) n tbl cur' \<and>
           (\<exists>e. key e = k \<and> cursor_left key (idx n) tbl cur = e # cursor_left key (idx n) tbl cur')"
      by blast
    have ok1: "tbl_ok key (idx n) n tbl1" unfolding tbl1_def by (rule del_ok[OF Suc.prems(1,2)])
    show ?thesis
    proof (cases r')
      case None
      then show ?thesis using nx left first ok1 Some by (simp add: tbl1_def)
    next
      case (Some k')
      with left obtain e' where e': "key e' = k'" "cursor_ok key (idx n) n tbl cur'"
        "cursor_left key (idx n) tbl cur = e' # cursor_left key (idx n) tbl cur'" by auto
      have "key e \<notin> key ` set (cursor_left key (idx n) tbl cur')" using d cc e'(3) by auto
      from del_cursor[OF Suc.prems(1,2) e'(2) this] have
        c1: "cursor_left key (idx n) tbl1 cur' = cursor_left key (idx n) tbl cur'"
        "cursor_ok key (idx n) n tbl1 cur'" by (simp_all add: tbl1_def)
      have "\<exists>tbl'. tbl_destroy key (idx n) n fuel tbl1 cur' (map_option key (Some e')) = Inr tbl' \<and>
          tbl_ok key (idx n) n tbl' \<and> concat tbl' = []"
        by (rule Suc.IH[OF ok1 Suc.prems(2) c1(2)])
           (use first(1) e'(3) c1(1) Suc.prems(5) cc in simp_all)
      then show ?thesis using nx first(2) e'(1) Some \<open>r = Some e\<close> by (simp add: tbl1_def)
    qed
  qed (use Suc.prems in simp)
qed (auto split: option.splits)

text \<open>Destruction visits every node, never follows a freed one, and empties the table.\<close>

lemma destroy_all:
  assumes "tbl_ok key (idx n) n tbl" "0 < n" "length (concat tbl) \<le> fuel"
  shows "\<exists>cur r tbl'. tbl_next key (idx n) n tbl (0, None) = Inr (cur, r) \<and>
    tbl_destroy key (idx n) n fuel tbl cur r = Inr tbl' \<and> tbl_ok key (idx n) n tbl' \<and> concat tbl' = []"
proof -
  have c0: "cursor_ok key (idx n) n tbl (0, None)" "cursor_left key (idx n) tbl (0, None) = concat tbl"
    by (simp_all add: cursor_ok_def cursor_left_def)
  from next_left[OF assms(1,2) c0(1)] obtain cur r where
    nx: "tbl_next key (idx n) n tbl (0, None) = Inr (cur, r)" and
    left: "case r of None \<Rightarrow> concat tbl = []
     | Some k \<Rightarrow> cursor_ok key (idx n) n tbl cur \<and>
         (\<exists>e. key e = k \<and> concat tbl = e # cursor_left key (idx n) tbl cur)"
    unfolding c0(2) by blast
  show ?thesis
  proof (cases r)
    case (Some k)
    with left obtain e where "key e = k" "cursor_ok key (idx n) n tbl cur"
      "concat tbl = e # cursor_left key (idx n) tbl cur" by auto
    then show ?thesis
      using nx Some destroy_left[OF assms(1,2), of cur "Some e" fuel] assms(3) by auto
  qed (use nx left assms in simp)
qed

end

end
