(* ===== verification/C_Float.thy ===== *)
theory C_Float
  imports Dspam_Prelude "HOL-Library.Log_Nat"
begin

text \<open>
  The floating-point arithmetic the classifier uses: IEEE 754 single and double precision
  (\<^verbatim>\<open>float\<close> and \<^verbatim>\<open>double\<close>) with rounding to nearest, ties to even, subnormals, overflow
  to infinity and NaN. A finite value is the rational number it denotes; the two zeros are
  identified. Comparisons with a NaN are false, as in C.
\<close>

section \<open>Rounding\<close>

definition round_half_even :: "rat \<Rightarrow> int" where
  "round_half_even y =
     (let f = \<lfloor>y\<rfloor>; d = y - of_int f in
      if d < 1/2 then f else if d > 1/2 then f + 1 else if even f then f else f + 1)"

definition binexp :: "rat \<Rightarrow> int" where
  "binexp x =
     (let (a, b) = quotient_of x; e = bitlen a - bitlen b in
      if 2 powi e \<le> x then e else e - 1)"

record fformat =
  fprec :: nat
  femin :: int
  femax :: int

definition single_fmt :: fformat where
  "single_fmt = \<lparr>fprec = 24, femin = - 126, femax = 127\<rparr>"

definition double_fmt :: fformat where
  "double_fmt = \<lparr>fprec = 53, femin = - 1022, femax = 1023\<rparr>"

definition fexp :: "fformat \<Rightarrow> rat \<Rightarrow> int" where
  "fexp f x = max (binexp \<bar>x\<bar>) (femin f)"

definition fulp :: "fformat \<Rightarrow> rat \<Rightarrow> rat" where
  "fulp f x = 2 powi (fexp f x - int (fprec f) + 1)"

definition fround :: "fformat \<Rightarrow> rat \<Rightarrow> rat" where
  "fround f x = (if x = 0 then 0 else of_int (round_half_even (x / fulp f x)) * fulp f x)"

section \<open>Values and operations\<close>

datatype fp = NaN | Inf bool | Fin rat

definition fmake :: "fformat \<Rightarrow> rat \<Rightarrow> fp" where
  "fmake f x =
     (let r = fround f x in if \<bar>r\<bar> < 2 powi (femax f + 1) then Fin r else Inf (0 < r))"

fun fcast :: "fformat \<Rightarrow> fp \<Rightarrow> fp" where
  "fcast f NaN = NaN"
| "fcast f (Inf s) = Inf s"
| "fcast f (Fin x) = fmake f x"

fun fadd :: "fformat \<Rightarrow> fp \<Rightarrow> fp \<Rightarrow> fp" where
  "fadd f NaN y = NaN"
| "fadd f x NaN = NaN"
| "fadd f (Inf s) (Inf t) = (if s = t then Inf s else NaN)"
| "fadd f (Inf s) (Fin y) = Inf s"
| "fadd f (Fin x) (Inf t) = Inf t"
| "fadd f (Fin x) (Fin y) = fmake f (x + y)"

fun fneg :: "fp \<Rightarrow> fp" where
  "fneg NaN = NaN"
| "fneg (Inf s) = Inf (\<not> s)"
| "fneg (Fin x) = Fin (- x)"

definition fsub :: "fformat \<Rightarrow> fp \<Rightarrow> fp \<Rightarrow> fp" where
  "fsub f x y = fadd f x (fneg y)"

fun fmul :: "fformat \<Rightarrow> fp \<Rightarrow> fp \<Rightarrow> fp" where
  "fmul f NaN y = NaN"
| "fmul f x NaN = NaN"
| "fmul f (Inf s) (Inf t) = Inf (s = t)"
| "fmul f (Inf s) (Fin y) = (if y = 0 then NaN else Inf (s = (0 < y)))"
| "fmul f (Fin x) (Inf t) = (if x = 0 then NaN else Inf (t = (0 < x)))"
| "fmul f (Fin x) (Fin y) = fmake f (x * y)"

fun fdiv :: "fformat \<Rightarrow> fp \<Rightarrow> fp \<Rightarrow> fp" where
  "fdiv f NaN y = NaN"
| "fdiv f x NaN = NaN"
| "fdiv f (Inf s) (Inf t) = NaN"
| "fdiv f (Inf s) (Fin y) = Inf (s = (0 \<le> y))"
| "fdiv f (Fin x) (Inf t) = Fin 0"
| "fdiv f (Fin x) (Fin y) =
     (if y = 0 then (if x = 0 then NaN else Inf (0 < x)) else fmake f (x / y))"

fun fabs :: "fp \<Rightarrow> fp" where
  "fabs NaN = NaN"
| "fabs (Inf s) = Inf True"
| "fabs (Fin x) = Fin \<bar>x\<bar>"

fun flt :: "fp \<Rightarrow> fp \<Rightarrow> bool" where
  "flt NaN y = False"
| "flt x NaN = False"
| "flt (Inf s) (Inf t) = (\<not> s \<and> t)"
| "flt (Inf s) (Fin y) = (\<not> s)"
| "flt (Fin x) (Inf t) = t"
| "flt (Fin x) (Fin y) = (x < y)"

definition feq :: "fp \<Rightarrow> fp \<Rightarrow> bool" where
  "feq x y = (x \<noteq> NaN \<and> x = y)"

definition fle :: "fp \<Rightarrow> fp \<Rightarrow> bool" where
  "fle x y = (flt x y \<or> feq x y)"

definition fof_int :: "fformat \<Rightarrow> int \<Rightarrow> fp" where
  "fof_int f i = fmake f (of_int i)"

text \<open>A decimal literal of the source is the double nearest to it.\<close>

definition dlit :: "rat \<Rightarrow> fp" where
  "dlit x = fmake double_fmt x"

fun is_fin :: "fp \<Rightarrow> bool" where
  "is_fin (Fin x) = True"
| "is_fin x = False"

fun fval :: "fp \<Rightarrow> rat" where
  "fval (Fin x) = x"
| "fval x = 0"

text \<open>
  \<^verbatim>\<open>frexp\<close> is exact: it returns the significand in [1/2, 1) and the exponent.
\<close>

fun ffrexp :: "fp \<Rightarrow> fp \<times> int" where
  "ffrexp (Fin x) =
     (if x = 0 then (Fin 0, 0) else (let e = binexp \<bar>x\<bar> + 1 in (Fin (x / 2 powi e), e)))"
| "ffrexp x = (x, 0)"

text \<open>Conversion of a floating-point value to an integer type truncates towards zero.\<close>

fun ftrunc :: "fp \<Rightarrow> int option" where
  "ftrunc (Fin x) = Some (if 0 \<le> x then \<lfloor>x\<rfloor> else \<lceil>x\<rceil>)"
| "ftrunc x = None"

section \<open>Facts about rounding\<close>

lemma round_half_even_bounds: "\<lfloor>y\<rfloor> \<le> round_half_even y" "round_half_even y \<le> \<lfloor>y\<rfloor> + 1"
  by (auto simp: round_half_even_def Let_def)

lemma round_half_even_mono: "x \<le> y \<Longrightarrow> round_half_even x \<le> round_half_even y"
proof -
  assume xy: "x \<le> y"
  then have fl: "\<lfloor>x\<rfloor> \<le> \<lfloor>y\<rfloor>" by (rule floor_mono)
  show ?thesis
  proof (cases "\<lfloor>x\<rfloor> = \<lfloor>y\<rfloor>")
    case True
    then show ?thesis using xy by (auto simp: round_half_even_def Let_def)
  next
    case False
    with fl have "\<lfloor>x\<rfloor> + 1 \<le> \<lfloor>y\<rfloor>" by simp
    then show ?thesis
      using round_half_even_bounds(2)[of x] round_half_even_bounds(1)[of y] by linarith
  qed
qed

lemma round_half_even_of_int [simp]: "round_half_even (of_int n) = n"
  by (simp add: round_half_even_def Let_def)

lemma round_half_even_nearest:
  assumes "\<bar>y - of_int m\<bar> < 1/2"
  shows "round_half_even y = m"
proof -
  have "of_int m - 1/2 < y" "y < of_int m + 1/2" using assms by (auto simp: abs_if split: if_splits)
  moreover have "\<lfloor>y\<rfloor> = m \<or> \<lfloor>y\<rfloor> = m - 1" using calculation by linarith
  ultimately show ?thesis by (auto simp: round_half_even_def Let_def)
qed

lemma round_half_even_minus: "round_half_even (- y) = - round_half_even y"
proof (cases "y = of_int \<lfloor>y\<rfloor>")
  case True
  then obtain n where "y = of_int n" by blast
  then show ?thesis using round_half_even_of_int[of "- n"] by simp
next
  case False
  have "of_int \<lfloor>y\<rfloor> < y" using False by (metis floor_correct order_le_imp_less_or_eq)
  then have "\<lfloor>- y\<rfloor> = - \<lfloor>y\<rfloor> - 1"
    by (intro floor_unique) (use floor_correct[of y] in auto)
  then show ?thesis
    by (auto simp: round_half_even_def Let_def)
qed

lemma powi2_pos [simp]: "0 < (2::rat) powi e"
  by simp

lemma powi2_mono: "d \<le> e \<Longrightarrow> (2::rat) powi d \<le> 2 powi e"
  by (simp add: power_int_increasing)

lemma powi2_less_iff: "(2::rat) powi d < 2 powi e \<longleftrightarrow> d < e"
  using power_int_strict_increasing[of d e "2::rat"] powi2_mono[of e d] by (auto simp: not_less[symmetric])

lemma binexp_bounds:
  assumes "0 < x"
  shows "2 powi binexp x \<le> x" "x < 2 powi (binexp x + 1)"
proof -
  obtain a b where q: "quotient_of x = (a, b)" by (cases "quotient_of x")
  have x: "x = of_int a / of_int b" using quotient_of_div[OF q] .
  have b: "0 < b" using quotient_of_denom_pos[OF q] .
  have a: "0 < a" using assms x b by (simp add: zero_less_divide_iff)
  define e where "e = bitlen a - bitlen b"
  have A: "2 ^ nat (bitlen a - 1) \<le> a" "a < 2 ^ nat (bitlen a)" using bitlen_bounds[OF a] by auto
  have B: "2 ^ nat (bitlen b - 1) \<le> b" "b < 2 ^ nat (bitlen b)" using bitlen_bounds[OF b] by auto
  have pa: "0 < bitlen a" "0 < bitlen b" using a b bitlen_ge_iff_power[of 1 a] bitlen_ge_iff_power[of 1 b] by auto
  have cv: "0 \<le> k \<Longrightarrow> (2::rat) powi k = of_int (2 ^ nat k)" for k by (simp add: power_int_def)
  have A': "2 powi (bitlen a - 1) \<le> (of_int a :: rat)" "(of_int a::rat) < 2 powi bitlen a"
    using A pa by (simp_all only: cv of_int_le_iff of_int_less_iff)
  have B': "2 powi (bitlen b - 1) \<le> (of_int b :: rat)" "(of_int b::rat) < 2 powi bitlen b"
    using B pa by (simp_all only: cv of_int_le_iff of_int_less_iff)
  have up: "x < 2 powi (e + 1)"
  proof -
    have "x < 2 powi bitlen a / of_int b"
      unfolding x using A'(2) b by (simp add: divide_strict_right_mono)
    also have "\<dots> \<le> 2 powi bitlen a / 2 powi (bitlen b - 1)"
      using B'(1) b by (simp add: frac_le)
    also have "\<dots> = 2 powi (e + 1)"
      unfolding e_def by (simp add: power_int_diff power_int_add field_simps)
    finally show ?thesis .
  qed
  have lo: "2 powi (e - 1) < x"
  proof -
    have "e - 1 = (bitlen a - 1) - bitlen b" unfolding e_def by simp
    then have "(2::rat) powi (e - 1) = 2 powi (bitlen a - 1) / 2 powi bitlen b"
      by (metis power_int_diff zero_neq_numeral)
    also have "\<dots> < 2 powi (bitlen a - 1) / of_int b"
      using B'(2) b by (simp add: divide_strict_left_mono)
    also have "\<dots> \<le> x" unfolding x using A'(1) b by (simp add: divide_right_mono)
    finally show ?thesis .
  qed
  have be: "binexp x = (if 2 powi e \<le> x then e else e - 1)"
    by (simp add: binexp_def q e_def)
  show "2 powi binexp x \<le> x" using be lo by auto
  show "x < 2 powi (binexp x + 1)" using be up by auto
qed

lemma binexp_unique:
  assumes "2 powi e \<le> x" "x < 2 powi (e + 1)"
  shows "binexp x = e"
proof -
  have "0 < x" using assms(1) powi2_pos[of e] by linarith
  note b = binexp_bounds[OF this]
  have "(2::rat) powi e < 2 powi (binexp x + 1)" "(2::rat) powi binexp x < 2 powi (e + 1)"
    using assms b by linarith+
  then show ?thesis by (simp add: powi2_less_iff)
qed

text \<open>Evaluation of a rounding in a known binade.\<close>

lemma fround_at:
  assumes "2 powi e \<le> x" "x < 2 powi (e + 1)" "femin f \<le> e"
    and "\<bar>x / 2 powi (e - int (fprec f) + 1) - of_int m\<bar> < 1/2"
  shows "fround f x = of_int m * 2 powi (e - int (fprec f) + 1)"
proof -
  have "0 < x" using assms(1) powi2_pos[of e] by linarith
  then show ?thesis
    using assms(3) binexp_unique[OF assms(1,2)] round_half_even_nearest[OF assms(4)]
    by (simp add: fround_def fulp_def fexp_def)
qed

lemma binexp_mono: "0 < x \<Longrightarrow> x \<le> y \<Longrightarrow> binexp x \<le> binexp y"
proof -
  assume "0 < x" "x \<le> y"
  then have "(2::rat) powi binexp x < 2 powi (binexp y + 1)"
    using binexp_bounds(1)[of x] binexp_bounds(2)[of y] by linarith
  then show ?thesis by (simp add: powi2_less_iff)
qed

lemma fulp_pos [simp]: "0 < fulp f x"
  by (simp add: fulp_def)

lemma fulp_minus [simp]: "fulp f (- x) = fulp f x"
  by (simp add: fulp_def fexp_def)

lemma fround_minus [simp]: "fround f (- x) = - fround f x"
  by (simp add: fround_def round_half_even_minus)

lemma fround_0 [simp]: "fround f 0 = 0"
  by (simp add: fround_def)

lemma fexp_mono: "0 < x \<Longrightarrow> x \<le> y \<Longrightarrow> fexp f x \<le> fexp f y"
  using binexp_mono[of x y] by (auto simp: fexp_def)

text \<open>Rounding never leaves the binade's closed interval.\<close>

lemma fround_le_binade:
  assumes "0 < x"
  shows "fround f x \<le> 2 powi (fexp f x + 1)"
proof -
  have "binexp x \<le> fexp f x" using assms by (simp add: fexp_def)
  then have "x < 2 powi (fexp f x + 1)"
    using binexp_bounds(2)[OF assms] powi2_mono[of "binexp x + 1" "fexp f x + 1"] by linarith
  then have "x / fulp f x < 2 powi (fexp f x + 1) / fulp f x"
    by (simp add: divide_strict_right_mono)
  also have "\<dots> = 2 powi int (fprec f)"
    by (simp add: fulp_def power_int_add power_int_diff field_simps)
  finally have "x / fulp f x \<le> of_int (2 ^ fprec f)" by simp
  then have "round_half_even (x / fulp f x) \<le> 2 ^ fprec f"
    using round_half_even_mono round_half_even_of_int by metis
  then have "fround f x \<le> of_int (2 ^ fprec f) * fulp f x"
    using assms by (simp only: fround_def if_False of_int_le_iff mult_right_mono less_imp_le fulp_pos)
       (simp add: mult_right_mono less_imp_le)
  also have "\<dots> = 2 powi (fexp f x + 1)"
    by (simp add: fulp_def power_int_add power_int_diff field_simps)
  finally show ?thesis .
qed

lemma fround_ge_binade:
  assumes "0 < x" "0 < fprec f" "femin f < binexp x"
  shows "2 powi fexp f x \<le> fround f x"
proof -
  have e: "fexp f x = binexp x" using assms by (simp add: fexp_def)
  have "2 powi fexp f x / fulp f x \<le> x / fulp f x"
    using binexp_bounds(1)[OF assms(1)] by (simp add: e divide_right_mono less_imp_le)
  moreover have pw: "2 powi fexp f x = of_int (2 ^ (fprec f - 1)) * fulp f x"
  proof -
    have "fexp f x = int (fprec f - 1) + (fexp f x - int (fprec f) + 1)" using assms(2) by simp
    then have "(2::rat) powi fexp f x = 2 powi int (fprec f - 1) * 2 powi (fexp f x - int (fprec f) + 1)"
      by (metis power_int_add zero_neq_numeral)
    then show ?thesis by (simp add: fulp_def)
  qed
  then have "2 powi fexp f x / fulp f x = of_int (2 ^ (fprec f - 1))"
    using fulp_pos[of f x] by (simp del: fulp_pos)
  ultimately have "2 ^ (fprec f - 1) \<le> round_half_even (x / fulp f x)"
    using round_half_even_mono round_half_even_of_int by metis
  then have "of_int (2 ^ (fprec f - 1)) * fulp f x \<le> fround f x"
    using assms(1) by (simp add: fround_def mult_right_mono less_imp_le del: of_int_power)
  then show ?thesis using pw by simp
qed

lemma fround_mono_pos:
  assumes "0 < x" "x \<le> y" "0 < fprec f"
  shows "fround f x \<le> fround f y"
proof (cases "fexp f x = fexp f y")
  case True
  then have u: "fulp f x = fulp f y" by (simp add: fulp_def)
  have "x / fulp f y \<le> y / fulp f y" using assms by (simp add: divide_right_mono less_imp_le)
  then have "round_half_even (x / fulp f y) \<le> round_half_even (y / fulp f y)"
    by (rule round_half_even_mono)
  then show ?thesis using assms by (simp add: fround_def u mult_right_mono less_imp_le)
next
  case False
  then have lt: "fexp f x < fexp f y" using fexp_mono[OF assms(1,2), of f] by simp
  then have "femin f < binexp y" using assms by (auto simp: fexp_def max_def split: if_splits)
  then have "2 powi fexp f y \<le> fround f y" using assms by (intro fround_ge_binade) auto
  moreover have "(2::rat) powi (fexp f x + 1) \<le> 2 powi fexp f y" using lt by (intro powi2_mono) simp
  ultimately show ?thesis using fround_le_binade[OF assms(1), of f] by linarith
qed

lemma fround_nonneg: "0 \<le> x \<Longrightarrow> 0 \<le> fround f x"
proof -
  assume x: "0 \<le> x"
  then have "of_int 0 \<le> x / fulp f x" by (simp add: less_imp_le)
  then have "0 \<le> round_half_even (x / fulp f x)"
    using round_half_even_mono round_half_even_of_int by metis
  then show ?thesis by (simp add: fround_def less_imp_le)
qed

lemma fround_mono:
  assumes "x \<le> y" "0 < fprec f"
  shows "fround f x \<le> fround f y"
proof -
  consider "0 < x" | "x \<le> 0" "0 \<le> y" | "y < 0" by linarith
  then show ?thesis
  proof cases
    case 1
    then show ?thesis using assms by (intro fround_mono_pos) auto
  next
    case 2
    then show ?thesis using fround_nonneg[of "- x" f] fround_nonneg[of y f] by simp
  next
    case 3
    then show ?thesis using assms fround_mono_pos[of "- y" "- x" f] by simp
  qed
qed

text \<open>A number with at most \<open>fprec\<close> significant bits above the subnormal grid is representable.\<close>

lemma fround_exact:
  assumes "x = of_int m * 2 powi k" "\<bar>m\<bar> < 2 ^ fprec f" "femin f - int (fprec f) + 1 \<le> k"
  shows "fround f x = x"
proof (cases "m = 0")
  case True
  then show ?thesis using assms by simp
next
  case False
  then have m: "0 < \<bar>m\<bar>" "\<bar>m\<bar> < 2 ^ fprec f" using assms(2) by auto
  have x0: "x \<noteq> 0" using assms(1) m by simp
  have "\<bar>x\<bar> < 2 powi (int (fprec f) + k)"
  proof -
    have "\<bar>x\<bar> = of_int \<bar>m\<bar> * 2 powi k" using assms(1) by (simp add: abs_mult)
    also have "\<dots> < of_int (2 ^ fprec f) * 2 powi k"
      using m(2) by (intro mult_strict_right_mono) (simp_all only: of_int_less_iff powi2_pos)
    finally show ?thesis by (simp add: power_int_add)
  qed
  then have "binexp \<bar>x\<bar> < int (fprec f) + k"
    using binexp_bounds(1)[of "\<bar>x\<bar>"] x0 powi2_less_iff by (metis le_less_trans zero_less_abs_iff)
  then have d: "0 \<le> k - (fexp f x - int (fprec f) + 1)" using assms(3) by (simp add: fexp_def)
  define n where "n = nat (k - (fexp f x - int (fprec f) + 1))"
  have "(2::rat) powi k = 2 ^ n * fulp f x"
    using d by (simp add: fulp_def n_def power_int_add[symmetric] flip: power_int_of_nat)
  then have xe: "x = of_int (m * 2 ^ n) * fulp f x" using assms(1) by simp
  then have "x / fulp f x = of_int (m * 2 ^ n)"
    by (metis fulp_pos less_irrefl nonzero_mult_div_cancel_right)
  then have "fround f x = of_int (m * 2 ^ n) * fulp f x"
    unfolding fround_def using x0 by (simp only: round_half_even_of_int if_False)
  then show ?thesis using xe by simp
qed

lemma fround_representable:
  assumes "x = of_int m * 2 powi k" "\<bar>m\<bar> \<le> 2 ^ fprec f" "femin f - int (fprec f) + 1 \<le> k"
    "0 < fprec f"
  shows "fround f x = x"
proof (cases "\<bar>m\<bar> = 2 ^ fprec f")
  case True
  obtain p where p: "fprec f = Suc p" using assms(4) gr0_implies_Suc by blast
  then have "even m" using True by (metis dvd_triv_left even_abs_add_iff even_power abs_dvd_iff dvd_abs_iff even_numeral zero_less_Suc)
  then obtain n where n: "m = 2 * n" by blast
  have "\<bar>n\<bar> < 2 ^ fprec f" using True n p by (simp add: abs_mult)
  moreover have "x = of_int n * 2 powi (k + 1)" using assms(1) n by (simp add: power_int_add)
  ultimately show ?thesis using assms(3) by (intro fround_exact[where m = n and k = "k + 1"]) auto
next
  case False
  then show ?thesis using assms by (intro fround_exact) auto
qed

lemma fround_idem [simp]:
  assumes "0 < fprec f"
  shows "fround f (fround f x) = fround f x"
proof (cases "x = 0")
  case False
  define m where "m = round_half_even (x / fulp f x)"
  have "\<bar>m\<bar> \<le> 2 ^ fprec f"
  proof -
    have ax: "\<bar>of_int m * fulp f x\<bar> = fround f \<bar>x\<bar>"
    proof (cases "0 < x")
      case True
      then show ?thesis using fround_nonneg[of x f] False by (simp add: m_def fround_def)
    next
      case neg: False
      have "fround f x = of_int m * fulp f x" using False by (simp add: m_def fround_def)
      then show ?thesis using fround_nonneg[of "- x" f] neg by simp
    qed
    have "fround f \<bar>x\<bar> \<le> 2 powi (fexp f \<bar>x\<bar> + 1)" using False by (intro fround_le_binade) simp
    also have "\<dots> = of_int (2 ^ fprec f) * fulp f x"
      by (simp add: fulp_def fexp_def power_int_add power_int_diff field_simps)
    finally have "of_int \<bar>m\<bar> * fulp f x \<le> of_int (2 ^ fprec f) * fulp f x"
      using ax fulp_pos[of f x] by (simp only: abs_mult of_int_abs abs_of_pos)
    then have "(of_int \<bar>m\<bar> :: rat) \<le> of_int (2 ^ fprec f)" by (rule mult_right_le_imp_le) simp
    then show ?thesis by (simp only: of_int_le_iff)
  qed
  then show ?thesis
    using assms False
    by (intro fround_representable[where m = m and k = "fexp f x - int (fprec f) + 1"])
       (auto simp: fround_def m_def fulp_def fexp_def)
qed simp

section \<open>Rounding as an interface\<close>

text \<open>
  What the components rely on: a monotone, idempotent map that fixes 0 and 1. Both
  formats provide it.
\<close>

locale rounding =
  fixes rnd :: "rat \<Rightarrow> rat"
  assumes rnd_mono: "x \<le> y \<Longrightarrow> rnd x \<le> rnd y"
    and rnd_idem: "rnd (rnd x) = rnd x"
    and rnd_zero: "rnd 0 = 0"
    and rnd_one: "rnd 1 = 1"
begin

lemma rnd_le: "x \<le> y \<Longrightarrow> rnd y = y \<Longrightarrow> rnd x \<le> y"
  using rnd_mono[of x y] by simp

lemma rnd_ge: "y \<le> x \<Longrightarrow> rnd y = y \<Longrightarrow> y \<le> rnd x"
  using rnd_mono[of y x] by simp

lemma rnd_unit: "0 \<le> x \<Longrightarrow> x \<le> 1 \<Longrightarrow> 0 \<le> rnd x \<and> rnd x \<le> 1"
  using rnd_le[of x 1] rnd_ge[of 0 x] rnd_zero rnd_one by simp

lemma rnd_not_below: "\<not> y < rnd x \<Longrightarrow> rnd x \<le> rnd y"
  using rnd_mono[of "rnd x" y] rnd_idem by (simp add: not_less)

lemma rnd_not_above: "y \<le> rnd x \<Longrightarrow> rnd y \<le> rnd x"
  using rnd_mono[of y "rnd x"] rnd_idem by simp

end

definition fok :: "fformat \<Rightarrow> bool" where
  "fok f \<longleftrightarrow> 1 < fprec f \<and> femin f < 0 \<and> 0 < femax f"

lemma fok_formats [simp]: "fok single_fmt" "fok double_fmt"
  by (simp_all add: fok_def single_fmt_def double_fmt_def)

lemma fround_1: "fok f \<Longrightarrow> fround f 1 = 1"
  by (rule fround_exact[where m = 1 and k = 0]) (auto simp: fok_def)

lemma fround_half: "fok f \<Longrightarrow> fround f (1/2) = 1/2"
  by (rule fround_exact[where m = 1 and k = "- 1"]) (auto simp: fok_def power_int_minus)

lemma rounding_fround: "fok f \<Longrightarrow> rounding (fround f)"
  by unfold_locales (auto simp: fround_mono fround_1 fok_def)

interpretation sgl: rounding "fround single_fmt"
  by (rule rounding_fround) simp

interpretation dbl: rounding "fround double_fmt"
  by (rule rounding_fround) simp

lemma fround_abs: "fround f \<bar>x\<bar> = \<bar>fround f x\<bar>"
  using fround_nonneg[of x f] fround_nonneg[of "- x" f] by (cases "0 \<le> x") auto

lemma fmake_unit [fp_simps]:
  assumes "fok f" "\<bar>x\<bar> \<le> 1"
  shows "fmake f x = Fin (fround f x)"
proof -
  have "\<bar>fround f x\<bar> \<le> 1"
    using assms fround_mono[of "\<bar>x\<bar>" 1 f] by (simp add: fround_abs fround_1 fok_def)
  moreover have "(1::rat) < 2 powi (femax f + 1)"
    using assms powi2_less_iff[of 0 "femax f + 1"] by (simp add: fok_def)
  ultimately show ?thesis by (simp add: fmake_def Let_def)
qed

lemma fmake_bounded:
  assumes "0 < fprec f" "\<bar>x\<bar> \<le> y" "fround f y = y" "y < 2 powi (femax f + 1)"
  shows "fmake f x = Fin (fround f x)"
proof -
  have "\<bar>fround f x\<bar> \<le> y" using fround_mono[OF assms(2,1)] assms(3) by (simp add: fround_abs)
  then show ?thesis using assms(4) by (simp add: fmake_def Let_def)
qed

lemma flt_Fin_iff [fp_simps]: "flt (Fin x) (Fin y) \<longleftrightarrow> x < y"
  by simp

lemma feq_Fin_iff [fp_simps]: "feq (Fin x) (Fin y) \<longleftrightarrow> x = y"
  by (simp add: feq_def)

lemma flt_irrefl [simp]: "\<not> flt x x"
  by (cases x) auto

lemma flt_trans: "flt x y \<Longrightarrow> flt y z \<Longrightarrow> flt x z"
  by (cases x; cases y; cases z) auto

section \<open>Ranges of values\<close>

text \<open>A finite value of the format between two bounds.\<close>

definition fin_in :: "fformat \<Rightarrow> rat \<Rightarrow> rat \<Rightarrow> fp \<Rightarrow> bool" where
  "fin_in f lo hi x \<longleftrightarrow> (\<exists>r. x = Fin r \<and> fround f r = r \<and> lo \<le> r \<and> r \<le> hi)"

text \<open>A bound that is itself a value of the format.\<close>

definition frep :: "fformat \<Rightarrow> rat \<Rightarrow> bool" where
  "frep f r \<longleftrightarrow> fround f r = r \<and> \<bar>r\<bar> < 2 powi (femax f + 1)"

lemma frep_0 [simp]: "frep f 0"
  by (simp add: frep_def)

lemma frep_minus [simp]: "frep f (- r) \<longleftrightarrow> frep f r"
  by (simp add: frep_def)

lemma frep_pow2:
  assumes "fok f" "femin f \<le> k" "k \<le> femax f"
  shows "frep f (2 powi k)"
proof -
  have "fround f (2 powi k) = 2 powi k"
    using assms by (intro fround_exact[where m = 1 and k = k]) (auto simp: fok_def)
  moreover have "(2::rat) powi k < 2 powi (femax f + 1)" using assms by (simp add: powi2_less_iff)
  ultimately show ?thesis by (simp add: frep_def)
qed

lemma fin_in_make:
  assumes "fok f" "frep f lo" "frep f hi" "lo \<le> x" "x \<le> hi"
  shows "fin_in f lo hi (fmake f x)"
proof -
  have p: "0 < fprec f" using assms(1) by (simp add: fok_def)
  have r: "lo \<le> fround f x" "fround f x \<le> hi"
    using fround_mono[OF assms(4) p] fround_mono[OF assms(5) p] assms(2,3) by (simp_all add: frep_def)
  then have "\<bar>fround f x\<bar> < 2 powi (femax f + 1)" using assms(2,3) by (auto simp: frep_def abs_if split: if_splits)
  then show ?thesis using r p by (auto simp: fin_in_def fmake_def Let_def)
qed

lemma fin_in_mono: "fin_in f lo hi x \<Longrightarrow> lo' \<le> lo \<Longrightarrow> hi \<le> hi' \<Longrightarrow> fin_in f lo' hi' x"
  by (auto simp: fin_in_def)

lemma fin_inE:
  assumes "fin_in f lo hi x"
  obtains r where "x = Fin r" "fround f r = r" "lo \<le> r" "r \<le> hi"
  using assms by (auto simp: fin_in_def)

lemma fin_in_add:
  assumes "fin_in f lo hi x" "fin_in f lo' hi' y" "fok f" "frep f L" "frep f H" "L \<le> lo + lo'" "hi + hi' \<le> H"
  shows "fin_in f L H (fadd f x y)"
  using assms by (auto elim!: fin_inE intro!: fin_in_make)

lemma fin_in_mul:
  assumes "fin_in f lo hi x" "fin_in f lo' hi' y" "fok f" "frep f L" "frep f H"
    and "0 \<le> lo" "0 \<le> lo'" "L \<le> lo * lo'" "hi * hi' \<le> H"
  shows "fin_in f L H (fmul f x y)"
proof -
  obtain r s where rs: "x = Fin r" "lo \<le> r" "r \<le> hi" "y = Fin s" "lo' \<le> s" "s \<le> hi'"
    using assms(1,2) by (auto elim!: fin_inE)
  have "r * s \<le> hi * hi'" using rs assms(6,7) by (intro mult_mono) auto
  moreover have "lo * lo' \<le> r * s" using rs assms(6,7) by (intro mult_mono) auto
  ultimately show ?thesis using rs assms by (auto intro!: fin_in_make)
qed

lemma fin_in_div:
  assumes "fin_in f lo hi x" "fin_in f lo' hi' y" "fok f" "frep f L" "frep f H"
    and "0 \<le> lo" "0 < lo'" "0 \<le> L" "L * hi' \<le> lo" "hi \<le> H * lo'"
  shows "fin_in f L H (fdiv f x y)"
proof -
  obtain r s where rs: "x = Fin r" "lo \<le> r" "r \<le> hi" "y = Fin s" "lo' \<le> s" "s \<le> hi'"
    using assms(1,2) by (auto elim!: fin_inE)
  have h: "0 \<le> H"
  proof -
    have "0 \<le> H * lo'" using rs assms by linarith
    then show ?thesis using assms(7) by (metis mult_less_0_iff not_less order_less_asym)
  qed
  have "r \<le> H * s" using rs assms(10) mult_left_mono[OF rs(5) h] by linarith
  moreover have "L * s \<le> r" using rs assms(9) mult_left_mono[OF rs(6) assms(8)] by linarith
  ultimately have "r / s \<le> H" "L \<le> r / s" using rs assms(7) by (auto simp: divide_le_eq le_divide_eq)
  then show ?thesis using rs assms by (auto intro!: fin_in_make)
qed

text \<open>The share of one value in a sum lies between 0 and 1, whatever is rounded.\<close>

lemma fin_in_share:
  assumes "fin_in f 0 hi x" "fin_in f 0 hi' y" "fok f" "frep f H" "hi + hi' \<le> H"
    and "x \<noteq> Fin 0 \<or> y \<noteq> Fin 0"
  shows "fin_in f 0 1 (fdiv f x (fadd f x y))"
proof -
  obtain r s where rs: "x = Fin r" "fround f r = r" "0 \<le> r" "r \<le> hi" "y = Fin s" "fround f s = s" "0 \<le> s" "s \<le> hi'"
    using assms(1,2) by (auto elim!: fin_inE)
  have p: "0 < fprec f" using assms(3) by (simp add: fok_def)
  have sum: "fin_in f 0 H (fadd f x y)" using assms(1-5) by (intro fin_in_add) auto
  then obtain z where z: "fadd f x y = Fin z" by (auto elim: fin_inE)
  then have zr: "z = fround f (r + s)" using rs by (auto simp: fmake_def Let_def split: if_splits)
  have "r \<le> z" "s \<le> z" unfolding zr using fround_mono[of r "r + s" f] fround_mono[of s "r + s" f] rs p by auto
  moreover have "0 < z" using \<open>r \<le> z\<close> \<open>s \<le> z\<close> rs assms(6) by (cases "r = 0") auto
  moreover have "frep f 1" using frep_pow2[of f 0] assms(3) by (simp add: fok_def)
  ultimately show ?thesis using rs z assms(3) by (auto intro!: fin_in_make simp: divide_le_eq)
qed

lemma dlit_half: "dlit (1/2) = Fin (1/2)"
  by (simp add: dlit_def fmake_unit fround_half)

end
