(* ===== verification/Ds_Nodetree.thy ===== *)
theory Ds_Nodetree
  imports C_Float
begin

text \<open>
  nodetree.c and list.c: the two append-only linked lists with an insertion pointer. A node
  is addressed by its position in the chain from \<^verbatim>\<open>first\<close>. The insertion pointer \<^verbatim>\<open>insert\<close>
  is a position too; when it is no longer a position of the chain, the node it names has been
  freed. Linking a new node after a node that is not the last cuts off what followed it.
  The argument \<open>alloc\<close> says whether the allocation of the string copy succeeds.
\<close>

section \<open>nodetree.c\<close>

datatype nt_type = NT_CHAR | NT_PTR | NT_INDEX

record 'a nt =
  nt_first :: "'a list"
  nt_insert :: "nat option"
  nt_items :: int
  nt_nodetype :: nt_type

definition nt_create :: "nt_type \<Rightarrow> 'a nt" where
  "nt_create nodetype = \<lparr>nt_first = [], nt_insert = None, nt_items = 0, nt_nodetype = nodetype\<rparr>"

text \<open>Freeing \<open>items\<close> nodes from the first; what is left of the chain leaks.\<close>

fun nt_destroy_loop :: "nat \<Rightarrow> 'a list \<Rightarrow> 'a list cres" where
  "nt_destroy_loop 0 cur = Inr cur"
| "nt_destroy_loop (Suc n) [] = Inl NullDeref"
| "nt_destroy_loop (Suc n) (x # cur) = nt_destroy_loop n cur"

definition nt_destroy :: "'a nt \<Rightarrow> 'a list cres" where
  "nt_destroy nt = nt_destroy_loop (nat (nt_items nt)) (nt_first nt)"

text \<open>
  The node to link after: \<open>insert\<close> if set, else the last node. The result of \<open>nt_add\<close> is the
  new node's position, or None (NULL) when the string could not be copied.
\<close>

definition link_after :: "'a list \<Rightarrow> nat option \<Rightarrow> 'a \<Rightarrow> ('a list \<times> nat) cres" where
  "link_after chain ins x =
     (case ins of
        Some i \<Rightarrow> (if i < length chain then Inr (take (Suc i) chain @ [x], Suc i) else Inl UseAfterFree)
      | None \<Rightarrow> Inr (chain @ [x], length chain))"

definition nt_add :: "bool \<Rightarrow> 'a nt \<Rightarrow> 'a \<Rightarrow> ('a nt \<times> nat option) cres" where
  "nt_add alloc nt data =
     (let nt1 = nt\<lparr>nt_items := nt_items nt + 1\<rparr> in
      if nt_nodetype nt = NT_CHAR \<and> \<not> alloc then Inr (nt1, None)
      else cbind (link_after (nt_first nt1) (nt_insert nt1) data) (\<lambda>(chain, pos).
        Inr (nt1\<lparr>nt_first := chain, nt_insert := Some pos\<rparr>, Some pos)))"

definition c_nt_first :: "'a nt \<Rightarrow> nat option" where
  "c_nt_first nt = (if nt_first nt = [] then None else Some 0)"

text \<open>The cursor and the node returned are the same pointer.\<close>

definition c_nt_next :: "'a nt \<Rightarrow> nat option \<Rightarrow> nat option" where
  "c_nt_next nt c =
     (case c of
        Some i \<Rightarrow> (if Suc i < length (nt_first nt) then Some (Suc i) else None)
      | None \<Rightarrow> (if nt_items nt > 0 then c_nt_first nt else None))"

section \<open>list.c\<close>

datatype bnr_type = BNR_CHAR | BNR_INDEX

record 'a bnr_list_node =
  bl_ptr :: 'a
  bl_value :: fp
  bl_eliminated :: bool

record 'a bnr_list =
  bl_first :: "'a bnr_list_node list"
  bl_insert :: "nat option"
  bl_items :: int
  bl_nodetype :: bnr_type

definition bnr_list_node_create :: "'a \<Rightarrow> fp \<Rightarrow> 'a bnr_list_node" where
  "bnr_list_node_create data val = \<lparr>bl_ptr = data, bl_value = val, bl_eliminated = False\<rparr>"

definition bnr_list_create :: "bnr_type \<Rightarrow> 'a bnr_list" where
  "bnr_list_create nodetype =
     \<lparr>bl_first = [], bl_insert = None, bl_items = 0, bl_nodetype = nodetype\<rparr>"

definition bnr_list_destroy :: "'a bnr_list \<Rightarrow> 'a bnr_list_node list cres" where
  "bnr_list_destroy lst = nt_destroy_loop (nat (bl_items lst)) (bl_first lst)"

definition bnr_list_insert ::
    "bool \<Rightarrow> 'a bnr_list \<Rightarrow> 'a \<Rightarrow> fp \<Rightarrow> ('a bnr_list \<times> nat option) cres" where
  "bnr_list_insert alloc lst data val =
     (let lst1 = lst\<lparr>bl_items := bl_items lst + 1\<rparr> in
      if \<not> alloc then Inr (lst1, None)
      else cbind (link_after (bl_first lst1) (bl_insert lst1) (bnr_list_node_create data val))
        (\<lambda>(chain, pos). Inr (lst1\<lparr>bl_first := chain, bl_insert := Some pos\<rparr>, Some pos)))"

definition c_bnr_list_first :: "'a bnr_list \<Rightarrow> nat option" where
  "c_bnr_list_first lst = (if bl_first lst = [] then None else Some 0)"

definition c_bnr_list_next :: "'a bnr_list \<Rightarrow> nat option \<Rightarrow> nat option" where
  "c_bnr_list_next lst c =
     (case c of
        Some i \<Rightarrow> (if Suc i < length (bl_first lst) then Some (Suc i) else None)
      | None \<Rightarrow> (if bl_items lst > 0 then c_bnr_list_first lst else None))"

section \<open>The contract of an append-only list\<close>

text \<open>The loop \<^verbatim>\<open>node = first; while (node) { ...; node = next; }\<close>, as the list of nodes visited.\<close>

fun list_walk :: "('s \<Rightarrow> nat option \<Rightarrow> nat option) \<Rightarrow> ('s \<Rightarrow> 'e list) \<Rightarrow> 's \<Rightarrow> nat \<Rightarrow> nat option \<Rightarrow> 'e list cres" where
  "list_walk nxt elems s fuel None = Inr []"
| "list_walk nxt elems s 0 (Some i) = Inl NoReturn"
| "list_walk nxt elems s (Suc fuel) (Some i) =
     (if i < length (elems s)
      then cbind (list_walk nxt elems s fuel (nxt s (Some i))) (\<lambda>es. Inr (elems s ! i # es))
      else Inl UseAfterFree)"

locale append_list =
  fixes add :: "'s \<Rightarrow> 'x \<Rightarrow> 's cres"
    and elems :: "'s \<Rightarrow> 'e list"
    and mk :: "'x \<Rightarrow> 'e"
    and ok :: "'s \<Rightarrow> bool"
  assumes add_spec: "ok s \<Longrightarrow> \<exists>s'. add s x = Inr s' \<and> ok s' \<and> elems s' = elems s @ [mk x]"
begin

lemma add_all: "ok s \<Longrightarrow> \<exists>s'. cfold add s xs = Inr s' \<and> ok s' \<and> elems s' = elems s @ map mk xs"
proof (induction xs arbitrary: s)
  case (Cons x xs)
  then show ?case using add_spec[OF Cons.prems, of x] by force
qed simp

end

locale cursor_list = append_list +
  fixes first :: "'a \<Rightarrow> nat option" and nxt :: "'a \<Rightarrow> nat option \<Rightarrow> nat option"
  assumes first_spec: "first s = (if elems s = [] then None else Some 0)"
    and nxt_spec: "nxt s (Some i) = (if Suc i < length (elems s) then Some (Suc i) else None)"
begin

lemma walk_from:
  "i < length (elems s) \<Longrightarrow> length (elems s) - i \<le> fuel \<Longrightarrow>
    list_walk nxt elems s fuel (Some i) = Inr (drop i (elems s))"
proof (induction fuel arbitrary: i)
  case (Suc fuel)
  then show ?case
    using Suc.IH[of "Suc i"] Cons_nth_drop_Suc[of i "elems s"] by (auto simp: nxt_spec)
qed simp

lemma walk_all: "length (elems s) \<le> fuel \<Longrightarrow> list_walk nxt elems s fuel (first s) = Inr (elems s)"
  using walk_from[of 0 s fuel] by (auto simp: first_spec)

text \<open>What was added is what a traversal visits, in the order of the additions.\<close>

lemma add_walk:
  assumes "ok s" "elems s = []" "length xs \<le> fuel"
  shows "\<exists>s'. cfold add s xs = Inr s' \<and> list_walk nxt elems s' fuel (first s') = Inr (map mk xs)"
  using add_all[OF assms(1), of xs] walk_all assms(2,3) by fastforce

end

section \<open>Both lists meet the contract\<close>

text \<open>The insertion pointer is the last node, and \<open>items\<close> counts the nodes.\<close>

definition chain_ok :: "'a list \<Rightarrow> nat option \<Rightarrow> int \<Rightarrow> bool" where
  "chain_ok chain ins n \<longleftrightarrow> n = int (length chain) \<and>
     (ins = None \<and> chain = [] \<or> ins = Some (length chain - 1) \<and> chain \<noteq> [])"

definition nt_ok :: "'a nt \<Rightarrow> bool" where
  "nt_ok nt \<longleftrightarrow> chain_ok (nt_first nt) (nt_insert nt) (nt_items nt)"

definition bnr_list_ok :: "'a bnr_list \<Rightarrow> bool" where
  "bnr_list_ok lst \<longleftrightarrow> chain_ok (bl_first lst) (bl_insert lst) (bl_items lst)"

lemma link_after_ok:
  assumes "chain_ok chain ins n"
  shows "link_after chain ins x = Inr (chain @ [x], length chain) \<and>
    chain_ok (chain @ [x]) (Some (length chain)) (n + 1)"
  using assms by (auto simp: chain_ok_def link_after_def)

lemma nt_add_ok:
  "nt_ok nt \<Longrightarrow> nt_add True nt x =
     Inr (nt\<lparr>nt_first := nt_first nt @ [x], nt_insert := Some (length (nt_first nt)),
             nt_items := nt_items nt + 1\<rparr>, Some (length (nt_first nt)))"
  using link_after_ok[of "nt_first nt" "nt_insert nt" "nt_items nt" x]
  by (simp add: nt_add_def nt_ok_def)

lemma nt_add_invariant: "nt_ok nt \<Longrightarrow>
    nt_ok (nt\<lparr>nt_first := nt_first nt @ [x], nt_insert := Some (length (nt_first nt)),
      nt_items := nt_items nt + 1\<rparr>)"
  by (auto simp: nt_ok_def chain_ok_def)

lemma nt_create_ok [simp]: "nt_ok (nt_create t)" "nt_first (nt_create t) = []"
  by (simp_all add: nt_ok_def nt_create_def chain_ok_def)

lemma bnr_list_insert_ok:
  "bnr_list_ok l \<Longrightarrow> bnr_list_insert True l x v =
     Inr (l\<lparr>bl_first := bl_first l @ [bnr_list_node_create x v], bl_insert := Some (length (bl_first l)),
            bl_items := bl_items l + 1\<rparr>, Some (length (bl_first l)))"
  using link_after_ok[of "bl_first l" "bl_insert l" "bl_items l" "bnr_list_node_create x v"]
  by (simp add: bnr_list_insert_def bnr_list_ok_def)

lemma bnr_list_create_ok [simp]: "bnr_list_ok (bnr_list_create t)" "bl_first (bnr_list_create t) = []"
  by (simp_all add: bnr_list_ok_def bnr_list_create_def chain_ok_def)

definition nt_put :: "'a nt \<Rightarrow> 'a \<Rightarrow> 'a nt cres" where
  "nt_put nt x = cbind (nt_add True nt x) (\<lambda>(nt', _). Inr nt')"

definition bnr_list_put :: "'a bnr_list \<Rightarrow> 'a \<times> fp \<Rightarrow> 'a bnr_list cres" where
  "bnr_list_put l xv = cbind (bnr_list_insert True l (fst xv) (snd xv)) (\<lambda>(l', _). Inr l')"

interpretation ntl: cursor_list nt_put nt_first "\<lambda>x. x" nt_ok c_nt_first c_nt_next
  by unfold_locales
     (auto simp: nt_put_def nt_add_ok nt_add_invariant c_nt_first_def c_nt_next_def)

interpretation bnl: cursor_list bnr_list_put bl_first "\<lambda>xv. bnr_list_node_create (fst xv) (snd xv)"
    bnr_list_ok c_bnr_list_first c_bnr_list_next
proof unfold_locales
  fix s :: "'a bnr_list" and x :: "'a \<times> fp"
  assume "bnr_list_ok s"
  then show "\<exists>s'. bnr_list_put s x = Inr s' \<and> bnr_list_ok s' \<and>
      bl_first s' = bl_first s @ [bnr_list_node_create (fst x) (snd x)]"
    by (simp add: bnr_list_put_def bnr_list_insert_ok) (auto simp: bnr_list_ok_def chain_ok_def)
qed (auto simp: c_bnr_list_first_def c_bnr_list_next_def)

lemma nt_destroy_loop_all: "nt_destroy_loop (length xs) xs = Inr []"
  by (induction xs) auto

lemma nt_destroy_ok: "nt_ok nt \<Longrightarrow> nt_destroy nt = Inr []"
  by (auto simp: nt_destroy_def nt_ok_def chain_ok_def nt_destroy_loop_all)

section \<open>Properties\<close>

text \<open>
  A nodetree is an ordered collection: adding any sequence of items to a new nodetree
  succeeds, a traversal with the cursor then visits exactly these items in the order they
  were added and ends, and destroying the nodetree frees every node and reads no freed one.
\<close>

theorem nodetree_order:
  "\<exists>nt. cfold nt_put (nt_create t) xs = Inr nt \<and> nt_items nt = int (length xs) \<and>
     list_walk c_nt_next nt_first nt (length xs) (c_nt_first nt) = Inr xs \<and> nt_destroy nt = Inr []"
proof -
  obtain nt where nt: "cfold nt_put (nt_create t) xs = Inr nt" "nt_ok nt" "nt_first nt = xs"
    using ntl.add_all[of "nt_create t" xs] by auto
  then show ?thesis
    using ntl.walk_all[of nt "length xs"] nt_destroy_ok[OF nt(2)]
    by (auto simp: nt_ok_def chain_ok_def)
qed

text \<open>
  The list of BNR elements keeps what was inserted, in order, none of it eliminated.
\<close>

theorem bnr_list_order:
  "\<exists>l. cfold bnr_list_put (bnr_list_create t) xs = Inr l \<and>
     list_walk c_bnr_list_next bl_first l (length xs) (c_bnr_list_first l) =
       Inr (map (\<lambda>(x, v). \<lparr>bl_ptr = x, bl_value = v, bl_eliminated = False\<rparr>) xs)"
  using bnl.add_walk[of "bnr_list_create t" xs "length xs"]
  by (simp add: bnr_list_node_create_def case_prod_unfold)

text \<open>
  When the copy of a string cannot be allocated, \<^verbatim>\<open>nt_add\<close> has already counted the item:
  the nodetree then claims one node more than it has, and destroying it follows a NULL
  pointer.
\<close>

theorem nodetree_alloc_failure:
  "\<exists>nt. cfold nt_put (nt_create NT_CHAR) xs = Inr nt \<and>
     (\<exists>nt'. nt_add False nt x = Inr (nt', None) \<and> nt_destroy nt' = Inl NullDeref)"
proof -
  have loop: "nt_destroy_loop (Suc (length ys)) ys = Inl NullDeref" for ys :: "'a list"
    by (induction ys) auto
  have ty: "cfold nt_put nt0 xs = Inr nt \<Longrightarrow> nt_nodetype nt = nt_nodetype nt0" for nt0 nt :: "'a nt"
    by (induction xs arbitrary: nt0)
       (auto simp: nt_put_def nt_add_def Let_def cbind_Inr_iff split: if_splits)
  obtain nt where nt: "cfold nt_put (nt_create NT_CHAR) xs = Inr nt" "nt_ok nt"
    using ntl.add_all[of "nt_create NT_CHAR" xs] by auto
  then have "nt_nodetype nt = NT_CHAR" "nt_items nt = int (length (nt_first nt))"
    using ty[OF nt(1)] by (auto simp: nt_create_def nt_ok_def chain_ok_def)
  then show ?thesis
    using nt loop[of "nt_first nt"] by (simp add: nt_add_def nt_destroy_def nat_add_distrib)
qed

end
