(* ===== verification/Ds_Diction.thy ===== *)
theory Ds_Diction
  imports Ds_Table Ds_Nodetree
begin

text \<open>
  diction.c: the dictionary of the terms of one message, a chained hash table keyed by the
  64-bit token, with the two lists that record the order in which the tokens occurred. A
  pointer to a term is the term's key. The argument \<open>alloc\<close> of an operation says which of its
  allocations succeed.
\<close>

unbundle bit_operations_syntax

section \<open>Data\<close>

definition TST_DISK :: "8 word" where "TST_DISK = 1"
definition TST_DIRTY :: "8 word" where "TST_DIRTY = 2"
definition DSD_CHAINED :: u32 where "DSD_CHAINED = 1"
definition DSD_CONTEXT :: u32 where "DSD_CONTEXT = 2"

record ds_spam_stat =
  st_probability :: fp
  st_spam_hits :: int
  st_innocent_hits :: int
  st_status :: "8 word"
  st_offset :: nat

definition zero_stat :: ds_spam_stat where
  "zero_stat = \<lparr>st_probability = Fin 0, st_spam_hits = 0, st_innocent_hits = 0,
     st_status = 0, st_offset = 0\<rparr>"

record ds_term =
  tm_key :: u64
  tm_frequency :: int
  tm_s :: ds_spam_stat
  tm_name :: "string option"
  tm_type :: char

record ds_diction =
  dd_size :: nat
  dd_items :: nat
  dd_tbl :: "ds_term list list"
  dd_whitelist_token :: u64
  dd_order :: "u64 nt"
  dd_chained_order :: "u64 nt"

definition ds_prime_list :: "nat list" where
  "ds_prime_list =
     [53, 97, 193, 389, 769,
      1543, 3079, 6151, 12289, 24593,
      49157, 98317, 196613, 393241, 786433,
      1572869, 3145739, 6291469, 12582917, 25165843,
      50331653, 100663319, 201326611, 402653189, 805306457,
      1610612741, 3221225473, 4294967291]"

text \<open>The loop \<^verbatim>\<open>while (prime_list[i] < size) i++\<close>, which does not test for the end of the list.\<close>

fun prime_scan :: "nat list \<Rightarrow> nat \<Rightarrow> nat cres" where
  "prime_scan [] n = Inl OutOfBounds"
| "prime_scan (p # ps) n = (if p < n then prime_scan ps n else Inr p)"

section \<open>Operations\<close>

definition ds_diction_create :: "(nat \<Rightarrow> bool) \<Rightarrow> nat \<Rightarrow> ds_diction option cres" where
  "ds_diction_create alloc n =
     (if \<not> alloc 0 then Inr None
      else cbind (prime_scan ds_prime_list n) (\<lambda>prime.
        if \<not> alloc 1 then Inr None
        else if \<not> alloc 2 \<or> \<not> alloc 3 then Inr None
        else Inr (Some
          \<lparr>dd_size = prime, dd_items = 0, dd_tbl = replicate prime [], dd_whitelist_token = 0,
           dd_order = nt_create NT_INDEX, dd_chained_order = nt_create NT_INDEX\<rparr>)))"

definition dd_bucket :: "nat \<Rightarrow> u64 \<Rightarrow> nat" where
  "dd_bucket n k = unat k mod n"

definition ds_diction_term_create :: "bool \<Rightarrow> u64 \<Rightarrow> string option \<Rightarrow> ds_term option" where
  "ds_diction_term_create alloc k name =
     (if \<not> alloc then None
      else Some \<lparr>tm_key = k, tm_frequency = 1, tm_s = zero_stat, tm_name = name, tm_type = CHR ''D''\<rparr>)"

definition ds_diction_find :: "ds_diction \<Rightarrow> u64 \<Rightarrow> ds_term option" where
  "ds_diction_find d k = chain_find tm_key k (dd_tbl d ! dd_bucket (dd_size d) k)"

text \<open>A second occurrence of a term: a missing name is filled in, the frequency counted.\<close>

definition term_again :: "string option \<Rightarrow> ds_term \<Rightarrow> ds_term" where
  "term_again name t =
     (let t1 = (if tm_name t = None \<and> name \<noteq> None then t\<lparr>tm_name := name\<rparr> else t)
      in t1\<lparr>tm_frequency := tm_frequency t1 + 1\<rparr>)"

definition dd_note_order :: "ds_diction \<Rightarrow> u64 \<Rightarrow> u32 \<Rightarrow> ds_diction cres" where
  "dd_note_order d k flags =
     (if flags AND DSD_CONTEXT \<noteq> 0 then
        if flags AND DSD_CHAINED \<noteq> 0
        then cbind (nt_add True (dd_chained_order d) k) (\<lambda>(l, _). Inr (d\<lparr>dd_chained_order := l\<rparr>))
        else cbind (nt_add True (dd_order d) k) (\<lambda>(l, _). Inr (d\<lparr>dd_order := l\<rparr>))
      else Inr d)"

definition ds_diction_touch ::
    "bool \<Rightarrow> ds_diction \<Rightarrow> u64 \<Rightarrow> string option \<Rightarrow> u32 \<Rightarrow> (ds_diction \<times> u64 option) cres" where
  "ds_diction_touch alloc d k name flags =
     (let bucket = dd_bucket (dd_size d) k;
          chain = dd_tbl d ! bucket
      in case chain_find tm_key k chain of
           None \<Rightarrow>
             (case ds_diction_term_create alloc k name of
                None \<Rightarrow> Inr (d, None)
              | Some t \<Rightarrow>
                  cbind (dd_note_order (d\<lparr>dd_items := Suc (dd_items d),
                      dd_tbl := (dd_tbl d)[bucket := chain @ [t]]\<rparr>) k flags)
                    (\<lambda>d'. Inr (d', Some k)))
         | Some t \<Rightarrow>
             cbind (dd_note_order (d\<lparr>dd_tbl := (dd_tbl d)[bucket := chain_upd tm_key k (term_again name) chain]\<rparr>) k flags)
               (\<lambda>d'. Inr (d', Some k)))"

definition ds_diction_delete :: "ds_diction \<Rightarrow> u64 \<Rightarrow> ds_diction" where
  "ds_diction_delete d k =
     (let bucket = dd_bucket (dd_size d) k;
          chain = dd_tbl d ! bucket
      in case chain_find tm_key k chain of
           None \<Rightarrow> d
         | Some t \<Rightarrow> d\<lparr>dd_tbl := (dd_tbl d)[bucket := chain_del tm_key k chain], dd_items := dd_items d - 1\<rparr>)"

definition ds_diction_cursor :: "bool \<Rightarrow> u64 cursor option" where
  "ds_diction_cursor alloc = (if alloc then Some (0, None) else None)"

definition ds_diction_next :: "ds_diction \<Rightarrow> u64 cursor option \<Rightarrow> (u64 cursor option \<times> u64 option) cres" where
  "ds_diction_next d cur =
     (case cur of
        None \<Rightarrow> Inr (None, None)
      | Some c \<Rightarrow> cbind (tbl_next tm_key (dd_bucket (dd_size d)) (dd_size d) (dd_tbl d) c)
          (\<lambda>(c', t). Inr (Some c', t)))"

text \<open>
  The loop of \<^verbatim>\<open>ds_diction_destroy\<close>: fetch the next term, then delete the current one through
  its key.
\<close>

fun destroy_terms :: "nat \<Rightarrow> ds_diction \<Rightarrow> u64 cursor option \<Rightarrow> u64 option \<Rightarrow> ds_diction cres" where
  "destroy_terms fuel d cur None = Inr d"
| "destroy_terms 0 d cur (Some k) = Inl NoReturn"
| "destroy_terms (Suc fuel) d cur (Some k) =
     cbind (ds_diction_next d cur) (\<lambda>(cur', nx).
       if ds_diction_find d k = None then Inl UseAfterFree
       else destroy_terms fuel (ds_diction_delete d k) cur' nx)"

definition ds_diction_destroy :: "bool \<Rightarrow> nat \<Rightarrow> ds_diction option \<Rightarrow> ds_diction option cres" where
  "ds_diction_destroy alloc fuel diction =
     (case diction of
        None \<Rightarrow> Inr None
      | Some d \<Rightarrow>
          (case ds_diction_cursor alloc of
             None \<Rightarrow> Inr (Some d)
           | Some c \<Rightarrow>
               cbind (ds_diction_next d (Some c)) (\<lambda>(cur, t).
               cbind (destroy_terms fuel d cur t) (\<lambda>d'.
               cbind (nt_destroy (dd_order d')) (\<lambda>_.
               cbind (nt_destroy (dd_chained_order d')) (\<lambda>_. Inr None))))))"

text \<open>The statistics of a term, copied in, added in and copied out.\<close>

definition dd_update :: "ds_diction \<Rightarrow> u64 \<Rightarrow> (ds_term \<Rightarrow> ds_term) \<Rightarrow> ds_diction" where
  "dd_update d k f =
     (let bucket = dd_bucket (dd_size d) k
      in d\<lparr>dd_tbl := (dd_tbl d)[bucket := chain_upd tm_key k f (dd_tbl d ! bucket)]\<rparr>)"

definition ds_diction_setstat :: "ds_diction \<Rightarrow> u64 \<Rightarrow> ds_spam_stat \<Rightarrow> ds_diction \<times> int" where
  "ds_diction_setstat d k s =
     (case ds_diction_find d k of
        Some t \<Rightarrow> (dd_update d k (\<lambda>t. t\<lparr>tm_s := s\<rparr>), 0)
      | None \<Rightarrow> (d, - 1))"

definition stat_add :: "ds_spam_stat \<Rightarrow> ds_spam_stat \<Rightarrow> ds_spam_stat" where
  "stat_add s0 s =
     s0\<lparr>st_probability := fadd double_fmt (st_probability s0) (st_probability s),
        st_spam_hits := st_spam_hits s0 + st_spam_hits s,
        st_innocent_hits := st_innocent_hits s0 + st_innocent_hits s,
        st_offset := (if st_offset s0 = 0 then st_offset s else st_offset s0),
        st_status := (st_status s0 OR (if st_status s AND TST_DISK \<noteq> 0 then TST_DISK else 0))
                       OR (if st_status s AND TST_DIRTY \<noteq> 0 then TST_DIRTY else 0)\<rparr>"

definition ds_diction_addstat :: "ds_diction \<Rightarrow> u64 \<Rightarrow> ds_spam_stat \<Rightarrow> ds_diction \<times> int" where
  "ds_diction_addstat d k s =
     (case ds_diction_find d k of
        Some t \<Rightarrow> (dd_update d k (\<lambda>t. t\<lparr>tm_s := stat_add (tm_s t) s\<rparr>), 0)
      | None \<Rightarrow> (d, - 1))"

definition ds_diction_getstat :: "ds_diction \<Rightarrow> u64 \<Rightarrow> ds_spam_stat \<Rightarrow> ds_spam_stat \<times> int" where
  "ds_diction_getstat d k s =
     (case ds_diction_find d k of
        Some t \<Rightarrow> (tm_s t, 0)
      | None \<Rightarrow> (s, - 1))"

section \<open>The dictionary as a finite map\<close>

interpretation dict: buckets tm_key dd_bucket
  by unfold_locales (simp add: dd_bucket_def)

definition dict_ok :: "ds_diction \<Rightarrow> bool" where
  "dict_ok d \<longleftrightarrow> 0 < dd_size d \<and> tbl_ok tm_key (dd_bucket (dd_size d)) (dd_size d) (dd_tbl d) \<and>
     dd_items d = length (concat (dd_tbl d)) \<and> nt_ok (dd_order d) \<and> nt_ok (dd_chained_order d)"

definition dict_terms :: "ds_diction \<Rightarrow> ds_term list" where
  "dict_terms d = concat (dd_tbl d)"

lemma term_again_key [simp]: "tm_key (term_again name t) = tm_key t"
  by (simp add: term_again_def Let_def)

lemma dict_okD:
  assumes "dict_ok d"
  shows "0 < dd_size d" "tbl_ok tm_key (dd_bucket (dd_size d)) (dd_size d) (dd_tbl d)"
    "dd_items d = length (concat (dd_tbl d))" "nt_ok (dd_order d)" "nt_ok (dd_chained_order d)"
  using assms by (simp_all add: dict_ok_def)

lemma find_iff: "dict_ok d \<Longrightarrow> ds_diction_find d k = Some t \<longleftrightarrow> t \<in> set (dict_terms d) \<and> tm_key t = k"
  using dict.find_in_set[of "dd_size d" "dd_tbl d" k t]
  by (simp add: ds_diction_find_def dict_ok_def dict_terms_def)

lemma distinct_terms: "dict_ok d \<Longrightarrow> distinct (map tm_key (dict_terms d))"
  using dict.distinct_keys[of "dd_size d" "dd_tbl d"] by (simp add: dict_ok_def dict_terms_def)

lemma items_card_dom:
  assumes "dict_ok d"
  shows "dd_items d = card (dom (ds_diction_find d))"
proof -
  have "dom (ds_diction_find d) = set (map tm_key (dict_terms d))"
    using find_iff[OF assms] by (auto simp: dom_def image_iff)
  then show ?thesis
    using distinct_card[OF distinct_terms[OF assms]] assms by (simp add: dict_ok_def dict_terms_def)
qed

lemma find_cong: "dd_tbl d' = dd_tbl d \<Longrightarrow> dd_size d' = dd_size d \<Longrightarrow> ds_diction_find d' = ds_diction_find d"
  by (simp add: ds_diction_find_def fun_eq_iff)

lemma note_order_ok:
  assumes "dict_ok d"
  shows "\<exists>d'. dd_note_order d k flags = Inr d' \<and> dict_ok d' \<and> dd_tbl d' = dd_tbl d \<and>
    dd_size d' = dd_size d \<and> dd_items d' = dd_items d \<and>
    dd_whitelist_token d' = dd_whitelist_token d \<and>
    nt_first (dd_order d') = nt_first (dd_order d) @
      (if flags AND DSD_CONTEXT \<noteq> 0 \<and> flags AND DSD_CHAINED = 0 then [k] else []) \<and>
    nt_first (dd_chained_order d') = nt_first (dd_chained_order d) @
      (if flags AND DSD_CONTEXT \<noteq> 0 \<and> flags AND DSD_CHAINED \<noteq> 0 then [k] else [])"
  using assms by (auto simp: dd_note_order_def nt_add_ok dict_ok_def nt_add_invariant)

lemma dict_ok_put:
  assumes "dict_ok d" "ds_diction_find d (tm_key t) = None"
  shows "dict_ok (d\<lparr>dd_items := Suc (dd_items d), dd_tbl := (dd_tbl d)[dd_bucket (dd_size d) (tm_key t) :=
    dd_tbl d ! dd_bucket (dd_size d) (tm_key t) @ [t]]\<rparr>)"
  using dict.put_ok[OF dict_okD(2,1)[OF assms(1)], of t] dict.put_length[OF dict_okD(2,1)[OF assms(1)]] assms
  by (simp add: dict_ok_def ds_diction_find_def)

lemma dict_ok_update:
  assumes "dict_ok d" "\<And>t. tm_key (f t) = tm_key t"
  shows "dict_ok (dd_update d k f)"
  using dict.upd_ok[OF dict_okD(2,1)[OF assms(1)] assms(2)] dict.upd_length[OF dict_okD(2,1)[OF assms(1)]] assms
  by (simp add: dict_ok_def dd_update_def Let_def)

lemma find_update:
  assumes "dict_ok d" "\<And>t. tm_key (f t) = tm_key t"
  shows "ds_diction_find (dd_update d k f) k' =
    (if k' = k then map_option f (ds_diction_find d k) else ds_diction_find d k')"
  using dict.upd_find[OF dict_okD(2,1)[OF assms(1)] assms(2)]
  by (simp add: ds_diction_find_def dd_update_def Let_def)

lemma terms_update_keys:
  assumes "\<And>t. tm_key (f t) = tm_key t"
  shows "map tm_key (dict_terms (dd_update d k f)) = map tm_key (dict_terms d)"
  unfolding dict_terms_def dd_update_def Let_def by (simp add: dict.upd_keys[OF assms])

lemma dd_update_fields [simp]:
  "dd_size (dd_update d k f) = dd_size d" "dd_items (dd_update d k f) = dd_items d"
  "dd_order (dd_update d k f) = dd_order d" "dd_chained_order (dd_update d k f) = dd_chained_order d"
  "dd_whitelist_token (dd_update d k f) = dd_whitelist_token d"
  by (simp_all add: dd_update_def Let_def)

text \<open>What a touch does to the map.\<close>

definition touched :: "u64 \<Rightarrow> string option \<Rightarrow> ds_term option \<Rightarrow> ds_term" where
  "touched k name old =
     (case old of
        None \<Rightarrow> \<lparr>tm_key = k, tm_frequency = 1, tm_s = zero_stat, tm_name = name, tm_type = CHR ''D''\<rparr>
      | Some t \<Rightarrow> t\<lparr>tm_frequency := tm_frequency t + 1,
                    tm_name := (case tm_name t of None \<Rightarrow> name | Some n \<Rightarrow> Some n)\<rparr>)"

lemma touch_spec:
  assumes "dict_ok d"
  shows "\<exists>d'. ds_diction_touch True d k name flags = Inr (d', Some k) \<and> dict_ok d' \<and>
    ds_diction_find d' = (ds_diction_find d)(k \<mapsto> touched k name (ds_diction_find d k)) \<and>
    dd_whitelist_token d' = dd_whitelist_token d \<and> dd_size d' = dd_size d \<and>
    nt_first (dd_order d') = nt_first (dd_order d) @
      (if flags AND DSD_CONTEXT \<noteq> 0 \<and> flags AND DSD_CHAINED = 0 then [k] else []) \<and>
    nt_first (dd_chained_order d') = nt_first (dd_chained_order d) @
      (if flags AND DSD_CONTEXT \<noteq> 0 \<and> flags AND DSD_CHAINED \<noteq> 0 then [k] else [])"
proof (cases "ds_diction_find d k")
  case None
  define t where "t = touched k name None"
  define d1 where "d1 = d\<lparr>dd_items := Suc (dd_items d), dd_tbl := (dd_tbl d)[dd_bucket (dd_size d) k :=
    dd_tbl d ! dd_bucket (dd_size d) k @ [t]]\<rparr>"
  have t: "tm_key t = k" by (simp add: t_def touched_def)
  have ok1: "dict_ok d1" using dict_ok_put[OF assms, of t] None t by (simp add: d1_def)
  have f1: "ds_diction_find d1 = (ds_diction_find d)(k \<mapsto> t)"
    using dict.put_find[OF dict_okD(2,1)[OF assms], of t] None t
    by (auto simp: ds_diction_find_def d1_def fun_eq_iff)
  have tc: "ds_diction_term_create True k name = Some t"
    by (simp add: ds_diction_term_create_def t_def touched_def)
  have "ds_diction_touch True d k name flags = cbind (dd_note_order d1 k flags) (\<lambda>d'. Inr (d', Some k))"
    using None tc by (simp add: ds_diction_touch_def Let_def ds_diction_find_def d1_def)
  moreover obtain d' where "dd_note_order d1 k flags = Inr d'" "ds_diction_find d' = ds_diction_find d1"
    "dict_ok d'" using note_order_ok[OF ok1, of k flags] find_cong by metis
  ultimately show ?thesis using note_order_ok[OF ok1, of k flags] f1 None by (simp add: d1_def t_def)
next
  case (Some t)
  define d1 where "d1 = dd_update d k (term_again name)"
  have f1: "ds_diction_find d1 = (ds_diction_find d)(k \<mapsto> term_again name t)"
    using find_update[OF assms, of "term_again name" k] Some by (auto simp: d1_def)
  have ta: "term_again name t = touched k name (Some t)"
    by (auto simp: term_again_def touched_def Let_def split: option.splits)
  have "ds_diction_touch True d k name flags = cbind (dd_note_order d1 k flags) (\<lambda>d'. Inr (d', Some k))"
    using Some by (simp add: ds_diction_touch_def Let_def ds_diction_find_def d1_def dd_update_def)
  moreover have ok1: "dict_ok d1" unfolding d1_def by (rule dict_ok_update[OF assms]) simp
  moreover obtain d' where "dd_note_order d1 k flags = Inr d'" "ds_diction_find d' = ds_diction_find d1"
    "dict_ok d'" using note_order_ok[OF ok1, of k flags] find_cong by metis
  ultimately show ?thesis using note_order_ok[OF ok1, of k flags] f1 Some ta by (simp add: d1_def)
qed

lemma delete_spec:
  assumes "dict_ok d"
  shows "dict_ok (ds_diction_delete d k) \<and> ds_diction_find (ds_diction_delete d k) = (ds_diction_find d)(k := None)"
proof (cases "ds_diction_find d k")
  case None
  then have "ds_diction_delete d k = d" by (simp add: ds_diction_delete_def ds_diction_find_def Let_def)
  then show ?thesis using None assms by auto
next
  case (Some t)
  note ok = dict_okD(2,1)[OF assms]
  show ?thesis
    using Some dict.del_ok[OF ok, of k] dict.del_find[OF ok, of _ k] dict.del_length[OF ok, of k] assms
    by (auto simp: ds_diction_delete_def ds_diction_find_def Let_def dict_ok_def fun_eq_iff)
qed

lemma setstat_spec:
  assumes "dict_ok d" "ds_diction_find d k = Some t"
  shows "ds_diction_setstat d k s = (dd_update d k (\<lambda>t. t\<lparr>tm_s := s\<rparr>), 0)"
    and "dict_ok (dd_update d k (\<lambda>t. t\<lparr>tm_s := s\<rparr>))"
    and "ds_diction_find (dd_update d k (\<lambda>t. t\<lparr>tm_s := s\<rparr>)) = (ds_diction_find d)(k \<mapsto> t\<lparr>tm_s := s\<rparr>)"
  using assms dict_ok_update[OF assms(1), of "\<lambda>t. t\<lparr>tm_s := s\<rparr>" k]
    find_update[OF assms(1), of "\<lambda>t. t\<lparr>tm_s := s\<rparr>" k]
  by (auto simp: ds_diction_setstat_def)

section \<open>Traversal and destruction\<close>

text \<open>The loop \<^verbatim>\<open>while ((ds_term = ds_diction_next(ds_c)))\<close> of the clients.\<close>

fun dict_walk :: "ds_diction \<Rightarrow> nat \<Rightarrow> u64 cursor option \<Rightarrow> u64 list cres" where
  "dict_walk d 0 cur = Inl NoReturn"
| "dict_walk d (Suc fuel) cur =
     cbind (ds_diction_next d cur) (\<lambda>(cur', r).
       case r of
         None \<Rightarrow> Inr []
       | Some k \<Rightarrow> cbind (dict_walk d fuel cur') (\<lambda>ks. Inr (k # ks)))"

lemma dict_walk_tbl:
  "dict_walk d fuel (Some c) = tbl_walk tm_key (dd_bucket (dd_size d)) (dd_size d) (dd_tbl d) fuel c"
proof (induction fuel arbitrary: c)
  case (Suc fuel)
  then show ?case
    by (cases "tbl_next tm_key (dd_bucket (dd_size d)) (dd_size d) (dd_tbl d) c")
       (auto simp: ds_diction_next_def split: option.splits)
qed simp

lemma destroy_terms_tbl:
  assumes "dict_ok d"
    and "tbl_destroy tm_key (dd_bucket (dd_size d)) (dd_size d) fuel (dd_tbl d) c r = Inr tbl'"
  shows "\<exists>d'. destroy_terms fuel d (Some c) r = Inr d' \<and> dict_ok d' \<and> dd_tbl d' = tbl'"
  using assms
proof (induction fuel arbitrary: d c r)
  case 0
  then show ?case by (cases r) auto
next
  case (Suc fuel)
  show ?case
  proof (cases r)
    case (Some k)
    obtain c' nx t where st: "tbl_next tm_key (dd_bucket (dd_size d)) (dd_size d) (dd_tbl d) c = Inr (c', nx)"
      "chain_find tm_key k (dd_tbl d ! dd_bucket (dd_size d) k) = Some t"
      "tbl_destroy tm_key (dd_bucket (dd_size d)) (dd_size d) fuel
         ((dd_tbl d)[dd_bucket (dd_size d) k := chain_del tm_key k (dd_tbl d ! dd_bucket (dd_size d) k)]) c' nx = Inr tbl'"
      using Suc.prems(2) Some by (auto simp: cbind_Inr_iff split: option.splits)
    then have "dd_size (ds_diction_delete d k) = dd_size d"
      "dd_tbl (ds_diction_delete d k) =
         (dd_tbl d)[dd_bucket (dd_size d) k := chain_del tm_key k (dd_tbl d ! dd_bucket (dd_size d) k)]"
      by (simp_all add: ds_diction_delete_def Let_def)
    then show ?thesis
      using Suc.IH[of "ds_diction_delete d k" c' nx] delete_spec[OF Suc.prems(1), of k] st Some
      by (simp add: ds_diction_next_def ds_diction_find_def)
  qed (use Suc.prems in auto)
qed

lemma dict_destroy:
  assumes "dict_ok d" "dd_items d \<le> fuel"
  shows "ds_diction_destroy True fuel (Some d) = Inr None"
proof -
  obtain c r tbl' where st: "tbl_next tm_key (dd_bucket (dd_size d)) (dd_size d) (dd_tbl d) (0, None) = Inr (c, r)"
    "tbl_destroy tm_key (dd_bucket (dd_size d)) (dd_size d) fuel (dd_tbl d) c r = Inr tbl'"
    using dict.destroy_all[OF dict_okD(2,1)[OF assms(1)], of fuel] assms dict_okD(3) by force
  from destroy_terms_tbl[OF assms(1) st(2)] obtain d' where
    "destroy_terms fuel d (Some c) r = Inr d'" "dict_ok d'" by blast
  then show ?thesis
    using st(1) by (simp add: ds_diction_destroy_def ds_diction_cursor_def ds_diction_next_def
        nt_destroy_ok dict_okD(4,5))
qed

section \<open>Properties\<close>

lemma prime_scan_least:
  "prime_scan ps n = Inr p \<Longrightarrow> sorted ps \<Longrightarrow> p \<in> set ps \<and> n \<le> p \<and> (\<forall>q\<in>set ps. n \<le> q \<longrightarrow> p \<le> q)"
  by (induction ps) (auto split: if_splits)

lemma prime_scan_fault: "(\<exists>e. prime_scan ps n = Inl e) \<longleftrightarrow> (\<forall>p\<in>set ps. p < n)"
  by (induction ps) auto

text \<open>
  A new dictionary is empty and well formed, and its table has the least listed prime
  that is at least the size asked for; a size above the last prime makes the search run off
  the end of the prime list.
\<close>

theorem diction_create_size:
  "(if n \<le> 4294967291 then
      \<exists>d. ds_diction_create (\<lambda>_. True) n = Inr (Some d) \<and> dict_ok d \<and> ds_diction_find d = Map.empty \<and>
        dd_size d \<in> set ds_prime_list \<and> n \<le> dd_size d \<and>
        (\<forall>p\<in>set ds_prime_list. p < dd_size d \<longrightarrow> p < n)
    else ds_diction_create (\<lambda>_. True) n = Inl OutOfBounds)"
proof (cases "prime_scan ds_prime_list n")
  case (Inl e)
  have "prime_scan ps n = Inl e \<Longrightarrow> e = OutOfBounds" for ps by (induction ps) (auto split: if_splits)
  then have "e = OutOfBounds" using Inl by blast
  moreover have "\<not> n \<le> 4294967291"
    using prime_scan_fault[of ds_prime_list n] Inl by (auto simp: ds_prime_list_def)
  ultimately show ?thesis using Inl by (simp add: ds_diction_create_def)
next
  case (Inr p)
  have p: "p \<in> set ds_prime_list" "n \<le> p" "\<forall>q\<in>set ds_prime_list. n \<le> q \<longrightarrow> p \<le> q"
    using prime_scan_least[OF Inr] by (auto simp: ds_prime_list_def)
  have p0: "0 < p" "p \<le> 4294967291" using p(1) by (auto simp: ds_prime_list_def)
  define d where "d = \<lparr>dd_size = p, dd_items = 0, dd_tbl = replicate p [], dd_whitelist_token = 0,
    dd_order = nt_create NT_INDEX, dd_chained_order = nt_create NT_INDEX\<rparr>"
  have "dict_ok d" using p0 by (simp add: dict_ok_def d_def tbl_ok_def)
  moreover have "ds_diction_find d = Map.empty"
    using p0 by (auto simp: ds_diction_find_def d_def chain_find_def dd_bucket_def fun_eq_iff)
  ultimately show ?thesis
    using p p0 Inr by (auto simp: ds_diction_create_def d_def not_less[symmetric])
qed

theorem diction_create_size_witness:
  "\<exists>d. ds_diction_create (\<lambda>_. True) 100 = Inr (Some d) \<and> dict_ok d \<and> ds_diction_find d = Map.empty \<and>
     dd_size d \<in> set ds_prime_list \<and> 100 \<le> dd_size d \<and>
     (\<forall>p\<in>set ds_prime_list. p < dd_size d \<longrightarrow> p < 100)"
  using diction_create_size[of 100] by simp

text \<open>
  C27. The dictionary refines a finite map from tokens to terms. Touching a token adds a new
  term with frequency 1 or counts one more occurrence of the term that is there (and fills
  in a missing name), changes no other term, and appends the token to the list of the order
  the flags name and to no other; deleting it removes exactly that term; \<open>items\<close> is the
  number of tokens.
\<close>

theorem diction_refines_map:
  assumes "dict_ok d"
  shows "(\<exists>d'. ds_diction_touch True d k name flags = Inr (d', Some k) \<and> dict_ok d' \<and>
      ds_diction_find d' = (ds_diction_find d)(k \<mapsto> touched k name (ds_diction_find d k)) \<and>
      nt_first (dd_order d') = nt_first (dd_order d) @
        (if flags AND DSD_CONTEXT \<noteq> 0 \<and> flags AND DSD_CHAINED = 0 then [k] else []) \<and>
      nt_first (dd_chained_order d') = nt_first (dd_chained_order d) @
        (if flags AND DSD_CONTEXT \<noteq> 0 \<and> flags AND DSD_CHAINED \<noteq> 0 then [k] else [])) \<and>
    dict_ok (ds_diction_delete d k) \<and>
    ds_diction_find (ds_diction_delete d k) = (ds_diction_find d)(k := None) \<and>
    dd_items d = card (dom (ds_diction_find d))"
  using touch_spec[OF assms, of k name flags] delete_spec[OF assms, of k] items_card_dom[OF assms]
  by blast

definition small_dict :: ds_diction where
  "small_dict = \<lparr>dd_size = 53, dd_items = 0, dd_tbl = replicate 53 [], dd_whitelist_token = 0,
     dd_order = nt_create NT_INDEX, dd_chained_order = nt_create NT_INDEX\<rparr>"

lemma small_dict_ok: "dict_ok small_dict"
  by (simp add: small_dict_def dict_ok_def tbl_ok_def)

theorem diction_refines_map_witness:
  "dict_ok small_dict \<and>
   (\<exists>d'. ds_diction_touch True small_dict 60 (Some ''viagra'') 2 = Inr (d', Some 60) \<and>
      nt_first (dd_order d') = [60])"
  using diction_refines_map[OF small_dict_ok, of 60 "Some ''viagra''" 2] small_dict_ok
  by (auto simp: DSD_CONTEXT_def DSD_CHAINED_def small_dict_def)

text \<open>
  A traversal of the dictionary with a cursor ends and yields every token exactly once.
\<close>

theorem diction_walk_once:
  assumes "dict_ok d" "dd_items d < fuel"
  shows "\<exists>ks. dict_walk d fuel (ds_diction_cursor True) = Inr ks \<and> distinct ks \<and>
    set ks = dom (ds_diction_find d) \<and> length ks = dd_items d"
proof -
  have "dict_walk d fuel (ds_diction_cursor True) = Inr (map tm_key (dict_terms d))"
    using dict.walk_all[OF dict_okD(2,1)[OF assms(1)], of fuel] assms(2) dict_okD(3)[OF assms(1)]
    by (simp add: ds_diction_cursor_def dict_walk_tbl dict_terms_def)
  moreover have "set (map tm_key (dict_terms d)) = dom (ds_diction_find d)"
    using find_iff[OF assms(1)] by (auto simp: dom_def image_iff)
  ultimately show ?thesis
    using distinct_terms[OF assms(1)] dict_okD(3)[OF assms(1)] by (auto simp: dict_terms_def)
qed

theorem diction_walk_once_witness:
  "dict_ok small_dict \<and> (\<exists>ks. dict_walk small_dict 1 (ds_diction_cursor True) = Inr ks \<and> length ks = 0)"
  using diction_walk_once[OF small_dict_ok, of 1] small_dict_ok by (auto simp: small_dict_def)



text \<open>
  The statistics of a term are read back as they were set, adding statistics to them adds
  the hits of both, and no other term changes; an unknown token is refused with -1 and
  nothing changes.
\<close>

theorem diction_stats:
  assumes "dict_ok d"
  shows "case ds_diction_find d k of
      None \<Rightarrow> ds_diction_setstat d k s = (d, - 1) \<and> ds_diction_addstat d k s = (d, - 1) \<and>
        ds_diction_getstat d k s0 = (s0, - 1)
    | Some t \<Rightarrow>
        (\<exists>d'. ds_diction_setstat d k s = (d', 0) \<and> dict_ok d' \<and> ds_diction_getstat d' k s0 = (s, 0) \<and>
           (\<forall>k'. k' \<noteq> k \<longrightarrow> ds_diction_find d' k' = ds_diction_find d k')) \<and>
        (\<exists>d' s'. ds_diction_addstat d k s = (d', 0) \<and> dict_ok d' \<and> ds_diction_getstat d' k s0 = (s', 0) \<and>
           st_spam_hits s' = st_spam_hits (tm_s t) + st_spam_hits s \<and>
           st_innocent_hits s' = st_innocent_hits (tm_s t) + st_innocent_hits s \<and>
           (\<forall>k'. k' \<noteq> k \<longrightarrow> ds_diction_find d' k' = ds_diction_find d k'))"
proof (cases "ds_diction_find d k")
  case (Some t)
  note set = setstat_spec[OF assms Some, of s]
  have add: "dict_ok (dd_update d k (\<lambda>t. t\<lparr>tm_s := stat_add (tm_s t) s\<rparr>))"
    "ds_diction_find (dd_update d k (\<lambda>t. t\<lparr>tm_s := stat_add (tm_s t) s\<rparr>)) k' =
       (if k' = k then Some (t\<lparr>tm_s := stat_add (tm_s t) s\<rparr>) else ds_diction_find d k')" for k'
    using dict_ok_update[OF assms, of "\<lambda>t. t\<lparr>tm_s := stat_add (tm_s t) s\<rparr>"]
      find_update[OF assms, of "\<lambda>t. t\<lparr>tm_s := stat_add (tm_s t) s\<rparr>"] Some by auto
  show ?thesis using Some set add
    by (auto simp: ds_diction_getstat_def ds_diction_addstat_def stat_add_def)
qed (simp add: ds_diction_setstat_def ds_diction_addstat_def ds_diction_getstat_def)

theorem diction_stats_witness:
  "dict_ok small_dict \<and> ds_diction_setstat small_dict 5 zero_stat = (small_dict, - 1)"
proof -
  have "ds_diction_find small_dict 5 = None"
    by (simp add: small_dict_def ds_diction_find_def chain_find_def dd_bucket_def)
  then show ?thesis using diction_stats[OF small_dict_ok, of 5 zero_stat] small_dict_ok by simp
qed

end
