(* ===== verification/Ds_Util.thy ===== *)
theory Ds_Util
  imports C_Float
begin

text \<open>
  util.c: the string, checksum and arithmetic helpers of the library. A C string is the list
  of its characters before the NUL; where a routine can read beyond the terminator, it works
  on positions of the string and such a read is a fault. Character classes are those of the
  C locale.
\<close>

unbundle bit_operations_syntax

section \<open>Characters\<close>

definition c_isspace :: "char \<Rightarrow> bool" where
  "c_isspace c \<longleftrightarrow> c = CHR '' '' \<or> 9 \<le> (of_char c :: nat) \<and> (of_char c :: nat) \<le> 13"

definition c_isupper :: "char \<Rightarrow> bool" where
  "c_isupper c \<longleftrightarrow> 65 \<le> (of_char c :: nat) \<and> (of_char c :: nat) \<le> 90"

definition c_tolower :: "char \<Rightarrow> char" where
  "c_tolower c = (if c_isupper c then char_of ((of_char c :: nat) + 32) else c)"

text \<open>The character at a position: the terminator at the length, a fault beyond it.\<close>

definition c_at :: "string \<Rightarrow> nat \<Rightarrow> char cres" where
  "c_at s i = (if i < length s then Inr (s ! i) else if i = length s then Inr (CHR 0x00) else Inl OutOfBounds)"

section \<open>Tokens and trimming\<close>

text \<open>\<^verbatim>\<open>strtok_r\<close>: the token and the rest to continue with, None when no token is left.\<close>

definition strtok_r :: "string \<Rightarrow> string \<Rightarrow> (string \<times> string) option" where
  "strtok_r s1 s2 =
     (let s1 = dropWhile (\<lambda>c. c \<in> set s2) s1 in
      if s1 = [] then None
      else Some (takeWhile (\<lambda>c. c \<notin> set s2) s1, drop 1 (dropWhile (\<lambda>c. c \<notin> set s2) s1)))"

text \<open>\<^verbatim>\<open>strsep\<close>: the token may be empty; the rest is NULL after the last one.\<close>

definition strsep :: "string option \<Rightarrow> string \<Rightarrow> (string \<times> string option) option" where
  "strsep stringp delim =
     (case stringp of
        None \<Rightarrow> None
      | Some s \<Rightarrow>
          (case dropWhile (\<lambda>c. c \<notin> set delim) s of
             [] \<Rightarrow> Some (s, None)
           | d # rest \<Rightarrow> Some (takeWhile (\<lambda>c. c \<notin> set delim) s, Some rest)))"

definition chomp :: "string \<Rightarrow> string" where
  "chomp s =
     (let s1 = (if s \<noteq> [] \<and> last s = CHR 0x0A then butlast s else s)
      in if s1 \<noteq> [] \<and> last s1 = CHR 0x0D then butlast s1 else s1)"

definition ltrim :: "string \<Rightarrow> string" where
  "ltrim s = dropWhile c_isspace s"

definition rtrim :: "string \<Rightarrow> string" where
  "rtrim s = rev (dropWhile c_isspace (rev s))"

section \<open>Bounded copies\<close>

text \<open>
  \<^verbatim>\<open>strlcpy\<close> and \<^verbatim>\<open>strlcat\<close> on the memory of the destination. The loops carry the position
  written next, the bytes of the source that are left (with its terminator) and the room.
\<close>

definition put_byte :: "char list \<Rightarrow> nat \<Rightarrow> char \<Rightarrow> char list cres" where
  "put_byte dst d c = (if d < length dst then Inr (dst[d := c]) else Inl OutOfBounds)"

fun strlcpy_loop :: "char list \<Rightarrow> nat \<Rightarrow> string \<Rightarrow> nat \<Rightarrow> (char list \<times> nat \<times> nat) cres" where
  "strlcpy_loop dst d src 0 = Inr (dst, d, 0)"
| "strlcpy_loop dst d [] (Suc n) = cbind (put_byte dst d (CHR 0x00)) (\<lambda>dst'. Inr (dst', Suc d, Suc n))"
| "strlcpy_loop dst d (c # src) (Suc n) =
     cbind (put_byte dst d c) (\<lambda>dst'. strlcpy_loop dst' (Suc d) src n)"

definition strlcpy :: "char list \<Rightarrow> string \<Rightarrow> nat \<Rightarrow> (char list \<times> nat) cres" where
  "strlcpy dst src siz =
     cbind (strlcpy_loop dst 0 src (siz - 1)) (\<lambda>(dst1, d, n).
       if n = 0
       then if siz \<noteq> 0 then cbind (put_byte dst1 d (CHR 0x00)) (\<lambda>dst2. Inr (dst2, length src))
            else Inr (dst1, length src)
       else Inr (dst1, length src))"

fun strlcat_end :: "char list \<Rightarrow> nat \<Rightarrow> nat \<Rightarrow> nat cres" where
  "strlcat_end dst d 0 = Inr d"
| "strlcat_end dst d (Suc n) =
     (if d < length dst then if dst ! d = CHR 0x00 then Inr d else strlcat_end dst (Suc d) n
      else Inl OutOfBounds)"

fun strlcat_loop :: "char list \<Rightarrow> nat \<Rightarrow> string \<Rightarrow> nat \<Rightarrow> (char list \<times> nat) cres" where
  "strlcat_loop dst d [] n = Inr (dst, d)"
| "strlcat_loop dst d (c # src) n =
     (if n \<noteq> 1 then cbind (put_byte dst d c) (\<lambda>dst'. strlcat_loop dst' (Suc d) src (n - 1))
      else strlcat_loop dst d src n)"

definition strlcat :: "char list \<Rightarrow> string \<Rightarrow> nat \<Rightarrow> (char list \<times> nat) cres" where
  "strlcat dst src siz =
     cbind (strlcat_end dst 0 siz) (\<lambda>dlen.
       if siz - dlen = 0 then Inr (dst, dlen + length src)
       else cbind (strlcat_loop dst dlen src (siz - dlen)) (\<lambda>(dst1, d).
              cbind (put_byte dst1 d (CHR 0x00)) (\<lambda>dst2. Inr (dst2, dlen + length src))))"

definition lc :: "string \<Rightarrow> string \<times> nat" where
  "lc s = (map c_tolower s, length (filter c_isupper s))"

section \<open>CRC-64\<close>

definition POLY64REV :: u64 where "POLY64REV = 0xd800000000000000"

definition crc_bit :: "u64 \<Rightarrow> u64" where
  "crc_bit part = (if part AND 1 \<noteq> 0 then drop_bit 1 part XOR POLY64REV else drop_bit 1 part)"

definition CRCTable :: "nat \<Rightarrow> u64" where
  "CRCTable i = (crc_bit ^^ 8) (of_nat i)"

definition crc_step :: "u64 \<Rightarrow> char \<Rightarrow> u64" where
  "crc_step crc c =
     (let temp1 = drop_bit 8 crc;
          temp2 = CRCTable (unat ((crc XOR of_int (schar c)) AND 0xff))
      in temp1 XOR temp2)"

definition ds_getcrc64 :: "string \<Rightarrow> u64" where
  "ds_getcrc64 s = foldl crc_step 0 s"

section \<open>Markovian weights\<close>

definition ds_compute_sparse_start :: "string \<Rightarrow> nat" where
  "ds_compute_sparse_start token =
     (if take 2 token = ''#+'' then 1 else 0) +
     (if length token \<ge> 2 \<and> drop (length token - 2) token = ''+#'' then 1 else 0)"

text \<open>The loop skips one character after a match and one more as it goes on.\<close>

function sparse_loop :: "string \<Rightarrow> nat \<Rightarrow> nat" where
  "sparse_loop token i =
     (if i < length token then
        if take 3 (drop i token) = ''+#+'' then Suc (sparse_loop token (i + 2))
        else sparse_loop token (i + 1)
      else 0)"
  by pat_completeness auto
termination by (relation "measure (\<lambda>(token, i). length token - i)") auto

definition ds_compute_sparse :: "string \<Rightarrow> nat" where
  "ds_compute_sparse token = ds_compute_sparse_start token + sparse_loop token 0"

function complexity_loop :: "string \<Rightarrow> nat \<Rightarrow> nat \<Rightarrow> nat cres" where
  "complexity_loop token i complexity =
     (if i < length token then
        if token ! i = CHR ''+'' then complexity_loop token (i + 2) (complexity + 1)
        else complexity_loop token (i + 1) complexity
      else if i = length token then Inr complexity
      else Inl OutOfBounds)"
  by pat_completeness auto
termination by (relation "measure (\<lambda>(token, i, c). length token - i)") auto

definition ds_compute_complexity :: "string \<Rightarrow> nat cres" where
  "ds_compute_complexity token = complexity_loop token 0 1"

definition weight_rule :: "nat \<Rightarrow> nat \<Rightarrow> nat" where
  "weight_rule complexity sparse =
     (if complexity = 5 \<and> sparse = 1 then 64
      else if complexity = 5 \<and> sparse = 2 then 16
      else if complexity = 5 \<and> sparse = 3 then 4
      else if complexity = 5 \<and> sparse = 0 then 256
      else if complexity = 4 \<and> sparse = 1 then 16
      else if complexity = 4 \<and> sparse = 2 then 4
      else if complexity = 4 \<and> sparse = 0 then 64
      else if complexity = 3 \<and> sparse = 1 then 4
      else if complexity = 3 \<and> sparse = 0 then 16
      else if complexity = 2 \<and> sparse = 0 then 4
      else if complexity = 1 \<and> sparse = 0 then 1
      else 1)"

definition ds_compute_weight :: "string \<Rightarrow> nat cres" where
  "ds_compute_weight token =
     cbind (ds_compute_complexity token) (\<lambda>complexity.
       Inr (weight_rule complexity (ds_compute_sparse token)))"

definition ds_compute_weight_osb :: "string \<Rightarrow> nat cres" where
  "ds_compute_weight_osb token =
     cbind (ds_compute_complexity token) (\<lambda>complexity.
       Inr (if complexity = 5 then 3125
            else if complexity = 4 then 256
            else if complexity = 3 then 27
            else if complexity = 2 then 4
            else 1))"

section \<open>Addresses\<close>

text \<open>The text between the first \<^verbatim>\<open><\<close> and the \<^verbatim>\<open>>\<close> that follows it, cut to the size of the buffer.\<close>

definition ds_extract_address :: "string \<Rightarrow> nat \<Rightarrow> string \<times> int" where
  "ds_extract_address address len =
     (case dropWhile (\<lambda>c. c \<noteq> CHR ''<'') address of
        [] \<Rightarrow> ([], EFAILURE)
      | x # rest \<Rightarrow> (take (len - 1) (takeWhile (\<lambda>c. c \<noteq> CHR ''>'') rest), 0))"

definition rfc822_specials :: string where
  "rfc822_specials = ''()<>@,;:'' @ [CHR 0x5C, CHR 0x22, CHR ''['', CHR '']'']"

text \<open>\<^verbatim>\<open>strchr(rfc822_specials, c)\<close>, which finds the terminator too.\<close>

definition is_special :: "char \<Rightarrow> bool" where
  "is_special c \<longleftrightarrow> c \<in> set rfc822_specials \<or> c = CHR 0x00"

text \<open>
  The quoted string of a local part, from the position after the opening quote: the position
  of the closing quote or of the terminator, or None when a character is refused.
\<close>

function quoted_scan :: "string \<Rightarrow> nat \<Rightarrow> nat option cres" where
  "quoted_scan e p =
     (if p < length e then
        if e ! p = CHR 0x22 then Inr (Some p)
        else (let p1 = (if e ! p = CHR 0x5C then Suc p else p) in
              cbind (c_at e p1) (\<lambda>c.
                if e ! p = CHR 0x5C \<and> c = CHR '' '' then quoted_scan e (Suc p1)
                else if schar c < 32 \<or> schar c \<ge> 127 then Inr None
                else quoted_scan e (Suc p1)))
      else if p = length e then Inr (Some p)
      else Inl OutOfBounds)"
  by pat_completeness auto
termination by (relation "measure (\<lambda>(e, p). length e - p)") auto

text \<open>
  The loop over the local part: the position where it stops (the at sign or the terminator),
  or None when the address is refused.
\<close>

function local_scan :: "string \<Rightarrow> nat \<Rightarrow> nat \<Rightarrow> nat option cres" where
  "local_scan e 0 p = Inl NoReturn"
| "local_scan e (Suc fuel) p =
     cbind (c_at e p) (\<lambda>c.
       if c = CHR 0x00 then Inr (Some p)
       else if c = CHR 0x22 \<and> (p = 0 \<or> e ! (p - 1) = CHR ''.'' \<or> e ! (p - 1) = CHR 0x22) then
         cbind (quoted_scan e (Suc p)) (\<lambda>r.
           case r of
             None \<Rightarrow> Inr None
           | Some q \<Rightarrow>
               cbind (c_at e q) (\<lambda>cq.
                 if cq = CHR 0x00 then Inr None
                 else cbind (c_at e (Suc q)) (\<lambda>d.
                   if d = CHR ''@'' then Inr (Some (Suc q))
                   else if d \<noteq> CHR ''.'' then Inr None
                   else local_scan e fuel (Suc (Suc q)))))
       else if c = CHR ''@'' then Inr (Some p)
       else (let p1 = (if c = CHR ''.'' then Suc p else p) in
             cbind (c_at e p1) (\<lambda>c1.
               if c = CHR ''.'' \<and> c1 = CHR ''.'' then Inr None
               else if schar c1 \<le> 32 \<or> schar c1 \<ge> 127 then Inr None
               else if is_special c1 then Inr None
               else local_scan e fuel (Suc p1))))"
  by pat_completeness auto
termination by (relation "measure (\<lambda>(e, fuel, p). fuel)") auto

function domain_scan :: "string \<Rightarrow> nat \<Rightarrow> nat \<Rightarrow> nat \<Rightarrow> nat \<Rightarrow> nat option cres" where
  "domain_scan e domain 0 p cnt = Inl NoReturn"
| "domain_scan e domain (Suc fuel) p cnt =
     cbind (c_at e p) (\<lambda>c.
       if c = CHR ''.'' \<and> (p = domain \<or> e ! (p - 1) = CHR ''.'') then Inr None
       else
         (let cnt' = (if c = CHR ''.'' then Suc cnt else cnt) in
          if schar c \<le> 32 \<or> schar c \<ge> 127 then Inr None
          else (let p1 = (if c = CHR ''.'' then Suc p else p) in
            cbind (c_at e p1) (\<lambda>c1.
              if c = CHR ''.'' \<and> c1 = CHR ''.'' then Inr None
              else if is_special c1 then Inr None
              else cbind (c_at e (Suc p1)) (\<lambda>n.
                if n = CHR 0x00 then Inr (Some cnt') else domain_scan e domain fuel (Suc p1) cnt')))))"
  by pat_completeness auto
termination by (relation "measure (\<lambda>(e, domain, fuel, p, cnt). fuel)") auto

definition ds_validate_address :: "string \<Rightarrow> bool cres" where
  "ds_validate_address address =
     (let t = ltrim (rtrim address);
          email = (if t \<noteq> [] \<and> hd t = CHR ''<'' \<and> last t = CHR ''>'' then tl (butlast t) else t);
          fuel = Suc (length email)
      in if email \<noteq> [] \<and> hd email = CHR ''.'' then Inr False
         else cbind (local_scan email fuel 0) (\<lambda>r.
           case r of
             None \<Rightarrow> Inr False
           | Some p \<Rightarrow>
               if p = 0 \<or> email ! (p - 1) = CHR ''.'' then Inr False
               else cbind (c_at email (Suc p)) (\<lambda>d.
                 if d = CHR 0x00 then Inr False
                 else cbind (domain_scan email (Suc p) fuel (Suc p) 0) (\<lambda>n.
                   case n of None \<Rightarrow> Inr False | Some cnt \<Rightarrow> Inr (cnt \<ge> 1)))))"

section \<open>Arithmetic\<close>

text \<open>The sum \<^verbatim>\<open>chi2Q\<close> computes, over the exponential function of the C library.\<close>

definition chi2Q_step :: "fp \<Rightarrow> fp \<times> fp \<Rightarrow> nat \<Rightarrow> fp \<times> fp" where
  "chi2Q_step m st i =
     (let t' = fmul double_fmt (snd st) (fdiv double_fmt m (fof_int double_fmt (int i)))
      in (fadd double_fmt (fst st) t', t'))"

definition chi2Q :: "(fp \<Rightarrow> fp) \<Rightarrow> fp \<Rightarrow> int \<Rightarrow> fp" where
  "chi2Q c_exp x v =
     (let m = fdiv double_fmt x (dlit 2);
          s = c_exp (fneg m);
          (s', t) = foldl (chi2Q_step m) (s, s) [1..<nat (v div 2)]
      in if flt s' (dlit 1) then s' else dlit 1)"

function ds_pow_loop :: "u32 \<Rightarrow> u32 \<Rightarrow> nat \<Rightarrow> u32" where
  "ds_pow_loop result base e =
     (if e > 0 then ds_pow_loop (if odd e then result * base else result) (base * base) (e div 2)
      else result)"
  by pat_completeness auto
termination by (relation "measure (\<lambda>(result, base, e). e)") auto

definition ds_pow :: "u32 \<Rightarrow> u32 \<Rightarrow> u32" where
  "ds_pow base e = ds_pow_loop 1 base (unat e)"

definition ds_pow2 :: "u32 \<Rightarrow> u32" where
  "ds_pow2 e = ds_pow 2 e"

text \<open>\<^verbatim>\<open>while (r % 5) r++\<close>\<close>

function round_up5 :: "int \<Rightarrow> int" where
  "round_up5 r = (if r mod 5 \<noteq> 0 then round_up5 (r + 1) else r)"
  by pat_completeness auto
termination
  by (relation "measure (\<lambda>r. nat ((- r) mod 5))") (auto simp: zmod_zminus1_eq_if, presburger)

definition ds_round :: "fp \<Rightarrow> fp option" where
  "ds_round n =
     (case ftrunc (fmul single_fmt n (Fin 100)) of
        None \<Rightarrow> None
      | Some r \<Rightarrow> Some (fcast single_fmt (fdiv double_fmt (fof_int double_fmt (round_up5 r)) (dlit 100))))"

text \<open>\<^verbatim>\<open>strcasestr\<close>: the position of the first occurrence that ignores case.\<close>

fun strcasestr_at :: "string \<Rightarrow> string \<Rightarrow> nat \<Rightarrow> nat option" where
  "strcasestr_at [] needle pos = (if needle = [] then Some pos else None)"
| "strcasestr_at (sc # s) needle pos =
     (case needle of
        [] \<Rightarrow> Some pos
      | c # cs \<Rightarrow>
          if c_tolower sc = c_tolower c \<and> map c_tolower (take (length cs) s) = map c_tolower cs
          then Some pos else strcasestr_at s needle (Suc pos))"

definition strcasestr :: "string \<Rightarrow> string \<Rightarrow> nat option" where
  "strcasestr s needle = strcasestr_at s needle 0"

declare sparse_loop.simps [simp del] complexity_loop.simps [simp del] quoted_scan.simps [simp del]
  ds_pow_loop.simps [simp del] round_up5.simps [simp del]

section \<open>Lemmas on the loops\<close>

lemma put_byte_in: "d < length dst \<Longrightarrow> put_byte dst d c = Inr (dst[d := c])"
  by (simp add: put_byte_def)

lemma take_update_last: "d < length xs \<Longrightarrow> take (Suc d) (xs[d := c]) = take d xs @ [c]"
  by (simp add: take_Suc_conv_app_nth)

lemma strlcpy_loop_ok:
  assumes "d + n < length dst"
  shows "\<exists>dst'. strlcpy_loop dst d src n =
      Inr (dst', if length src < n then (d + length src + 1, n - length src) else (d + n, 0)) \<and>
    length dst' = length dst \<and> take (d + min n (length src)) dst' = take d dst @ take n src \<and>
    (length src < n \<longrightarrow> dst' ! (d + length src) = CHR 0x00) \<and>
    (\<forall>i. d + n \<le> i \<longrightarrow> dst' ! i = dst ! i)"
  using assms
proof (induction dst d src n rule: strlcpy_loop.induct)
  case (2 dst d n)
  then show ?case by (simp add: put_byte_in)
next
  case (3 dst d c src n)
  have pb: "put_byte dst d c = Inr (dst[d := c])" using 3 by (simp add: put_byte_in)
  from 3(1)[of "dst[d := c]"] 3(2) obtain dst' where
    "strlcpy_loop (dst[d := c]) (Suc d) src n =
      Inr (dst', if length src < n then (Suc d + length src + 1, n - length src) else (Suc d + n, 0))"
    "length dst' = length dst" "take (Suc d + min n (length src)) dst' = take (Suc d) (dst[d := c]) @ take n src"
    "length src < n \<longrightarrow> dst' ! (Suc d + length src) = CHR 0x00"
    "\<forall>i. Suc d + n \<le> i \<longrightarrow> dst' ! i = dst[d := c] ! i" by auto
  then show ?case using 3(2) pb by (auto simp: take_update_last)
qed auto

lemma strlcat_end_ok:
  assumes "d + n \<le> length dst"
  shows "strlcat_end dst d n = Inr (d + length (takeWhile (\<lambda>c. c \<noteq> CHR 0x00) (take n (drop d dst))))"
  using assms
proof (induction dst d n rule: strlcat_end.induct)
  case (2 dst d n)
  then have "take (Suc n) (drop d dst) = dst ! d # take n (drop (Suc d) dst)"
    by (simp add: Cons_nth_drop_Suc[symmetric])
  then show ?case using 2 by simp
qed simp

lemma strlcat_loop_ok:
  assumes "d + n \<le> length dst" "0 < n"
  shows "\<exists>dst'. strlcat_loop dst d src n = Inr (dst', d + min (n - 1) (length src)) \<and>
    length dst' = length dst \<and> take (d + min (n - 1) (length src)) dst' = take d dst @ take (n - 1) src"
  using assms
proof (induction dst d src n rule: strlcat_loop.induct)
  case (2 dst d c src n)
  show ?case
  proof (cases "n = 1")
    case False
    then obtain m where m: "n = Suc (Suc m)" using 2 by (metis One_nat_def gr0_conv_Suc nat_neq_iff not_less_eq)
    have "put_byte dst d c = Inr (dst[d := c])" using 2 by (simp add: put_byte_in)
    moreover from 2(1)[OF False, of "dst[d := c]"] 2(3) m obtain dst' where
      "strlcat_loop (dst[d := c]) (Suc d) src (n - 1) = Inr (dst', Suc d + min m (length src))"
      "length dst' = length dst" "take (Suc d + min m (length src)) dst' = take (Suc d) (dst[d := c]) @ take m src"
      by auto
    ultimately show ?thesis using 2(3) m by (auto simp: take_update_last)
  qed (use 2 in simp)
qed simp

lemma pow_loop: "ds_pow_loop result base e = result * base ^ e"
proof (induction result base e rule: ds_pow_loop.induct)
  case (1 result base e)
  have "base ^ e = (base * base) ^ (e div 2) * (if odd e then base else 1)"
    using power_add[of base "2 * (e div 2)" "e mod 2"] by (simp add: power_mult power2_eq_square odd_iff_mod_2_eq_one)
  then show ?case using 1 by (subst ds_pow_loop.simps) (auto simp: mult.assoc mult.left_commute mult.commute)
qed

lemma round_up5_spec: "r \<le> round_up5 r \<and> round_up5 r < r + 5 \<and> round_up5 r mod 5 = 0"
proof (induction r rule: round_up5.induct)
  case (1 r)
  show ?case
  proof (cases "r mod 5 = 0")
    case False
    then have "round_up5 r = round_up5 (r + 1)" by (subst round_up5.simps) simp
    with 1[OF False] False show ?thesis by simp presburger
  qed (subst round_up5.simps; simp)+
qed

section \<open>CRC-64: linearity\<close>

lemma crc_bit_xor: "crc_bit (a XOR b) = crc_bit a XOR crc_bit b"
proof -
  have odd: "(x AND 1 \<noteq> 0) = odd x" for x :: u64 by (simp add: and_one_eq mod_2_eq_odd)
  show ?thesis
    by (auto simp: crc_bit_def odd drop_bit_xor even_xor_iff xor.assoc xor.left_commute xor.commute)
qed

lemma crc_bits_xor: "(crc_bit ^^ n) (a XOR b) = (crc_bit ^^ n) a XOR (crc_bit ^^ n) b"
  by (induction n arbitrary: a b) (simp_all add: crc_bit_xor)

lemma crc_bits_high:
  assumes "take_bit n (a::u64) = 0" "m \<le> n"
  shows "(crc_bit ^^ m) a = drop_bit m a"
  using assms(2)
proof (induction m)
  case (Suc m)
  have "\<not> bit a m" using assms(1) Suc.prems by (metis Suc_le_lessD bit_0_eq bit_take_bit_iff bot_apply bot_bool_def)
  then have "drop_bit m a AND 1 = 0" by (simp add: and_one_eq bit_iff_odd_drop_bit even_iff_mod_2_eq_zero)
  then show ?case using Suc by (simp add: crc_bit_def)
qed simp

lemma and_ff: "(x::u64) AND 0xff = take_bit 8 x"
proof -
  have "(0xff::u64) = mask 8" by (simp add: mask_eq_exp_minus_1)
  then show ?thesis by (simp add: take_bit_eq_mask)
qed

lemma crc_byte: "(crc_bit ^^ 8) x = drop_bit 8 x XOR (crc_bit ^^ 8) (x AND 0xff)"
proof -
  define hi where "hi = push_bit 8 (drop_bit 8 x)"
  have lt: "bit x (8 + n) \<Longrightarrow> n < 56" for n using bit_imp_le_length[of x "8 + n"] by simp
  have x: "x = hi XOR take_bit 8 x" and hi: "take_bit 8 hi = 0" "drop_bit 8 hi = drop_bit 8 x"
    by (auto intro!: bit_word_eqI simp: hi_def bit_simps lt)
  have "(crc_bit ^^ 8) (hi XOR take_bit 8 x) = (crc_bit ^^ 8) hi XOR (crc_bit ^^ 8) (take_bit 8 x)"
    by (rule crc_bits_xor)
  then show ?thesis unfolding x[symmetric] and_ff crc_bits_high[OF hi(1) order_refl] hi(2) .
qed

text \<open>The reference: one byte is added to the register, which is then shifted bit by bit.\<close>

definition crc_ref_step :: "u64 \<Rightarrow> char \<Rightarrow> u64" where
  "crc_ref_step crc c = (crc_bit ^^ 8) (crc XOR of_nat (of_char c))"

lemma schar_low: "take_bit 8 (of_int (schar c) :: u64) = of_nat (of_char c)"
proof -
  have "(of_char c :: int) < 256" "0 \<le> (of_char c :: int)"
    by (metis of_char_mod_256 pos_mod_bound zero_less_numeral, metis of_char_mod_256 pos_mod_sign zero_less_numeral)
  moreover have "(of_char c - 256) mod 256 = (of_char c :: int) mod 256" by simp
  ultimately have m: "schar c mod 256 = of_char c" unfolding schar_def by simp
  have "uint (take_bit 8 (of_int (schar c) :: u64)) = take_bit 8 (schar c)"
    by (simp add: unsigned_take_bit_eq unsigned_of_int)
  also have "\<dots> = of_char c" using m by (simp add: take_bit_eq_mod)
  also have "\<dots> = uint (of_nat (of_char c) :: u64)"
  proof -
    have "take_bit 64 (of_char c :: int) = of_char c"
      by (rule take_bit_int_eq_self) (use \<open>(of_char c :: int) < 256\<close> \<open>0 \<le> (of_char c :: int)\<close> in simp_all)
    then show ?thesis
      unfolding unsigned_of_nat unfolding of_nat_take_bit unfolding of_nat_of_char by simp
  qed
  finally show ?thesis by (simp add: word_uint_eq_iff)
qed

lemma crc_step_ref: "crc_step crc c = crc_ref_step crc c"
proof -
  define b where "b = (of_nat (of_char c) :: u64)"
  have tb: "take_bit 8 (crc XOR of_int (schar c)) = take_bit 8 crc XOR b"
    by (simp add: take_bit_xor schar_low b_def)
  have tbb: "take_bit 8 b = b" unfolding b_def schar_low[symmetric] by simp
  have db: "drop_bit 8 b = 0"
    using tbb by (metis drop_bit_take_bit drop_bit_of_0 diff_self_eq_0 take_bit_0)
  have "crc_ref_step crc c = drop_bit 8 (crc XOR b) XOR (crc_bit ^^ 8) ((crc XOR b) AND 0xff)"
    unfolding crc_ref_step_def b_def[symmetric] by (rule crc_byte)
  moreover have "(crc XOR b) AND 0xff = (crc XOR of_int (schar c)) AND 0xff"
    unfolding and_ff tb by (simp add: take_bit_xor tbb)
  moreover have "CRCTable (unat w) = (crc_bit ^^ 8) w" for w :: u64 by (simp add: CRCTable_def)
  ultimately show ?thesis by (simp add: crc_step_def Let_def drop_bit_xor db)
qed

lemma weight_formula:
  assumes "1 \<le> c" "c \<le> 5"
  shows "weight_rule c s = (if s < c then 4 ^ (c - s - 1) else 1)"
proof -
  have "c = 1 \<or> c = 2 \<or> c = 3 \<or> c = 4 \<or> c = 5" using assms by auto
  moreover have "s \<ge> 5 \<or> s = 0 \<or> s = 1 \<or> s = 2 \<or> s = 3 \<or> s = 4" by auto
  ultimately show ?thesis by (elim disjE) (simp_all add: weight_rule_def)
qed

section \<open>Properties\<close>

text \<open>
  C28. The table-driven checksum of a token equals the bit-by-bit CRC-64 with the reversed
  polynomial 0xd8..., for every string, bytes from 128 on included.
\<close>

theorem crc64_table_driven: "ds_getcrc64 s = foldl crc_ref_step 0 s"
  unfolding ds_getcrc64_def using crc_step_ref by (metis (no_types, lifting) ext)

text \<open>
  The rules for the Markovian weights agree with the formulas they replace: a token of
  complexity 1 to 5 with \<open>s\<close> gaps weighs 2 to the power of 2 (complexity - s - 1), at least
  1, and its OSB weight is complexity to the power of complexity.
\<close>

theorem weights_match_formula:
  assumes "ds_compute_complexity token = Inr c" "1 \<le> c" "c \<le> 5"
  shows "ds_compute_weight token =
      Inr (let s = ds_compute_sparse token in if s < c then 2 ^ (2 * (c - s - 1)) else 1) \<and>
    ds_compute_weight_osb token = Inr (c ^ c)"
proof -
  have four: "4 ^ n = (2::nat) ^ (2 * n)" for n by (simp add: power_mult)
  have "c = 1 \<or> c = 2 \<or> c = 3 \<or> c = 4 \<or> c = 5" using assms by auto
  then have "ds_compute_weight_osb token = Inr (c ^ c)"
    using assms(1) by (auto simp: ds_compute_weight_osb_def)
  then show ?thesis using assms(1) weight_formula[OF assms(2,3)]
    by (simp add: ds_compute_weight_def four Let_def)
qed

theorem weights_match_formula_witness:
  "ds_compute_weight ''the+#+fox'' = Inr 4 \<and> ds_compute_weight_osb ''the+#+fox'' = Inr 27"
proof -
  have "ds_compute_complexity ''the+#+fox'' = Inr 3" "ds_compute_sparse ''the+#+fox'' = 1"
    by (simp_all add: ds_compute_complexity_def ds_compute_sparse_def ds_compute_sparse_start_def
        complexity_loop.simps sparse_loop.simps)
  then show ?thesis using weights_match_formula[of "''the+#+fox''" 3] by (simp add: Let_def)
qed

text \<open>
  A token that ends in a plus sign makes the computation of the complexity step over the
  terminator and read beyond the string.
\<close>

theorem complexity_trailing_plus:
  assumes "CHR ''+'' \<notin> set s"
  shows "ds_compute_complexity (s @ ''+'') = Inl OutOfBounds"
proof -
  have "i \<le> length s \<Longrightarrow> complexity_loop (s @ ''+'') i n = Inl OutOfBounds" for i n
  proof (induction "length s - i" arbitrary: i n)
    case 0
    then have "i = length s" by simp
    then show ?case by (simp add: complexity_loop.simps[of _ "length s"] complexity_loop.simps[of _ "Suc (Suc (length s))"])
  next
    case (Suc k)
    then have "i < length s" "(s @ ''+'') ! i \<noteq> CHR ''+''"
      using assms by (auto simp: nth_append) (metis nth_mem)
    then show ?case using Suc by (subst complexity_loop.simps) simp
  qed
  then show ?thesis by (simp add: ds_compute_complexity_def)
qed

theorem complexity_trailing_plus_witness: "ds_compute_complexity ''c+'' = Inl OutOfBounds"
  using complexity_trailing_plus[of "''c''"] by simp

text \<open>
  Exponentiation by squaring is the power in 32-bit arithmetic, wrap-around included.
\<close>

theorem ds_pow_power: "ds_pow base e = base ^ unat e"
  by (simp add: ds_pow_def pow_loop)

lemma strlcpy_ok:
  assumes "siz \<le> length dst"
  shows "\<exists>dst'. strlcpy dst src siz = Inr (dst', length src) \<and> length dst' = length dst \<and>
      (\<forall>i. siz \<le> i \<longrightarrow> dst' ! i = dst ! i) \<and>
      (0 < siz \<longrightarrow> take (min siz (length src + 1)) dst' = take (siz - 1) src @ [CHR 0x00])"
proof (cases siz)
  case (Suc n)
  from strlcpy_loop_ok[of 0 n dst src] assms Suc obtain dst1 where
    l: "strlcpy_loop dst 0 src n = Inr (dst1, if length src < n then (length src + 1, n - length src) else (n, 0))"
    "length dst1 = length dst" "take (min n (length src)) dst1 = take n src"
    "length src < n \<longrightarrow> dst1 ! length src = CHR 0x00" "\<forall>i. n \<le> i \<longrightarrow> dst1 ! i = dst ! i" by auto
  show ?thesis
  proof (cases "length src < n")
    case True
    then show ?thesis using l Suc assms
      by (auto simp: strlcpy_def take_Suc_conv_app_nth)
  next
    case False
    then show ?thesis using l Suc assms
      by (auto simp: strlcpy_def put_byte_in take_update_last min_def)
  qed
qed (simp add: strlcpy_def)

lemma strlcat_ok:
  assumes "siz \<le> length dst" and old_def: "old = takeWhile (\<lambda>c. c \<noteq> CHR 0x00) (take siz dst)"
  shows "\<exists>dst'. strlcat dst src siz = Inr (dst', length old + length src) \<and> length dst' = length dst \<and>
      (length old < siz \<longrightarrow> take (length old + min (siz - length old) (length src + 1)) dst' =
           old @ take (siz - length old - 1) src @ [CHR 0x00])"
proof -
  have len: "length old \<le> siz"
    using length_takeWhile_le[of _ "take siz dst"] assms unfolding old_def by (metis length_take min.absorb2)
  have "take (length old) (take siz dst) = old"
    unfolding old_def by (rule takeWhile_eq_take[symmetric])
  with len have old: "take (length old) dst = old" "length old \<le> siz" by (simp_all add: min_absorb1)
  have e: "strlcat_end dst 0 siz = Inr (length old)" using strlcat_end_ok[of 0 siz dst] assms by (simp add: old_def)
  show ?thesis
  proof (cases "length old < siz")
    case True
    define n where "n = siz - length old"
    from strlcat_loop_ok[of "length old" n dst src] assms True obtain dst1 where
      l: "strlcat_loop dst (length old) src n = Inr (dst1, length old + min (n - 1) (length src))"
      "length dst1 = length dst" "take (length old + min (n - 1) (length src)) dst1 = old @ take (n - 1) src"
      using old by (auto simp: n_def)
    have p: "length old + min (n - 1) (length src) < length dst1"
      "min n (length src + 1) = Suc (min (n - 1) (length src))"
      using l(2) assms True by (auto simp: n_def)
    show ?thesis using e l p True
      by (simp add: strlcat_def n_def[symmetric] put_byte_in take_update_last)
  qed (use e old in \<open>simp add: strlcat_def\<close>)
qed

text \<open>
  The bounded string functions. \<^verbatim>\<open>strlcpy\<close> writes only within \<open>siz\<close> bytes, always
  terminates what it wrote and returns the length of the source; \<^verbatim>\<open>strlcat\<close> appends as much
  as fits, terminates it within \<open>siz\<close>, and returns the length it tried to create.
\<close>

theorem strlcpy_strlcat:
  assumes "siz \<le> length dst"
  shows "(\<exists>dst'. strlcpy dst src siz = Inr (dst', length src) \<and> length dst' = length dst \<and>
      (\<forall>i. siz \<le> i \<longrightarrow> dst' ! i = dst ! i) \<and>
      (0 < siz \<longrightarrow> take (min siz (length src + 1)) dst' = take (siz - 1) src @ [CHR 0x00])) \<and>
    (let old = takeWhile (\<lambda>c. c \<noteq> CHR 0x00) (take siz dst) in
      \<exists>dst'. strlcat dst src siz = Inr (dst', length old + length src) \<and> length dst' = length dst \<and>
      (length old < siz \<longrightarrow>
         take (length old + min (siz - length old) (length src + 1)) dst' =
           old @ take (siz - length old - 1) src @ [CHR 0x00]))"
  unfolding Let_def by (rule conjI[OF strlcpy_ok[OF assms] strlcat_ok[OF assms refl]])

theorem strlcpy_strlcat_witness:
  "\<exists>dst'. strlcpy ''xxxx'' ''hello'' 4 = Inr (dst', 5) \<and> take 4 dst' = ''hel'' @ [CHR 0x00]"
  using strlcpy_strlcat[of 4 "''xxxx''" "''hello''"] by auto

text \<open>An atom of an address: printable characters that are neither special nor a dot.\<close>

definition addr_atom :: "string \<Rightarrow> bool" where
  "addr_atom s \<longleftrightarrow> s \<noteq> [] \<and>
     (\<forall>c\<in>set s. 33 \<le> schar c \<and> schar c < 127 \<and> \<not> is_special c \<and> c \<noteq> CHR ''.'')"

lemma atom_char:
  assumes "33 \<le> schar c" "\<not> is_special c"
  shows "c \<noteq> CHR ''@''" "c \<noteq> CHR 0x22" "c \<noteq> CHR 0x00" "c \<noteq> CHR ''<''" "\<not> c_isspace c"
proof -
  have "c \<noteq> CHR ''@'' \<and> c \<noteq> CHR 0x22 \<and> c \<noteq> CHR 0x00 \<and> c \<noteq> CHR ''<''"
    using assms(2) unfolding is_special_def rfc822_specials_def by force
  then show "c \<noteq> CHR ''@''" "c \<noteq> CHR 0x22" "c \<noteq> CHR 0x00" "c \<noteq> CHR ''<''" by simp_all
  have "schar c \<le> int (of_char c)" unfolding schar_def of_nat_of_char by simp
  moreover have "c \<noteq> CHR '' ''" using assms(1) by (auto simp: schar_def)
  ultimately show "\<not> c_isspace c" using assms(1) unfolding c_isspace_def by linarith
qed

lemma local_scan_atom:
  assumes "addr_atom e" "p \<le> length e" "length e - p < fuel"
  shows "local_scan e fuel p = Inr (Some (length e))"
  using assms(2,3)
proof (induction fuel arbitrary: p)
  case (Suc fuel)
  show ?case
  proof (cases "p = length e")
    case False
    then have p: "p < length e" using Suc.prems by simp
    then have c: "33 \<le> schar (e ! p)" "schar (e ! p) < 127" "\<not> is_special (e ! p)" "e ! p \<noteq> CHR ''.''"
      using assms(1) by (auto simp: addr_atom_def)
    show ?thesis
      using c p atom_char[OF c(1,3)] Suc.IH[of "Suc p"] Suc.prems by (simp add: c_at_def Let_def)
  qed (simp add: c_at_def)
qed simp

text \<open>
  Validating an address that is a plain word, without an at sign, reads the byte after
  the terminator of the string.
\<close>

theorem validate_address_overread:
  assumes "addr_atom s"
  shows "ds_validate_address s = Inl OutOfBounds"
proof -
  have c: "\<forall>c\<in>set s. \<not> c_isspace c \<and> c \<noteq> CHR ''<'' \<and> c \<noteq> CHR ''.''" "s \<noteq> []"
    using assms atom_char by (auto simp: addr_atom_def)
  have r: "rtrim s = s" using c last_in_set[of s] by (cases s rule: rev_cases) (auto simp: rtrim_def)
  have l: "ltrim s = s" using c by (cases s) (auto simp: ltrim_def)
  have hd: "hd s \<noteq> CHR ''<''" "hd s \<noteq> CHR ''.''" "s ! (length s - 1) \<noteq> CHR ''.''"
    using c by auto
  show ?thesis
    unfolding ds_validate_address_def r l Let_def
    using hd c(2) local_scan_atom[OF assms, of 0 "Suc (length s)"] by (simp add: c_at_def)
qed

theorem validate_address_overread_witness: "ds_validate_address ''user'' = Inl OutOfBounds"
  by (rule validate_address_overread) (simp add: addr_atom_def schar_def is_special_def rfc822_specials_def)

end
