(* ===== verification/Ds_Config.thy ===== *)
theory Ds_Config
  imports Ds_Util
begin

text \<open>
  config_shared.c and the attribute functions of libdspam.c: the attribute table. The table
  is an array of slots; a slot is a chain of attributes of one key, the empty chain is the
  NULL pointer that ends the table, and \<open>None\<close> is a slot that was never written. Reading an
  unwritten slot and any access beyond the array are faults.
\<close>

section \<open>config\_shared.c\<close>

record attribute =
  at_key :: string
  at_value :: string

type_synonym slots = "attribute list option list"

definition strcaseeq :: "string \<Rightarrow> string \<Rightarrow> bool" where
  "strcaseeq a b \<longleftrightarrow> map c_tolower a = map c_tolower b"

definition slot_at :: "slots \<Rightarrow> nat \<Rightarrow> attribute list cres" where
  "slot_at config i =
     (if i < length config
      then (case config ! i of None \<Rightarrow> Inl Uninitialised | Some chain \<Rightarrow> Inr chain)
      else Inl OutOfBounds)"

fun find_attribute_from :: "slots \<Rightarrow> string \<Rightarrow> nat \<Rightarrow> nat \<Rightarrow> nat option cres" where
  "find_attribute_from config key 0 i = Inl OutOfBounds"
| "find_attribute_from config key (Suc n) i =
     cbind (slot_at config i) (\<lambda>chain.
       case chain of
         [] \<Rightarrow> Inr None
       | attr # _ \<Rightarrow> if strcaseeq (at_key attr) key then Inr (Some i)
                     else find_attribute_from config key n (Suc i))"

text \<open>The slot of a key; the first attribute of its chain is what the C function returns.\<close>

definition ds_find_attribute :: "slots \<Rightarrow> string \<Rightarrow> nat option cres" where
  "ds_find_attribute config key = find_attribute_from config key (Suc (length config)) 0"

fun slots_used :: "slots \<Rightarrow> nat \<Rightarrow> nat \<Rightarrow> nat cres" where
  "slots_used config 0 i = Inl OutOfBounds"
| "slots_used config (Suc n) i =
     cbind (slot_at config i) (\<lambda>chain. if chain = [] then Inr i else slots_used config n (Suc i))"

definition slot_write :: "slots \<Rightarrow> nat \<Rightarrow> attribute list \<Rightarrow> slots cres" where
  "slot_write config i chain = (if i < length config then Inr (config[i := Some chain]) else Inl OutOfBounds)"

definition ds_add_attribute :: "bool \<Rightarrow> slots \<Rightarrow> string \<Rightarrow> string \<Rightarrow> (slots \<times> int) cres" where
  "ds_add_attribute alloc config key val =
     cbind (ds_find_attribute config key) (\<lambda>attr.
       case attr of
         None \<Rightarrow>
           cbind (slots_used config (Suc (length config)) 0) (\<lambda>i.
           cbind (slot_write config (i + 1) []) (\<lambda>config1.
             if alloc
             then cbind (slot_write config1 i [\<lparr>at_key = key, at_value = val\<rparr>]) (\<lambda>config2. Inr (config2, 0))
             else cbind (slot_write config1 i []) (\<lambda>config2. Inr (config2, EUNKNOWN))))
       | Some i \<Rightarrow>
           cbind (slot_at config i) (\<lambda>chain.
             if alloc
             then cbind (slot_write config i (chain @ [\<lparr>at_key = key, at_value = val\<rparr>])) (\<lambda>config1. Inr (config1, 0))
             else Inr (config, EUNKNOWN)))"

definition ds_overwrite_attribute :: "bool \<Rightarrow> slots \<Rightarrow> string \<Rightarrow> string \<Rightarrow> (slots \<times> int) cres" where
  "ds_overwrite_attribute alloc config key val =
     cbind (ds_find_attribute config key) (\<lambda>attr.
       case attr of
         None \<Rightarrow> ds_add_attribute alloc config key val
       | Some i \<Rightarrow>
           cbind (slot_at config i) (\<lambda>chain.
             case chain of
               [] \<Rightarrow> Inl NullDeref
             | a # rest \<Rightarrow> cbind (slot_write config i (a\<lparr>at_value := val\<rparr> # rest)) (\<lambda>config1. Inr (config1, 0))))"

definition ds_read_attribute :: "slots \<Rightarrow> string \<Rightarrow> string option cres" where
  "ds_read_attribute config key =
     cbind (ds_find_attribute config key) (\<lambda>attr.
       case attr of
         None \<Rightarrow> Inr None
       | Some i \<Rightarrow> cbind (slot_at config i) (\<lambda>chain.
           case chain of [] \<Rightarrow> Inl NullDeref | a # _ \<Rightarrow> Inr (Some (at_value a))))"

fun match_chain :: "attribute list \<Rightarrow> string \<Rightarrow> bool cres" where
  "match_chain [] val = Inl NullDeref"
| "match_chain [a] val = Inr (strcaseeq (at_value a) val)"
| "match_chain (a # b # rest) val =
     (if strcaseeq (at_value a) val then Inr True else match_chain (b # rest) val)"

definition ds_match_attribute :: "slots \<Rightarrow> string \<Rightarrow> string \<Rightarrow> bool cres" where
  "ds_match_attribute config key val =
     cbind (ds_find_attribute config key) (\<lambda>attr.
       case attr of
         None \<Rightarrow> Inr False
       | Some i \<Rightarrow> cbind (slot_at config i) (\<lambda>chain. match_chain chain val))"

text \<open>Destruction walks the slots up to the terminator; the result is the number of slots freed.\<close>

definition ds_destroy_config :: "slots \<Rightarrow> nat cres" where
  "ds_destroy_config config = slots_used config (Suc (length config)) 0"

section \<open>The attributes of a context\<close>

record ds_config =
  cf_size :: nat
  cf_attributes :: slots

definition config_create :: ds_config where
  "config_create = \<lparr>cf_size = 128, cf_attributes = replicate 128 (Some [])\<rparr>"

text \<open>\<open>alloc 0\<close> and \<open>alloc 1\<close> are the two allocations; without a configuration the call fails.\<close>

definition dspam_clearattributes :: "(nat \<Rightarrow> bool) \<Rightarrow> ds_config option \<Rightarrow> (ds_config option \<times> int) cres" where
  "dspam_clearattributes alloc config =
     (case config of
        None \<Rightarrow> Inr (None, EFAILURE)
      | Some cf \<Rightarrow>
          cbind (ds_destroy_config (cf_attributes cf)) (\<lambda>_.
            if \<not> alloc 0 \<or> \<not> alloc 1 then Inr (None, EUNKNOWN)
            else Inr (Some config_create, 0)))"

text \<open>The new memory of a reallocated table is not initialised.\<close>

definition dspam_addattribute :: "bool \<Rightarrow> ds_config \<Rightarrow> string \<Rightarrow> string \<Rightarrow> (ds_config \<times> int) cres" where
  "dspam_addattribute alloc cf key val =
     cbind (ds_find_attribute (cf_attributes cf) key) (\<lambda>attr.
       if attr \<noteq> None
       then cbind (ds_add_attribute alloc (cf_attributes cf) key val) (\<lambda>(s, r). Inr (cf\<lparr>cf_attributes := s\<rparr>, r))
       else cbind (slots_used (cf_attributes cf) (Suc (length (cf_attributes cf))) 0) (\<lambda>j.
         if j \<ge> cf_size cf \<and> \<not> alloc then Inr (cf\<lparr>cf_size := cf_size cf * 2\<rparr>, EUNKNOWN)
         else
           (let cf1 = (if j \<ge> cf_size cf
                       then \<lparr>cf_size = cf_size cf * 2,
                             cf_attributes = cf_attributes cf @
                               replicate (cf_size cf * 2 - length (cf_attributes cf)) None\<rparr>
                       else cf)
            in cbind (ds_add_attribute alloc (cf_attributes cf1) key val)
                 (\<lambda>(s, r). Inr (cf1\<lparr>cf_attributes := s\<rparr>, r)))))"

section \<open>The table as a list of chains\<close>

definition cfg_holds :: "slots \<Rightarrow> attribute list list \<Rightarrow> bool" where
  "cfg_holds config chs \<longleftrightarrow> [] \<notin> set chs \<and> (\<exists>rest. config = map Some chs @ Some [] # rest)"

definition chain_of :: "attribute list list \<Rightarrow> string \<Rightarrow> attribute list option" where
  "chain_of chs key = List.find (\<lambda>ch. strcaseeq (at_key (hd ch)) key) chs"

lemma slot_at_holds:
  assumes "cfg_holds config chs"
  shows "i < length chs \<Longrightarrow> slot_at config i = Inr (chs ! i)"
    and "slot_at config (length chs) = Inr []" and "length chs < length config"
  using assms by (auto simp: cfg_holds_def slot_at_def nth_append)

lemma holds_ne: "cfg_holds config chs \<Longrightarrow> i < length chs \<Longrightarrow> chs ! i \<noteq> []"
  by (metis cfg_holds_def nth_mem)

lemma slots_used_holds:
  assumes "cfg_holds config chs" "i \<le> length chs" "length chs - i < n"
  shows "slots_used config n i = Inr (length chs)"
  using assms(2,3)
proof (induction n arbitrary: i)
  case (Suc n)
  show ?case
  proof (cases "i = length chs")
    case False
    then show ?thesis using Suc slot_at_holds(1)[OF assms(1), of i] holds_ne[OF assms(1), of i] by simp
  qed (simp add: slot_at_holds(2)[OF assms(1)])
qed simp

lemma find_from_holds:
  fixes key :: string
  assumes "cfg_holds config chs" "i \<le> length chs" "length chs - i < n"
  defines "m k \<equiv> strcaseeq (at_key (hd (chs ! k))) key"
  shows "(find_attribute_from config key n i = Inr None \<and> (\<forall>k. i \<le> k \<and> k < length chs \<longrightarrow> \<not> m k)) \<or>
    (\<exists>j. find_attribute_from config key n i = Inr (Some j) \<and> i \<le> j \<and> j < length chs \<and> m j \<and>
       (\<forall>k. i \<le> k \<and> k < j \<longrightarrow> \<not> m k))"
  using assms(2,3)
proof (induction n arbitrary: i)
  case (Suc n)
  show ?case
  proof (cases "i = length chs")
    case True
    then show ?thesis by (auto simp: slot_at_holds(2)[OF assms(1)])
  next
    case False
    then have i: "i < length chs" using Suc.prems by simp
    then obtain a ch where c: "chs ! i = a # ch" using holds_ne[OF assms(1) i] by (cases "chs ! i") auto
    show ?thesis
    proof (cases "m i")
      case True
      then show ?thesis using i c slot_at_holds(1)[OF assms(1) i] by (auto simp: m_def)
    next
      case False
      then have "find_attribute_from config key (Suc n) i = find_attribute_from config key n (Suc i)"
        using c slot_at_holds(1)[OF assms(1) i] by (simp add: m_def)
      moreover have "Suc i \<le> length chs" "length chs - Suc i < n" using Suc.prems i by auto
      note Suc.IH[OF this]
      moreover have "i \<le> k \<Longrightarrow> m k \<Longrightarrow> Suc i \<le> k" for k using False by (cases "k = i") auto
      ultimately show ?thesis by (metis Suc_leD)
    qed
  qed
qed simp

lemma find_holds:
  assumes "cfg_holds config chs"
  shows "(chain_of chs key = None \<and> ds_find_attribute config key = Inr None) \<or>
    (\<exists>j<length chs. chain_of chs key = Some (chs ! j) \<and> ds_find_attribute config key = Inr (Some j) \<and>
       strcaseeq (at_key (hd (chs ! j))) key \<and> (\<forall>k<j. \<not> strcaseeq (at_key (hd (chs ! k))) key))"
proof -
  note f = find_from_holds[OF assms, of 0 "Suc (length config)" key, folded ds_find_attribute_def]
  have "chain_of chs key = None \<longleftrightarrow> (\<forall>k<length chs. \<not> strcaseeq (at_key (hd (chs ! k))) key)"
    by (auto simp: chain_of_def find_None_iff in_set_conv_nth)
  moreover have "chain_of chs key = Some (chs ! j)"
    if "j < length chs" "strcaseeq (at_key (hd (chs ! j))) key" "\<forall>k<j. \<not> strcaseeq (at_key (hd (chs ! k))) key" for j
    unfolding chain_of_def find_Some_iff using that by blast
  ultimately show ?thesis using f slot_at_holds(3)[OF assms] by fastforce
qed

lemma find_cases:
  assumes "cfg_holds config chs"
  obtains "chain_of chs key = None" "ds_find_attribute config key = Inr None"
    | j where "j < length chs" "chain_of chs key = Some (chs ! j)" "ds_find_attribute config key = Inr (Some j)"
      "strcaseeq (at_key (hd (chs ! j))) key" "\<forall>k<j. \<not> strcaseeq (at_key (hd (chs ! k))) key"
  using find_holds[OF assms, of key] by metis

lemma chain_of_key: "chain_of chs key = Some ch \<Longrightarrow> ch \<in> set chs \<and> strcaseeq (at_key (hd ch)) key"
  by (auto simp: chain_of_def find_Some_iff)

lemma read_holds:
  assumes "cfg_holds config chs"
  shows "ds_read_attribute config key = Inr (map_option (\<lambda>ch. at_value (hd ch)) (chain_of chs key))"
proof -
  show ?thesis
  proof (cases rule: find_cases[OF assms, of key])
    case (2 j)
    then show ?thesis using slot_at_holds(1)[OF assms, of j] holds_ne[OF assms, of j]
      by (cases "chs ! j") (auto simp: ds_read_attribute_def)
  qed (simp add: ds_read_attribute_def)
qed

lemma match_chain_any: "ch \<noteq> [] \<Longrightarrow> match_chain ch val = Inr (\<exists>a\<in>set ch. strcaseeq (at_value a) val)"
  by (induction ch val rule: match_chain.induct) auto

lemma match_holds:
  assumes "cfg_holds config chs"
  shows "ds_match_attribute config key val =
    Inr (case chain_of chs key of None \<Rightarrow> False | Some ch \<Rightarrow> \<exists>a\<in>set ch. strcaseeq (at_value a) val)"
  using find_holds[OF assms, of key] slot_at_holds(1)[OF assms] holds_ne[OF assms] match_chain_any
  by (auto simp: ds_match_attribute_def)

lemma hold_update:
  assumes "cfg_holds config chs" "i < length chs" "ch \<noteq> []"
  shows "cfg_holds (config[i := Some ch]) (chs[i := ch])"
proof -
  obtain rest where "config = map Some chs @ Some [] # rest" using assms(1) by (auto simp: cfg_holds_def)
  then have "config[i := Some ch] = map Some (chs[i := ch]) @ Some [] # rest"
    using assms(2) by (simp add: list_update_append map_update)
  moreover have "[] \<notin> set (chs[i := ch])"
    using assms set_update_subset_insert[of chs i ch] by (auto simp: cfg_holds_def)
  ultimately show ?thesis by (auto simp: cfg_holds_def)
qed

lemma hold_extend:
  assumes "cfg_holds config chs" "length chs + 1 < length config" "ch \<noteq> []"
  shows "cfg_holds (config[length chs + 1 := Some [], length chs := Some ch]) (chs @ [ch])"
proof -
  obtain rest where c: "config = map Some chs @ Some [] # rest" using assms(1) by (auto simp: cfg_holds_def)
  then obtain x rest' where "rest = x # rest'" using assms(2) by (cases rest) auto
  then show ?thesis using assms c by (auto simp: cfg_holds_def list_update_append)
qed

text \<open>What adding an attribute does: a new chain at the end, or one more link in the key's chain.\<close>

lemma add_holds:
  assumes "cfg_holds config chs"
  shows "(case chain_of chs key of
      None \<Rightarrow>
        if length chs + 1 < length config
        then \<exists>config'. ds_add_attribute True config key val = Inr (config', 0) \<and> length config' = length config \<and>
               cfg_holds config' (chs @ [[\<lparr>at_key = key, at_value = val\<rparr>]])
        else ds_add_attribute True config key val = Inl OutOfBounds
    | Some ch \<Rightarrow> \<exists>config' j. ds_add_attribute True config key val = Inr (config', 0) \<and> length config' = length config \<and>
        j < length chs \<and> chs ! j = ch \<and> (\<forall>k<j. \<not> strcaseeq (at_key (hd (chs ! k))) key) \<and>
        cfg_holds config' (chs[j := ch @ [\<lparr>at_key = key, at_value = val\<rparr>]]))"
proof -
  have u: "slots_used config (Suc (length config)) 0 = Inr (length chs)"
    using slots_used_holds[OF assms, of 0 "Suc (length config)"] slot_at_holds(3)[OF assms] by linarith
  show ?thesis
  proof (cases rule: find_cases[OF assms, of key])
    case 1
    then show ?thesis using u hold_extend[OF assms, of "[\<lparr>at_key = key, at_value = val\<rparr>]"]
      by (auto simp: ds_add_attribute_def slot_write_def)
  next
    case (2 j)
    then show ?thesis
      using slot_at_holds(1,3)[OF assms] hold_update[OF assms, of j "chs ! j @ [\<lparr>at_key = key, at_value = val\<rparr>]"]
      by (auto simp: ds_add_attribute_def slot_write_def)
  qed
qed

lemma strcaseeq_refl [simp]: "strcaseeq a a"
  by (simp add: strcaseeq_def)

lemma chain_of_append: "chain_of (chs @ [ch]) key =
    (case chain_of chs key of Some x \<Rightarrow> Some x | None \<Rightarrow> if strcaseeq (at_key (hd ch)) key then Some ch else None)"
  by (induction chs) (auto simp: chain_of_def)

lemma chain_of_update:
  assumes "j < length chs" "strcaseeq (at_key (hd ch)) key" "\<forall>k<j. \<not> strcaseeq (at_key (hd (chs ! k))) key"
  shows "chain_of (chs[j := ch]) key = Some ch"
  unfolding chain_of_def find_Some_iff using assms by (intro exI[of _ j]) auto

section \<open>Properties\<close>

text \<open>
  Adding an attribute to a table with room: the value is found by a match whatever the
  case of the key, values added before still match, and a read returns the first value that
  was given for the key.
\<close>

theorem add_attribute_matches:
  assumes "cfg_holds config chs" "length chs + 1 < length config"
  shows "\<exists>config' chs'. ds_add_attribute True config key val = Inr (config', 0) \<and>
    cfg_holds config' chs' \<and> length config' = length config \<and>
    ds_match_attribute config' (map c_tolower key) val = Inr True \<and>
    (\<forall>v. ds_match_attribute config key v = Inr True \<longrightarrow> ds_match_attribute config' key v = Inr True) \<and>
    ds_read_attribute config' key =
      (case chain_of chs key of None \<Rightarrow> Inr (Some val) | Some ch \<Rightarrow> ds_read_attribute config key)"
proof -
  let ?a = "\<lparr>at_key = key, at_value = val\<rparr>"
  have idem: "c_tolower (c_tolower c) = c_tolower c" for c
  proof (cases "c_isupper c")
    case True
    then have "65 \<le> (of_char c :: nat)" "(of_char c :: nat) \<le> 90" by (simp_all add: c_isupper_def)
    then have "\<not> c_isupper (char_of ((of_char c :: nat) + 32))" by (simp add: c_isupper_def)
    then show ?thesis using True by (simp add: c_tolower_def)
  qed (simp add: c_tolower_def)
  have low: "strcaseeq k (map c_tolower key) = strcaseeq k key" for k by (simp add: strcaseeq_def idem comp_def)
  then have lc: "chain_of cs (map c_tolower key) = chain_of cs key" for cs by (simp add: chain_of_def)
  show ?thesis
  proof (cases "chain_of chs key")
    case None
    then obtain config' where c: "ds_add_attribute True config key val = Inr (config', 0)"
      "length config' = length config" "cfg_holds config' (chs @ [[?a]])"
      using add_holds[OF assms(1), of key val] assms(2) by auto
    have "chain_of (chs @ [[?a]]) key = Some [?a]" using None by (simp add: chain_of_append)
    then show ?thesis using c None match_holds[OF assms(1)] match_holds[OF c(3)] read_holds[OF c(3)] lc
      by (intro exI[of _ config'] exI[of _ "chs @ [[?a]]"]) auto
  next
    case (Some ch)
    then obtain config' j where c: "ds_add_attribute True config key val = Inr (config', 0)"
      "length config' = length config" "j < length chs" "chs ! j = ch"
      "\<forall>k<j. \<not> strcaseeq (at_key (hd (chs ! k))) key" "cfg_holds config' (chs[j := ch @ [?a]])"
      using add_holds[OF assms(1), of key val] by auto
    have ne: "ch \<noteq> []" using holds_ne[OF assms(1) c(3)] c(4) by simp
    have "chain_of (chs[j := ch @ [?a]]) key = Some (ch @ [?a])"
      using c ne chain_of_key[OF Some] by (intro chain_of_update) auto
    then show ?thesis
      using c Some ne match_holds[OF assms(1)] match_holds[OF c(6)] read_holds[OF c(6)] read_holds[OF assms(1)] lc
      by (intro exI[of _ config'] exI[of _ "chs[j := ch @ [?a]]"]) auto
  qed
qed

theorem add_attribute_matches_witness:
  "\<exists>config'. ds_add_attribute True (replicate 128 (Some [])) ''IgnoreHeader'' ''X-Spam'' = Inr (config', 0) \<and>
     ds_match_attribute config' ''ignoreheader'' ''X-Spam'' = Inr True \<and>
     ds_read_attribute config' ''IgnoreHeader'' = Inr (Some ''X-Spam'')"
proof -
  have "cfg_holds (replicate 128 (Some [])) []" by (auto simp: cfg_holds_def numeral_eq_Suc)
  moreover have "map c_tolower ''IgnoreHeader'' = ''ignoreheader''" by code_simp
  ultimately show ?thesis
    using add_attribute_matches[of "replicate 128 (Some [])" "[]" "''IgnoreHeader''" "''X-Spam''"]
    by (auto simp: chain_of_def)
qed

text \<open>
  The table of a context grows one slot too late: once all but one of its slots hold a
  key, adding a further key writes the terminator beyond the table. A new context has 128
  slots, so the 128th key does it.
\<close>

theorem addattribute_overflow:
  assumes "cfg_holds (cf_attributes cf) chs" "length (cf_attributes cf) = cf_size cf"
    and "length chs + 1 = cf_size cf" "chain_of chs key = None"
  shows "dspam_addattribute True cf key val = Inl OutOfBounds"
proof -
  have u: "slots_used (cf_attributes cf) (Suc (length (cf_attributes cf))) 0 = Inr (length chs)"
    using slots_used_holds[OF assms(1), of 0 "Suc (length (cf_attributes cf))"] slot_at_holds(3)[OF assms(1)]
    by linarith
  have f: "ds_find_attribute (cf_attributes cf) key = Inr None"
    using find_holds[OF assms(1), of key] assms(4) by simp
  have "ds_add_attribute True (cf_attributes cf) key val = Inl OutOfBounds"
    using add_holds[OF assms(1), of key val] assms(2-4) by simp
  then show ?thesis using u f assms(2,3) by (simp add: dspam_addattribute_def Let_def del: slots_used.simps)
qed

definition two_slots :: ds_config where
  "two_slots = \<lparr>cf_size = 2, cf_attributes = [Some [\<lparr>at_key = ''Home'', at_value = ''/var''\<rparr>], Some []]\<rparr>"

theorem addattribute_overflow_witness: "dspam_addattribute True two_slots ''LocalMX'' ''10.0.0.1'' = Inl OutOfBounds"
  by (rule addattribute_overflow[where chs = "[[\<lparr>at_key = ''Home'', at_value = ''/var''\<rparr>]]"])
     (auto simp: two_slots_def cfg_holds_def chain_of_def strcaseeq_def c_tolower_def c_isupper_def)

end
