(* ===== verification/Ds_Tokenizer.thy ===== *)
theory Ds_Tokenizer
  imports Ds_Diction Ds_Config
begin

text \<open>
  tokenizer.c: the tokenizers. Word and chain (bigram) tokens are checksummed one by one;
  the sparse tokenizers (SBPH and OSB) run a window of five tokens over the text and build
  the keys of its sub-patterns. Tokens are the substrings that \<^verbatim>\<open>strtok_r\<close> delivers; the
  buffers that \<^verbatim>\<open>snprintf\<close> and \<^verbatim>\<open>strlcpy\<close> fill are cut at their size.
\<close>

section \<open>The part of the context the tokenizers read\<close>

datatype ds_tokenizer = DSZ_WORD | DSZ_CHAIN | DSZ_SBPH | DSZ_OSB

record tok_ctx =
  cx_tokenizer :: ds_tokenizer
  cx_flags :: u32
  cx_attributes :: slots

definition DSF_SIGNATURE :: u32 where "DSF_SIGNATURE = 0x02"
definition DSF_BIAS :: u32 where "DSF_BIAS = 0x04"
definition DSF_NOISE :: u32 where "DSF_NOISE = 0x08"
definition DSF_WHITELIST :: u32 where "DSF_WHITELIST = 0x10"
definition DSF_MERGED :: u32 where "DSF_MERGED = 0x20"
definition DSF_UNLEARN :: u32 where "DSF_UNLEARN = 0x80"

definition ctl_chars :: string where
  "ctl_chars = [CHR 0x0A, CHR 0x09, CHR 0x0D]"

definition DELIMITERS :: string where
  "DELIMITERS = '' .,;:'' @ ctl_chars @ ''@-+*''"

definition DELIMITERS_HEADING :: string where
  "DELIMITERS_HEADING = '' ,;:'' @ ctl_chars @ ''@-+*''"

definition SPARSE_DELIMITERS :: string where
  "SPARSE_DELIMITERS = '' .,;:'' @ [CHR 0x22] @ ''/'' @ [CHR 0x5C, CHR ''['', CHR '']''] @ ''}{=+_()<>|&'' @
     ctl_chars @ ''@-*~'' @ [CHR 0x60] @ ''?#$%^''"

definition SPARSE_DELIMITERS_HEADING :: string where
  "SPARSE_DELIMITERS_HEADING = '' ,;:'' @ [CHR 0x22] @ ''/'' @ [CHR 0x5C, CHR ''['', CHR '']''] @ ''}{=+()<>|&'' @
     ctl_chars @ ''@*~'' @ [CHR 0x60] @ ''?#$%^''"

definition SPARSE_WINDOW_SIZE :: nat where "SPARSE_WINDOW_SIZE = 5"

section \<open>Tokens of a string\<close>

text \<open>All tokens that repeated calls of \<^verbatim>\<open>strtok_r\<close> deliver.\<close>

function strtok_all :: "string \<Rightarrow> string \<Rightarrow> string list" where
  "strtok_all delim s = (case strtok_r s delim of None \<Rightarrow> [] | Some (t, rest) \<Rightarrow> t # strtok_all delim rest)"
  by pat_completeness auto
termination
proof (relation "measure (\<lambda>(delim, s). length s)", goal_cases)
  case (2 delim s p t rest)
  have d: "length (dropWhile P xs) \<le> length xs" for P and xs :: string
    by (rule length_dropWhile_le)
  let ?s1 = "dropWhile (\<lambda>c. c \<in> set delim) s"
  have ne: "?s1 \<noteq> []" "rest = drop 1 (dropWhile (\<lambda>c. c \<notin> set delim) ?s1)"
    using 2 by (auto simp: strtok_r_def Let_def split: if_splits)
  have "hd ?s1 \<notin> set delim" using ne(1) hd_dropWhile by metis
  then have "length (dropWhile (\<lambda>c. c \<notin> set delim) ?s1) < length ?s1"
    using ne(1) d[of "\<lambda>c. c \<notin> set delim" "tl ?s1"] by (cases ?s1) (auto simp: le_less_trans)
  then show ?case using ne(2) d[of "\<lambda>c. c \<in> set delim" s] by simp
qed simp

declare strtok_all.simps [simp del]

section \<open>Truncation\<close>

text \<open>
  \<^verbatim>\<open>while (i > 1 && strspn(tweaked+i-2, "!")) { tweaked[i-1] = 0; i--; }\<close>, on the reversed
  string: the character before the last one decides whether the last one is cut off.
\<close>

fun truncate_rev :: "string \<Rightarrow> string" where
  "truncate_rev (a # b # rest) = (if b = CHR ''!'' then truncate_rev (b # rest) else a # b # rest)"
| "truncate_rev s = s"

definition ds_truncate_token :: "string \<Rightarrow> string" where
  "ds_truncate_token token = rev (truncate_rev (rev token))"

section \<open>Word and chain tokens\<close>

definition snprintf_cut :: "nat \<Rightarrow> string \<Rightarrow> string" where
  "snprintf_cut n s = take (n - 1) s"

definition touch :: "ds_diction \<Rightarrow> string \<Rightarrow> u32 \<Rightarrow> ds_diction cres" where
  "touch d name flags =
     cbind (ds_diction_touch True d (ds_getcrc64 name) (Some name) flags) (\<lambda>(d', _). Inr d')"

definition ds_process_header_token ::
    "'b tok_ctx_scheme \<Rightarrow> string \<Rightarrow> string option \<Rightarrow> ds_diction \<Rightarrow> string \<Rightarrow> ds_diction cres" where
  "ds_process_header_token ctx token previous_token d heading =
     cbind (ds_match_attribute (cx_attributes ctx) ''IgnoreHeader'' heading) (\<lambda>ignore.
       if ignore then Inr d
       else if take 8 heading = ''X-DSPAM-'' then Inr d
       else
         (let tweaked_token = ds_truncate_token token;
              combined_token = snprintf_cut 256 (heading @ ''*'' @ tweaked_token)
          in cbind (touch d combined_token 0) (\<lambda>d1.
            case previous_token of
              Some prev \<Rightarrow>
                if cx_tokenizer ctx = DSZ_CHAIN
                then touch d1 (snprintf_cut 256 (heading @ ''*'' @ ds_truncate_token prev @ ''+'' @ tweaked_token)) DSD_CHAINED
                else Inr d1
            | None \<Rightarrow> Inr d1)))"

definition ds_process_body_token ::
    "'b tok_ctx_scheme \<Rightarrow> string \<Rightarrow> string option \<Rightarrow> ds_diction \<Rightarrow> ds_diction cres" where
  "ds_process_body_token ctx token previous_token d =
     (let tweaked_token = ds_truncate_token token
      in cbind (touch d tweaked_token DSD_CONTEXT) (\<lambda>d1.
        case previous_token of
          Some prev \<Rightarrow>
            if cx_tokenizer ctx = DSZ_CHAIN
            then touch d1 (snprintf_cut 256 (ds_truncate_token prev @ ''+'' @ tweaked_token)) (DSD_CHAINED OR DSD_CONTEXT)
            else Inr d1
        | None \<Rightarrow> Inr d1))"

text \<open>The loops over the tokens of a header line and of the body, with the previous token.\<close>

fun header_tokens_loop ::
    "'b tok_ctx_scheme \<Rightarrow> string \<Rightarrow> string list \<Rightarrow> string option \<Rightarrow> ds_diction \<Rightarrow> ds_diction cres" where
  "header_tokens_loop ctx heading [] prev d = Inr d"
| "header_tokens_loop ctx heading (token # tokens) prev d =
     (if length token \<ge> 1 \<and> length token < 50
      then cbind (ds_process_header_token ctx token prev d heading) (\<lambda>d'.
             header_tokens_loop ctx heading tokens (if cx_tokenizer ctx = DSZ_CHAIN then Some token else prev) d')
      else header_tokens_loop ctx heading tokens prev d)"

fun body_tokens_loop ::
    "'b tok_ctx_scheme \<Rightarrow> string list \<Rightarrow> string option \<Rightarrow> ds_diction \<Rightarrow> ds_diction cres" where
  "body_tokens_loop ctx [] prev d = Inr d"
| "body_tokens_loop ctx (token # tokens) prev d =
     (if length token \<ge> 1 \<and> length token < 50
      then cbind (ds_process_body_token ctx token prev d) (\<lambda>d'.
             body_tokens_loop ctx tokens (if cx_tokenizer ctx = DSZ_CHAIN then Some token else prev) d')
      else body_tokens_loop ctx tokens prev d)"

section \<open>Header lines\<close>

text \<open>
  The first \<^verbatim>\<open>strtok_r(line, ":")\<close> of a line: the token, the text that follows its colon, and
  the line in memory, with the colon overwritten by the terminator.
\<close>

definition line_split :: "string \<Rightarrow> (string \<times> string) option \<times> string \<times> char list" where
  "line_split line =
     (case strtok_r line '':'' of
        None \<Rightarrow> (None, line, line @ [CHR 0x00])
      | Some (token, rest) \<Rightarrow>
          (let head = takeWhile (\<lambda>c. c = CHR '':'') line @ token
           in (Some (token, rest), head, head @ CHR 0x00 # drop (Suc (length head)) (line @ [CHR 0x00]))))"

definition is_heading :: "string \<Rightarrow> bool" where
  "is_heading token \<longleftrightarrow> token \<noteq> [] \<and> hd token \<noteq> CHR '' '' \<and> hd token \<noteq> CHR 0x09 \<and> CHR '' '' \<notin> set token"

text \<open>
  The whitelist token of a From line: \<^verbatim>\<open>line + 5\<close> on, less one leading space. Memory beyond
  the terminator of the line is not initialised.
\<close>

definition whitelist_name :: "string \<Rightarrow> char list \<Rightarrow> string cres" where
  "whitelist_name heading mem =
     (if length mem \<le> 5 then Inl Uninitialised
      else (let fromline = takeWhile (\<lambda>c. c \<noteq> CHR 0x00) (drop 5 mem);
                fromline' = (if fromline \<noteq> [] \<and> hd fromline = CHR '' '' then tl fromline else fromline)
            in Inr (snprintf_cut 256 (heading @ ''*'' @ fromline'))))"

definition whitelist_touch ::
    "'b tok_ctx_scheme \<Rightarrow> string \<Rightarrow> char list \<Rightarrow> ds_diction \<Rightarrow> ds_diction cres" where
  "whitelist_touch ctx heading mem d =
     (if cx_flags ctx AND DSF_WHITELIST \<noteq> 0 \<and> heading = ''From'' then
        cbind (whitelist_name heading mem) (\<lambda>wl.
        cbind (touch d wl 0) (\<lambda>d1. Inr (d1\<lparr>dd_whitelist_token := ds_getcrc64 wl\<rparr>)))
      else Inr d)"

fun ngram_headers ::
    "'b tok_ctx_scheme \<Rightarrow> string list \<Rightarrow> string \<Rightarrow> ds_diction \<Rightarrow> ds_diction cres" where
  "ngram_headers ctx [] heading d = Inr d"
| "ngram_headers ctx (line # lines) heading d =
     (let (tok, line', mem) = line_split line;
          multiline = (case tok of None \<Rightarrow> True | Some (token, rest) \<Rightarrow> \<not> is_heading token);
          heading' = (case tok of Some (token, rest) \<Rightarrow> (if multiline then heading else take 127 token) | None \<Rightarrow> heading);
          text = (if multiline then line' else (case tok of Some (token, rest) \<Rightarrow> rest | None \<Rightarrow> []))
      in cbind (whitelist_touch ctx heading' mem d) (\<lambda>d1.
         cbind (header_tokens_loop ctx heading' (strtok_all DELIMITERS_HEADING text) None d1) (\<lambda>d2.
           ngram_headers ctx lines heading' d2)))"

section \<open>URLs\<close>

text \<open>The extent of a URL from its start.\<close>

fun url_len :: "nat \<Rightarrow> nat \<Rightarrow> string \<Rightarrow> nat" where
  "url_len key_len i [] = i"
| "url_len key_len i (c # cs) =
     (if schar c > 32 \<and> c \<noteq> CHR ''>'' \<and> ((c \<noteq> CHR 0x22 \<and> c \<noteq> CHR 0x27) \<or> i \<le> key_len)
      then url_len key_len (Suc i) cs else i)"

fun url_tokens_loop :: "string list \<Rightarrow> ds_diction \<Rightarrow> ds_diction cres" where
  "url_tokens_loop [] d = Inr d"
| "url_tokens_loop (t # ts) d = cbind (touch d (snprintf_cut 256 (''Url*'' @ t)) 0) (url_tokens_loop ts)"

text \<open>Each URL is tokenised and blanked out in the body; the search goes on behind it.\<close>

fun url_loop :: "nat \<Rightarrow> string \<Rightarrow> string \<Rightarrow> ds_diction \<Rightarrow> (string \<times> ds_diction) cres" where
  "url_loop 0 key body d = Inl NoReturn"
| "url_loop (Suc fuel) key body d =
     (case strcasestr body key of
        None \<Rightarrow> Inr (body, d)
      | Some p \<Rightarrow>
          (let token = drop p body;
               i = url_len (length key) 0 token
           in cbind (url_tokens_loop (strtok_all DELIMITERS (take i token)) d) (\<lambda>d1.
              cbind (url_loop fuel key (drop i token) d1) (\<lambda>(rest, d2).
                Inr (take p body @ replicate i (CHR '' '') @ rest, d2)))))"

definition ds_url_tokenize :: "ds_diction \<Rightarrow> string \<Rightarrow> string \<Rightarrow> (string \<times> ds_diction) cres" where
  "ds_url_tokenize d body key = url_loop (Suc (length body)) key body d"

definition url_context :: "'b tok_ctx_scheme \<Rightarrow> string \<Rightarrow> ds_diction \<Rightarrow> (string \<times> ds_diction) cres" where
  "url_context ctx body d =
     cbind (ds_match_attribute (cx_attributes ctx) ''ProcessorURLContext'' ''on'') (\<lambda>on.
       if on then
         cbind (ds_url_tokenize d body ''http://'') (\<lambda>(body1, d1).
         cbind (ds_url_tokenize d1 body1 ''www.'') (\<lambda>(body2, d2).
         ds_url_tokenize d2 body2 ''href=''))
       else Inr (body, d))"

definition ds_tokenize_ngram ::
    "'b tok_ctx_scheme \<Rightarrow> string \<Rightarrow> string \<Rightarrow> ds_diction \<Rightarrow> ds_diction cres" where
  "ds_tokenize_ngram ctx headers body d =
     cbind (url_context ctx body d) (\<lambda>(body1, d1).
     cbind (ngram_headers ctx (strtok_all [CHR 0x0A] headers) [] d1) (\<lambda>d2.
     body_tokens_loop ctx (strtok_all DELIMITERS body1) None d2))"

section \<open>Sparse tokens\<close>

definition ds_generate_bitpattern :: "nat \<Rightarrow> bool list" where
  "ds_generate_bitpattern breadth =
     concat (map (\<lambda>msk. map (\<lambda>i. (of_nat msk :: u32) AND (if i = 0 then 1 else ds_pow2 (of_nat i)) \<noteq> 0)
       [0..<SPARSE_WINDOW_SIZE]) [0..<breadth])"

definition key_char :: "string \<Rightarrow> char \<Rightarrow> string" where
  "key_char key c = (if length key < 255 then key @ [c] else key)"

text \<open>One slot of the window: the separator, then the token or the gap sign; \<open>terms\<close> counts literals.\<close>

definition key_slot :: "bool list \<Rightarrow> nat \<Rightarrow> string option list \<Rightarrow> string \<times> nat \<Rightarrow> nat \<Rightarrow> string \<times> nat" where
  "key_slot bitpattern msk prev st i =
     (let key = (if i > 0 then key_char (fst st) (CHR ''+'') else fst st)
      in if bitpattern ! (msk * SPARSE_WINDOW_SIZE + i) then
           (case prev ! i of
              None \<Rightarrow> (key_char key (CHR ''#''), snd st)
            | Some t \<Rightarrow>
                if t = [] then (key_char key (CHR ''#''), snd st)
                else ((if length key + length t < 255 then key @ t else key), Suc (snd st)))
         else (key_char key (CHR ''#''), snd st))"

definition sparse_key :: "bool list \<Rightarrow> string option list \<Rightarrow> nat \<Rightarrow> string \<times> nat" where
  "sparse_key bitpattern prev msk = foldl (key_slot bitpattern msk prev) ([], 0) [0..<SPARSE_WINDOW_SIZE]"

text \<open>Trailing gaps are cut off, on the reversed key.\<close>

fun trim_gaps :: "string \<Rightarrow> string" where
  "trim_gaps (a # b # c # rest) =
     (if a = CHR ''#'' \<and> b = CHR ''+'' then trim_gaps (c # rest) else a # b # c # rest)"
| "trim_gaps key = key"

definition sparse_hit :: "ds_tokenizer \<Rightarrow> string \<times> nat \<Rightarrow> string option" where
  "sparse_hit tokenizer kt =
     (if (tokenizer = DSZ_SBPH \<and> snd kt \<noteq> 0) \<or> (tokenizer = DSZ_OSB \<and> snd kt = 2)
      then (let key = rev (trim_gaps (rev (fst kt)))
            in if take 2 key = ''#+'' then None else Some key)
      else None)"

definition window_push :: "string option list \<Rightarrow> string option \<Rightarrow> string option list" where
  "window_push prev token = tl prev @ [token]"

definition window_breadth :: "string option list \<Rightarrow> nat" where
  "window_breadth prev = unat (ds_pow2 (of_nat (length (filter (\<lambda>t. t \<noteq> None) prev))))"

text \<open>The names the window hits, in the order of the masks.\<close>

definition window_names :: "ds_tokenizer \<Rightarrow> bool list \<Rightarrow> string option list \<Rightarrow> string list" where
  "window_names tokenizer bitpattern prev =
     map the (filter (\<lambda>k. k \<noteq> None)
       (map (\<lambda>msk. sparse_hit tokenizer (sparse_key bitpattern prev msk)) [0..<window_breadth prev]))"

definition ds_map_header_token ::
    "'b tok_ctx_scheme \<Rightarrow> string option \<Rightarrow> string option list \<Rightarrow> ds_diction \<Rightarrow> string \<Rightarrow> bool list
       \<Rightarrow> (string option list \<times> ds_diction) cres" where
  "ds_map_header_token ctx token prev d heading bitpattern =
     cbind (ds_match_attribute (cx_attributes ctx) ''IgnoreHeader'' heading) (\<lambda>ignore.
       if ignore then Inr (prev, d)
       else if take 8 heading = ''X-DSPAM-'' then Inr (prev, d)
       else
         (let prev' = window_push prev token
          in cbind (cfold (\<lambda>d k. touch d (snprintf_cut 256 (heading @ ''*'' @ k)) DSD_CONTEXT) d
               (window_names (cx_tokenizer ctx) bitpattern prev'))
             (\<lambda>d'. Inr (prev', d'))))"

definition ds_map_body_token ::
    "'b tok_ctx_scheme \<Rightarrow> string option \<Rightarrow> string option list \<Rightarrow> ds_diction \<Rightarrow> bool list
       \<Rightarrow> (string option list \<times> ds_diction) cres" where
  "ds_map_body_token ctx token prev d bitpattern =
     (let prev' = window_push prev token
      in cbind (cfold (\<lambda>d k. touch d k DSD_CONTEXT) d (window_names (cx_tokenizer ctx) bitpattern prev'))
           (\<lambda>d'. Inr (prev', d')))"

definition ds_sparse_clear :: "string option list" where
  "ds_sparse_clear = replicate SPARSE_WINDOW_SIZE None"

definition sparse_words :: "string list \<Rightarrow> string option list" where
  "sparse_words tokens = map Some (filter (\<lambda>t. length t > 0 \<and> length t < 50) tokens) @ replicate SPARSE_WINDOW_SIZE None"

fun sparse_headers ::
    "'b tok_ctx_scheme \<Rightarrow> bool list \<Rightarrow> string list \<Rightarrow> string \<Rightarrow> ds_diction \<Rightarrow> ds_diction cres" where
  "sparse_headers ctx bitpattern [] heading d = Inr d"
| "sparse_headers ctx bitpattern (line # lines) heading d =
     (let (tok, line', mem) = line_split line;
          multiline = (case tok of None \<Rightarrow> True | Some (token, rest) \<Rightarrow> \<not> is_heading token);
          heading' = (case tok of Some (token, rest) \<Rightarrow> (if multiline then heading else take 127 token) | None \<Rightarrow> heading);
          text = (if multiline then line' else (case tok of Some (token, rest) \<Rightarrow> rest | None \<Rightarrow> []))
      in cbind (whitelist_touch ctx heading' mem d) (\<lambda>d1.
         cbind (cfold (\<lambda>(prev, d) t. ds_map_header_token ctx t prev d heading' bitpattern) (ds_sparse_clear, d1)
                  (sparse_words (strtok_all SPARSE_DELIMITERS_HEADING text)))
           (\<lambda>(_, d2). sparse_headers ctx bitpattern lines heading' d2)))"

definition ds_tokenize_sparse ::
    "'b tok_ctx_scheme \<Rightarrow> string \<Rightarrow> string \<Rightarrow> ds_diction \<Rightarrow> ds_diction cres" where
  "ds_tokenize_sparse ctx headers body d =
     (let bitpattern = ds_generate_bitpattern (unat (ds_pow2 (of_nat SPARSE_WINDOW_SIZE)))
      in cbind (url_context ctx body d) (\<lambda>(body1, d1).
         cbind (sparse_headers ctx bitpattern (strtok_all [CHR 0x0A] headers) [] d1) (\<lambda>d2.
         cbind (cfold (\<lambda>(prev, d) t. ds_map_body_token ctx t prev d bitpattern) (ds_sparse_clear, d2)
                  (sparse_words (strtok_all SPARSE_DELIMITERS body1)))
           (\<lambda>(_, d3). Inr d3))))"

definition ds_tokenize ::
    "'b tok_ctx_scheme \<Rightarrow> string \<Rightarrow> string \<Rightarrow> ds_diction option \<Rightarrow> (ds_diction option \<times> int) cres" where
  "ds_tokenize ctx headers body diction =
     (case diction of
        None \<Rightarrow> Inr (None, EINVAL)
      | Some d \<Rightarrow>
          cbind (if cx_tokenizer ctx = DSZ_SBPH \<or> cx_tokenizer ctx = DSZ_OSB
                 then ds_tokenize_sparse ctx headers body d
                 else ds_tokenize_ngram ctx headers body d)
            (\<lambda>d'. Inr (Some d', 0)))"

section \<open>Counting occurrences\<close>

definition freq :: "ds_diction \<Rightarrow> u64 \<Rightarrow> int" where
  "freq d k = (case ds_diction_find d k of None \<Rightarrow> 0 | Some t \<Rightarrow> tm_frequency t)"

definition touch_all :: "ds_diction \<Rightarrow> (string \<times> u32) list \<Rightarrow> ds_diction cres" where
  "touch_all d xs = cfold (\<lambda>d (name, flags). touch d name flags) d xs"

definition plain_context :: "u32 \<Rightarrow> bool" where
  "plain_context flags \<longleftrightarrow> flags AND DSD_CONTEXT \<noteq> 0 \<and> flags AND DSD_CHAINED = 0"

lemma touch_ok:
  assumes "dict_ok d"
  shows "\<exists>d'. touch d name flags = Inr d' \<and> dict_ok d' \<and>
    freq d' = (\<lambda>k. freq d k + (if k = ds_getcrc64 name then 1 else 0)) \<and>
    nt_first (dd_order d') = nt_first (dd_order d) @ (if plain_context flags then [ds_getcrc64 name] else [])"
proof -
  obtain d' where d': "ds_diction_touch True d (ds_getcrc64 name) (Some name) flags = Inr (d', Some (ds_getcrc64 name))"
    "dict_ok d'" "ds_diction_find d' = (ds_diction_find d)(ds_getcrc64 name \<mapsto>
       touched (ds_getcrc64 name) (Some name) (ds_diction_find d (ds_getcrc64 name)))"
    "nt_first (dd_order d') = nt_first (dd_order d) @ (if plain_context flags then [ds_getcrc64 name] else [])"
    using touch_spec[OF assms, of "ds_getcrc64 name" "Some name" flags] by (auto simp: plain_context_def)
  have "freq d' = (\<lambda>k. freq d k + (if k = ds_getcrc64 name then 1 else 0))"
    by (auto simp: freq_def d'(3) touched_def fun_eq_iff split: option.splits)
  then show ?thesis using d' by (simp add: touch_def)
qed

lemma touch_all_ok:
  assumes "dict_ok d"
  shows "\<exists>d'. touch_all d xs = Inr d' \<and> dict_ok d' \<and>
    (\<forall>k. freq d' k = freq d k + int (count_list (map (ds_getcrc64 \<circ> fst) xs) k)) \<and>
    nt_first (dd_order d') = nt_first (dd_order d) @ map (ds_getcrc64 \<circ> fst) (filter (plain_context \<circ> snd) xs)"
  using assms
proof (induction xs arbitrary: d)
  case (Cons x xs)
  obtain name flags where x: "x = (name, flags)" by (cases x)
  obtain d1 where d1: "touch d name flags = Inr d1" "dict_ok d1"
    "freq d1 = (\<lambda>k. freq d k + (if k = ds_getcrc64 name then 1 else 0))"
    "nt_first (dd_order d1) = nt_first (dd_order d) @ (if plain_context flags then [ds_getcrc64 name] else [])"
    using touch_ok[OF Cons.prems] by blast
  from Cons.IH[OF d1(2)] obtain d2 where "touch_all d1 xs = Inr d2" "dict_ok d2"
    "\<forall>k. freq d2 k = freq d1 k + int (count_list (map (ds_getcrc64 \<circ> fst) xs) k)"
    "nt_first (dd_order d2) = nt_first (dd_order d1) @ map (ds_getcrc64 \<circ> fst) (filter (plain_context \<circ> snd) xs)"
    by blast
  then show ?case using d1 x by (cases "plain_context flags") (auto simp: touch_all_def comp_def)
qed (simp add: touch_all_def)

lemma touch_all_append: "touch_all d (xs @ ys) = cbind (touch_all d xs) (\<lambda>d'. touch_all d' ys)"
  by (simp add: touch_all_def cfold_append)

section \<open>Word and chain tokens of the body\<close>

definition short_word :: "string \<Rightarrow> bool" where
  "short_word t \<longleftrightarrow> length t \<ge> 1 \<and> length t < 50"

definition chain_name :: "string \<Rightarrow> string \<Rightarrow> string" where
  "chain_name prev t = snprintf_cut 256 (ds_truncate_token prev @ ''+'' @ ds_truncate_token t)"

fun body_touches :: "bool \<Rightarrow> string option \<Rightarrow> string list \<Rightarrow> (string \<times> u32) list" where
  "body_touches chain prev [] = []"
| "body_touches chain prev (t # ts) =
     (ds_truncate_token t, DSD_CONTEXT) #
     (case prev of Some p \<Rightarrow> if chain then [(chain_name p t, DSD_CHAINED OR DSD_CONTEXT)] else [] | None \<Rightarrow> []) @
     body_touches chain (if chain then Some t else prev) ts"

lemma body_tokens_touches:
  "body_tokens_loop ctx tokens prev d =
     touch_all d (body_touches (cx_tokenizer ctx = DSZ_CHAIN) prev (filter short_word tokens))"
proof (induction ctx tokens prev d rule: body_tokens_loop.induct)
  case (2 ctx token tokens prev d)
  show ?case
  proof (cases "short_word token")
    case True
    define xs where "xs = (ds_truncate_token token, DSD_CONTEXT) #
      (case prev of Some p \<Rightarrow> if cx_tokenizer ctx = DSZ_CHAIN then [(chain_name p token, DSD_CHAINED OR DSD_CONTEXT)] else []
       | None \<Rightarrow> [])"
    have "cbind m Inr = m" for m :: "ds_diction cres" by (cases m) auto
    then have "ds_process_body_token ctx token prev d = touch_all d xs"
      by (auto simp: ds_process_body_token_def touch_all_def chain_name_def xs_def Let_def split: option.splits)
    moreover have "body_tokens_loop ctx tokens (if cx_tokenizer ctx = DSZ_CHAIN then Some token else prev) =
        (\<lambda>d'. touch_all d' (body_touches (cx_tokenizer ctx = DSZ_CHAIN)
          (if cx_tokenizer ctx = DSZ_CHAIN then Some token else prev) (filter short_word tokens)))"
      using True 2(1) unfolding short_word_def by (intro ext) blast
    ultimately have "body_tokens_loop ctx (token # tokens) prev d = cbind (touch_all d xs) (\<lambda>d'. touch_all d'
        (body_touches (cx_tokenizer ctx = DSZ_CHAIN) (if cx_tokenizer ctx = DSZ_CHAIN then Some token else prev)
          (filter short_word tokens)))"
      using True by (simp only: body_tokens_loop.simps short_word_def simp_thms if_True)
    also have "\<dots> = touch_all d (body_touches (cx_tokenizer ctx = DSZ_CHAIN) prev (filter short_word (token # tokens)))"
      unfolding touch_all_append[symmetric] using True by (simp add: xs_def)
    finally show ?thesis .
  next
    case False
    then show ?thesis using 2(2) unfolding short_word_def
      by (simp only: body_tokens_loop.simps filter.simps if_False simp_thms)
  qed
qed (simp add: touch_all_def)

lemma dsd_flags:
  "plain_context DSD_CONTEXT" "\<not> plain_context (DSD_CHAINED OR DSD_CONTEXT)" "\<not> plain_context 0"
  by (simp_all add: plain_context_def DSD_CONTEXT_def DSD_CHAINED_def)

lemma body_touches_word:
  "map (ds_getcrc64 \<circ> fst) (filter (plain_context \<circ> snd) (body_touches chain prev ws)) =
     map (ds_getcrc64 \<circ> ds_truncate_token) ws"
  by (induction chain prev ws rule: body_touches.induct) (auto simp: dsd_flags split: option.splits)

lemma body_touches_count:
  "count_list (map (ds_getcrc64 \<circ> fst) (body_touches chain prev ws)) k =
     count_list (map (ds_getcrc64 \<circ> ds_truncate_token) ws) k +
     (if chain then count_list (map (\<lambda>(a, b). ds_getcrc64 (chain_name a b))
        (zip (case prev of None \<Rightarrow> ws | Some p \<Rightarrow> p # ws) (case prev of None \<Rightarrow> tl ws | Some p \<Rightarrow> ws))) k else 0)"
proof (induction chain prev ws rule: body_touches.induct)
  case (2 chain prev t ts)
  then show ?case by (cases ts) (auto split: option.splits)
qed (auto split: option.splits)

section \<open>Truncation\<close>

lemma truncate_rev_bangs: "truncate_rev (a # replicate (Suc n) (CHR ''!'') @ c # rest) =
    (if c = CHR ''!'' then truncate_rev (CHR ''!'' # c # rest) else CHR ''!'' # c # rest)"
  by (induction n arbitrary: a) auto

section \<open>Sparse keys\<close>

text \<open>A word as the sparse delimiters leave it: no separator and no gap sign in it.\<close>

definition sparse_word :: "string \<Rightarrow> bool" where
  "sparse_word t \<longleftrightarrow> t \<noteq> [] \<and> length t < 50 \<and> CHR ''+'' \<notin> set t \<and> CHR ''#'' \<notin> set t"

definition part_at :: "string option list \<Rightarrow> nat \<Rightarrow> nat \<Rightarrow> string" where
  "part_at prev m i = (case prev ! i of None \<Rightarrow> ''#'' | Some t \<Rightarrow> if bit m i then t else ''#'')"

fun join_parts :: "string list \<Rightarrow> string" where
  "join_parts [] = []"
| "join_parts [p] = p"
| "join_parts (p # q # ps) = p @ ''+'' @ join_parts (q # ps)"

lemma join_parts_snoc: "ps \<noteq> [] \<Longrightarrow> join_parts (ps @ [p]) = join_parts ps @ ''+'' @ p"
  by (induction ps rule: join_parts.induct) auto

lemma nth_concat_uniform:
  assumes "\<forall>x\<in>set xs. length x = n" "i < length xs" "j < n"
  shows "concat xs ! (i * n + j) = xs ! i ! j"
  using assms
proof (induction xs arbitrary: i)
  case (Cons x xs)
  then show ?case by (cases i) (auto simp: nth_append add.assoc)
qed simp

lemma bitpattern_bit:
  assumes "m < 32" "i < 5"
  shows "ds_generate_bitpattern 32 ! (m * SPARSE_WINDOW_SIZE + i) = bit m i"
proof -
  have p: "ds_pow2 (of_nat i) = (2::u32) ^ i"
    using assms(2) by (simp add: ds_pow2_def ds_pow_def pow_loop unat_of_nat)
  have e: "(if i = 0 then 1 else ds_pow2 (of_nat i)) = (2::u32) ^ i" by (simp add: p)
  have "((of_nat m :: u32) AND 2 ^ i \<noteq> 0) = bit (of_nat m :: u32) i"
    by (simp add: and_exp_eq_0_iff_not_bit)
  also have "\<dots> = bit m i" using assms(2) by (simp add: bit_of_nat_iff_bit bit_simps)
  finally have "((of_nat m :: u32) AND (if i = 0 then 1 else ds_pow2 (of_nat i)) \<noteq> 0) = bit m i"
    unfolding e .
  then show ?thesis
    unfolding ds_generate_bitpattern_def SPARSE_WINDOW_SIZE_def using assms
    by (subst nth_concat_uniform) auto
qed

lemma upt_5: "[0..<5] = [0, 1, 2, 3, 4::nat]"
  by (simp add: upt_rec)

definition literals :: "string option list \<Rightarrow> nat \<Rightarrow> nat" where
  "literals prev m = length (filter (\<lambda>i. prev ! i \<noteq> None \<and> bit m i) [0..<5])"

lemma key_slot_step:
  assumes "i < 5" "m < 32" "\<forall>t. prev ! i = Some t \<longrightarrow> sparse_word t" "length key + 51 < 255"
  shows "key_slot (ds_generate_bitpattern 32) m prev (key, n) i =
    (key @ (if i > 0 then ''+'' else []) @ part_at prev m i,
     n + (if prev ! i \<noteq> None \<and> bit m i then 1 else 0))"
  using assms bitpattern_bit[OF assms(2,1)]
  by (auto simp: key_slot_def part_at_def key_char_def sparse_word_def Let_def split: option.splits)

lemma length_part: "\<forall>t. prev ! i = Some t \<longrightarrow> sparse_word t \<Longrightarrow> length (part_at prev m i) < 50"
  by (auto simp: part_at_def sparse_word_def split: option.splits)

lemma sparse_key_parts:
  assumes "m < 32" "\<And>i t. i < 5 \<Longrightarrow> prev ! i = Some t \<Longrightarrow> sparse_word t"
  shows "sparse_key (ds_generate_bitpattern 32) prev m =
    (join_parts (map (part_at prev m) [0..<5]), literals prev m)"
proof -
  have w: "\<forall>t. prev ! i = Some t \<longrightarrow> sparse_word t" if "i < 5" for i using assms(2) that by blast
  have l: "length (part_at prev m i) < 50" if "i < 5" for i using length_part[OF w[OF that]] .
  note st = key_slot_step[OF _ assms(1) w]
  show ?thesis
    unfolding sparse_key_def SPARSE_WINDOW_SIZE_def upt_5 literals_def
    using l[of 0] l[of 1] l[of 2] l[of 3] l[of 4] by (simp add: st)
qed

lemma trim_gaps_noop: "x = [] \<or> hd x \<noteq> CHR ''#'' \<Longrightarrow> trim_gaps x = x"
  by (cases x rule: trim_gaps.cases) auto

definition is_part :: "string \<Rightarrow> bool" where
  "is_part p \<longleftrightarrow> p = ''#'' \<or> sparse_word p"

definition cut_parts :: "string list \<Rightarrow> string list" where
  "cut_parts ps = rev (dropWhile (\<lambda>p. p = ''#'') (rev ps))"

lemma word_not_gap: "sparse_word p \<Longrightarrow> p \<noteq> ''#'' \<and> p \<noteq> [] \<and> hd p \<noteq> CHR ''#'' \<and> last p \<noteq> CHR ''#''"
  by (auto simp: sparse_word_def) (metis list.set_sel(1), metis last_in_set)

lemma join_parts_ne: "ps \<noteq> [] \<Longrightarrow> \<forall>p\<in>set ps. is_part p \<Longrightarrow> join_parts ps \<noteq> []"
  by (cases ps rule: join_parts.cases) (auto simp: is_part_def sparse_word_def)

lemma trim_join:
  assumes "\<forall>p\<in>set ps. is_part p" "\<exists>p\<in>set ps. p \<noteq> ''#''"
  shows "rev (trim_gaps (rev (join_parts ps))) = join_parts (cut_parts ps)"
  using assms
proof (induction ps rule: rev_induct)
  case (snoc p ps)
  show ?case
  proof (cases "p = ''#''")
    case True
    then have ps: "ps \<noteq> []" "\<exists>p\<in>set ps. p \<noteq> ''#''" using snoc.prems by auto
    obtain c rest where r: "rev (join_parts ps) = c # rest"
      using join_parts_ne[OF ps(1)] snoc.prems by (cases "rev (join_parts ps)") auto
    have "trim_gaps (rev (join_parts (ps @ [p]))) = trim_gaps (rev (join_parts ps))"
      using r ps(1) True by (simp add: join_parts_snoc)
    then show ?thesis using snoc ps(2) True by (simp add: cut_parts_def)
  next
    case False
    then have w: "sparse_word p" using snoc.prems by (auto simp: is_part_def)
    have "hd (rev (join_parts (ps @ [p]))) \<noteq> CHR ''#''"
      using word_not_gap[OF w] by (cases "ps = []") (auto simp: join_parts_snoc hd_rev)
    then have "trim_gaps (rev (join_parts (ps @ [p]))) = rev (join_parts (ps @ [p]))"
      by (intro trim_gaps_noop) simp
    then show ?thesis using False by (simp add: cut_parts_def)
  qed
qed simp

lemma cut_parts_hd:
  assumes "\<exists>p\<in>set ps. p \<noteq> ''#''"
  shows "cut_parts ps \<noteq> [] \<and> hd (cut_parts ps) = hd ps \<and> last (cut_parts ps) \<noteq> ''#'' \<and> set (cut_parts ps) \<subseteq> set ps"
proof -
  obtain x y where d: "rev ps = x @ y" "y = dropWhile (\<lambda>p. p = ''#'') (rev ps)" by (metis takeWhile_dropWhile_id)
  have "\<exists>p\<in>set (rev ps). p \<noteq> ''#''" using assms by simp
  then have ne: "y \<noteq> []" unfolding d(2) dropWhile_eq_Nil_conv by blast
  have ps: "ps = rev y @ rev x" using d(1) by (metis rev_append rev_rev_ident)
  have "hd y \<noteq> ''#''" using hd_dropWhile[of "\<lambda>p. p = ''#''" "rev ps"] ne by (simp add: d(2)[symmetric])
  moreover have cp: "cut_parts ps = rev y" unfolding cut_parts_def d(2) by simp
  moreover have "hd ps = hd (rev y)" "set (rev y) \<subseteq> set ps"
    using ne arg_cong[OF ps, of hd] arg_cong[OF ps, of set] by (simp_all add: hd_append)
  ultimately show ?thesis using ne unfolding cp by (simp only: last_rev rev_is_Nil_conv) simp
qed

lemma sparse_hit_parts:
  assumes "\<forall>p\<in>set ps. is_part p" "n \<noteq> 0 \<Longrightarrow> \<exists>p\<in>set ps. p \<noteq> ''#''"
  shows "sparse_hit tokenizer (join_parts ps, n) =
    (if ((tokenizer = DSZ_SBPH \<and> n \<noteq> 0) \<or> (tokenizer = DSZ_OSB \<and> n = 2)) \<and> hd ps \<noteq> ''#''
     then Some (join_parts (cut_parts ps)) else None)"
proof (cases "n = 0")
  case False
  then have ex: "\<exists>p\<in>set ps. p \<noteq> ''#''" using assms(2) by simp
  note cut = cut_parts_hd[OF ex]
  have "take 2 (join_parts (cut_parts ps)) = ''#+'' \<longleftrightarrow> hd ps = ''#''"
  proof (cases "cut_parts ps" rule: join_parts.cases)
    case (2 p)
    then have "is_part p" "p \<noteq> ''#''" using cut assms(1) by auto
    then obtain a l where p: "p = a # l" "a \<noteq> CHR ''#''"
      using word_not_gap[of p] by (cases p) (auto simp: is_part_def)
    have "hd ps = p" using 2 cut by simp
    then show ?thesis unfolding 2 by (simp add: p)
  next
    case (3 p q qs)
    then have p: "is_part p" "hd ps = p" using cut assms(1) by auto
    show ?thesis
    proof (cases "p = ''#''")
      case False
      then obtain a l where "p = a # l" "a \<noteq> CHR ''#''"
        using word_not_gap[of p] p(1) by (cases p) (auto simp: is_part_def)
      then show ?thesis unfolding 3 p(2) by simp
    qed (simp add: 3 p(2))
  qed (use cut in simp)
  then show ?thesis using trim_join[OF assms(1) ex] by (simp add: sparse_hit_def Let_def)
qed (simp add: sparse_hit_def)

definition win :: "string list \<Rightarrow> string option list" where
  "win ws = map Some ws @ replicate (5 - length ws) None"

definition osb_name :: "string \<Rightarrow> nat \<Rightarrow> string \<Rightarrow> string" where
  "osb_name a d b = a @ concat (replicate (d - 1) ''+#'') @ ''+'' @ b"

lemma part_at_part: "(\<And>t. prev ! i = Some t \<Longrightarrow> sparse_word t) \<Longrightarrow> is_part (part_at prev m i)"
  by (auto simp: part_at_def is_part_def split: option.splits)

lemma hit_window:
  assumes "m < 32" "\<And>i t. i < 5 \<Longrightarrow> prev ! i = Some t \<Longrightarrow> sparse_word t"
  shows "sparse_hit tokenizer (sparse_key (ds_generate_bitpattern 32) prev m) =
    (if ((tokenizer = DSZ_SBPH \<and> literals prev m \<noteq> 0) \<or> (tokenizer = DSZ_OSB \<and> literals prev m = 2)) \<and>
        prev ! 0 \<noteq> None \<and> bit m 0
     then Some (join_parts (cut_parts (map (part_at prev m) [0..<5]))) else None)"
proof -
  let ?ps = "map (part_at prev m) [0..<5]"
  have parts: "\<forall>p\<in>set ?ps. is_part p" using part_at_part assms(2) by auto
  have "\<exists>p\<in>set ?ps. p \<noteq> ''#''" if "literals prev m \<noteq> 0"
  proof -
    from that obtain i where "i < 5" "prev ! i \<noteq> None" "bit m i"
      by (auto simp: literals_def filter_empty_conv)
    moreover then have "part_at prev m i \<noteq> ''#''"
      using assms(2)[of i] word_not_gap by (auto simp: part_at_def)
    ultimately show ?thesis by auto
  qed
  moreover have "hd ?ps \<noteq> ''#'' \<longleftrightarrow> prev ! 0 \<noteq> None \<and> bit m 0"
    using assms(2)[of 0] word_not_gap by (auto simp: upt_5 part_at_def split: option.splits)
  moreover have k: "sparse_key (ds_generate_bitpattern 32) prev m = (join_parts ?ps, literals prev m)"
    by (rule sparse_key_parts[OF assms])
  ultimately show ?thesis
    unfolding k using sparse_hit_parts[OF parts, of "literals prev m" tokenizer] by auto
qed

lemma win_nth: "length ws \<le> 5 \<Longrightarrow> i < 5 \<Longrightarrow> win ws ! i = (if i < length ws then Some (ws ! i) else None)"
  by (auto simp: win_def nth_append)

lemma win_words: "\<forall>w\<in>set ws. sparse_word w \<Longrightarrow> length ws \<le> 5 \<Longrightarrow> i < 5 \<Longrightarrow> win ws ! i = Some t \<Longrightarrow> sparse_word t"
  by (auto simp: win_nth split: if_splits)

lemma breadth_power:
  assumes "length (filter (\<lambda>t. t \<noteq> None) prev) = n" "n \<le> 5"
  shows "window_breadth prev = 2 ^ n"
proof -
  have "window_breadth prev = unat (of_nat (2 ^ n) :: u32)"
    using assms by (simp add: window_breadth_def ds_pow2_def ds_pow_def pow_loop unat_of_nat)
  also have "\<dots> = 2 ^ n"
  proof -
    have "(2::nat) ^ n \<le> 2 ^ 5" using assms(2) by (intro power_increasing) simp_all
    then show ?thesis unfolding unat_of_nat by simp
  qed
  finally show ?thesis .
qed

lemma breadth_win: "length ws \<le> 5 \<Longrightarrow> window_breadth (win ws) = 2 ^ length ws"
  by (rule breadth_power) (simp_all add: win_def)

lemma two_bits: "1 \<le> d \<Longrightarrow> d < 5 \<Longrightarrow> i < 5 \<Longrightarrow> bit (2 ^ d + 1 :: nat) i \<longleftrightarrow> i = 0 \<or> i = d"
proof -
  have "\<forall>d\<in>set [1..<5]. \<forall>i\<in>set [0..<5]. bit (2 ^ d + 1 :: nat) i = (i = 0 \<or> i = d)" by code_simp
  then show "1 \<le> d \<Longrightarrow> d < 5 \<Longrightarrow> i < 5 \<Longrightarrow> bit (2 ^ d + 1 :: nat) i \<longleftrightarrow> i = 0 \<or> i = d" by simp
qed

lemma two_bit_masks:
  assumes "1 \<le> a" "a \<le> 5"
  shows "filter (\<lambda>m. length (filter (bit m) [0..<a]) = 2 \<and> bit m 0) [0..<2 ^ a] = map (\<lambda>d. 2 ^ d + 1) [1..<a]"
proof -
  have "\<forall>a\<in>set [1..<6]. filter (\<lambda>m. length (filter (bit m) [0..<a]) = 2 \<and> bit m 0) [0..<2 ^ a] =
      map (\<lambda>d. 2 ^ d + 1) [1..<a]" by code_simp
  then show ?thesis using assms by simp
qed

lemma literals_win: "length ws \<le> 5 \<Longrightarrow> literals (win ws) m = length (filter (bit m) [0..<length ws])"
proof -
  assume l: "length ws \<le> 5"
  then have "[0..<5] = [0..<length ws] @ [length ws..<5]" by (metis le_add_diff_inverse upt_add_eq_append zero_le)
  moreover have "filter (\<lambda>i. win ws ! i \<noteq> None \<and> bit m i) [length ws..<5] = []"
    using l by (auto simp: filter_empty_conv win_nth)
  moreover have "filter (\<lambda>i. win ws ! i \<noteq> None \<and> bit m i) [0..<length ws] = filter (bit m) [0..<length ws]"
    using l by (intro filter_cong) (auto simp: win_nth)
  ultimately show ?thesis by (simp add: literals_def)
qed

lemma osb_pair_parts:
  assumes "1 \<le> d" "d < length ws" "length ws \<le> 5" "\<forall>w\<in>set ws. sparse_word w"
  shows "join_parts (cut_parts (map (part_at (win ws) (2 ^ d + 1)) [0..<5])) = osb_name (ws ! 0) d (ws ! d)"
proof -
  have p: "part_at (win ws) (2 ^ d + 1) i = (if i = 0 \<or> i = d then ws ! i else ''#'')" if "i < 5" for i
    using that assms two_bits[of d i] by (auto simp: part_at_def win_nth)
  have ne: "ws ! d \<noteq> ''#''" "ws ! 0 \<noteq> ''#''" using assms word_not_gap by (metis nth_mem, metis length_greater_0_conv nth_mem less_nat_zero_code list.size(3))
  have m: "map (part_at (win ws) (2 ^ d + 1)) [0..<5] = map (\<lambda>i. if i = 0 \<or> i = d then ws ! i else ''#'') [0, 1, 2, 3, 4]"
    unfolding upt_5[symmetric] by (intro map_cong refl p) simp
  have r: "replicate 2 x = [x, x]" "replicate 3 x = [x, x, x]" for x :: string
    by (simp_all add: numeral_eq_Suc)
  have "d = 1 \<or> d = 2 \<or> d = 3 \<or> d = 4" using assms by auto
  then show ?thesis using ne unfolding m by (elim disjE) (simp_all add: cut_parts_def osb_name_def r)
qed

lemma map_the_filter: "map the (filter (\<lambda>k. k \<noteq> None) (map (\<lambda>m. if P m then Some (f m) else None) ms)) = map f (filter P ms)"
  by (induction ms) auto

text \<open>The names of a window with OSB: its first word paired with each later one.\<close>

lemma osb_window:
  assumes "ws \<noteq> []" "length ws \<le> 5" "\<forall>w\<in>set ws. sparse_word w"
  shows "window_names DSZ_OSB (ds_generate_bitpattern 32) (win ws) =
    map (\<lambda>d. osb_name (ws ! 0) d (ws ! d)) [1..<length ws]"
proof -
  let ?P = "\<lambda>m. length (filter (bit m) [0..<length ws]) = 2 \<and> bit m 0"
  let ?f = "\<lambda>m. join_parts (cut_parts (map (part_at (win ws) m) [0..<5]))"
  have small: "m < 32" if "m < 2 ^ length ws" for m :: nat
  proof -
    have "(2::nat) ^ length ws \<le> 2 ^ 5" using assms(2) by (intro power_increasing) simp_all
    then show ?thesis using that by simp
  qed
  have hit: "sparse_hit DSZ_OSB (sparse_key (ds_generate_bitpattern 32) (win ws) m) = (if ?P m then Some (?f m) else None)"
    if "m < 2 ^ length ws" for m
    using hit_window[OF small[OF that] win_words[OF assms(3,2)], where tokenizer = DSZ_OSB] literals_win[OF assms(2)]
      win_nth[OF assms(2), of 0] assms(1) by auto
  have "map (\<lambda>m. sparse_hit DSZ_OSB (sparse_key (ds_generate_bitpattern 32) (win ws) m)) [0..<2 ^ length ws] =
      map (\<lambda>m. if ?P m then Some (?f m) else None) [0..<2 ^ length ws]"
    using hit by (intro map_cong) auto
  then have "window_names DSZ_OSB (ds_generate_bitpattern 32) (win ws) = map ?f (filter ?P [0..<2 ^ length ws])"
    unfolding window_names_def breadth_win[OF assms(2)] by (simp only: map_the_filter)
  also have "\<dots> = map ?f (map (\<lambda>d. 2 ^ d + 1) [1..<length ws])"
    using two_bit_masks[of "length ws"] assms(1,2) by (simp add: Suc_le_eq)
  finally show ?thesis using osb_pair_parts[OF _ _ assms(2,3)] by simp
qed

lemma empty_first_window:
  assumes "prev ! 0 = None" "\<And>i t. i < 5 \<Longrightarrow> prev ! i = Some t \<Longrightarrow> sparse_word t" "length prev = 5"
  shows "window_names tokenizer (ds_generate_bitpattern 32) prev = []"
proof -
  have "length (filter (\<lambda>t. t \<noteq> None) prev) \<le> 4"
  proof -
    obtain ys where "prev = None # ys" "length ys = 4" using assms(1,3) by (cases prev) auto
    then show ?thesis using length_filter_le[of _ ys] by auto
  qed
  then have "window_breadth prev \<le> 2 ^ 4"
    by (subst breadth_power[OF refl], linarith, intro power_increasing) auto
  then have "sparse_hit tokenizer (sparse_key (ds_generate_bitpattern 32) prev m) = None"
    if "m < window_breadth prev" for m
    using that hit_window[of m prev tokenizer] assms(1,2) by simp
  then show ?thesis by (simp add: window_names_def filter_empty_conv)
qed

section \<open>The sliding window\<close>

lemma window_slide: "length L = 5 + length xs \<Longrightarrow> j < length xs \<Longrightarrow> drop 5 L = xs \<Longrightarrow>
    window_push (take 5 (drop j L)) (xs ! j) = take 5 (drop (Suc j) L)"
proof -
  assume L: "length L = 5 + length xs" "j < length xs" "drop 5 L = xs"
  have x: "xs ! j = L ! (5 + j)" using L by (metis nth_drop le_add1)
  have "drop j L = L ! j # drop (Suc j) L" using L by (simp add: Cons_nth_drop_Suc)
  then have "tl (take 5 (drop j L)) = take 4 (drop (Suc j) L)" by (simp add: numeral_eq_Suc)
  moreover have "take 5 (drop (Suc j) L) = take 4 (drop (Suc j) L) @ [drop (Suc j) L ! 4]"
    using L take_Suc_conv_app_nth[of 4 "drop (Suc j) L"] by simp
  ultimately show ?thesis using x L by (simp add: window_push_def add.commute)
qed

lemma body_windows:
  assumes "length L = 5 + length xs" "drop 5 L = xs" "j \<le> length xs"
  shows "cbind (cfold (\<lambda>(prev, d) t. ds_map_body_token ctx t prev d bp) (take 5 (drop j L), d) (drop j xs)) (\<lambda>(_, d'). Inr d') =
    touch_all d (map (\<lambda>n. (n, DSD_CONTEXT)) (concat (map (\<lambda>p. window_names (cx_tokenizer ctx) bp (take 5 (drop (Suc p) L))) [j..<length xs])))"
  using assms(3)
proof (induction "length xs - j" arbitrary: j d)
  case 0
  then show ?case by (simp add: touch_all_def)
next
  case (Suc n)
  then have j: "j < length xs" by simp
  have t: "touch_all d (map (\<lambda>n. (n, DSD_CONTEXT)) ns) = cfold (\<lambda>d k. touch d k DSD_CONTEXT) d ns" for d ns
    by (induction ns arbitrary: d) (simp_all add: touch_all_def)
  define ns where "ns = window_names (cx_tokenizer ctx) bp (take 5 (drop (Suc j) L))"
  have "ds_map_body_token ctx (xs ! j) (take 5 (drop j L)) d' bp =
      cbind (touch_all d' (map (\<lambda>n. (n, DSD_CONTEXT)) ns)) (\<lambda>d''. Inr (take 5 (drop (Suc j) L), d''))" for d'
    unfolding t by (simp add: ds_map_body_token_def Let_def window_slide[OF assms(1) j assms(2)] ns_def)
  moreover have "drop j xs = xs ! j # drop (Suc j) xs" using j by (simp add: Cons_nth_drop_Suc)
  moreover have "[j..<length xs] = j # [Suc j..<length xs]" using j by (simp add: upt_conv_Cons)
  ultimately show ?case
    using Suc.hyps(1)[of "Suc j"] Suc.hyps(2) j
    by (cases "touch_all d (map (\<lambda>n. (n, DSD_CONTEXT)) ns)") (simp_all add: touch_all_append ns_def[symmetric])
qed

text \<open>The windows of a text: only those that start at a word name anything.\<close>

definition osb_names :: "string list \<Rightarrow> string list" where
  "osb_names ws = concat (map (\<lambda>i. map (\<lambda>d. osb_name (ws ! i) d (ws ! (i + d))) [1..<min 5 (length ws - i)]) [0..<length ws])"

lemma osb_all_windows:
  assumes "\<forall>w\<in>set ws. sparse_word w"
  defines "L \<equiv> replicate 5 None @ map Some ws @ replicate 5 None"
  shows "concat (map (\<lambda>p. window_names DSZ_OSB (ds_generate_bitpattern 32) (take 5 (drop (Suc p) L))) [0..<length ws + 5]) = osb_names ws"
proof -
  let ?N = "\<lambda>p. window_names DSZ_OSB (ds_generate_bitpattern 32) (take 5 (drop p L))"
  have len: "length (take 5 (drop p L)) = 5" if "p \<le> length ws + 5" for p using that by (simp add: L_def)
  have word: "sparse_word t" if "i < 5" "take 5 (drop p L) ! i = Some t" "p \<le> length ws + 5" for p i t
  proof -
    have "Some t \<in> set (take 5 (drop p L))" using that len nth_mem by metis
    then have "Some t \<in> set L" by (meson in_set_takeD in_set_dropD)
    then show ?thesis using assms(1) by (auto simp: L_def)
  qed
  have nil: "?N p = []" if "p \<le> length ws + 5" "L ! p = None" for p
  proof (rule empty_first_window)
    have "p < length L" using that by (simp add: L_def)
    then show "take 5 (drop p L) ! 0 = None" using that by simp
  qed (use word len that in blast)+
  have first: "map ?N [1..<5] = map (\<lambda>_. []) [1..<5]"
    by (intro map_cong refl nil) (auto simp: L_def nth_append)
  have lastw: "?N (length ws + 5) = []" by (rule nil) (simp_all add: L_def nth_append)
  have mid: "?N (i + 5) = map (\<lambda>d. osb_name (ws ! i) d (ws ! (i + d))) [1..<min 5 (length ws - i)]" if i: "i < length ws" for i
  proof -
    define v where "v = take 5 (drop i ws)"
    have v: "v \<noteq> []" "length v \<le> 5" "\<forall>w\<in>set v. sparse_word w" "length v = min 5 (length ws - i)"
      using i assms(1) by (auto simp: v_def dest: in_set_takeD in_set_dropD)
    have "take 5 (drop (i + 5) L) = win v"
      using i by (simp add: L_def win_def v_def take_map drop_map min_def)
    then have "?N (i + 5) = map (\<lambda>d. osb_name (v ! 0) d (v ! d)) [1..<length v]"
      using osb_window[OF v(1-3)] by simp
    also have "\<dots> = map (\<lambda>d. osb_name (ws ! i) d (ws ! (i + d))) [1..<length v]"
      using i v(4) by (intro map_cong) (auto simp: v_def)
    finally show ?thesis using v(4) by simp
  qed
  have "map (\<lambda>p. ?N (Suc p)) [0..<length ws + 5] = map ?N [1..<length ws + 6]"
    by (intro nth_equalityI) auto
  also have "[1..<length ws + 6] = [1..<5] @ map (\<lambda>i. i + 5) [0..<length ws] @ [length ws + 5]"
  proof -
    have "[1..<length ws + 6] = [1..<5] @ [5..<length ws + 6]"
      using upt_add_eq_append[of 1 5 "length ws + 1"] by (simp add: add.commute)
    moreover have "[5..<length ws + 6] = [5..<length ws + 5] @ [length ws + 5]"
      using upt_Suc_append[of 5 "length ws + 5"] by (simp add: add.commute del: upt_Suc)
    ultimately show ?thesis by (simp only: map_add_upt append_assoc)
  qed
  finally have all: "map (\<lambda>p. ?N (Suc p)) [0..<length ws + 5] =
      map ?N [1..<5] @ map (\<lambda>i. ?N (i + 5)) [0..<length ws] @ [?N (length ws + 5)]"
    by (simp only: map_append map_map comp_def list.map)
  have mids: "map (\<lambda>i. ?N (i + 5)) [0..<length ws] =
      map (\<lambda>i. map (\<lambda>d. osb_name (ws ! i) d (ws ! (i + d))) [1..<min 5 (length ws - i)]) [0..<length ws]"
    using mid by (intro map_cong) auto
  have "concat (map (\<lambda>_. []) xs) = []" for xs :: "nat list" by simp
  then show ?thesis unfolding all first lastw mids osb_names_def by simp
qed

lemma strtok_all_words: "t \<in> set (strtok_all delim s) \<Longrightarrow> t \<noteq> [] \<and> set t \<inter> set delim = {}"
proof (induction delim s rule: strtok_all.induct)
  case (1 delim s)
  let ?s1 = "dropWhile (\<lambda>c. c \<in> set delim) s"
  show ?case
  proof (cases "strtok_r s delim")
    case None
    then show ?thesis using 1(2) by (simp add: strtok_all.simps)
  next
    case (Some p)
    obtain u rest where p: "p = (u, rest)" by (cases p)
    have u: "u = takeWhile (\<lambda>c. c \<notin> set delim) ?s1" "?s1 \<noteq> []"
      using Some p by (auto simp: strtok_r_def Let_def split: if_splits)
    have "hd ?s1 \<notin> set delim" using u(2) hd_dropWhile by metis
    then have "u \<noteq> []" "set u \<inter> set delim = {}" using u by (cases ?s1; auto dest: set_takeWhileD)+
    moreover have "t = u \<or> t \<in> set (strtok_all delim rest)"
      using 1(2) Some p by (auto simp: strtok_all.simps[of delim s])
    ultimately show ?thesis using 1(1)[OF Some p[symmetric]] by blast
  qed
qed

lemma sparse_words_ok:
  assumes "CHR ''+'' \<in> set delim" "CHR ''#'' \<in> set delim"
  shows "\<forall>w\<in>set (filter (\<lambda>t. length t > 0 \<and> length t < 50) (strtok_all delim s)). sparse_word w"
  using strtok_all_words assms by (fastforce simp: sparse_word_def)

section \<open>Properties\<close>

text \<open>
  C21. Tokenising a body counts its words. The dictionary after the body loop counts every
  token of fewer than 50 characters under the checksum of its truncated form, with the chain
  tokenizer every adjacent pair as well, and nothing else; the order list records the words
  in the order of the text.
\<close>

theorem body_tokens_counted:
  fixes body :: string
  assumes "dict_ok d"
  defines "ws \<equiv> filter short_word (strtok_all DELIMITERS body)"
  shows "\<exists>d'. body_tokens_loop ctx (strtok_all DELIMITERS body) None d = Inr d' \<and> dict_ok d' \<and>
    (\<forall>k. freq d' k = freq d k + int (count_list (map (ds_getcrc64 \<circ> ds_truncate_token) ws) k) +
       (if cx_tokenizer ctx = DSZ_CHAIN
        then int (count_list (map (\<lambda>(a, b). ds_getcrc64 (chain_name a b)) (zip ws (tl ws))) k) else 0)) \<and>
    nt_first (dd_order d') = nt_first (dd_order d) @ map (ds_getcrc64 \<circ> ds_truncate_token) ws"
  using touch_all_ok[OF assms(1), of "body_touches (cx_tokenizer ctx = DSZ_CHAIN) None ws"]
  by (auto simp: body_tokens_touches ws_def[symmetric] body_touches_count body_touches_word)

theorem body_tokens_counted_witness:
  "dict_ok small_dict \<and>
   (\<exists>d'. body_tokens_loop \<lparr>cx_tokenizer = DSZ_WORD, cx_flags = 0, cx_attributes = [Some []]\<rparr>
      (strtok_all DELIMITERS ''buy now'') None small_dict = Inr d' \<and> dict_ok d')"
  using body_tokens_counted[OF small_dict_ok, where body = "''buy now''"] small_dict_ok by blast

text \<open>
  C20. The OSB tokenizer hits exactly the pairs of words at most four apart. Running the
  window of five over the words of a body, and flushing it, counts for every word and each
  of the next four words the key that spells the pair with one gap sign per word between
  them, once per occurrence, and nothing else.
\<close>

theorem osb_counts_pairs:
  fixes body :: string
  assumes "dict_ok d" "cx_tokenizer ctx = DSZ_OSB"
  defines "ws \<equiv> filter (\<lambda>t. length t > 0 \<and> length t < 50) (strtok_all SPARSE_DELIMITERS body)"
  shows "\<exists>d' prev'. cfold (\<lambda>(prev, d) t. ds_map_body_token ctx t prev d (ds_generate_bitpattern 32)) (ds_sparse_clear, d)
      (sparse_words (strtok_all SPARSE_DELIMITERS body)) = Inr (prev', d') \<and> dict_ok d' \<and>
    (\<forall>k. freq d' k = freq d k + int (count_list (map ds_getcrc64
      [osb_name (ws ! i) s (ws ! (i + s)). i \<leftarrow> [0..<length ws], s \<leftarrow> [1..<min 5 (length ws - i)]]) k))"
proof -
  define xs where "xs = map Some ws @ replicate 5 (None :: string option)"
  define L where "L = replicate 5 None @ xs"
  let ?c = "cfold (\<lambda>(prev, d) t. ds_map_body_token ctx t prev d (ds_generate_bitpattern 32)) (ds_sparse_clear, d) xs"
  have words: "\<forall>w\<in>set ws. sparse_word w"
    unfolding ws_def by (rule sparse_words_ok) (simp_all add: SPARSE_DELIMITERS_def)
  have "cbind ?c (\<lambda>(_, d'). Inr d') = touch_all d (map (\<lambda>n. (n, DSD_CONTEXT)) (osb_names ws))"
  proof -
    have L: "length L = 5 + length xs" "drop 5 L = xs" "take 5 (drop 0 L) = ds_sparse_clear" "length xs = length ws + 5"
      by (simp_all add: L_def xs_def ds_sparse_clear_def SPARSE_WINDOW_SIZE_def)
    then show ?thesis
      using body_windows[of L xs 0 ctx "ds_generate_bitpattern 32" d] osb_all_windows[OF words, folded xs_def, folded L_def]
        assms(2) by simp
  qed
  moreover obtain d' where d': "touch_all d (map (\<lambda>n. (n, DSD_CONTEXT)) (osb_names ws)) = Inr d'" "dict_ok d'"
    "\<forall>k. freq d' k = freq d k + int (count_list (map ds_getcrc64 (osb_names ws)) k)"
    using touch_all_ok[OF assms(1), of "map (\<lambda>n. (n, DSD_CONTEXT)) (osb_names ws)"] by (auto simp: comp_def)
  ultimately obtain prev' where "?c = Inr (prev', d')" by (auto simp: cbind_Inr_iff)
  moreover have "sparse_words (strtok_all SPARSE_DELIMITERS body) = xs"
    by (simp add: sparse_words_def xs_def ws_def SPARSE_WINDOW_SIZE_def)
  ultimately show ?thesis using d' by (auto simp: osb_names_def)
qed

theorem osb_counts_pairs_witness:
  "dict_ok small_dict \<and>
   (\<exists>d' prev'. cfold (\<lambda>(prev, d) t. ds_map_body_token \<lparr>cx_tokenizer = DSZ_OSB, cx_flags = 0, cx_attributes = [Some []]\<rparr>
       t prev d (ds_generate_bitpattern 32)) (ds_sparse_clear, small_dict)
      (sparse_words (strtok_all SPARSE_DELIMITERS ''buy now'')) = Inr (prev', d') \<and> dict_ok d')"
  using osb_counts_pairs[OF small_dict_ok, of "\<lparr>cx_tokenizer = DSZ_OSB, cx_flags = 0, cx_attributes = [Some []]\<rparr>" "''buy now''"]
    small_dict_ok by auto

text \<open>
  The truncation of a token at an exclamation mark tests the wrong character: a token
  that ends in one or more exclamation marks followed by any one character loses that
  character, while the exclamation mark before it stays.
\<close>

theorem truncate_drops_last:
  assumes "w \<noteq> []" "last w \<noteq> CHR ''!''"
  shows "ds_truncate_token (w @ replicate (Suc n) (CHR ''!'') @ [c]) = w @ ''!''"
proof -
  obtain v x where w: "w = v @ [x]" "x \<noteq> CHR ''!''" using assms by (metis append_butlast_last_id)
  have "truncate_rev (rev (w @ replicate (Suc n) (CHR ''!'') @ [c])) = CHR ''!'' # x # rev v"
    using truncate_rev_bangs[of c n x "rev v"] w(2) by (simp add: w(1) replicate_append_same del: replicate_Suc)
  then show ?thesis by (simp add: ds_truncate_token_def w(1))
qed

theorem truncate_drops_last_witness: "ds_truncate_token ''a!b'' = ''a!''"
  using truncate_drops_last[of "''a''" 0 "CHR ''b''"] by simp

end
