(* ===== verification/Ds_Signature.thy ===== *)
theory Ds_Signature
  imports Dspam_Prelude
begin

text \<open>
  signature.c: the reference-counted signature of a message. The object is a cell that is
  live or freed; the reference count is an unsigned int. The data is a parameter type.
\<close>

section \<open>Operations\<close>

record 'd ds_spam_signature =
  sg_data :: "'d option"
  sg_length :: nat
  sg_ref_cnt :: u32

datatype 'd sig_cell = Live "'d ds_spam_signature" | Freed

text \<open>\<open>alloc\<close> is the allocation of the struct, \<open>data\<close> what the allocation of the data gives.\<close>

definition ds_spam_signature_new :: "bool \<Rightarrow> 'd option \<Rightarrow> nat \<Rightarrow> 'd sig_cell option" where
  "ds_spam_signature_new alloc data len =
     (if \<not> alloc then None
      else if len = 0 then Some (Live \<lparr>sg_data = None, sg_length = 0, sg_ref_cnt = 1\<rparr>)
      else case data of
        None \<Rightarrow> None
      | Some d \<Rightarrow> Some (Live \<lparr>sg_data = Some d, sg_length = len, sg_ref_cnt = 1\<rparr>))"

text \<open>The result of a get: the cell, and whether the caller was given a reference.\<close>

definition ds_spam_signature_get :: "'d sig_cell option \<Rightarrow> ('d sig_cell option \<times> bool) cres" where
  "ds_spam_signature_get sig =
     (case sig of
        None \<Rightarrow> Inr (None, False)
      | Some Freed \<Rightarrow> Inl UseAfterFree
      | Some (Live s) \<Rightarrow>
          if sg_ref_cnt s = 0 then Inr (sig, False)
          else Inr (Some (Live (s\<lparr>sg_ref_cnt := sg_ref_cnt s + 1\<rparr>)), True))"

definition ds_spam_signature_put :: "'d sig_cell option \<Rightarrow> 'd sig_cell option cres" where
  "ds_spam_signature_put sig =
     (case sig of
        None \<Rightarrow> Inr None
      | Some Freed \<Rightarrow> Inl UseAfterFree
      | Some (Live s) \<Rightarrow>
          if sg_ref_cnt s = 0 then Inr sig
          else if sg_ref_cnt s = 1 then Inr (Some Freed)
          else Inr (Some (Live (s\<lparr>sg_ref_cnt := sg_ref_cnt s - 1\<rparr>))))"

section \<open>Histories\<close>

datatype sig_op = Get | Put

text \<open>The life of one signature: gets and puts in any order.\<close>

inductive sig_step :: "'d sig_cell \<Rightarrow> sig_op \<Rightarrow> 'd sig_cell \<Rightarrow> bool" where
  get: "ds_spam_signature_get (Some c) = Inr (Some c', given) \<Longrightarrow> sig_step c Get c'"
| put: "ds_spam_signature_put (Some c) = Inr (Some c') \<Longrightarrow> sig_step c Put c'"

inductive_simps sig_step_Get [simp]: "sig_step c Get c'"
inductive_simps sig_step_Put [simp]: "sig_step c Put c'"

inductive sig_run :: "'d sig_cell \<Rightarrow> sig_op list \<Rightarrow> 'd sig_cell \<Rightarrow> bool" where
  start: "sig_run c [] c"
| step: "sig_run c ops c' \<Longrightarrow> sig_step c' op c'' \<Longrightarrow> sig_run c (ops @ [op]) c''"

fun refs :: "sig_op list \<Rightarrow> int" where
  "refs [] = 1"
| "refs (Get # ops) = refs ops + 1"
| "refs (Put # ops) = refs ops - 1"

lemma refs_append: "refs (xs @ [op]) = refs xs + (if op = Get then 1 else - 1)"
  by (induction xs rule: refs.induct) (cases op; simp)+

lemma refs_le: "refs xs \<le> 1 + int (length xs)"
  by (induction xs rule: refs.induct) auto

lemma ds_get_freed [simp]: "ds_spam_signature_get (Some Freed) = Inl UseAfterFree"
  by (simp add: ds_spam_signature_get_def)

lemma ds_put_freed [simp]: "ds_spam_signature_put (Some Freed) = Inl UseAfterFree"
  by (simp add: ds_spam_signature_put_def)

text \<open>The invariant of every history: the count is the number of references held.\<close>

lemma run_refs:
  assumes "sig_run c ops c'" "c = Live s" "sg_ref_cnt s = 1" "int (length ops) < 2 ^ 32 - 1"
  shows "case c' of
      Freed \<Rightarrow> refs ops = 0
    | Live s' \<Rightarrow> 0 < refs ops \<and> uint (sg_ref_cnt s') = refs ops \<and> sg_data s' = sg_data s \<and> sg_length s' = sg_length s"
  using assms
proof (induction rule: sig_run.induct)
  case (step c ops c' op c'')
  then have IH: "case c' of
      Freed \<Rightarrow> refs ops = 0
    | Live s' \<Rightarrow> 0 < refs ops \<and> uint (sg_ref_cnt s') = refs ops \<and> sg_data s' = sg_data s \<and> sg_length s' = sg_length s"
    by simp
  show ?case
  proof (cases c')
    case Freed
    then show ?thesis using step(2) by (cases op) auto
  next
    case (Live s')
    have u: "uint (sg_ref_cnt s') = refs ops" "0 < refs ops" "refs ops < 2 ^ 32 - 1 + 1"
      using IH Live refs_le[of ops] step.prems by auto
    then have nz: "sg_ref_cnt s' \<noteq> 0" by (auto simp: word_uint_eq_iff)
    show ?thesis
    proof (cases op)
      case Get
      have "uint (sg_ref_cnt s' + 1) = refs ops + 1"
        using u refs_le[of ops] step.prems by (simp add: uint_word_ariths Get)
      then show ?thesis using step(2) Live Get nz IH u
        by (auto simp: ds_spam_signature_get_def refs_append)
    next
      case Put
      have one: "sg_ref_cnt s' = 1 \<longleftrightarrow> refs ops = 1" using u by (auto simp: word_uint_eq_iff)
      have "refs ops \<noteq> 1 \<Longrightarrow> uint (sg_ref_cnt s' - 1) = refs ops - 1"
        using u by (simp add: uint_word_ariths)
      then show ?thesis using step(2) Live Put nz IH u one
        by (auto simp: ds_spam_signature_put_def refs_append split: if_splits)
    qed
  qed
qed auto

section \<open>Properties\<close>

text \<open>
  A signature lives exactly as long as it is referenced: after any history of fewer than
  2^32 - 1 gets and puts the object is freed if and only if no reference is left, and until
  then its count is the number of references and its data is untouched.
\<close>

theorem signature_freed_iff_unreferenced:
  assumes "ds_spam_signature_new True (Some d) len = Some c" "sig_run c ops c'" "int (length ops) < 2 ^ 32 - 1"
  shows "(c' = Freed \<longleftrightarrow> refs ops = 0) \<and>
    (\<forall>s. c' = Live s \<longrightarrow> uint (sg_ref_cnt s) = refs ops \<and> sg_data s = (if len = 0 then None else Some d))"
proof -
  obtain s where c: "c = Live s" "sg_ref_cnt s = 1" "sg_data s = (if len = 0 then None else Some d)"
    using assms(1) by (auto simp: ds_spam_signature_new_def split: if_splits)
  show ?thesis using run_refs[OF assms(2) c(1,2) assms(3)] c(3)
    by (cases c') (auto simp del: One_nat_def)
qed

theorem signature_freed_iff_unreferenced_witness:
  "\<exists>c s. ds_spam_signature_new True (Some ''blob'') 4 = Some c \<and> sig_run c [Get, Put] (Live s) \<and>
     uint (sg_ref_cnt s) = 1"
proof -
  define s where "s = \<lparr>sg_data = Some ''blob'', sg_length = 4, sg_ref_cnt = (1::u32)\<rparr>"
  have n: "ds_spam_signature_new True (Some ''blob'') 4 = Some (Live s)"
    by (simp add: ds_spam_signature_new_def s_def)
  have "sig_run (Live s) ([] @ [Get]) (Live (s\<lparr>sg_ref_cnt := 2\<rparr>))"
    by (rule sig_run.step[OF sig_run.start]) (auto simp: ds_spam_signature_get_def s_def)
  then have "sig_run (Live s) (([] @ [Get]) @ [Put]) (Live s)"
    by (rule sig_run.step) (simp add: ds_spam_signature_put_def s_def)
  then show ?thesis using signature_freed_iff_unreferenced[OF n, of "[Get, Put]" "Live s"] n by auto
qed

end
