(* ===== verification/Ds_Context.thy ===== *)
theory Ds_Context
  imports Ds_Tokenizer Ds_Signature Ds_Nodetree
begin

text \<open>
  The classification context of \<^verbatim>\<open>libdspam\<close> (\<^verbatim>\<open>DSPAM_CTX\<close>), its life cycle, the interface to
  the storage driver, and the loop over all terms of a dictionary that the operations of the
  library share.
\<close>

unbundle bit_operations_syntax

section \<open>Modes, results and sources\<close>

text \<open>\<^verbatim>\<open>DSM_DAEMON\<close> is the mode of the agent that waits for connections (dspam.h).\<close>

datatype dsm = DSM_PROCESS | DSM_TOOLS | DSM_CLASSIFY | DSM_NONE | DSM_DAEMON
datatype dst = DST_TEFT | DST_TOE | DST_TUM | DST_NOTRAIN
datatype dsr = DSR_ISSPAM | DSR_ISINNOCENT | DSR_NONE
datatype dss = DSS_ERROR | DSS_CORPUS | DSS_INOCULATION | DSS_NONE

definition DSA_GRAHAM :: u32 where "DSA_GRAHAM = 0x01"
definition DSA_BURTON :: u32 where "DSA_BURTON = 0x02"
definition DSA_ROBINSON :: u32 where "DSA_ROBINSON = 0x04"
definition DSA_CHI_SQUARE :: u32 where "DSA_CHI_SQUARE = 0x08"
definition DSP_ROBINSON :: u32 where "DSP_ROBINSON = 0x10"
definition DSP_GRAHAM :: u32 where "DSP_GRAHAM = 0x20"
definition DSP_MARKOV :: u32 where "DSP_MARKOV = 0x40"
definition DSA_NAIVE :: u32 where "DSA_NAIVE = 0x80"

definition CONTROL_TOKEN :: u64 where "CONTROL_TOKEN = 11624422384514212933"
definition LANG_CLASS_WHITELISTED :: string where "LANG_CLASS_WHITELISTED = ''Whitelisted''"
definition LANG_CLASS_SPAM :: string where "LANG_CLASS_SPAM = ''Spam''"
definition LANG_CLASS_INNOCENT :: string where "LANG_CLASS_INNOCENT = ''Innocent''"

text \<open>The integer that stands for a result in a return value.\<close>

fun dsr_code :: "dsr \<Rightarrow> int" where
  "dsr_code DSR_ISSPAM = 1"
| "dsr_code DSR_ISINNOCENT = 2"
| "dsr_code DSR_NONE = 255"

definition has :: "u32 \<Rightarrow> u32 \<Rightarrow> bool" where
  "has w f \<longleftrightarrow> w AND f \<noteq> 0"

section \<open>The context\<close>

record ds_spam_totals =
  spam_learned :: int
  innocent_learned :: int
  spam_misclassified :: int
  innocent_misclassified :: int
  spam_corpusfed :: int
  innocent_corpusfed :: int
  spam_classified :: int
  innocent_classified :: int

definition no_totals :: ds_spam_totals where
  "no_totals = \<lparr>spam_learned = 0, innocent_learned = 0, spam_misclassified = 0,
     innocent_misclassified = 0, spam_corpusfed = 0, innocent_corpusfed = 0,
     spam_classified = 0, innocent_classified = 0\<rparr>"

record dspam_factor =
  fa_token_name :: string
  fa_value :: fp

text \<open>
  The context over the state \<open>'s\<close> of the storage driver and the parsed message \<open>'m\<close>. The data
  of a signature is memory, whose bytes may be uninitialised.
\<close>

record ('s, 'm) dspam_ctx = tok_ctx +
  cx_config_size :: nat
  cx_totals :: ds_spam_totals
  cx_signature :: "char option list sig_cell option"
  cx_message :: "'m option"
  cx_username :: "string option"
  cx_group :: "string option"
  cx_home :: "string option"
  cx_operating_mode :: dsm
  cx_training_mode :: dst
  cx_training_buffer :: int
  cx_wh_threshold :: int
  cx_classification :: dsr
  cx_source :: dss
  cx_learned :: bool
  cx_algorithms :: u32
  cx_result :: dsr
  cx_class :: string
  cx_probability :: fp
  cx_confidence :: fp
  cx_storage :: "'s option"
  cx_sig_provided :: bool
  cx_factors :: "dspam_factor nt option"

definition DSP_UNCALCULATED :: fp where "DSP_UNCALCULATED = Fin (- 1)"

definition SPAM_MISS :: "('s, 'm) dspam_ctx \<Rightarrow> bool" where
  "SPAM_MISS CTX \<longleftrightarrow> cx_classification CTX = DSR_ISSPAM \<and> cx_source CTX = DSS_ERROR"

definition FALSE_POSITIVE :: "('s, 'm) dspam_ctx \<Rightarrow> bool" where
  "FALSE_POSITIVE CTX \<longleftrightarrow> cx_classification CTX = DSR_ISINNOCENT \<and> cx_source CTX = DSS_ERROR"

text \<open>
  The interface of a storage driver as \<^verbatim>\<open>storage_driver.h\<close> declares it; an operation changes
  the context or the dictionary it is given and returns 0 or an error.
\<close>

record ('s, 'm) storage_driver =
  ds_init_storage :: "('s, 'm) dspam_ctx \<Rightarrow> (('s, 'm) dspam_ctx \<times> int) cres"
  ds_shutdown_storage :: "('s, 'm) dspam_ctx \<Rightarrow> (('s, 'm) dspam_ctx \<times> int) cres"
  ds_getall_spamrecords :: "('s, 'm) dspam_ctx \<Rightarrow> ds_diction \<Rightarrow> (('s, 'm) dspam_ctx \<times> ds_diction \<times> int) cres"
  ds_setall_spamrecords :: "('s, 'm) dspam_ctx \<Rightarrow> ds_diction \<Rightarrow> (('s, 'm) dspam_ctx \<times> ds_diction \<times> int) cres"

text \<open>
  What a request asks for, and the contract of a driver towards the classifier: reading and
  storing records leave the request as it was.
\<close>

definition same_request :: "('s, 'm) dspam_ctx \<Rightarrow> ('s, 'm) dspam_ctx \<Rightarrow> bool" where
  "same_request C C' \<longleftrightarrow> cx_tokenizer C' = cx_tokenizer C \<and> cx_flags C' = cx_flags C \<and>
     cx_operating_mode C' = cx_operating_mode C \<and> cx_training_mode C' = cx_training_mode C \<and>
     cx_classification C' = cx_classification C \<and> cx_source C' = cx_source C \<and> cx_algorithms C' = cx_algorithms C"

lemma same_request_refl [simp]: "same_request C C"
  by (simp add: same_request_def)

lemma same_request_trans [trans]: "same_request A B \<Longrightarrow> same_request B C \<Longrightarrow> same_request A C"
  by (simp add: same_request_def)

locale storage =
  fixes drv :: "('s, 'm) storage_driver"
  assumes getall_request: "ds_getall_spamrecords drv C d = Inr (C', d', r) \<Longrightarrow> same_request C C'"
    and setall_request: "ds_setall_spamrecords drv C d = Inr (C', d', r) \<Longrightarrow> same_request C C'"

section \<open>Life cycle\<close>

text \<open>A string argument that is NULL or empty leaves the field NULL.\<close>

fun nonempty :: "string option \<Rightarrow> string option" where
  "nonempty None = None"
| "nonempty (Some s) = (if s = [] then None else Some s)"

text \<open>
  \<open>alloc 0\<close> to \<open>alloc 2\<close> are the allocations of the context, its configuration and the
  attributes; \<open>dspam_home\<close> is the home directory of the build, where one is configured.
\<close>

definition dspam_create ::
    "(nat \<Rightarrow> bool) \<Rightarrow> string option \<Rightarrow> string option \<Rightarrow> string option \<Rightarrow> string option \<Rightarrow> dsm \<Rightarrow> u32 \<Rightarrow>
     ('s, 'm) dspam_ctx option" where
  "dspam_create alloc dspam_home username grp home mode flags =
     (if \<not> alloc 0 \<or> \<not> alloc 1 \<or> \<not> alloc 2 then None
      else Some \<lparr>cx_tokenizer = DSZ_WORD, cx_flags = flags,
        cx_attributes = cf_attributes config_create, cx_config_size = cf_size config_create,
        cx_totals = no_totals, cx_signature = None, cx_message = None,
        cx_username = nonempty username, cx_group = nonempty grp,
        cx_home = (case nonempty home of None \<Rightarrow> dspam_home | h \<Rightarrow> h),
        cx_operating_mode = mode, cx_training_mode = DST_TEFT, cx_training_buffer = 0,
        cx_wh_threshold = 10, cx_classification = DSR_NONE, cx_source = DSS_NONE,
        cx_learned = False, cx_algorithms = 0, cx_result = DSR_NONE, cx_class = [],
        cx_probability = DSP_UNCALCULATED, cx_confidence = Fin 0, cx_storage = None,
        cx_sig_provided = False, cx_factors = None\<rparr>)"

definition dspam_attach :: "('s, 'm) storage_driver \<Rightarrow> ('s, 'm) dspam_ctx \<Rightarrow> (('s, 'm) dspam_ctx \<times> int) cres" where
  "dspam_attach drv CTX =
     cbind (ds_init_storage drv CTX) (\<lambda>(CTX', r). Inr (CTX', if r = 0 then 0 else EFAILURE))"

text \<open>The totals a detach makes non-negative; those of corpus feeding are not among them.\<close>

definition totals_sanity :: "ds_spam_totals \<Rightarrow> ds_spam_totals" where
  "totals_sanity t = t\<lparr>spam_learned := max 0 (spam_learned t), innocent_learned := max 0 (innocent_learned t),
     spam_misclassified := max 0 (spam_misclassified t),
     innocent_misclassified := max 0 (innocent_misclassified t),
     spam_classified := max 0 (spam_classified t), innocent_classified := max 0 (innocent_classified t)\<rparr>"

definition dspam_detach :: "('s, 'm) storage_driver \<Rightarrow> ('s, 'm) dspam_ctx \<Rightarrow> (('s, 'm) dspam_ctx \<times> int) cres" where
  "dspam_detach drv CTX =
     (if cx_storage CTX = None then Inr (CTX, 0)
      else cbind (ds_shutdown_storage drv (CTX\<lparr>cx_totals := totals_sanity (cx_totals CTX)\<rparr>)) (\<lambda>(CTX', _).
        Inr (CTX'\<lparr>cx_storage := None\<rparr>, 0)))"

text \<open>The names of the factors are freed with a walk of the list, then the list itself.\<close>

definition ds_factor_destroy :: "dspam_factor nt option \<Rightarrow> dspam_factor list cres" where
  "ds_factor_destroy factors =
     (case factors of
        None \<Rightarrow> Inr []
      | Some l \<Rightarrow>
          cbind (list_walk c_nt_next nt_first l (length (nt_first l)) (c_nt_first l)) (\<lambda>_. nt_destroy l))"

text \<open>
  Destroying a context: detach, factors, attributes, signature; the context that is left has
  its storage detached and its signature released, and is itself freed.
\<close>

definition dspam_destroy :: "('s, 'm) storage_driver \<Rightarrow> ('s, 'm) dspam_ctx \<Rightarrow> ('s, 'm) dspam_ctx cres" where
  "dspam_destroy drv CTX =
     cbind (dspam_detach drv CTX) (\<lambda>(CTX1, _).
     cbind (ds_factor_destroy (cx_factors CTX1)) (\<lambda>_.
     cbind (ds_destroy_config (cx_attributes CTX1)) (\<lambda>_.
     cbind (ds_spam_signature_put (cx_signature CTX1)) (\<lambda>sig.
       Inr (CTX1\<lparr>cx_signature := sig, cx_message := None, cx_factors := None\<rparr>)))))"

definition dspam_init ::
    "('s, 'm) storage_driver \<Rightarrow> (nat \<Rightarrow> bool) \<Rightarrow> string option \<Rightarrow> string option \<Rightarrow> string option \<Rightarrow> string option \<Rightarrow>
     dsm \<Rightarrow> u32 \<Rightarrow> ('s, 'm) dspam_ctx option cres" where
  "dspam_init drv alloc dspam_home username grp home mode flags =
     (case dspam_create alloc dspam_home username grp home mode flags of
        None \<Rightarrow> Inr None
      | Some CTX \<Rightarrow>
          cbind (dspam_attach drv CTX) (\<lambda>(CTX1, r).
            if r = 0 then Inr (Some CTX1)
            else cbind (dspam_destroy drv CTX1) (\<lambda>_. Inr None)))"

section \<open>Loops over the terms of a dictionary\<close>

text \<open>
  A loop with a cursor visits the terms bucket by bucket, each chain from its head; its body
  may change the term in place. The state \<open>'a\<close> is what the loop accumulates.
\<close>

fun terms_each :: "('a \<Rightarrow> ds_term \<Rightarrow> ('a \<times> ds_term) cres) \<Rightarrow> 'a \<Rightarrow> ds_term list \<Rightarrow> ('a \<times> ds_term list) cres" where
  "terms_each f a [] = Inr (a, [])"
| "terms_each f a (t # ts) =
     cbind (f a t) (\<lambda>(a1, t'). cbind (terms_each f a1 ts) (\<lambda>(a2, ts'). Inr (a2, t' # ts')))"

fun buckets_each :: "('a \<Rightarrow> ds_term \<Rightarrow> ('a \<times> ds_term) cres) \<Rightarrow> 'a \<Rightarrow> ds_term list list \<Rightarrow> ('a \<times> ds_term list list) cres" where
  "buckets_each f a [] = Inr (a, [])"
| "buckets_each f a (c # cs) =
     cbind (terms_each f a c) (\<lambda>(a1, c'). cbind (buckets_each f a1 cs) (\<lambda>(a2, cs'). Inr (a2, c' # cs')))"

definition dict_each :: "('a \<Rightarrow> ds_term \<Rightarrow> ('a \<times> ds_term) cres) \<Rightarrow> 'a \<Rightarrow> ds_diction \<Rightarrow> ('a \<times> ds_diction) cres" where
  "dict_each f a d = cbind (buckets_each f a (dd_tbl d)) (\<lambda>(a', tbl). Inr (a', d\<lparr>dd_tbl := tbl\<rparr>))"

lemma terms_each_append:
  "terms_each f a (xs @ ys) =
     cbind (terms_each f a xs) (\<lambda>(a1, xs'). cbind (terms_each f a1 ys) (\<lambda>(a2, ys'). Inr (a2, xs' @ ys')))"
proof (induction xs arbitrary: a)
  case Nil
  then show ?case by (cases "terms_each f a ys") auto
next
  case (Cons x xs)
  show ?case
  proof (cases "f a x")
    case (Inr r)
    then obtain a1 t' where at: "f a x = Inr (a1, t')" by (cases r) auto
    show ?thesis
    proof (cases "terms_each f a1 xs")
      case (Inr bt)
      then obtain a2 xs' where "terms_each f a1 xs = Inr (a2, xs')" by (cases bt) auto
      then show ?thesis using at Cons.IH[of a1] by (cases "terms_each f a2 ys") auto
    qed (use at Cons.IH in auto)
  qed simp
qed

lemma buckets_each_terms:
  "buckets_each f a cs = Inr (a', cs') \<Longrightarrow> terms_each f a (concat cs) = Inr (a', concat cs')"
proof (induction cs arbitrary: a a' cs')
  case (Cons c cs)
  then obtain a1 c' a2 cs1 where "terms_each f a c = Inr (a1, c')" "buckets_each f a1 cs = Inr (a2, cs1)"
    "a' = a2" "cs' = c' # cs1" by (auto simp: cbind_Inr_iff)
  with Cons.IH[of a1] show ?case by (simp add: terms_each_append)
qed simp

lemma buckets_each_fault:
  "buckets_each f a cs = Inl e \<Longrightarrow> terms_each f a (concat cs) = Inl e"
proof (induction cs arbitrary: a)
  case (Cons c cs)
  show ?case
  proof (cases "terms_each f a c")
    case (Inr ac)
    then obtain a1 c' where ac: "terms_each f a c = Inr (a1, c')" by (cases ac) auto
    show ?thesis
    proof (cases "buckets_each f a1 cs")
      case Inl
      then show ?thesis using Cons ac by (simp add: terms_each_append)
    qed (use Cons.prems ac in auto)
  qed (use Cons.prems in \<open>simp add: terms_each_append\<close>)
qed simp

lemma terms_each_map:
  assumes "terms_each f a ts = Inr (a', ts')" "\<And>a t a' t'. f a t = Inr (a', t') \<Longrightarrow> g t' = g t"
  shows "map g ts' = map g ts"
  using assms(1)
proof (induction ts arbitrary: a ts')
  case (Cons t ts)
  then obtain a1 t' ts1 where "f a t = Inr (a1, t')" "terms_each f a1 ts = Inr (a', ts1)" "ts' = t' # ts1"
    by (auto simp: cbind_Inr_iff)
  then show ?case using assms(2)[of a t a1 t'] Cons.IH[of a1 ts1] by simp
qed simp

lemma buckets_each_map:
  assumes "buckets_each f a cs = Inr (a', cs')" "\<And>a t a' t'. f a t = Inr (a', t') \<Longrightarrow> g t' = g t"
  shows "map (map g) cs' = map (map g) cs"
  using assms(1)
proof (induction cs arbitrary: a cs')
  case (Cons c cs)
  then obtain a1 c' cs1 where "terms_each f a c = Inr (a1, c')" "buckets_each f a1 cs = Inr (a', cs1)" "cs' = c' # cs1"
    by (auto simp: cbind_Inr_iff)
  then show ?case using terms_each_map[of f a c a1 c' g, OF _ assms(2)] Cons.IH[of a1 cs1] by simp
qed simp

lemma terms_each_length: "terms_each f a ts = Inr (a', ts') \<Longrightarrow> length ts' = length ts"
  by (induction ts arbitrary: a ts') (auto simp: cbind_Inr_iff)

lemma tbl_ok_keys:
  assumes "map (map key) tbl' = map (map key) tbl" "tbl_ok key idx n tbl"
  shows "tbl_ok key idx n tbl'"
proof -
  have len: "length tbl' = length tbl" using assms(1) by (metis length_map)
  have b: "map key (tbl' ! b) = map key (tbl ! b)" if "b < n" for b
    using assms that len nth_map[of b tbl "map key"] nth_map[of b tbl' "map key"] by (simp add: tbl_ok_def)
  have "idx (key e) = b" if "b < n" "e \<in> set (tbl' ! b)" for b e
  proof -
    have "key e \<in> set (map key (tbl ! b))" using that b[of b] by (metis image_eqI set_map)
    then show ?thesis using assms(2) that(1) by (auto simp: tbl_ok_def)
  qed
  then show ?thesis using assms(2) b len by (auto simp: tbl_ok_def)
qed

text \<open>The loop computes on the sequence of all terms.\<close>

lemma dict_each_terms:
  "dict_each f a d = Inr (a', d') \<Longrightarrow> terms_each f a (dict_terms d) = Inr (a', dict_terms d')"
  by (auto simp: dict_each_def dict_terms_def cbind_Inr_iff dest: buckets_each_terms)

lemma dict_each_ex:
  "terms_each f a (dict_terms d) = Inr (a', ts) \<Longrightarrow>
   \<exists>d'. dict_each f a d = Inr (a', d') \<and> dict_terms d' = ts"
  by (cases "buckets_each f a (dd_tbl d)")
    (auto simp: dict_each_def dict_terms_def dest: buckets_each_terms buckets_each_fault)

lemma dict_each_ok:
  assumes "dict_each f a d = Inr (a', d')" "dict_ok d" "\<And>a t a' t'. f a t = Inr (a', t') \<Longrightarrow> tm_key t' = tm_key t"
  shows "dict_ok d'" "map tm_key (dict_terms d') = map tm_key (dict_terms d)"
    "dd_items d' = dd_items d" "dd_order d' = dd_order d" "dd_chained_order d' = dd_chained_order d"
    "dd_whitelist_token d' = dd_whitelist_token d" "dd_size d' = dd_size d"
proof -
  obtain tbl where tbl: "buckets_each f a (dd_tbl d) = Inr (a', tbl)" "d' = d\<lparr>dd_tbl := tbl\<rparr>"
    using assms(1) by (auto simp: dict_each_def cbind_Inr_iff)
  have keys: "map (map tm_key) tbl = map (map tm_key) (dd_tbl d)"
    using buckets_each_map[OF tbl(1) assms(3)] .
  then have cat: "map tm_key (concat tbl) = map tm_key (concat (dd_tbl d))"
    by (metis map_concat)
  show "map tm_key (dict_terms d') = map tm_key (dict_terms d)"
    using cat by (simp add: dict_terms_def tbl(2))
  have len: "length tbl = length (dd_tbl d)" using keys by (metis length_map)
  have "length (concat tbl) = length (concat (dd_tbl d))" using cat by (metis length_map)
  moreover have "tbl_ok tm_key (dd_bucket (dd_size d)) (dd_size d) tbl"
    using assms(2) tbl_ok_keys[OF keys] by (simp add: dict_ok_def)
  ultimately show "dict_ok d'" using assms(2) by (simp add: dict_ok_def tbl(2))
qed (use assms(1) in \<open>auto simp: dict_each_def cbind_Inr_iff\<close>)

end
