(* ===== verification/Ds_Stat.thy ===== *)
theory Ds_Stat
  imports Ds_Context
begin

text \<open>
  The probability of a single token (\<^verbatim>\<open>_ds_calc_stat\<close> of \<^verbatim>\<open>libdspam.c\<close>): statistical
  sedation, Markovian weighting, Graham's and Robinson's token values, on doubles and on the
  integer types of the source.
\<close>

unbundle bit_operations_syntax

section \<open>The calculation\<close>

abbreviation D :: fformat where "D \<equiv> double_fmt"
abbreviation S :: fformat where "S \<equiv> single_fmt"

datatype dtt = DTT_DEFAULT | DTT_BNR

definition CHI_S :: fp where "CHI_S = dlit (1/10)"
definition CHI_X :: fp where "CHI_X = dlit (1/2)"

text \<open>Conversion of an \<^verbatim>\<open>unsigned long\<close> to \<^verbatim>\<open>int\<close> keeps the low 32 bits.\<close>

definition to_int32 :: "u64 \<Rightarrow> int" where
  "to_int32 w = sint (ucast w :: u32)"

definition double_of_u64 :: "u64 \<Rightarrow> fp" where
  "double_of_u64 w = fof_int D (uint w)"

text \<open>The sedated threshold, 0 where no sedation applies.\<close>

definition sed_hits :: "int \<Rightarrow> int \<Rightarrow> u64 \<Rightarrow> u64 \<Rightarrow> int cres" where
  "sed_hits tb min_hits ti ts =
     (if tb > 0 \<and> ti < 1000 \<and> ti < ts then
        Inr (to_int32 (of_int (min_hits + tb div 2) + of_int tb * ((ts - ti) div 200)))
      else if tb > 0 \<and> ti < 2500 \<and> ti \<ge> 1000 \<and> ts > ti then
        (let s = fmul D (double_of_u64 ts) (Fin 1); i = fmul D (double_of_u64 ti) (Fin 1);
             spams = fcast S (fmul D (fdiv D s (fadd D s i)) (Fin 100))
         in case ftrunc (fadd S (fof_int S (min_hits + tb div 2)) (fmul S (fof_int S tb) (fdiv S spams (Fin 20)))) of
              None \<Rightarrow> Inl BadConversion
            | Some n \<Rightarrow> Inr n)
      else Inr 0)"

definition stat_min_hits :: "('s, 'm) dspam_ctx \<Rightarrow> dtt \<Rightarrow> int cres" where
  "stat_min_hits CTX token_type =
     (let tot = cx_totals CTX; tb = cx_training_buffer CTX;
          min0 = (if token_type = DTT_BNR then 25 else 5);
          ti = of_int (innocent_learned tot + innocent_classified tot);
          ts = of_int (spam_learned tot + spam_classified tot);
          min1 = (if tb = 0 then 5 else min0)
      in cbind (sed_hits tb min0 ti ts) (\<lambda>sed.
           let min2 = (if token_type \<noteq> DTT_DEFAULT \<or> sed > min1 then sed else min1)
           in Inr (if cx_training_mode CTX = DST_TUM \<and> min2 > 20 then 20 else min2)))"

text \<open>Markovian weighting; a token without a name cannot be weighed.\<close>

definition markov_neutral :: "dtt \<Rightarrow> ds_term \<Rightarrow> string \<Rightarrow> bool" where
  "markov_neutral token_type term name \<longleftrightarrow>
     token_type = DTT_BNR \<or> tm_type term = CHR ''B'' \<or> take 4 name = ''bnr.'' \<or>
     take 3 name = ''E: '' \<or> take 5 name = ''From*'' \<or> take 11 name = ''$$CONTROL$$''"

definition markov_value :: "bool \<Rightarrow> int \<Rightarrow> int \<Rightarrow> int \<Rightarrow> fp" where
  "markov_value bias weight sh ih =
     (if bias
      then fadd D (dlit (49/100)) (fdiv D (fof_int D (weight * (sh - ih * 2))) (fof_int D (16 * (sh + ih * 2 + 1) * 256)))
      else fadd D (dlit (1/2)) (fdiv D (fof_int D ((sh - ih) * weight)) (fof_int D (16 * (sh + ih + 1) * 256))))"

text \<open>Graham's value of a token from its share in either class.\<close>

definition hit_ratio :: "int \<Rightarrow> int \<Rightarrow> fp" where
  "hit_ratio n d = fmul D (fdiv D (fmul D (fof_int D n) (Fin 1)) (fof_int D d)) (Fin 1)"

definition graham :: "int \<Rightarrow> int \<Rightarrow> int \<Rightarrow> int \<Rightarrow> fp" where
  "graham sh sl ih il = fdiv D (hit_ratio sh sl) (fadd D (hit_ratio sh sl) (hit_ratio ih il))"

definition graham_value ::
    "dtt \<Rightarrow> bool \<Rightarrow> ds_spam_totals \<Rightarrow> ds_spam_stat option \<Rightarrow> int \<Rightarrow> int \<Rightarrow> int \<Rightarrow> fp \<Rightarrow> fp cres" where
  "graham_value token_type bias tot bnr_tot min_hits sh ih p0 =
     (let w = (if bias then 2 else 1);
          sl = spam_learned tot; il = innocent_learned tot; both = (sl > 0 \<and> il > 0)
      in cbind (if both then
                  (if token_type = DTT_BNR
                   then (case bnr_tot of
                           None \<Rightarrow> Inl NullDeref
                         | Some b \<Rightarrow> Inr (graham sh (st_spam_hits b) ih (st_innocent_hits b)))
                   else Inr (graham sh sl (ih * w) il))
                else Inr p0) (\<lambda>p1.
           let p2 = (if sh = 0 \<and> ih > 0 then
                       (if both \<and> flt (graham 1 sl (ih * w) il) (dlit (1/100))
                        then graham 1 sl (ih * w) il else dlit (1/100))
                     else if sh > 0 \<and> ih = 0 then
                       (if both \<and> flt (dlit (99/100)) (graham sh sl w il)
                        then graham sh sl w il else dlit (99/100))
                     else p1)
           in Inr (if sh + w * ih < min_hits then dlit (4/10) else p2)))"

definition clamp :: "fp \<Rightarrow> fp" where
  "clamp p =
     (let p1 = (if flt p (dlit (1/10000)) then dlit (1/10000) else p)
      in if flt (dlit (9999/10000)) p1 then dlit (9999/10000) else p1)"

definition robinson :: "int \<Rightarrow> fp \<Rightarrow> fp" where
  "robinson hits p =
     (let n = double_of_u64 (of_int hits)
      in fdiv D (fadd D (fmul D CHI_S CHI_X) (fmul D n p)) (fadd D CHI_S n))"

definition stat_finish :: "('s, 'm) dspam_ctx \<Rightarrow> dtt \<Rightarrow> int \<Rightarrow> int \<Rightarrow> fp \<Rightarrow> fp" where
  "stat_finish CTX token_type sh ih p =
     (if token_type \<noteq> DTT_BNR \<and> has (cx_algorithms CTX) DSP_ROBINSON
      then robinson (sh + ih) (clamp p) else clamp p)"

definition ds_calc_stat ::
    "('s, 'm) dspam_ctx \<Rightarrow> ds_term option \<Rightarrow> ds_spam_stat \<Rightarrow> dtt \<Rightarrow> ds_spam_stat option \<Rightarrow> ds_spam_stat cres" where
  "ds_calc_stat CTX tm s token_type bnr_tot =
     (let sh = st_spam_hits s; ih = st_innocent_hits s;
          bias = has (cx_flags CTX) DSF_BIAS;
          markov = has (cx_algorithms CTX) DSP_MARKOV;
          p0 = (if cx_classification CTX = DSR_ISSPAM then dlit (7/10)
                else if markov then dlit (1/2) else dlit (4/10))
      in cbind (stat_min_hits CTX token_type) (\<lambda>min_hits.
         if markov then
           (case tm of
              None \<Rightarrow> Inr (s\<lparr>st_probability := dlit (1/2)\<rparr>)
            | Some t \<Rightarrow>
                if token_type = DTT_BNR \<or> tm_type t = CHR ''B'' then Inr (s\<lparr>st_probability := dlit (1/2)\<rparr>)
                else (case tm_name t of
                  None \<Rightarrow> Inl NullDeref
                | Some name \<Rightarrow>
                    if markov_neutral token_type t name then Inr (s\<lparr>st_probability := dlit (1/2)\<rparr>)
                    else cbind (ds_compute_weight name) (\<lambda>weight.
                      Inr (s\<lparr>st_probability :=
                        stat_finish CTX token_type sh ih (markov_value bias (int weight) sh ih)\<rparr>))))
         else
           cbind (graham_value token_type bias (cx_totals CTX) bnr_tot min_hits sh ih p0) (\<lambda>p.
             Inr (s\<lparr>st_probability := stat_finish CTX token_type sh ih p\<rparr>))))"

section \<open>Ranges\<close>

lemma D_fields [simp]: "femin D = - 1022" "femax D = 1023" "fprec D = 53"
  and S_fields [simp]: "femin S = - 126" "femax S = 127" "fprec S = 24"
  by (simp_all add: double_fmt_def single_fmt_def)

lemma frep_D_pow: "k \<le> 1000 \<Longrightarrow> frep D (2 ^ k)"
  using frep_pow2[of D "int k"] by simp

lemma frep_D_small: "k \<le> 1000 \<Longrightarrow> frep D (1 / 2 ^ k)"
  using frep_pow2[of D "- int k"] by (simp add: power_int_minus inverse_eq_divide)

lemma frep_D_1 [simp]: "frep D 1"
  using frep_D_pow[of 0] by simp

lemma fin_in_1 [simp]: "fin_in D 1 1 (Fin 1)"
  using frep_D_1 by (simp add: fin_in_def frep_def)

lemma fin_in_of_int:
  assumes "0 \<le> n" "n \<le> 2 ^ k" "k \<le> 1000"
  shows "fin_in D 0 (2 ^ k) (fof_int D n)" "1 \<le> n \<Longrightarrow> fin_in D 1 (2 ^ k) (fof_int D n)"
proof -
  have "(of_int n :: rat) \<le> of_int (2 ^ k)" using assms(2) by (simp only: of_int_le_iff)
  then show "fin_in D 0 (2 ^ k) (fof_int D n)" "1 \<le> n \<Longrightarrow> fin_in D 1 (2 ^ k) (fof_int D n)"
    unfolding fof_int_def using assms frep_D_pow[of k] by (auto intro!: fin_in_make)
qed

lemma hit_ratio_range:
  assumes "0 \<le> n" "n \<le> 2 ^ 52" "1 \<le> d" "d \<le> 2 ^ 63"
  shows "fin_in D 0 (2 ^ 52) (hit_ratio n d)" "1 \<le> n \<Longrightarrow> fin_in D (1 / 2 ^ 63) (2 ^ 52) (hit_ratio n d)"
proof -
  have d: "fin_in D 1 (2 ^ 63) (fof_int D d)" using assms by (intro fin_in_of_int(2)) auto
  have pow: "frep D (2 ^ 52)" "frep D (1 / 2 ^ 63)" by (rule frep_D_pow, simp, rule frep_D_small, simp)
  have *: "fin_in D L (2 ^ 52) (hit_ratio n d)"
    if "fin_in D lo (2 ^ 52) (fof_int D n)" "frep D lo" "0 \<le> lo" "frep D L" "0 \<le> L" "L * 2 ^ 63 \<le> lo" for L lo
  proof -
    have "fin_in D lo (2 ^ 52) (fmul D (fof_int D n) (Fin 1))"
      using that pow by (intro fin_in_mul[OF that(1) fin_in_1]) auto
    then have "fin_in D L (2 ^ 52) (fdiv D (fmul D (fof_int D n) (Fin 1)) (fof_int D d))"
      using that pow by (intro fin_in_div[OF _ d]) auto
    then show ?thesis unfolding hit_ratio_def using that pow by (intro fin_in_mul[OF _ fin_in_1]) auto
  qed
  show "fin_in D 0 (2 ^ 52) (hit_ratio n d)"
    using fin_in_of_int(1)[OF assms(1,2)] by (intro *[of 0 0]) auto
  show "1 \<le> n \<Longrightarrow> fin_in D (1 / 2 ^ 63) (2 ^ 52) (hit_ratio n d)"
    using fin_in_of_int(2)[OF assms(1,2)] pow by (intro *[of 1]) auto
qed

text \<open>Graham's value is a probability unless the token was never seen.\<close>

lemma graham_range:
  assumes "0 \<le> sh" "sh \<le> 2 ^ 52" "0 \<le> ih" "ih \<le> 2 ^ 52" "1 \<le> sl" "sl \<le> 2 ^ 63" "1 \<le> il" "il \<le> 2 ^ 63" "sh + ih > 0"
  shows "fin_in D 0 1 (graham sh sl ih il)"
  unfolding graham_def
proof (rule fin_in_share)
  show "fin_in D 0 (2 ^ 52) (hit_ratio sh sl)" "fin_in D 0 (2 ^ 52) (hit_ratio ih il)"
    using hit_ratio_range(1)[OF assms(1,2,5,6)] hit_ratio_range(1)[OF assms(3,4,7,8)] by blast+
  show "hit_ratio sh sl \<noteq> Fin 0 \<or> hit_ratio ih il \<noteq> Fin 0"
  proof -
    have "1 \<le> sh \<or> 1 \<le> ih" using assms by linarith
    then show ?thesis
      using hit_ratio_range(2)[OF assms(1,2,5,6)] hit_ratio_range(2)[OF assms(3,4,7,8)] by (auto simp: fin_in_def)
  qed
  show "frep D (2 ^ 53)" by (rule frep_D_pow) simp
qed auto

lemma dlit_range: "0 \<le> x \<Longrightarrow> x \<le> 1 \<Longrightarrow> fin_in D 0 1 (dlit x)"
  unfolding dlit_def by (intro fin_in_make) auto

lemma dlit_Fin: "\<bar>x\<bar> \<le> 1 \<Longrightarrow> dlit x = Fin (fround D x)"
  unfolding dlit_def by (rule fmake_unit) auto

lemma clamp_range:
  assumes "clamp x = y" "x = Fin r" "fround D r = r"
  shows "fin_in D (fround D (1/10000)) (fround D (9999/10000)) y"
proof -
  have "fround D (1/10000) \<le> fround D (9999/10000)" by (rule dbl.rnd_mono) simp
  then show ?thesis using assms by (auto simp: clamp_def Let_def dlit_Fin fin_in_def dbl.rnd_idem split: if_splits)
qed

lemma fin_in_diff_nonneg:
  assumes "\<bar>n\<bar> \<le> 2 ^ k" "k \<le> 1000"
  shows "fin_in D (- (2 ^ k)) (2 ^ k) (fof_int D n)"
proof -
  have "\<bar>of_int n :: rat\<bar> \<le> of_int (2 ^ k)" using assms(1) by (simp only: of_int_le_iff flip: of_int_abs)
  then show ?thesis unfolding fof_int_def using frep_D_pow[OF assms(2)] by (intro fin_in_make) (auto simp: abs_le_iff)
qed

text \<open>A quotient by a number that is at least 1 stays in the range of the dividend.\<close>

lemma fin_in_div_signed:
  assumes "fin_in D (- b) b x" "fin_in D 1 hi y" "frep D b"
  shows "fin_in D (- b) b (fdiv D x y)"
proof -
  obtain r s where rs: "x = Fin r" "- b \<le> r" "r \<le> b" "y = Fin s" "1 \<le> s" using assms by (auto elim!: fin_inE)
  have "b \<le> b * s" using rs mult_left_mono[of 1 s b] by simp
  then have "r \<le> b * s" "- (b * s) \<le> r" using rs by linarith+
  then have "r / s \<le> b" "- b \<le> r / s" using rs by (auto simp: divide_le_eq le_divide_eq)
  then show ?thesis using rs assms(3) by (auto intro!: fin_in_make)
qed

lemma markov_value_finite:
  assumes "0 \<le> sh" "sh \<le> 2 ^ 50" "0 \<le> ih" "ih \<le> 2 ^ 50" "0 \<le> w" "w \<le> 2 ^ 10"
  shows "fin_in D (- (2 ^ 65)) (2 ^ 65) (markov_value bias w sh ih)"
proof -
  have *: "fin_in D (- (2 ^ 65)) (2 ^ 65) (fadd D (dlit x) (fdiv D (fof_int D a) (fof_int D b)))"
    if "\<bar>a\<bar> \<le> 2 ^ 64" "1 \<le> b" "b \<le> 2 ^ 64" "0 \<le> x" "x \<le> 1" for a b x
  proof -
    have "fin_in D (- (2 ^ 64)) (2 ^ 64) (fdiv D (fof_int D a) (fof_int D b))"
      using fin_in_div_signed[OF fin_in_diff_nonneg[OF that(1)] fin_in_of_int(2)[of b 64]] that frep_D_pow[of 64] by simp
    then show ?thesis using dlit_range[OF that(4,5)] frep_D_pow[of 65]
      by (intro fin_in_add[of D 0 1 _ "- (2 ^ 64)" "2 ^ 64"]) auto
  qed
  have "\<bar>w * (sh - ih * 2)\<bar> \<le> 2 ^ 10 * 2 ^ 52" unfolding abs_mult using assms by (intro mult_mono) auto
  moreover have "\<bar>(sh - ih) * w\<bar> \<le> 2 ^ 52 * 2 ^ 10" unfolding abs_mult using assms by (intro mult_mono) auto
  ultimately show ?thesis
    unfolding markov_value_def using assms by (cases bias; simp only: if_True if_False; intro *; simp)
qed

text \<open>Robinson's weighted mean of a prior of 1/2 and the value of the token.\<close>

lemma weighted_range:
  assumes "fin_in D 0 (2 ^ 52) n" "fin_in D 0 1 p" "0 < s1" "s1 \<le> 1" "fround D s1 = s1"
  shows "fin_in D 0 1 (fdiv D (fadd D (fmul D (Fin s1) (Fin (1/2))) (fmul D n p)) (fadd D (Fin s1) n))"
proof -
  obtain N where N': "n = Fin N" "fround D N = N" "0 \<le> N" "N \<le> 2 ^ 52" using assms(1) by (auto elim!: fin_inE)
  obtain q where q: "p = Fin q" "0 \<le> q" "q \<le> 1" using assms(2) by (auto elim!: fin_inE)
  define c where "c = fround D (s1 * (1/2))"
  have c: "0 \<le> c" "c \<le> s1"
    unfolding c_def using assms dbl.rnd_le[of "s1 * (1/2)" s1] fround_nonneg[of "s1 * (1/2)" D] by auto
  have cc: "fmul D (Fin s1) (Fin (1/2)) = Fin c"
    using assms fmake_unit[of D "s1 * (1/2)"] by (simp add: c_def)
  define m where "m = fround D (N * q)"
  have Nq: "0 \<le> N * q" "N * q \<le> N" using N' q by (auto simp: mult_left_le)
  have m: "fmul D (Fin N) (Fin q) = Fin m" "0 \<le> m" "m \<le> N"
    using Nq N' frep_D_pow[of 52] fmake_bounded[of D "N * q" "2 ^ 52"] fround_nonneg[of "N * q" D] dbl.rnd_le[of "N * q" N]
    by (auto simp: m_def frep_def)
  define den where "den = fround D (s1 + N)"
  define num where "num = fround D (c + m)"
  have big: "fmake D x = Fin (fround D x)" if "0 \<le> x" "x \<le> 2 ^ 53" for x
    using that frep_D_pow[of 53] fmake_bounded[of D x "2 ^ 53"] by (simp add: frep_def)
  have e1: "fadd D (Fin s1) (Fin N) = Fin den"
    unfolding den_def using assms N' big[of "s1 + N"] by simp
  have e2: "fadd D (fmul D (Fin s1) (Fin (1/2))) (fmul D (Fin N) (Fin q)) = Fin num"
    unfolding cc m(1) num_def using assms N' c m big[of "c + m"] by simp
  have "0 < den" unfolding den_def using dbl.rnd_mono[of s1 "s1 + N"] assms N' by simp
  moreover have "num \<le> den" unfolding num_def den_def using c m by (intro dbl.rnd_mono) auto
  moreover have "0 \<le> num" unfolding num_def using c m by (intro fround_nonneg) auto
  ultimately show ?thesis unfolding N'(1) q(1) e1 e2 by (auto intro!: fin_in_make)
qed

lemma dlit_weight:
  assumes "1 / 2 ^ 10 \<le> x" "x \<le> 1"
  shows "\<exists>s. dlit x = Fin s \<and> 0 < s \<and> s \<le> 1 \<and> fround D s = s"
proof -
  have "fround D (1 / 2 ^ 10) \<le> fround D x" using assms by (intro dbl.rnd_mono)
  moreover have "fround D (1 / 2 ^ 10) = 1 / 2 ^ 10" using frep_D_small[of 10] by (simp add: frep_def)
  ultimately have "0 < fround D x" by simp
  moreover have "fround D x \<le> 1" using assms dbl.rnd_le[of x 1] dbl.rnd_one by simp
  moreover have "0 \<le> x" using assms by (meson divide_nonneg_nonneg order_trans zero_le_numeral zero_le_one zero_le_power)
  ultimately show ?thesis using assms(2) by (simp add: dlit_Fin dbl.rnd_idem)
qed

lemma robinson_range:
  assumes "0 \<le> n" "n \<le> 2 ^ 52" "fin_in D 0 1 p"
  shows "fin_in D 0 1 (robinson n p)"
proof -
  have "uint (of_int n :: u64) = n"
    using assms by (simp add: uint_word_of_int_eq take_bit_int_eq_self)
  then have N: "fin_in D 0 (2 ^ 52) (double_of_u64 (of_int n))"
    using fin_in_of_int(1)[OF assms(1,2)] by (simp add: double_of_u64_def)
  obtain s where s: "CHI_S = Fin s" "0 < s" "s \<le> 1" "fround D s = s"
    using dlit_weight[of "1/10"] by (auto simp: CHI_S_def)
  show ?thesis
    unfolding robinson_def Let_def CHI_X_def dlit_half s(1) by (rule weighted_range[OF N assms(3) s(2-4)])
qed

lemma compute_weight_bound: "ds_compute_weight name = Inr w \<Longrightarrow> w \<le> 256"
  by (auto simp: ds_compute_weight_def weight_rule_def cbind_Inr_iff)

lemma frep_S_pow: "k \<le> 100 \<Longrightarrow> frep S (2 ^ k)"
  using frep_pow2[of S "int k"] by simp

lemma sed_hits_total:
  assumes "tb \<le> 10" "min_hits \<in> {5, 25}"
  shows "\<exists>n. sed_hits tb min_hits ti ts = Inr n"
proof (cases "tb > 0 \<and> ti < 2500 \<and> ti \<ge> 1000 \<and> ts > ti \<and> \<not> (ti < 1000 \<and> ti < ts)")
  case True
  define s where "s = fmul D (double_of_u64 ts) (Fin 1)"
  define i where "i = fmul D (double_of_u64 ti) (Fin 1)"
  define sp where "sp = fcast S (fmul D (fdiv D s (fadd D s i)) (Fin 100))"
  have lt: "uint w \<le> 2 ^ 64" for w :: u64 using uint_bounded[of w] by simp
  have "0 < uint ts"
  proof -
    have "uint ti < uint ts" using True by (simp add: word_less_def)
    then show ?thesis using uint_ge_0[of ti] by linarith
  qed
  then have s: "fin_in D 1 (2 ^ 64) s"
    unfolding s_def double_of_u64_def using lt[of ts] frep_D_pow[of 64]
    by (intro fin_in_mul[OF fin_in_of_int(2)[of _ 64] fin_in_1]) auto
  have i: "fin_in D 0 (2 ^ 64) i"
    unfolding i_def double_of_u64_def using lt[of ti] frep_D_pow[of 64]
    by (intro fin_in_mul[OF fin_in_of_int(1)[of _ 64] fin_in_1]) auto
  have share: "fin_in D 0 1 (fdiv D s (fadd D s i))"
    using s i frep_D_pow[of 65] by (intro fin_in_share[of D "2 ^ 64" _ "2 ^ 64" _ "2 ^ 65"]) (auto simp: fin_in_def)
  have f100: "fround D 100 = 100" by (rule fround_exact[where m = 100 and k = 0]) auto
  have r7: "frep S (2 ^ 7)" by (rule frep_S_pow) simp
  have "fin_in D 0 (2 ^ 7) (fmul D (fdiv D s (fadd D s i)) (Fin 100))"
    using frep_D_pow[of 7] f100
    by (intro fin_in_mul[OF share, of 100 100]) (auto simp: fin_in_def)
  then have sp: "fin_in S 0 (2 ^ 7) sp"
    unfolding sp_def using r7 by (auto elim!: fin_inE intro!: fin_in_make)
  have "fround S 20 = 20" by (rule fround_exact[where m = 20 and k = 0]) auto
  then have q: "fin_in S 0 (2 ^ 7) (fdiv S sp (Fin 20))"
    using r7 by (intro fin_in_div[OF sp, of 20 20]) (auto simp: fin_in_def)
  have o: "fin_in S 0 (2 ^ 5) (fof_int S n)" if "0 \<le> n" "n \<le> 32" for n
  proof -
    have "(of_int n :: rat) \<le> of_int 32" using that by (simp only: of_int_le_iff)
    then show ?thesis unfolding fof_int_def using that frep_S_pow[of 5] by (intro fin_in_make) auto
  qed
  have m: "fin_in S 0 (2 ^ 12) (fmul S (fof_int S tb) (fdiv S sp (Fin 20)))"
    using True assms frep_S_pow[of 12] by (intro fin_in_mul[OF o q]) auto
  have "fin_in S 0 (2 ^ 13) (fadd S (fof_int S (min_hits + tb div 2)) (fmul S (fof_int S tb) (fdiv S sp (Fin 20))))"
    using True assms frep_S_pow[of 13] by (intro fin_in_add[OF o m]) auto
  then show ?thesis using True unfolding sed_hits_def
    by (auto simp: Let_def elim!: fin_inE simp flip: s_def i_def sp_def)
next
  case False
  then show ?thesis by (auto simp: sed_hits_def)
qed

lemma min_hits_total:
  assumes "cx_training_buffer CTX \<le> 10"
  shows "\<exists>m. stat_min_hits CTX tt = Inr m \<and> (tt = DTT_DEFAULT \<longrightarrow> 5 \<le> m)"
proof -
  let ?m = "if tt = DTT_BNR then 25 else 5"
  obtain n where "sed_hits (cx_training_buffer CTX) ?m
      (of_int (innocent_learned (cx_totals CTX) + innocent_classified (cx_totals CTX)))
      (of_int (spam_learned (cx_totals CTX) + spam_classified (cx_totals CTX))) = Inr n"
    using sed_hits_total[OF assms, of ?m] by (meson insertI1 insertI2)
  then show ?thesis by (cases tt) (simp_all add: stat_min_hits_def Let_def)
qed

definition seen_value :: "int \<Rightarrow> int \<Rightarrow> int \<Rightarrow> int \<Rightarrow> int \<Rightarrow> fp \<Rightarrow> fp" where
  "seen_value w sl il sh ih p0 =
     (if sh = 0 \<and> ih > 0 then
        (if sl > 0 \<and> il > 0 \<and> flt (graham 1 sl (ih * w) il) (dlit (1/100)) then graham 1 sl (ih * w) il else dlit (1/100))
      else if sh > 0 \<and> ih = 0 then
        (if sl > 0 \<and> il > 0 \<and> flt (dlit (99/100)) (graham sh sl w il) then graham sh sl w il else dlit (99/100))
      else if sl > 0 \<and> il > 0 then graham sh sl (ih * w) il else p0)"

lemma graham_value_seen:
  "graham_value DTT_DEFAULT bias tot b m sh ih p0 =
     Inr (if sh + (if bias then 2 else 1) * ih < m then dlit (4/10)
          else seen_value (if bias then 2 else 1) (spam_learned tot) (innocent_learned tot) sh ih p0)"
  by (simp add: graham_value_def seen_value_def Let_def)

lemma seen_value_range:
  assumes "0 \<le> sh" "sh \<le> 2 ^ 50" "0 \<le> ih" "ih \<le> 2 ^ 50" "1 \<le> w" "w \<le> 2"
    and "sl \<le> 2 ^ 63" "il \<le> 2 ^ 63" "fin_in D 0 1 p0" "0 < sh + ih"
  shows "fin_in D 0 1 (seen_value w sl il sh ih p0)"
proof -
  have g: "fin_in D 0 1 (graham a sl c il)"
    if "sl > 0" "il > 0" "0 \<le> a" "a \<le> 2 ^ 50" "0 \<le> c" "c \<le> 2 ^ 51" "0 < a + c" for a c
    using assms(7,8) that by (intro graham_range) auto
  have wi: "0 \<le> ih * w" "ih * w \<le> 2 ^ 51" using assms mult_mono[of ih "2 ^ 50" w 2] by auto
  have "ih \<le> ih * w" using assms mult_left_mono[of 1 w ih] by simp
  then have pos: "0 < 1 + ih * w" "0 < sh + ih * w" using assms by linarith+
  have "fin_in D 0 1 (graham 1 sl (ih * w) il)" "fin_in D 0 1 (graham sh sl w il)" "fin_in D 0 1 (graham sh sl (ih * w) il)"
    if "0 < sl" "0 < il"
    using that assms wi pos by (simp_all add: g)
  then show ?thesis
    unfolding seen_value_def using assms(9) dlit_range[of "1/100"] dlit_range[of "99/100"] by auto
qed

lemma seen_value_extremes:
  "0 < sh \<Longrightarrow> fle (dlit (99/100)) (seen_value w sl il sh 0 p0)"
  "0 < ih \<Longrightarrow> fle (seen_value w sl il 0 ih p0) (dlit (1/100))"
  by (auto simp: seen_value_def fle_def feq_def dlit_Fin)

lemma graham_value_range:
  assumes "0 \<le> sh" "sh \<le> 2 ^ 50" "0 \<le> ih" "ih \<le> 2 ^ 50"
    and "spam_learned tot \<le> 2 ^ 63" "innocent_learned tot \<le> 2 ^ 63" "0 < m" "fin_in D 0 1 p0"
  shows "\<exists>p. graham_value DTT_DEFAULT bias tot b m sh ih p0 = Inr p \<and> fin_in D 0 1 p"
  using assms dlit_range[of "4/10"] by (auto simp: graham_value_seen intro!: seen_value_range)

lemma stat_finish_range:
  assumes "fin_in D lo hi p" "0 \<le> sh" "sh \<le> 2 ^ 50" "0 \<le> ih" "ih \<le> 2 ^ 50"
  shows "\<exists>r. stat_finish CTX tt sh ih p = Fin r \<and> 0 \<le> r \<and> r \<le> 1 \<and>
    (\<not> has (cx_algorithms CTX) DSP_ROBINSON \<longrightarrow> fround D (1/10000) \<le> r \<and> r \<le> fround D (9999/10000))"
proof -
  have c: "fin_in D (fround D (1/10000)) (fround D (9999/10000)) (clamp p)"
    using assms(1) by (elim fin_inE) (rule clamp_range[OF refl])
  moreover have "0 \<le> fround D (1/10000)" "fround D (9999/10000) \<le> 1"
    using dbl.rnd_unit[of "1/10000"] dbl.rnd_unit[of "9999/10000"] by simp_all
  ultimately have "fin_in D 0 1 (clamp p)" by (rule fin_in_mono)
  then have "fin_in D 0 1 (robinson (sh + ih) (clamp p))" using assms by (intro robinson_range) auto
  then show ?thesis using c \<open>fin_in D 0 1 (clamp p)\<close> by (auto simp: stat_finish_def fin_in_def)
qed

lemma clamp_keeps:
  assumes "fround D r = r"
  shows "clamp (dlit (4/10)) = dlit (4/10)"
    "fle (dlit (99/100)) (Fin r) \<Longrightarrow> fle (dlit (99/100)) (clamp (Fin r))"
    "fle (Fin r) (dlit (1/100)) \<Longrightarrow> fle (clamp (Fin r)) (dlit (1/100))"
proof -
  have "fround D (1/10000) \<le> fround D (4/10)" "fround D (4/10) \<le> fround D (9999/10000)"
    "fround D (99/100) \<le> fround D (9999/10000)" "fround D (1/10000) \<le> fround D (1/100)"
    "fround D (1/10000) \<le> fround D (99/100)" "fround D (1/100) \<le> fround D (9999/10000)"
    by (rule dbl.rnd_mono; simp)+
  then show "clamp (dlit (4/10)) = dlit (4/10)"
    "fle (dlit (99/100)) (Fin r) \<Longrightarrow> fle (dlit (99/100)) (clamp (Fin r))"
    "fle (Fin r) (dlit (1/100)) \<Longrightarrow> fle (clamp (Fin r)) (dlit (1/100))"
    by (auto simp: clamp_def Let_def dlit_Fin fle_def feq_def split: if_splits)
qed

section \<open>Properties\<close>

text \<open>The hits and totals a store can hold, and the training buffer the documentation allows.\<close>

definition stat_bounds :: "('s, 'm) dspam_ctx \<Rightarrow> ds_spam_stat \<Rightarrow> bool" where
  "stat_bounds CTX s \<longleftrightarrow> 0 \<le> st_spam_hits s \<and> st_spam_hits s \<le> 2 ^ 50 \<and>
     0 \<le> st_innocent_hits s \<and> st_innocent_hits s \<le> 2 ^ 50 \<and>
     spam_learned (cx_totals CTX) \<le> 2 ^ 63 \<and> innocent_learned (cx_totals CTX) \<le> 2 ^ 63 \<and>
     cx_training_buffer CTX \<le> 10"

definition weighable :: "ds_term option \<Rightarrow> bool" where
  "weighable tm \<longleftrightarrow> (case tm of None \<Rightarrow> True
     | Some t \<Rightarrow> (case tm_name t of None \<Rightarrow> False | Some name \<Rightarrow> (case ds_compute_weight name of Inl _ \<Rightarrow> False | Inr _ \<Rightarrow> True)))"

text \<open>
  C30. The value of a token is a probability. For every token with counted hits, whatever the
  algorithms, flags and totals of the context, the calculation returns, leaves the hits
  alone, and yields a finite number between 0 and 1, between 0.0001 and 0.9999 unless
  Robinson's formula is applied to it; no division by zero or overflow gets through.
\<close>

theorem calc_stat_probability:
  assumes "stat_bounds CTX s" "has (cx_algorithms CTX) DSP_MARKOV \<Longrightarrow> weighable tm"
  shows "\<exists>s' r. ds_calc_stat CTX tm s DTT_DEFAULT None = Inr s' \<and> s' = s\<lparr>st_probability := Fin r\<rparr> \<and> 0 \<le> r \<and> r \<le> 1 \<and>
    (\<not> has (cx_algorithms CTX) DSP_ROBINSON \<longrightarrow> fround double_fmt (1/10000) \<le> r \<and> r \<le> fround double_fmt (9999/10000))"
proof -
  note b = assms(1)[unfolded stat_bounds_def]
  let ?sh = "st_spam_hits s" and ?ih = "st_innocent_hits s"
  obtain m where m: "stat_min_hits CTX DTT_DEFAULT = Inr m" "5 \<le> m" using min_hits_total[of CTX DTT_DEFAULT] b by auto
  have half: "fround D (1/2) = 1/2" by (rule fround_half) simp
  have neutral: "\<exists>r. dlit (1/2) = Fin r \<and> 0 \<le> r \<and> r \<le> 1 \<and> fround D (1/10000) \<le> r \<and> r \<le> fround D (9999/10000)"
    using dbl.rnd_mono[of "1/10000" "1/2"] dbl.rnd_mono[of "1/2" "9999/10000"] by (intro exI[of _ "1/2"]) (simp add: dlit_Fin half)
  show ?thesis
  proof (cases "has (cx_algorithms CTX) DSP_MARKOV")
    case True
    then have w: "weighable tm" by (rule assms(2))
    have mk: "\<exists>r. stat_finish CTX DTT_DEFAULT ?sh ?ih (markov_value bias (int w) ?sh ?ih) = Fin r \<and> 0 \<le> r \<and> r \<le> 1 \<and>
        (\<not> has (cx_algorithms CTX) DSP_ROBINSON \<longrightarrow> fround D (1/10000) \<le> r \<and> r \<le> fround D (9999/10000))"
      if "ds_compute_weight name = Inr w" for bias w name
      using b compute_weight_bound[OF that] by (intro stat_finish_range[OF markov_value_finite]) auto
    show ?thesis
    proof (cases tm)
      case None
      then show ?thesis using True m neutral by (auto simp: ds_calc_stat_def Let_def)
    next
      case (Some t)
      then obtain name wt where n: "tm_name t = Some name" "ds_compute_weight name = Inr wt"
        using w by (auto simp: weighable_def split: option.splits sum.splits)
      then show ?thesis using True m neutral Some mk[OF n(2), of "has (cx_flags CTX) DSF_BIAS"]
        by (auto simp: ds_calc_stat_def Let_def)
    qed
  next
    case False
    let ?p0 = "if cx_classification CTX = DSR_ISSPAM then dlit (7/10) else dlit (4/10)"
    have "fin_in D 0 1 ?p0" by (auto intro: dlit_range)
    then obtain p where p: "graham_value DTT_DEFAULT (has (cx_flags CTX) DSF_BIAS) (cx_totals CTX) None m ?sh ?ih ?p0 = Inr p"
      "fin_in D 0 1 p"
      using graham_value_range[of ?sh ?ih "cx_totals CTX" m ?p0 "has (cx_flags CTX) DSF_BIAS" None] b m by auto
    then show ?thesis
      using False m stat_finish_range[OF p(2), of ?sh ?ih CTX DTT_DEFAULT] b by (auto simp: ds_calc_stat_def Let_def)
  qed
qed

definition plain_ctx :: "(unit, unit) dspam_ctx" where
  "plain_ctx = (the (dspam_create (\<lambda>_. True) None None None None DSM_PROCESS 0))\<lparr>cx_algorithms := DSA_GRAHAM\<rparr>"

lemma plain_ctx_simps [simp]:
  "cx_training_buffer plain_ctx = 0" "cx_totals plain_ctx = no_totals" "cx_algorithms plain_ctx = DSA_GRAHAM"
  "cx_classification plain_ctx = DSR_NONE" "cx_training_mode plain_ctx = DST_TEFT" "cx_flags plain_ctx = 0"
  by (simp_all add: plain_ctx_def dspam_create_def)

theorem calc_stat_probability_witness:
  "\<exists>s' r. ds_calc_stat plain_ctx None (zero_stat\<lparr>st_spam_hits := 7\<rparr>) DTT_DEFAULT None = Inr s' \<and>
     s' = zero_stat\<lparr>st_spam_hits := 7, st_probability := Fin r\<rparr> \<and> 0 \<le> r \<and> r \<le> 1"
  using calc_stat_probability[of plain_ctx "zero_stat\<lparr>st_spam_hits := 7\<rparr>" None]
  by (auto simp: stat_bounds_def zero_stat_def no_totals_def weighable_def)

text \<open>
  Graham's rules for rare and one-sided tokens. With the threshold \<open>m\<close> of the context a
  token seen fewer than \<open>m\<close> times (innocent hits counting twice with the bias flag) gets 0.4;
  one seen \<open>m\<close> times or more in spam only gets at least 0.99, one seen in innocent messages
  only at most 0.01. The threshold is at least 5.
\<close>

theorem calc_stat_one_sided:
  assumes "stat_bounds CTX s" "\<not> has (cx_algorithms CTX) DSP_MARKOV" "\<not> has (cx_algorithms CTX) DSP_ROBINSON"
  shows "\<exists>m p. stat_min_hits CTX DTT_DEFAULT = Inr m \<and> 5 \<le> m \<and>
    ds_calc_stat CTX tm s DTT_DEFAULT None = Inr (s\<lparr>st_probability := p\<rparr>) \<and>
    (st_spam_hits s + (if has (cx_flags CTX) DSF_BIAS then 2 else 1) * st_innocent_hits s < m \<longrightarrow> p = dlit (4/10)) \<and>
    (m \<le> st_spam_hits s \<and> st_innocent_hits s = 0 \<longrightarrow> fle (dlit (99/100)) p) \<and>
    (m \<le> st_innocent_hits s \<and> st_spam_hits s = 0 \<longrightarrow> fle p (dlit (1/100)))"
proof -
  note b = assms(1)[unfolded stat_bounds_def]
  let ?sh = "st_spam_hits s" and ?ih = "st_innocent_hits s" and ?w = "if has (cx_flags CTX) DSF_BIAS then 2 else 1"
  let ?p0 = "if cx_classification CTX = DSR_ISSPAM then dlit (7/10) else dlit (4/10)"
  obtain m where m: "stat_min_hits CTX DTT_DEFAULT = Inr m" "5 \<le> m" using min_hits_total[of CTX DTT_DEFAULT] b by auto
  have p0: "fin_in D 0 1 ?p0" by (auto intro: dlit_range)
  define v where "v = (if ?sh + ?w * ?ih < m then dlit (4/10)
    else seen_value ?w (spam_learned (cx_totals CTX)) (innocent_learned (cx_totals CTX)) ?sh ?ih ?p0)"
  have g: "graham_value DTT_DEFAULT (has (cx_flags CTX) DSF_BIAS) (cx_totals CTX) None m ?sh ?ih ?p0 = Inr v"
    by (simp add: graham_value_seen v_def)
  obtain r where r: "v = Fin r" "fround D r = r"
    using graham_value_range[of ?sh ?ih "cx_totals CTX" m ?p0 "has (cx_flags CTX) DSF_BIAS" None] b m p0 g
    by (auto elim!: fin_inE)
  have "ds_calc_stat CTX tm s DTT_DEFAULT None = Inr (s\<lparr>st_probability := clamp v\<rparr>)"
    using assms(2,3) m(1) g by (auto simp: ds_calc_stat_def Let_def stat_finish_def split: if_splits)
  moreover have "?ih \<le> ?w * ?ih" using b by simp
  then have "m \<le> ?ih \<and> ?sh = 0 \<longrightarrow> fle v (dlit (1/100))"
    using seen_value_extremes(2)[of ?ih] m by (auto simp: v_def)
  moreover have "m \<le> ?sh \<and> ?ih = 0 \<longrightarrow> fle (dlit (99/100)) v"
    using seen_value_extremes(1)[of ?sh] m by (auto simp: v_def)
  moreover have "?sh + ?w * ?ih < m \<longrightarrow> v = dlit (4/10)" by (simp add: v_def)
  ultimately show ?thesis
    using m clamp_keeps[OF r(2)] unfolding r(1) by (intro exI[of _ m] exI[of _ "clamp (Fin r)"]) auto
qed

theorem calc_stat_one_sided_witness:
  "\<exists>p. ds_calc_stat plain_ctx None (zero_stat\<lparr>st_spam_hits := 7\<rparr>) DTT_DEFAULT None =
     Inr (zero_stat\<lparr>st_spam_hits := 7, st_probability := p\<rparr>) \<and> fle (dlit (99/100)) p"
  using calc_stat_one_sided[of plain_ctx "zero_stat\<lparr>st_spam_hits := 7\<rparr>" None]
  by (auto simp: stat_bounds_def zero_stat_def no_totals_def has_def stat_min_hits_def Let_def sed_hits_def
      DSP_MARKOV_def DSP_ROBINSON_def DSA_GRAHAM_def)

end
