(* ===== verification/Ds_Hash.thy ===== *)
theory Ds_Hash
  imports Ds_Diction
begin

text \<open>
  hash.c: the hash table of the noise reduction, from pattern names to their values. It has
  the same shape as the dictionary; a node is addressed by its name.
\<close>

section \<open>Data\<close>

record bnr_hash_node =
  hn_name :: string
  hn_value :: fp

record bnr_hash =
  bh_size :: nat
  bh_items :: nat
  bh_tbl :: "bnr_hash_node list list"

definition bnr_hash_prime_list :: "nat list" where
  "bnr_hash_prime_list =
     [53, 97, 193, 389, 769,
      1543, 3079, 6151, 12289, 24593,
      49157, 98317, 196613, 393241, 786433,
      1572869, 3145739, 6291469, 12582917, 25165843,
      50331653, 100663319, 201326611, 402653189, 805306457,
      1610612741, 3221225473, 4294967291]"

section \<open>Operations\<close>

definition bnr_hash_node_create :: "bool \<Rightarrow> string \<Rightarrow> bnr_hash_node option" where
  "bnr_hash_node_create alloc name = (if alloc then Some \<lparr>hn_name = name, hn_value = Fin 0\<rparr> else None)"

definition bnr_hash_create :: "(nat \<Rightarrow> bool) \<Rightarrow> nat \<Rightarrow> bnr_hash option cres" where
  "bnr_hash_create alloc n =
     (if \<not> alloc 0 then Inr None
      else cbind (prime_scan bnr_hash_prime_list n) (\<lambda>prime.
        if \<not> alloc 1 then Inr None
        else Inr (Some \<lparr>bh_size = prime, bh_items = 0, bh_tbl = replicate prime []\<rparr>)))"

text \<open>The hash value is computed in an unsigned long, from sign-extended characters.\<close>

definition hash_val :: "string \<Rightarrow> u64" where
  "hash_val name = foldl (\<lambda>val c. 5 * val + of_int (schar c)) 0 name"

definition bnr_hash_hashcode :: "nat \<Rightarrow> string \<Rightarrow> nat" where
  "bnr_hash_hashcode n name = unat (hash_val name) mod n"

definition bnr_hash_delete :: "bnr_hash \<Rightarrow> string \<Rightarrow> bnr_hash \<times> int" where
  "bnr_hash_delete h name =
     (let hash_code = bnr_hash_hashcode (bh_size h) name;
          chain = bh_tbl h ! hash_code
      in case chain_find hn_name name chain of
           None \<Rightarrow> (h, - 2)
         | Some del_node \<Rightarrow>
             (h\<lparr>bh_tbl := (bh_tbl h)[hash_code := chain_del hn_name name chain],
                bh_items := bh_items h - 1\<rparr>, 0))"

definition c_bnr_hash_next :: "bnr_hash \<Rightarrow> string cursor \<Rightarrow> (string cursor \<times> string option) cres" where
  "c_bnr_hash_next h c = tbl_next hn_name (bnr_hash_hashcode (bh_size h)) (bh_size h) (bh_tbl h) c"

definition c_bnr_hash_first :: "bnr_hash \<Rightarrow> (string cursor \<times> string option) cres" where
  "c_bnr_hash_first h = c_bnr_hash_next h (0, None)"

fun bnr_hash_destroy_loop :: "nat \<Rightarrow> bnr_hash \<Rightarrow> string cursor \<Rightarrow> string option \<Rightarrow> bnr_hash cres" where
  "bnr_hash_destroy_loop fuel h c None = Inr h"
| "bnr_hash_destroy_loop 0 h c (Some name) = Inl NoReturn"
| "bnr_hash_destroy_loop (Suc fuel) h c (Some name) =
     cbind (c_bnr_hash_next h c) (\<lambda>(c', nx).
       if chain_find hn_name name (bh_tbl h ! bnr_hash_hashcode (bh_size h) name) = None
       then Inl UseAfterFree
       else bnr_hash_destroy_loop fuel (fst (bnr_hash_delete h name)) c' nx)"

definition bnr_hash_destroy :: "nat \<Rightarrow> bnr_hash option \<Rightarrow> int cres" where
  "bnr_hash_destroy fuel hash =
     (case hash of
        None \<Rightarrow> Inr (- 1)
      | Some h \<Rightarrow>
          cbind (c_bnr_hash_first h) (\<lambda>(c, node).
          cbind (bnr_hash_destroy_loop fuel h c node) (\<lambda>_. Inr 0)))"

definition bnr_hash_hit :: "bool \<Rightarrow> bnr_hash \<Rightarrow> string \<Rightarrow> bnr_hash \<times> int" where
  "bnr_hash_hit alloc h name =
     (let hash_code = bnr_hash_hashcode (bh_size h) name;
          chain = bh_tbl h ! hash_code
      in case chain_find hn_name name chain of
           Some new_node \<Rightarrow> (h, 0)
         | None \<Rightarrow>
             (let h1 = h\<lparr>bh_items := Suc (bh_items h)\<rparr> in
              case bnr_hash_node_create alloc name of
                None \<Rightarrow> (h1, 0)
              | Some node \<Rightarrow> (h1\<lparr>bh_tbl := (bh_tbl h)[hash_code := chain @ [node]]\<rparr>, 0)))"

definition bnr_hash_value :: "bnr_hash \<Rightarrow> string \<Rightarrow> fp" where
  "bnr_hash_value h name =
     (case chain_find hn_name name (bh_tbl h ! bnr_hash_hashcode (bh_size h) name) of
        Some node \<Rightarrow> hn_value node
      | None \<Rightarrow> Fin 0)"

definition bnr_hash_set :: "bnr_hash \<Rightarrow> string option \<Rightarrow> fp \<Rightarrow> bnr_hash \<times> int" where
  "bnr_hash_set h name val =
     (case name of
        None \<Rightarrow> (h, 0)
      | Some nm \<Rightarrow>
          (let hash_code = bnr_hash_hashcode (bh_size h) nm
           in (h\<lparr>bh_tbl := (bh_tbl h)[hash_code :=
                 chain_upd hn_name nm (\<lambda>node. node\<lparr>hn_value := val\<rparr>) (bh_tbl h ! hash_code)]\<rparr>, 0)))"

section \<open>The table as a finite map\<close>

interpretation bht: buckets hn_name bnr_hash_hashcode
  by unfold_locales (simp add: bnr_hash_hashcode_def)

definition bnr_hash_ok :: "bnr_hash \<Rightarrow> bool" where
  "bnr_hash_ok h \<longleftrightarrow> 0 < bh_size h \<and> tbl_ok hn_name (bnr_hash_hashcode (bh_size h)) (bh_size h) (bh_tbl h) \<and>
     bh_items h = length (concat (bh_tbl h))"

definition bh_map :: "bnr_hash \<Rightarrow> string \<rightharpoonup> fp" where
  "bh_map h name = map_option hn_value
     (chain_find hn_name name (bh_tbl h ! bnr_hash_hashcode (bh_size h) name))"

lemma bnr_hash_okD:
  assumes "bnr_hash_ok h"
  shows "0 < bh_size h" "tbl_ok hn_name (bnr_hash_hashcode (bh_size h)) (bh_size h) (bh_tbl h)"
    "bh_items h = length (concat (bh_tbl h))"
  using assms by (simp_all add: bnr_hash_ok_def)

lemma bh_value_map: "bnr_hash_value h name = (case bh_map h name of Some v \<Rightarrow> v | None \<Rightarrow> Fin 0)"
  by (simp add: bnr_hash_value_def bh_map_def split: option.splits)

lemma bh_hit_spec:
  assumes "bnr_hash_ok h"
  shows "\<exists>h'. bnr_hash_hit True h name = (h', 0) \<and> bnr_hash_ok h' \<and> bh_size h' = bh_size h \<and>
    bh_map h' = (if bh_map h name = None then (bh_map h)(name \<mapsto> Fin 0) else bh_map h)"
proof (cases "chain_find hn_name name (bh_tbl h ! bnr_hash_hashcode (bh_size h) name)")
  case None
  define node where "node = \<lparr>hn_name = name, hn_value = Fin 0\<rparr>"
  note ok = bnr_hash_okD(2,1)[OF assms]
  have n: "hn_name node = name" by (simp add: node_def)
  define h' where "h' = h\<lparr>bh_items := Suc (bh_items h), bh_tbl := (bh_tbl h)[bnr_hash_hashcode (bh_size h) name :=
    bh_tbl h ! bnr_hash_hashcode (bh_size h) name @ [node]]\<rparr>"
  have "bnr_hash_ok h'"
    using bht.put_ok[OF ok, of node] bht.put_length[OF ok, of name node] bnr_hash_okD(3)[OF assms] None n ok
    by (simp add: bnr_hash_ok_def h'_def)
  moreover have "bh_map h' = (bh_map h)(name \<mapsto> Fin 0)"
    using bht.put_find[OF ok, of node] None n by (auto simp: bh_map_def h'_def fun_eq_iff node_def)
  ultimately show ?thesis
    using None by (simp add: bnr_hash_hit_def Let_def bnr_hash_node_create_def h'_def node_def bh_map_def)
next
  case (Some node)
  then show ?thesis using assms by (simp add: bnr_hash_hit_def Let_def bh_map_def)
qed

lemma bh_set_spec:
  assumes "bnr_hash_ok h"
  shows "\<exists>h'. bnr_hash_set h (Some name) v = (h', 0) \<and> bnr_hash_ok h' \<and> bh_size h' = bh_size h \<and>
    bh_map h' = (if bh_map h name = None then bh_map h else (bh_map h)(name \<mapsto> v))"
proof -
  note ok = bnr_hash_okD(2,1)[OF assms]
  define h' where "h' = h\<lparr>bh_tbl := (bh_tbl h)[bnr_hash_hashcode (bh_size h) name :=
    chain_upd hn_name name (\<lambda>node. node\<lparr>hn_value := v\<rparr>) (bh_tbl h ! bnr_hash_hashcode (bh_size h) name)]\<rparr>"
  have "bnr_hash_ok h'"
    using bht.upd_ok[OF ok, of "\<lambda>node. node\<lparr>hn_value := v\<rparr>" name] bht.upd_length[OF ok, of name]
      bnr_hash_okD(3)[OF assms] ok by (simp add: bnr_hash_ok_def h'_def)
  moreover have "bh_map h' = (if bh_map h name = None then bh_map h else (bh_map h)(name \<mapsto> v))"
    using bht.upd_find[OF ok, of "\<lambda>node. node\<lparr>hn_value := v\<rparr>" _ name]
    by (auto simp: bh_map_def h'_def fun_eq_iff)
  moreover have "bnr_hash_set h (Some name) v = (h', 0)" "bh_size h' = bh_size h"
    by (simp_all add: bnr_hash_set_def h'_def Let_def)
  ultimately show ?thesis by blast
qed

lemma bh_delete_spec:
  assumes "bnr_hash_ok h"
  shows "\<exists>h'. bnr_hash_delete h name = (h', if bh_map h name = None then - 2 else 0) \<and>
    bnr_hash_ok h' \<and> bh_map h' = (bh_map h)(name := None)"
proof (cases "chain_find hn_name name (bh_tbl h ! bnr_hash_hashcode (bh_size h) name)")
  case None
  then show ?thesis using assms by (auto simp: bnr_hash_delete_def Let_def bh_map_def)
next
  case (Some node)
  note ok = bnr_hash_okD(2,1)[OF assms]
  show ?thesis
    using Some bht.del_ok[OF ok, of name] bht.del_find[OF ok, of _ name] bht.del_length[OF ok, of name]
      bnr_hash_okD[OF assms]
    by (auto simp: bnr_hash_delete_def Let_def bnr_hash_ok_def bh_map_def fun_eq_iff)
qed

lemma bnr_destroy_tbl:
  assumes "bnr_hash_ok h"
    and "tbl_destroy hn_name (bnr_hash_hashcode (bh_size h)) (bh_size h) fuel (bh_tbl h) c r = Inr tbl'"
  shows "\<exists>h'. bnr_hash_destroy_loop fuel h c r = Inr h' \<and> bnr_hash_ok h' \<and> bh_tbl h' = tbl'"
  using assms
proof (induction fuel arbitrary: h c r)
  case 0
  then show ?case by (cases r) auto
next
  case (Suc fuel)
  show ?case
  proof (cases r)
    case (Some k)
    obtain c' nx t where st: "tbl_next hn_name (bnr_hash_hashcode (bh_size h)) (bh_size h) (bh_tbl h) c = Inr (c', nx)"
      "chain_find hn_name k (bh_tbl h ! bnr_hash_hashcode (bh_size h) k) = Some t"
      "tbl_destroy hn_name (bnr_hash_hashcode (bh_size h)) (bh_size h) fuel
         ((bh_tbl h)[bnr_hash_hashcode (bh_size h) k := chain_del hn_name k (bh_tbl h ! bnr_hash_hashcode (bh_size h) k)]) c' nx = Inr tbl'"
      using Suc.prems(2) Some by (auto simp: cbind_Inr_iff split: option.splits)
    then have "bh_size (fst (bnr_hash_delete h k)) = bh_size h"
      "bh_tbl (fst (bnr_hash_delete h k)) =
         (bh_tbl h)[bnr_hash_hashcode (bh_size h) k := chain_del hn_name k (bh_tbl h ! bnr_hash_hashcode (bh_size h) k)]"
      by (simp_all add: bnr_hash_delete_def Let_def)
    moreover have "bnr_hash_ok (fst (bnr_hash_delete h k))"
      using bh_delete_spec[OF Suc.prems(1), of k] by auto
    ultimately show ?thesis
      using Suc.IH[of "fst (bnr_hash_delete h k)" c' nx] st Some by (simp add: c_bnr_hash_next_def)
  qed (use Suc.prems in auto)
qed

section \<open>Properties\<close>

text \<open>
  C34. The noise-reduction hash refines a finite map from pattern names to values: a hit
  creates a missing entry with value 0 and leaves an existing one, a set changes an existing
  entry only, the value of a missing name is 0, a delete removes the entry or answers -2,
  and destroying the table frees every entry without reading a freed one.
\<close>

theorem bnr_hash_refines_map:
  assumes "bnr_hash_ok h"
  shows "(\<exists>h'. bnr_hash_hit True h name = (h', 0) \<and> bnr_hash_ok h' \<and>
      bh_map h' = (if bh_map h name = None then (bh_map h)(name \<mapsto> Fin 0) else bh_map h)) \<and>
    (\<exists>h'. bnr_hash_set h (Some name) v = (h', 0) \<and> bnr_hash_ok h' \<and>
      bh_map h' = (if bh_map h name = None then bh_map h else (bh_map h)(name \<mapsto> v))) \<and>
    (\<exists>h'. bnr_hash_delete h name = (h', if bh_map h name = None then - 2 else 0) \<and> bnr_hash_ok h' \<and>
      bh_map h' = (bh_map h)(name := None)) \<and>
    bnr_hash_value h name = (case bh_map h name of Some x \<Rightarrow> x | None \<Rightarrow> Fin 0) \<and>
    bnr_hash_destroy (bh_items h) (Some h) = Inr 0"
proof -
  obtain c r tbl' where st:
    "tbl_next hn_name (bnr_hash_hashcode (bh_size h)) (bh_size h) (bh_tbl h) (0, None) = Inr (c, r)"
    "tbl_destroy hn_name (bnr_hash_hashcode (bh_size h)) (bh_size h) (bh_items h) (bh_tbl h) c r = Inr tbl'"
    using bht.destroy_all[OF bnr_hash_okD(2,1)[OF assms], of "bh_items h"] bnr_hash_okD(3)[OF assms] by force
  from bnr_destroy_tbl[OF assms st(2)] have "bnr_hash_destroy (bh_items h) (Some h) = Inr 0"
    using st(1) by (auto simp: bnr_hash_destroy_def c_bnr_hash_first_def c_bnr_hash_next_def)
  then show ?thesis
    using bh_hit_spec[OF assms] bh_set_spec[OF assms] bh_delete_spec[OF assms] bh_value_map by blast
qed

definition small_hash :: bnr_hash where
  "small_hash = \<lparr>bh_size = 53, bh_items = 0, bh_tbl = replicate 53 []\<rparr>"

lemma small_hash_ok: "bnr_hash_ok small_hash" "bh_map small_hash = Map.empty"
  by (auto simp: small_hash_def bnr_hash_ok_def tbl_ok_def bh_map_def chain_find_def bnr_hash_hashcode_def)

theorem bnr_hash_refines_map_witness:
  "bnr_hash_ok small_hash \<and>
   (\<exists>h'. bnr_hash_hit True small_hash ''bnr.s|0.00_0.50_'' = (h', 0) \<and>
      bh_map h' = [''bnr.s|0.00_0.50_'' \<mapsto> Fin 0])"
  using bnr_hash_refines_map[OF small_hash_ok(1), of "''bnr.s|0.00_0.50_''"] small_hash_ok by auto

end
