(* ===== verification/Ds_Bnr.thy ===== *)
theory Ds_Bnr
  imports Ds_Hash Ds_Util
begin

text \<open>
  bnr.c: Bayesian noise reduction. Patterns are named after the rounded values of a sliding
  window of tokens; a token whose value contradicts an interesting pattern that covers it is
  eliminated. A node of the stream is addressed by its position.
\<close>

section \<open>Pattern names\<close>

text \<open>\<^verbatim>\<open>printf("%01.2f_", p)\<close> cut to five characters.\<close>

fun dec_digits :: "nat \<Rightarrow> string" where
  "dec_digits n = (if n < 10 then [char_of (48 + n)] else dec_digits (n div 10) @ [char_of (48 + n mod 10)])"

declare dec_digits.simps [simp del]

fun fmt_2f :: "fp \<Rightarrow> string" where
  "fmt_2f NaN = ''nan''"
| "fmt_2f (Inf s) = (if s then ''inf'' else ''-inf'')"
| "fmt_2f (Fin x) =
     (let n = nat (round_half_even (\<bar>x\<bar> * 100))
      in (if x < 0 then ''-'' else '''') @ dec_digits (n div 100) @ ''.'' @
         [char_of (48 + n div 10 mod 10), char_of (48 + n mod 10)])"

definition pattern_part :: "fp \<Rightarrow> string" where
  "pattern_part p = take 5 (fmt_2f p @ ''_'')"

definition bnr_token :: "char \<Rightarrow> fp list \<Rightarrow> string" where
  "bnr_token identifier probs = ''bnr.'' @ [identifier] @ ''|'' @ concat (map pattern_part probs)"

section \<open>The context\<close>

record 'a bnr_ctx =
  bx_eliminations :: int
  bx_stream :: "'a bnr_list"
  bx_patterns :: bnr_hash
  bx_identifier :: char
  bx_c_stream :: "nat option"
  bx_c_pattern :: "string cursor"
  bx_stream_iter :: bool
  bx_pattern_iter :: bool
  bx_window_size :: nat
  bx_ex_radius :: fp
  bx_in_radius :: fp

definition bnr_init :: "(nat \<Rightarrow> bool) \<Rightarrow> bnr_type \<Rightarrow> char \<Rightarrow> 'a bnr_ctx option cres" where
  "bnr_init alloc type identifier =
     (if \<not> alloc 0 then Inr None
      else cbind (bnr_hash_create (\<lambda>i. alloc (2 + i)) 1543) (\<lambda>patterns.
        case patterns of
          None \<Rightarrow> Inr None
        | Some h \<Rightarrow>
            if \<not> alloc 1 then Inr None
            else Inr (Some \<lparr>bx_eliminations = 0, bx_stream = bnr_list_create type, bx_patterns = h,
              bx_identifier = identifier, bx_c_stream = None, bx_c_pattern = (0, None),
              bx_stream_iter = False, bx_pattern_iter = False, bx_window_size = 3,
              bx_ex_radius = fcast single_fmt (dlit (1/4)), bx_in_radius = fcast single_fmt (dlit (33/100))\<rparr>)))"

definition bnr_destroy :: "nat \<Rightarrow> 'a bnr_ctx \<Rightarrow> int cres" where
  "bnr_destroy fuel btx =
     cbind (bnr_list_destroy (bx_stream btx)) (\<lambda>_.
     cbind (bnr_hash_destroy fuel (Some (bx_patterns btx))) (\<lambda>_. Inr 0))"

definition bnr_add :: "bool \<Rightarrow> 'a bnr_ctx \<Rightarrow> 'a \<Rightarrow> fp \<Rightarrow> ('a bnr_ctx \<times> int) cres" where
  "bnr_add alloc btx token val =
     cbind (bnr_list_insert alloc (bx_stream btx) token val) (\<lambda>(lst, node).
       Inr (btx\<lparr>bx_stream := lst\<rparr>, if node \<noteq> None then 0 else EFAILURE))"

definition bnr_round :: "fp \<Rightarrow> fp cres" where
  "bnr_round n = (case ds_round n of None \<Rightarrow> Inl BadConversion | Some r \<Rightarrow> Inr r)"

text \<open>The window of rounded values, and the name of the pattern it spells.\<close>

definition window_shift :: "'b list \<Rightarrow> 'b \<Rightarrow> 'b list" where
  "window_shift w x = tl w @ [x]"

fun instantiate_loop :: "char \<Rightarrow> 'a bnr_list_node list \<Rightarrow> fp list \<Rightarrow> bnr_hash \<Rightarrow> bnr_hash cres" where
  "instantiate_loop identifier [] probs patterns = Inr patterns"
| "instantiate_loop identifier (node # nodes) probs patterns =
     cbind (bnr_round (bl_value node)) (\<lambda>p.
       let probs' = window_shift probs p
       in instantiate_loop identifier nodes probs' (fst (bnr_hash_hit True patterns (bnr_token identifier probs'))))"

definition bnr_instantiate :: "'a bnr_ctx \<Rightarrow> ('a bnr_ctx \<times> int) cres" where
  "bnr_instantiate btx =
     cbind (instantiate_loop (bx_identifier btx) (bl_first (bx_stream btx))
        (replicate (bx_window_size btx) (Fin 0)) (bx_patterns btx))
       (\<lambda>h. Inr (btx\<lparr>bx_patterns := h\<rparr>, 0))"

definition bnr_get_pattern :: "'a bnr_ctx \<Rightarrow> ('a bnr_ctx \<times> string option) cres" where
  "bnr_get_pattern btx =
     cbind (if \<not> bx_pattern_iter btx then c_bnr_hash_first (bx_patterns btx)
            else c_bnr_hash_next (bx_patterns btx) (bx_c_pattern btx))
       (\<lambda>(c, node).
         Inr (btx\<lparr>bx_c_pattern := c, bx_pattern_iter := (node \<noteq> None)\<rparr>, node))"

definition bnr_set_pattern :: "'a bnr_ctx \<Rightarrow> string option \<Rightarrow> fp \<Rightarrow> 'a bnr_ctx \<times> int" where
  "bnr_set_pattern btx name val =
     (let (h, r) = bnr_hash_set (bx_patterns btx) name val in (btx\<lparr>bx_patterns := h\<rparr>, r))"

definition bnr_get_token :: "'a bnr_ctx \<Rightarrow> 'a bnr_ctx \<times> ('a \<times> bool) option" where
  "bnr_get_token btx =
     (let node = (if \<not> bx_stream_iter btx then c_bnr_list_first (bx_stream btx)
                  else c_bnr_list_next (bx_stream btx) (bx_c_stream btx));
          btx1 = btx\<lparr>bx_c_stream := node\<rparr>
      in case node of
           Some i \<Rightarrow>
             (btx1\<lparr>bx_stream_iter := True\<rparr>,
              Some (bl_ptr (bl_first (bx_stream btx) ! i), bl_eliminated (bl_first (bx_stream btx) ! i)))
         | None \<Rightarrow> (btx1\<lparr>bx_stream_iter := False\<rparr>, None))"

section \<open>Elimination\<close>

definition bnr_interesting :: "fp \<Rightarrow> fp \<Rightarrow> bool" where
  "bnr_interesting ex_radius pattern_value =
     flt ex_radius (fabs (fsub double_fmt (dlit (1/2)) pattern_value))"

definition bnr_inconsistent :: "fp \<Rightarrow> fp \<Rightarrow> fp \<Rightarrow> bool" where
  "bnr_inconsistent in_radius val pattern_value =
     flt in_radius (fabs (fsub single_fmt val pattern_value))"

text \<open>The loop over the window for an interesting pattern.\<close>

fun eliminate :: "fp \<Rightarrow> fp \<Rightarrow> nat option list \<Rightarrow> 'a bnr_list_node list \<times> int \<Rightarrow> 'a bnr_list_node list \<times> int" where
  "eliminate in_radius pv [] st = st"
| "eliminate in_radius pv (None # ts) st = eliminate in_radius pv ts st"
| "eliminate in_radius pv (Some t # ts) (nodes, elim) =
     (if bnr_inconsistent in_radius (bl_value (nodes ! t)) pv
      then eliminate in_radius pv ts (nodes[t := (nodes ! t)\<lparr>bl_eliminated := True\<rparr>], elim + 1)
      else eliminate in_radius pv ts (nodes, elim))"

record 'a bnr_state =
  bs_probs :: "fp list"
  bs_toks :: "nat option list"
  bs_nodes :: "'a bnr_list_node list"
  bs_elim :: int

definition finalize_step :: "'a bnr_ctx \<Rightarrow> 'a bnr_state \<Rightarrow> nat \<Rightarrow> 'a bnr_state cres" where
  "finalize_step btx st k =
     cbind (bnr_round (bl_value (bs_nodes st ! k))) (\<lambda>p.
       let probs' = window_shift (bs_probs st) p;
           toks' = window_shift (bs_toks st) (Some k);
           pv = bnr_hash_value (bx_patterns btx) (bnr_token (bx_identifier btx) probs');
           (nodes', elim') =
             (if bnr_interesting (bx_ex_radius btx) pv
              then eliminate (bx_in_radius btx) pv toks' (bs_nodes st, bs_elim st)
              else (bs_nodes st, bs_elim st))
       in Inr \<lparr>bs_probs = probs', bs_toks = toks', bs_nodes = nodes', bs_elim = elim'\<rparr>)"

definition bnr_finalize :: "'a bnr_ctx \<Rightarrow> ('a bnr_ctx \<times> int) cres" where
  "bnr_finalize btx =
     cbind (cfold (finalize_step btx)
        \<lparr>bs_probs = replicate (bx_window_size btx) (Fin 0), bs_toks = replicate (bx_window_size btx) None,
         bs_nodes = bl_first (bx_stream btx), bs_elim = bx_eliminations btx\<rparr>
        [0..<length (bl_first (bx_stream btx))])
       (\<lambda>st. Inr (btx\<lparr>bx_stream := (bx_stream btx)\<lparr>bl_first := bs_nodes st\<rparr>, bx_eliminations := bs_elim st\<rparr>, 0))"

section \<open>Windows\<close>

text \<open>The values of the window at position \<open>k\<close>, and the pattern they name.\<close>

definition probs_at :: "nat \<Rightarrow> fp list \<Rightarrow> nat \<Rightarrow> fp list" where
  "probs_at n rs k = drop k (replicate n (Fin 0) @ take k rs)"

definition toks_at :: "nat \<Rightarrow> nat \<Rightarrow> nat option list" where
  "toks_at n k = map (\<lambda>i. if k + i < n then None else Some (k + i - n)) [0..<n]"

lemma probs_at_Suc:
  assumes "k < length rs" "0 < n"
  shows "window_shift (probs_at n rs k) (rs ! k) = probs_at n rs (Suc k)"
proof -
  define z where "z = replicate n (Fin 0) @ take k rs"
  have z: "Suc k \<le> length z" "replicate n (Fin 0) @ take (Suc k) rs = z @ [rs ! k]"
    using assms by (simp_all add: z_def take_Suc_conv_app_nth)
  then have "drop (Suc k) (z @ [rs ! k]) = tl (drop k z) @ [rs ! k]" by (simp add: drop_Suc tl_drop)
  then show ?thesis unfolding window_shift_def probs_at_def z(2) z_def[symmetric] by simp
qed

lemma toks_at_Suc:
  assumes "0 < n"
  shows "window_shift (toks_at n k) (Some k) = toks_at n (Suc k)"
proof (rule nth_equalityI)
  show "length (window_shift (toks_at n k) (Some k)) = length (toks_at n (Suc k))"
    using assms by (simp add: window_shift_def toks_at_def)
  fix i assume "i < length (window_shift (toks_at n k) (Some k))"
  then have "i < n" using assms by (simp add: window_shift_def toks_at_def)
  then show "window_shift (toks_at n k) (Some k) ! i = toks_at n (Suc k) ! i"
    by (auto simp: window_shift_def toks_at_def nth_append nth_tl)
qed

lemma toks_at_mem: "Some t \<in> set (toks_at n (Suc k)) \<longleftrightarrow> t \<le> k \<and> k < t + n"
proof
  assume "t \<le> k \<and> k < t + n"
  then show "Some t \<in> set (toks_at n (Suc k))"
    by (auto simp: toks_at_def image_iff intro!: bexI[of _ "t + n - Suc k"])
qed (auto simp: toks_at_def split: if_splits)

text \<open>What one pass over the window does to the nodes.\<close>

lemma eliminate_nodes:
  assumes "\<And>t. Some t \<in> set ts \<Longrightarrow> t < length nodes" "eliminate r pv ts (nodes, e) = (nodes', e')"
  shows "length nodes' = length nodes \<and> (\<forall>i<length nodes. nodes' ! i =
    (if Some i \<in> set ts \<and> bnr_inconsistent r (bl_value (nodes ! i)) pv
     then (nodes ! i)\<lparr>bl_eliminated := True\<rparr> else nodes ! i))"
  using assms
proof (induction r pv ts "(nodes, e)" arbitrary: nodes e rule: eliminate.induct)
  case (3 r pv t ts nodes e)
  show ?case
  proof (cases "bnr_inconsistent r (bl_value (nodes ! t)) pv")
    case True
    have t: "t < length nodes" using 3(3) by simp
    have "length nodes' = length nodes \<and> (\<forall>i<length nodes. nodes' ! i =
      (if Some i \<in> set ts \<and> bnr_inconsistent r (bl_value (nodes[t := (nodes ! t)\<lparr>bl_eliminated := True\<rparr>] ! i)) pv
       then (nodes[t := (nodes ! t)\<lparr>bl_eliminated := True\<rparr>] ! i)\<lparr>bl_eliminated := True\<rparr>
       else nodes[t := (nodes ! t)\<lparr>bl_eliminated := True\<rparr>] ! i))"
      using 3(1)[OF True] 3(3,4) True by simp
    then show ?thesis using t True by (auto simp: nth_list_update)
  next
    case False
    then show ?thesis using 3(2)[OF False] 3(3,4) by auto
  qed
qed auto

section \<open>The patterns of a stream\<close>

definition rounds_to :: "'a bnr_list_node list \<Rightarrow> fp list \<Rightarrow> bool" where
  "rounds_to nodes rs \<longleftrightarrow> list_all2 (\<lambda>node r. bnr_round (bl_value node) = Inr r) nodes rs"

definition pattern_at :: "'a bnr_ctx \<Rightarrow> fp list \<Rightarrow> nat \<Rightarrow> string" where
  "pattern_at btx rs k = bnr_token (bx_identifier btx) (probs_at (bx_window_size btx) rs (Suc k))"

definition pattern_value_at :: "'a bnr_ctx \<Rightarrow> fp list \<Rightarrow> nat \<Rightarrow> fp" where
  "pattern_value_at btx rs k = bnr_hash_value (bx_patterns btx) (pattern_at btx rs k)"

lemma rounds_toD: "rounds_to nodes rs \<Longrightarrow> length rs = length nodes"
  "rounds_to nodes rs \<Longrightarrow> k < length nodes \<Longrightarrow> bnr_round (bl_value (nodes ! k)) = Inr (rs ! k)"
  by (auto simp: rounds_to_def list_all2_conv_all_nth)

text \<open>Rounding is defined on every probability.\<close>

lemma bnr_round_unit:
  assumes "0 \<le> x" "x \<le> 1"
  shows "\<exists>r. bnr_round (Fin x) = Inr r"
proof -
  have "fround single_fmt 100 = 100"
    by (rule fround_exact[where m = 100 and k = 0]) (simp_all add: single_fmt_def)
  moreover have "(100::rat) < 2 powi 128"
    using power_int_strict_increasing[of 7 128 "2::rat"] by simp
  ultimately have "fmake single_fmt (x * 100) = Fin (fround single_fmt (x * 100))"
    using assms by (intro fmake_bounded[of _ _ 100]) (auto simp: single_fmt_def)
  then show ?thesis by (simp add: bnr_round_def ds_round_def)
qed

lemma rounds_to_exists:
  assumes "\<forall>node\<in>set nodes. \<exists>x. bl_value node = Fin x \<and> 0 \<le> x \<and> x \<le> 1"
  shows "\<exists>rs. rounds_to nodes rs"
  using assms
proof (induction nodes)
  case (Cons node nodes)
  then obtain rs x where "rounds_to nodes rs" "bl_value node = Fin x" "0 \<le> x" "x \<le> 1" by auto
  then show ?case using bnr_round_unit[of x] by (auto simp: rounds_to_def list_all2_Cons1)
qed (auto simp: rounds_to_def)

lemma bh_hit_dom:
  assumes "bnr_hash_ok h"
  shows "\<exists>h'. bnr_hash_hit True h name = (h', 0) \<and> bnr_hash_ok h' \<and> dom (bh_map h') = insert name (dom (bh_map h))"
proof (cases "bh_map h name")
  case None
  then show ?thesis using bh_hit_spec[OF assms, of name] by auto
next
  case (Some v)
  then have "name \<in> dom (bh_map h)" by auto
  then show ?thesis using bh_hit_spec[OF assms, of name] Some by (auto simp: insert_absorb)
qed

lemma instantiate_loop_patterns:
  assumes "rounds_to nodes rs" "bnr_hash_ok h" "0 < n" "k \<le> length nodes"
  shows "\<exists>h'. instantiate_loop c (drop k nodes) (probs_at n rs k) h = Inr h' \<and> bnr_hash_ok h' \<and>
    dom (bh_map h') = dom (bh_map h) \<union> (\<lambda>j. bnr_token c (probs_at n rs (Suc j))) ` {k..<length nodes}"
  using assms(2,4)
proof (induction "length nodes - k" arbitrary: k h)
  case 0
  then show ?case by simp
next
  case (Suc m)
  then have k: "k < length nodes" by simp
  have d: "drop k nodes = nodes ! k # drop (Suc k) nodes" using k by (simp add: Cons_nth_drop_Suc)
  have w: "window_shift (probs_at n rs k) (rs ! k) = probs_at n rs (Suc k)"
    using probs_at_Suc[of k rs n] k rounds_toD(1)[OF assms(1)] assms(3) by simp
  obtain h1 where h1: "bnr_hash_hit True h (bnr_token c (probs_at n rs (Suc k))) = (h1, 0)" "bnr_hash_ok h1"
    "dom (bh_map h1) = insert (bnr_token c (probs_at n rs (Suc k))) (dom (bh_map h))"
    using bh_hit_dom[OF Suc.prems(1), of "bnr_token c (probs_at n rs (Suc k))"] by blast
  have "{k..<length nodes} = insert k {Suc k..<length nodes}" using k by auto
  then show ?case
    using Suc.hyps(1)[of "Suc k" h1] Suc.hyps(2) k h1 d w rounds_toD(2)[OF assms(1) k]
    by (auto simp: Let_def)
qed

lemma finalize_loop:
  fixes btx :: "'a bnr_ctx"
  assumes rs: "rounds_to nodes rs" and n: "0 < bx_window_size btx" and k: "k \<le> length nodes"
  defines "bad i j \<equiv> i \<le> j \<and> j < i + bx_window_size btx \<and>
    bnr_interesting (bx_ex_radius btx) (pattern_value_at btx rs j) \<and>
    bnr_inconsistent (bx_in_radius btx) (bl_value (nodes ! i)) (pattern_value_at btx rs j)"
  shows "\<exists>st. cfold (finalize_step btx)
      \<lparr>bs_probs = replicate (bx_window_size btx) (Fin 0), bs_toks = replicate (bx_window_size btx) None,
       bs_nodes = nodes, bs_elim = e\<rparr> [0..<k] = Inr st \<and>
    bs_probs st = probs_at (bx_window_size btx) rs k \<and> bs_toks st = toks_at (bx_window_size btx) k \<and>
    length (bs_nodes st) = length nodes \<and>
    (\<forall>i<length nodes. bs_nodes st ! i =
       (nodes ! i)\<lparr>bl_eliminated := bl_eliminated (nodes ! i) \<or> (\<exists>j<k. bad i j)\<rparr>)"
  using k
proof (induction k)
  case 0
  have "toks_at m 0 = replicate m None" for m by (auto simp: toks_at_def map_replicate_const intro: nth_equalityI)
  then show ?case by (simp add: probs_at_def)
next
  case (Suc k)
  let ?n = "bx_window_size btx"
  obtain st where st: "cfold (finalize_step btx) \<lparr>bs_probs = replicate ?n (Fin 0), bs_toks = replicate ?n None,
       bs_nodes = nodes, bs_elim = e\<rparr> [0..<k] = Inr st"
    "bs_probs st = probs_at ?n rs k" "bs_toks st = toks_at ?n k" "length (bs_nodes st) = length nodes"
    "\<And>i. i < length nodes \<Longrightarrow> bs_nodes st ! i =
       (nodes ! i)\<lparr>bl_eliminated := bl_eliminated (nodes ! i) \<or> (\<exists>j<k. bad i j)\<rparr>"
    using Suc by auto
  have kl: "k < length nodes" using Suc.prems by simp
  then have v: "bl_value (bs_nodes st ! k) = bl_value (nodes ! k)" by (simp add: st(5))
  define pv where "pv = pattern_value_at btx rs k"
  define q where "q = (if bnr_interesting (bx_ex_radius btx) pv
    then eliminate (bx_in_radius btx) pv (toks_at ?n (Suc k)) (bs_nodes st, bs_elim st)
    else (bs_nodes st, bs_elim st))"
  have w: "window_shift (probs_at ?n rs k) (rs ! k) = probs_at ?n rs (Suc k)"
    using probs_at_Suc[of k rs ?n] kl rounds_toD(1)[OF rs] n by simp
  have step: "finalize_step btx st k = Inr \<lparr>bs_probs = probs_at ?n rs (Suc k), bs_toks = toks_at ?n (Suc k),
      bs_nodes = fst q, bs_elim = snd q\<rparr>"
    using v rounds_toD(2)[OF rs kl] w toks_at_Suc[OF n, of k] st(2,3)
    by (simp add: finalize_step_def Let_def q_def pv_def pattern_value_at_def pattern_at_def case_prod_unfold)
  have mem: "Some t \<in> set (toks_at ?n (Suc k)) \<Longrightarrow> t < length (bs_nodes st)" for t
    using toks_at_mem[of t ?n k] kl st(4) by auto
  have qn: "length (fst q) = length nodes \<and> (\<forall>i<length nodes. fst q ! i =
      (if bad i k then (bs_nodes st ! i)\<lparr>bl_eliminated := True\<rparr> else bs_nodes st ! i))"
  proof (cases "bnr_interesting (bx_ex_radius btx) pv")
    case True
    obtain ns e' where q': "eliminate (bx_in_radius btx) pv (toks_at ?n (Suc k)) (bs_nodes st, bs_elim st) = (ns, e')"
      by fastforce
    have "bl_value (bs_nodes st ! i) = bl_value (nodes ! i)" if "i < length nodes" for i using st(5)[OF that] by simp
    then show ?thesis
      using eliminate_nodes[OF mem q'] True q' st(4) toks_at_mem[of _ ?n k]
      by (auto simp: q_def bad_def pv_def)
  qed (simp add: q_def st(4) bad_def pv_def)
  have "\<forall>i<length nodes. fst q ! i =
      (nodes ! i)\<lparr>bl_eliminated := bl_eliminated (nodes ! i) \<or> (\<exists>j<Suc k. bad i j)\<rparr>"
  proof (intro allI impI)
    fix i assume i: "i < length nodes"
    have "(\<exists>j<Suc k. bad i j) \<longleftrightarrow> (\<exists>j<k. bad i j) \<or> bad i k" using less_Suc_eq by auto
    then show "fst q ! i =
        (nodes ! i)\<lparr>bl_eliminated := bl_eliminated (nodes ! i) \<or> (\<exists>j<Suc k. bad i j)\<rparr>"
      using qn i st(5)[OF i] by simp
  qed
  then show ?case using st(1) step qn
    by (simp add: cfold_append)
qed

section \<open>Properties\<close>

text \<open>
  C26. Noise reduction eliminates exactly the inconsistent tokens. After the patterns were
  given values, a token of the stream is eliminated if and only if it was before, or some
  window of \<open>window_size\<close> consecutive tokens that contains it spells an interesting pattern
  whose value is farther from the token's value than the inclusion radius. The tokens, their
  values and their order are unchanged.
\<close>

theorem bnr_eliminates_inconsistent:
  assumes "rounds_to (bl_first (bx_stream btx)) rs" "0 < bx_window_size btx"
  shows "\<exists>btx'. bnr_finalize btx = Inr (btx', 0) \<and>
    length (bl_first (bx_stream btx')) = length (bl_first (bx_stream btx)) \<and>
    (\<forall>i<length (bl_first (bx_stream btx)).
       bl_first (bx_stream btx') ! i = (bl_first (bx_stream btx) ! i)
         \<lparr>bl_eliminated := bl_eliminated (bl_first (bx_stream btx) ! i) \<or>
           (\<exists>j<length (bl_first (bx_stream btx)). i \<le> j \<and> j < i + bx_window_size btx \<and>
              bnr_interesting (bx_ex_radius btx) (pattern_value_at btx rs j) \<and>
              bnr_inconsistent (bx_in_radius btx) (bl_value (bl_first (bx_stream btx) ! i))
                (pattern_value_at btx rs j))\<rparr>)"
  using finalize_loop[OF assms order_refl, of "bx_eliminations btx"]
  by (auto simp: bnr_finalize_def)

definition small_ctx :: "string bnr_ctx" where
  "small_ctx = \<lparr>bx_eliminations = 0,
     bx_stream = \<lparr>bl_first = [bnr_list_node_create ''free'' (Fin 1), bnr_list_node_create ''the'' (Fin (1/2))],
       bl_insert = Some 1, bl_items = 2, bl_nodetype = BNR_CHAR\<rparr>,
     bx_patterns = small_hash, bx_identifier = CHR ''s'', bx_c_stream = None, bx_c_pattern = (0, None),
     bx_stream_iter = False, bx_pattern_iter = False, bx_window_size = 3,
     bx_ex_radius = Fin (1/4), bx_in_radius = Fin (1/3)\<rparr>"

lemma small_ctx_rounds: "\<exists>rs. rounds_to (bl_first (bx_stream small_ctx)) rs"
  by (rule rounds_to_exists) (auto simp: small_ctx_def bnr_list_node_create_def intro: exI[of _ "1/2"])

theorem bnr_eliminates_inconsistent_witness:
  "\<exists>rs btx'. rounds_to (bl_first (bx_stream small_ctx)) rs \<and> bnr_finalize small_ctx = Inr (btx', 0) \<and>
     length (bl_first (bx_stream btx')) = 2"
proof -
  obtain rs where "rounds_to (bl_first (bx_stream small_ctx)) rs" using small_ctx_rounds by blast
  then show ?thesis using bnr_eliminates_inconsistent[of small_ctx rs] by (auto simp: small_ctx_def)
qed

text \<open>
  Instantiation creates an entry for every pattern of the stream and for no other name,
  so that the values the elimination looks up are the values that were set.
\<close>

theorem bnr_instantiates_patterns:
  assumes "rounds_to (bl_first (bx_stream btx)) rs" "0 < bx_window_size btx" "bnr_hash_ok (bx_patterns btx)"
  shows "\<exists>btx'. bnr_instantiate btx = Inr (btx', 0) \<and> bnr_hash_ok (bx_patterns btx') \<and>
    dom (bh_map (bx_patterns btx')) = dom (bh_map (bx_patterns btx)) \<union>
      pattern_at btx rs ` {0..<length (bl_first (bx_stream btx))}"
  using instantiate_loop_patterns[OF assms(1,3,2), of 0 "bx_identifier btx"]
  by (auto simp: bnr_instantiate_def probs_at_def pattern_at_def)

theorem bnr_instantiates_patterns_witness:
  "\<exists>btx'. bnr_instantiate small_ctx = Inr (btx', 0) \<and> bnr_hash_ok (bx_patterns btx')"
proof -
  obtain rs where "rounds_to (bl_first (bx_stream small_ctx)) rs" using small_ctx_rounds by blast
  then show ?thesis
    using bnr_instantiates_patterns[of small_ctx rs] small_hash_ok(1) by (auto simp: small_ctx_def)
qed

end
