(* ===== verification/Ds_Buffer.thy ===== *)
theory Ds_Buffer
  imports Dspam_Prelude
begin

text \<open>
  buffer.c: growing character buffers. The memory of a buffer is the list of the bytes that
  were allocated for it, \<open>None\<close> where nothing was written yet; an access beyond it is a fault.
  A string argument is the block of memory from the pointer on; its string ends at the first
  NUL. \<open>alloc\<close> says whether the allocation of the operation succeeds.
\<close>

section \<open>Memory\<close>

abbreviation NUL :: char where "NUL \<equiv> CHR 0x00"

definition mem_write :: "char option list \<Rightarrow> nat \<Rightarrow> char list \<Rightarrow> char option list cres" where
  "mem_write m off xs =
     (if off + length xs \<le> length m then Inr (take off m @ map Some xs @ drop (off + length xs) m)
      else Inl OutOfBounds)"

definition mem_realloc :: "char option list \<Rightarrow> nat \<Rightarrow> char option list" where
  "mem_realloc m n = take n m @ replicate (n - length m) None"

definition c_strlen :: "char list \<Rightarrow> nat cres" where
  "c_strlen s = (if NUL \<in> set s then Inr (length (takeWhile (\<lambda>c. c \<noteq> NUL) s)) else Inl OutOfBounds)"

definition c_read :: "char list \<Rightarrow> nat \<Rightarrow> char list cres" where
  "c_read s n = (if n \<le> length s then Inr (take n s) else Inl OutOfBounds)"

text \<open>\<^verbatim>\<open>memcpy(data + off, s, len); data[off + len] = 0;\<close>\<close>

definition mem_put :: "char option list \<Rightarrow> nat \<Rightarrow> char list \<Rightarrow> nat \<Rightarrow> char option list cres" where
  "mem_put m off s len =
     cbind (c_read s len) (\<lambda>xs. cbind (mem_write m off xs) (\<lambda>m'. mem_write m' (off + len) [NUL]))"

section \<open>Operations\<close>

record buffer =
  bf_size :: nat
  bf_used :: nat
  bf_data :: "char option list option"

text \<open>The length the n-variants use: \<open>plen\<close>, or the length of the string when it is 0.\<close>

definition n_len :: "char list \<Rightarrow> nat \<Rightarrow> nat cres" where
  "n_len s plen = (if plen = 0 then c_strlen s else Inr plen)"

definition buffer_fresh :: "nat \<Rightarrow> char list \<Rightarrow> buffer cres" where
  "buffer_fresh len s =
     cbind (mem_put (replicate (len + 1) None) 0 s len)
       (\<lambda>m. Inr \<lparr>bf_size = len + 1, bf_used = len, bf_data = Some m\<rparr>)"

definition buffer_empty :: "nat \<Rightarrow> buffer cres" where
  "buffer_empty sz =
     cbind (mem_write (replicate sz None) 0 [NUL])
       (\<lambda>m. Inr \<lparr>bf_size = sz, bf_used = 0, bf_data = Some m\<rparr>)"

definition buffer_create :: "bool \<Rightarrow> char list option \<Rightarrow> buffer option cres" where
  "buffer_create alloc s =
     (if \<not> alloc then Inr None
      else case s of
        None \<Rightarrow> cbind (buffer_empty 1024) (\<lambda>b. Inr (Some b))
      | Some str \<Rightarrow> cbind (c_strlen str) (\<lambda>len. cbind (buffer_fresh len str) (\<lambda>b. Inr (Some b))))"

definition buffer_ncreate :: "bool \<Rightarrow> char list option \<Rightarrow> nat \<Rightarrow> buffer option cres" where
  "buffer_ncreate alloc s plen =
     (if \<not> alloc then Inr None
      else case s of
        None \<Rightarrow> cbind (buffer_empty (if plen = 0 then 1024 else plen)) (\<lambda>b. Inr (Some b))
      | Some str \<Rightarrow> cbind (n_len str plen) (\<lambda>len. cbind (buffer_fresh len str) (\<lambda>b. Inr (Some b))))"

definition buffer_clear :: "buffer option \<Rightarrow> buffer option \<times> int" where
  "buffer_clear b =
     (case b of
        None \<Rightarrow> (None, - 1)
      | Some b \<Rightarrow> (Some (b\<lparr>bf_size := 0, bf_used := 0, bf_data := None\<rparr>), 0))"

definition buffer_copy :: "bool \<Rightarrow> buffer \<Rightarrow> char list option \<Rightarrow> (buffer \<times> int) cres" where
  "buffer_copy alloc b s =
     (case s of
        None \<Rightarrow> Inr (b, - 1)
      | Some str \<Rightarrow>
          cbind (c_strlen str) (\<lambda>len.
            if \<not> alloc then Inr (b, - 1)
            else cbind (buffer_fresh len str) (\<lambda>b'. Inr (b', 0))))"

definition buffer_ncopy :: "bool \<Rightarrow> buffer \<Rightarrow> char list option \<Rightarrow> nat \<Rightarrow> (buffer \<times> int) cres" where
  "buffer_ncopy alloc b s plen =
     (case s of
        None \<Rightarrow> Inr (b, - 1)
      | Some str \<Rightarrow>
          cbind (n_len str plen) (\<lambda>len.
            if \<not> alloc then Inr (b, - 1)
            else cbind (buffer_fresh len str) (\<lambda>b'. Inr (b', 0))))"

text \<open>The common tail of the two appending operations: grow if necessary, then copy.\<close>

definition buffer_append :: "bool \<Rightarrow> buffer \<Rightarrow> char option list \<Rightarrow> char list \<Rightarrow> nat \<Rightarrow> (buffer \<times> int) cres" where
  "buffer_append alloc b m str len =
     (let used = bf_used b + len in
      if used \<ge> bf_size b then
        (if \<not> alloc then Inr (b, - 1)
         else (let sz = bf_size b * 2 + len in
               cbind (mem_put (mem_realloc m sz) (bf_used b) str len)
                 (\<lambda>m'. Inr (\<lparr>bf_size = sz, bf_used = used, bf_data = Some m'\<rparr>, 0))))
      else cbind (mem_put m (bf_used b) str len) (\<lambda>m'. Inr (b\<lparr>bf_used := used, bf_data := Some m'\<rparr>, 0)))"

definition buffer_cat :: "bool \<Rightarrow> buffer option \<Rightarrow> char list option \<Rightarrow> (buffer option \<times> int) cres" where
  "buffer_cat alloc b s =
     (case (b, s) of
        (Some b, Some str) \<Rightarrow>
          cbind (c_strlen str) (\<lambda>len.
            case bf_data b of
              None \<Rightarrow> cbind (buffer_copy alloc b (Some str)) (\<lambda>(b', r). Inr (Some b', r))
            | Some m \<Rightarrow> cbind (buffer_append alloc b m str len) (\<lambda>(b', r). Inr (Some b', r)))
      | _ \<Rightarrow> Inr (b, - 1))"

definition buffer_ncat :: "bool \<Rightarrow> buffer option \<Rightarrow> char list option \<Rightarrow> nat \<Rightarrow> (buffer option \<times> int) cres" where
  "buffer_ncat alloc b s plen =
     (case (b, s) of
        (Some b, Some str) \<Rightarrow>
          (case bf_data b of
             None \<Rightarrow> cbind (buffer_ncopy alloc b (Some str) 0) (\<lambda>(b', r). Inr (Some b', r))
           | Some m \<Rightarrow>
               cbind (n_len str plen) (\<lambda>len.
               cbind (buffer_append alloc b m str len) (\<lambda>(b', r). Inr (Some b', r))))
      | _ \<Rightarrow> Inr (b, - 1))"

section \<open>Contents\<close>

text \<open>
  A buffer in use has \<open>size\<close> bytes, of which the first \<open>used\<close> are written and followed by NUL.
\<close>

definition buf_holds :: "buffer \<Rightarrow> char list \<Rightarrow> bool" where
  "buf_holds b xs \<longleftrightarrow> bf_used b = length xs \<and>
     (case bf_data b of
        None \<Rightarrow> bf_size b = 0 \<and> xs = []
      | Some m \<Rightarrow> length m = bf_size b \<and> (\<exists>rest. m = map Some (xs @ [NUL]) @ rest))"

definition c_string :: "char list \<Rightarrow> char list" where
  "c_string s = takeWhile (\<lambda>c. c \<noteq> NUL) s"

lemma mem_put_fits:
  assumes "off + n < length m" "n \<le> length s" "take off m = map Some xs" "length xs = off"
  shows "\<exists>m' rest. mem_put m off s n = Inr m' \<and> length m' = length m \<and>
    m' = map Some (xs @ take n s @ [NUL]) @ rest"
proof -
  define m1 where "m1 = map Some xs @ map Some (take n s) @ drop (off + n) m"
  have l1: "length m1 = length m" using assms by (simp add: m1_def)
  have t1: "take (off + n) m1 = map Some (xs @ take n s)"
    using assms by (simp add: m1_def)
  have "mem_put m off s n = mem_write m1 (off + n) [NUL]"
    using assms by (simp add: mem_put_def c_read_def mem_write_def m1_def min_def add.commute)
  also have "\<dots> = Inr (take (off + n) m1 @ [Some NUL] @ drop (off + n + 1) m1)"
    using assms l1 by (simp add: mem_write_def)
  finally show ?thesis unfolding t1 using l1 assms by auto
qed

lemma buffer_fresh_holds:
  assumes "len \<le> length s"
  shows "\<exists>b. buffer_fresh len s = Inr b \<and> buf_holds b (take len s) \<and> bf_data b \<noteq> None"
  using mem_put_fits[of 0 len "replicate (len + 1) None" s "[]"] assms
  by (auto simp: buffer_fresh_def buf_holds_def simp del: replicate.simps)

lemma c_strlen_ok: "NUL \<in> set s \<Longrightarrow> c_strlen s = Inr (length (c_string s)) \<and>
    length (c_string s) \<le> length s \<and> take (length (c_string s)) s = c_string s"
  by (simp add: c_strlen_def c_string_def length_takeWhile_le takeWhile_eq_take[symmetric])

lemma buffer_append_holds:
  assumes "buf_holds b xs" "bf_data b = Some m" "len \<le> length s"
  shows "\<exists>b'. buffer_append True b m s len = Inr (b', 0) \<and> buf_holds b' (xs @ take len s) \<and> bf_data b' \<noteq> None"
proof -
  obtain rest where m: "m = map Some (xs @ [NUL]) @ rest" "length m = bf_size b" "bf_used b = length xs"
    using assms by (auto simp: buf_holds_def)
  then have pos: "length xs < length m" by simp
  show ?thesis
  proof (cases "bf_used b + len \<ge> bf_size b")
    case True
    define m1 where "m1 = mem_realloc m (bf_size b * 2 + len)"
    have l1: "length m1 = bf_size b * 2 + len" using m pos by (simp add: m1_def mem_realloc_def)
    have t1: "take (length xs) m1 = map Some xs" using m pos by (simp add: m1_def mem_realloc_def)
    from mem_put_fits[of "length xs" len m1 s xs] obtain m' rest' where
      "mem_put m1 (length xs) s len = Inr m'" "length m' = length m1"
      "m' = map Some (xs @ take len s @ [NUL]) @ rest'" using l1 t1 assms pos m by auto
    then show ?thesis using True m(2,3) l1 assms(3)
      by (simp add: buffer_append_def Let_def m1_def[symmetric] buf_holds_def)
  next
    case False
    from mem_put_fits[of "length xs" len m s xs] obtain m' rest' where
      "mem_put m (length xs) s len = Inr m'" "length m' = length m"
      "m' = map Some (xs @ take len s @ [NUL]) @ rest'" using False m assms(3) by auto
    then show ?thesis using False m assms(3)
      by (auto simp: buffer_append_def buf_holds_def)
  qed
qed

lemma buffer_cat_holds:
  assumes "buf_holds b xs" "NUL \<in> set s"
  shows "\<exists>b'. buffer_cat True (Some b) (Some s) = Inr (Some b', 0) \<and> buf_holds b' (xs @ c_string s)"
proof (cases "bf_data b")
  case None
  then have "xs = []" using assms by (simp add: buf_holds_def)
  then show ?thesis
    using None buffer_fresh_holds[of "length (c_string s)" s] c_strlen_ok[OF assms(2)]
    by (auto simp: buffer_cat_def buffer_copy_def)
next
  case (Some m)
  then show ?thesis
    using buffer_append_holds[OF assms(1) Some, of "length (c_string s)" s] c_strlen_ok[OF assms(2)]
    by (auto simp: buffer_cat_def)
qed

section \<open>Properties\<close>

text \<open>
  Appending strings to a buffer never writes outside its memory, whatever number of
  times it has to grow, and the buffer holds the concatenation of the strings, terminated by
  a NUL within its size.
\<close>

theorem buffer_cat_all:
  assumes "\<forall>s\<in>set ss. NUL \<in> set s"
  shows "\<exists>b0 b. buffer_create True None = Inr (Some b0) \<and>
    cfold (\<lambda>b s. cbind (buffer_cat True b (Some s)) (\<lambda>(b', r). Inr b')) (Some b0) ss = Inr (Some b) \<and>
    buf_holds b (concat (map c_string ss))"
proof -
  define step where "step = (\<lambda>b s. cbind (buffer_cat True b (Some s)) (\<lambda>(b', r :: int). Inr b'))"
  have fold: "buf_holds b0 xs \<Longrightarrow> \<forall>s\<in>set ss. NUL \<in> set s \<Longrightarrow>
      \<exists>b. cfold step (Some b0) ss = Inr (Some b) \<and> buf_holds b (xs @ concat (map c_string ss))" for b0 xs
  proof (induction ss arbitrary: b0 xs)
    case (Cons s ss)
    then show ?case using buffer_cat_holds[OF Cons.prems(1), of s] by (fastforce simp: step_def)
  qed simp
  define b0 where "b0 = \<lparr>bf_size = 1024, bf_used = 0, bf_data = Some (Some NUL # replicate 1023 None)\<rparr>"
  have "buffer_create True None = Inr (Some b0)"
    by (simp add: buffer_create_def buffer_empty_def mem_write_def b0_def)
  moreover have "buf_holds b0 []" by (simp add: buf_holds_def b0_def)
  ultimately show ?thesis using fold[of b0 "[]"] assms unfolding step_def by auto
qed

theorem buffer_cat_all_witness:
  "\<exists>b0 b. buffer_create True None = Inr (Some b0) \<and>
    cfold (\<lambda>b s. cbind (buffer_cat True b (Some s)) (\<lambda>(b', r). Inr b')) (Some b0)
      [''From: '' @ [NUL], ''a@b'' @ [NUL]] = Inr (Some b) \<and> buf_holds b ''From: a@b''"
  using buffer_cat_all[of "[''From: '' @ [NUL], ''a@b'' @ [NUL]]"] by (simp add: c_string_def)

text \<open>
  The length argument of \<^verbatim>\<open>buffer_ncat\<close> bounds what is appended, except on a cleared
  buffer, where the whole string is copied whatever the argument says.
\<close>

theorem buffer_ncat_length:
  assumes "buf_holds b xs" "0 < n" "n \<le> length s" "NUL \<in> set s"
  shows "\<exists>b'. buffer_ncat True (Some b) (Some s) n = Inr (Some b', 0) \<and>
    buf_holds b' (if bf_data b = None then c_string s else xs @ take n s)"
proof (cases "bf_data b")
  case None
  then show ?thesis
    using buffer_fresh_holds[of "length (c_string s)" s] c_strlen_ok[OF assms(4)]
    by (auto simp: buffer_ncat_def buffer_ncopy_def n_len_def)
next
  case (Some m)
  then show ?thesis
    using buffer_append_holds[OF assms(1) Some assms(3)] assms(2)
    by (auto simp: buffer_ncat_def n_len_def)
qed

theorem buffer_ncat_length_witness:
  "let b = \<lparr>bf_size = 0, bf_used = 0, bf_data = None\<rparr>; s = ''line'' @ [NUL] in
     \<exists>b'. buffer_ncat True (Some b) (Some s) 1 = Inr (Some b', 0) \<and> buf_holds b' ''line''"
  using buffer_ncat_length[of "\<lparr>bf_size = 0, bf_used = 0, bf_data = None\<rparr>" "[]" 1 "''line'' @ [NUL]"]
  by (simp add: buf_holds_def c_string_def)

end
