(* ===== verification/Ds_Train.thy ===== *)
theory Ds_Train
  imports Ds_Stat Ds_Bnr Ds_Buffer
begin

text \<open>
  Learning (\<^verbatim>\<open>libdspam.c\<close>): the counters of a user, the hits of the tokens of a message
  (\<^verbatim>\<open>_ds_increment_tokens\<close>), the signature that records these tokens, and retraining from a
  signature (\<^verbatim>\<open>_ds_process_signature\<close>).
\<close>

unbundle bit_operations_syntax

section \<open>Signatures\<close>

text \<open>
  A signature is an array of \<^verbatim>\<open>struct _ds_signature_token\<close>: a 64-bit token, a byte for its
  frequency, and seven bytes of padding; all multi-byte values are little-endian.
\<close>

definition sizeof_sig_token :: nat where "sizeof_sig_token = 16"

definition le_bytes :: "u64 \<Rightarrow> char list" where
  "le_bytes w = map (\<lambda>i. char_of (unat (drop_bit (8 * i) w AND 0xff))) [0..<8]"

definition le_word :: "char list \<Rightarrow> u64" where
  "le_word cs = foldr (\<lambda>c w. of_nat (of_char c) + 256 * w) cs 0"

definition sig_entry :: "u64 \<Rightarrow> int \<Rightarrow> char list" where
  "sig_entry tok fr = le_bytes tok @ [char_of (nat (fr mod 256))] @ replicate 7 (CHR 0x00)"

text \<open>The memory of a signature.\<close>

definition sig_memory :: "char option list sig_cell option \<Rightarrow> char option list cres" where
  "sig_memory sig =
     (case sig of
        None \<Rightarrow> Inl NullDeref
      | Some Freed \<Rightarrow> Inl UseAfterFree
      | Some (Live s) \<Rightarrow> (case sg_data s of None \<Rightarrow> Inl NullDeref | Some m \<Rightarrow> Inr m))"

definition sig_write :: "char option list sig_cell option \<Rightarrow> nat \<Rightarrow> u64 \<Rightarrow> int \<Rightarrow> char option list sig_cell option cres" where
  "sig_write sig i tok fr =
     (case sig of
        None \<Rightarrow> Inl NullDeref
      | Some Freed \<Rightarrow> Inl UseAfterFree
      | Some (Live s) \<Rightarrow>
          (case sg_data s of
             None \<Rightarrow> Inl NullDeref
           | Some m \<Rightarrow> cbind (mem_write m (i * sizeof_sig_token) (sig_entry tok fr)) (\<lambda>m'.
               Inr (Some (Live (s\<lparr>sg_data := Some m'\<rparr>))))))"

text \<open>Reading entry \<open>i\<close>: the token and the frequency.\<close>

definition sig_token :: "char option list \<Rightarrow> nat \<Rightarrow> (u64 \<times> nat) cres" where
  "sig_token m i =
     (let bs = take sizeof_sig_token (drop (i * sizeof_sig_token) m) in
      if length bs < sizeof_sig_token then Inl OutOfBounds
      else if None \<in> set (take 9 bs) then Inl Uninitialised
      else Inr (le_word (map the (take 8 bs)), of_char (the (bs ! 8))))"

text \<open>Touching the tokens of a signature and giving each the recorded frequency.\<close>

definition sig_load :: "(u64 \<Rightarrow> string) \<Rightarrow> char option list \<Rightarrow> nat \<Rightarrow> ds_diction \<Rightarrow> ds_diction cres" where
  "sig_load name m n d =
     cfold (\<lambda>d i. cbind (sig_token m i) (\<lambda>(tok, fr).
        cbind (ds_diction_touch True d tok (Some (name tok)) 0) (\<lambda>(d', t).
          Inr (dd_update d' tok (\<lambda>t. t\<lparr>tm_frequency := int fr\<rparr>))))) d [0..<n]"

section \<open>Counters of the user\<close>

definition drop_one :: "int \<Rightarrow> int" where
  "drop_one n = n - (if n > 0 then 1 else 0)"

text \<open>The totals after a message was classified (\<^verbatim>\<open>_ds_operate\<close>).\<close>

definition untrains :: "dst \<Rightarrow> bool" where
  "untrains m \<longleftrightarrow> m \<noteq> DST_TOE \<and> m \<noteq> DST_NOTRAIN"

definition operate_totals :: "('s, 'm) dspam_ctx \<Rightarrow> ('s, 'm) dspam_ctx" where
  "operate_totals CTX =
     (let unlearn = has (cx_flags CTX) DSF_UNLEARN;
          fed = (cx_source CTX = DSS_CORPUS \<or> cx_source CTX = DSS_INOCULATION);
          t = cx_totals CTX;
          CTX1 =
            (if cx_result CTX = DSR_ISSPAM \<and> cx_operating_mode CTX \<noteq> DSM_CLASSIFY then
               (let t1 = (if unlearn then t else t\<lparr>spam_learned := spam_learned t + 1\<rparr>);
                    t2 = (if cx_classification CTX \<noteq> DSR_ISSPAM then t1
                          else if unlearn then t1\<lparr>spam_learned := drop_one (spam_learned t1)\<rparr>
                          else if fed then t1\<lparr>spam_corpusfed := spam_corpusfed t1 + 1\<rparr>
                          else if SPAM_MISS CTX then
                            (let t3 = t1\<lparr>spam_misclassified := spam_misclassified t1 + 1\<rparr> in
                             if untrains (cx_training_mode CTX)
                             then t3\<lparr>innocent_learned := drop_one (innocent_learned t3)\<rparr> else t3)
                          else t1)
                in CTX\<lparr>cx_totals := t2, cx_learned := cx_learned CTX \<or> \<not> unlearn\<rparr>)
             else if cx_result CTX = DSR_ISINNOCENT \<and> cx_operating_mode CTX \<noteq> DSM_CLASSIFY then
               (let t1 = (if unlearn then t else t\<lparr>innocent_learned := innocent_learned t + 1\<rparr>);
                    t2 = (if fed then t1\<lparr>innocent_corpusfed := innocent_corpusfed t1 + 1\<rparr>
                          else if FALSE_POSITIVE CTX then
                            (if unlearn then t1\<lparr>innocent_learned := drop_one (innocent_learned t1)\<rparr>
                             else
                               (let t3 = t1\<lparr>innocent_misclassified := innocent_misclassified t1 + 1\<rparr> in
                                if untrains (cx_training_mode CTX)
                                then t3\<lparr>spam_learned := drop_one (spam_learned t3)\<rparr> else t3))
                          else t1)
                in CTX\<lparr>cx_totals := t2, cx_learned := cx_learned CTX \<or> \<not> unlearn\<rparr>)
             else CTX);
          t = cx_totals CTX1
      in if cx_training_mode CTX1 = DST_TOE \<and> cx_operating_mode CTX1 = DSM_CLASSIFY then
           (if cx_result CTX1 = DSR_ISSPAM
            then CTX1\<lparr>cx_totals := t\<lparr>spam_classified := spam_classified t + 1\<rparr>\<rparr>
            else if cx_result CTX1 = DSR_ISINNOCENT
            then CTX1\<lparr>cx_totals := t\<lparr>innocent_classified := innocent_classified t + 1\<rparr>\<rparr>
            else CTX1)
         else CTX1)"

text \<open>The totals after a signature was trained (\<^verbatim>\<open>_ds_process_signature\<close>).\<close>

definition signature_totals :: "('s, 'm) dspam_ctx \<Rightarrow> ds_spam_totals" where
  "signature_totals CTX =
     (let t = cx_totals CTX; unlearn = has (cx_flags CTX) DSF_UNLEARN in
      if cx_operating_mode CTX = DSM_CLASSIFY then t
      else if cx_classification CTX = DSR_ISINNOCENT then
        (if unlearn then t\<lparr>innocent_learned := drop_one (innocent_learned t)\<rparr>
         else
           (let t1 = (if cx_source CTX = DSS_ERROR then
                        (let t2 = t\<lparr>innocent_misclassified := innocent_misclassified t + 1\<rparr> in
                         if untrains (cx_training_mode CTX)
                         then t2\<lparr>spam_learned := drop_one (spam_learned t2)\<rparr> else t2)
                      else t\<lparr>innocent_corpusfed := innocent_corpusfed t + 1\<rparr>)
            in t1\<lparr>innocent_learned := innocent_learned t1 + 1\<rparr>))
      else if cx_classification CTX = DSR_ISSPAM then
        (if unlearn then t\<lparr>spam_learned := drop_one (spam_learned t)\<rparr>
         else
           (let t1 = (if cx_source CTX = DSS_ERROR then
                        (let t2 = t\<lparr>spam_misclassified := spam_misclassified t + 1\<rparr> in
                         if untrains (cx_training_mode CTX)
                         then t2\<lparr>innocent_learned := drop_one (innocent_learned t2)\<rparr> else t2)
                      else t\<lparr>spam_corpusfed := spam_corpusfed t + 1\<rparr>)
            in t1\<lparr>spam_learned := spam_learned t1 + 1\<rparr>))
      else t)"

section \<open>Hits of a token\<close>

text \<open>With \<^verbatim>\<open>ProcessorWordFrequency occurrence\<close> a token counts as often as it occurs.\<close>

definition dec_hits :: "bool \<Rightarrow> int \<Rightarrow> int \<Rightarrow> int" where
  "dec_hits occ fr h = (if occ then (if h - fr < 0 then 0 else h - fr) else drop_one h)"

definition inc_hits :: "bool \<Rightarrow> int \<Rightarrow> int \<Rightarrow> int" where
  "inc_hits occ fr h = (if occ then h + fr else h + 1)"

definition inoculate :: "int \<Rightarrow> int \<Rightarrow> int" where
  "inoculate other own = (if other < 2 \<and> own < 5 then own + 5 else own + 2)"

definition increment_hits :: "('s, 'm) dspam_ctx \<Rightarrow> bool \<Rightarrow> int \<Rightarrow> ds_spam_stat \<Rightarrow> ds_spam_stat" where
  "increment_hits CTX occ fr s =
     (let unlearn = has (cx_flags CTX) DSF_UNLEARN; sh = st_spam_hits s; ih = st_innocent_hits s in
      if cx_result CTX = DSR_ISSPAM then
        s\<lparr>st_spam_hits :=
             (if cx_source CTX = DSS_INOCULATION then inoculate ih sh
              else if unlearn then (if cx_classification CTX = DSR_ISSPAM then dec_hits occ fr sh else sh)
              else inc_hits occ fr sh),
          st_innocent_hits :=
             (if SPAM_MISS CTX \<and> \<not> unlearn \<and> untrains (cx_training_mode CTX) then dec_hits occ fr ih else ih)\<rparr>
      else
        s\<lparr>st_innocent_hits :=
             (if unlearn then (if cx_classification CTX = DSR_ISINNOCENT then dec_hits occ fr ih else ih)
              else inc_hits occ fr ih),
          st_spam_hits :=
             (if FALSE_POSITIVE CTX \<and> \<not> unlearn \<and> untrains (cx_training_mode CTX) then dec_hits occ fr sh else sh)\<rparr>)"

definition mark_dirty :: "('s, 'm) dspam_ctx \<Rightarrow> u64 \<Rightarrow> ds_term \<Rightarrow> ds_spam_stat \<Rightarrow> ds_spam_stat" where
  "mark_dirty CTX whitelist_token t s =
     (if (tm_type t = CHR ''D'' \<and>
          (cx_training_mode CTX \<noteq> DST_TUM \<or> cx_source CTX = DSS_ERROR \<or> cx_source CTX = DSS_INOCULATION \<or>
           st_spam_hits s + st_innocent_hits s < 50 \<or> tm_key t = whitelist_token \<or>
           flt (cx_confidence CTX) (dlit (70/100)))) \<or>
         (tm_type t = CHR ''B'' \<and>
          innocent_learned (cx_totals CTX) + innocent_classified (cx_totals CTX) > 500 \<and>
          has (cx_flags CTX) DSF_NOISE \<and> \<not> cx_sig_provided CTX)
      then s\<lparr>st_status := st_status s OR TST_DIRTY\<rparr> else s)"

definition force_probability :: "('s, 'm) dspam_ctx \<Rightarrow> ds_spam_stat \<Rightarrow> ds_spam_stat" where
  "force_probability CTX s =
     (case cx_classification CTX of
        DSR_ISSPAM \<Rightarrow> s\<lparr>st_probability := Fin 1\<rparr>
      | DSR_ISINNOCENT \<Rightarrow> s\<lparr>st_probability := Fin 0\<rparr>
      | DSR_NONE \<Rightarrow> s)"

text \<open>A signature of the tokens is recorded unless the tokens came from one.\<close>

definition records_signature :: "('s, 'm) dspam_ctx \<Rightarrow> bool" where
  "records_signature CTX \<longleftrightarrow> cx_tokenizer CTX \<noteq> DSZ_SBPH \<and> has (cx_flags CTX) DSF_SIGNATURE \<and>
     (cx_operating_mode CTX \<noteq> DSM_CLASSIFY \<or> \<not> cx_sig_provided CTX)"

definition increment_term ::
    "bool \<Rightarrow> u64 \<Rightarrow> ('s, 'm) dspam_ctx \<times> nat \<Rightarrow> ds_term \<Rightarrow> ((('s, 'm) dspam_ctx \<times> nat) \<times> ds_term) cres" where
  "increment_term occ whitelist_token a t =
     (case a of (CTX, i) \<Rightarrow>
        cbind (if records_signature CTX
               then cbind (sig_write (cx_signature CTX) i (tm_key t) (tm_frequency t)) (\<lambda>sig. Inr (CTX\<lparr>cx_signature := sig\<rparr>))
               else Inr CTX) (\<lambda>CTX'.
          Inr ((CTX', Suc i), t\<lparr>tm_s := increment_hits CTX' occ (tm_frequency t)
             (mark_dirty CTX' whitelist_token t (force_probability CTX' (tm_s t)))\<rparr>)))"

definition word_frequency :: "('s, 'm) dspam_ctx \<Rightarrow> bool cres" where
  "word_frequency CTX = ds_match_attribute (cx_attributes CTX) ''ProcessorWordFrequency'' ''occurrence''"

definition ds_increment_tokens ::
    "('s, 'm) dspam_ctx \<Rightarrow> ds_diction \<Rightarrow> (('s, 'm) dspam_ctx \<times> ds_diction) cres" where
  "ds_increment_tokens CTX d =
     cbind (word_frequency CTX) (\<lambda>occ.
     cbind (dict_each (increment_term occ (dd_whitelist_token d)) (CTX, 0) d) (\<lambda>((CTX', _), d'). Inr (CTX', d')))"

section \<open>Retraining from a signature\<close>

text \<open>The hits of the class that is trained and of the other class.\<close>

definition retrain_pair :: "bool \<Rightarrow> dss \<Rightarrow> dst \<Rightarrow> bool \<Rightarrow> int \<Rightarrow> int \<times> int \<Rightarrow> int \<times> int" where
  "retrain_pair unlearn src mode occ fr h =
     (case h of (own, other) \<Rightarrow>
        if unlearn then (dec_hits occ fr own, other)
        else
          (let other' = (if src = DSS_ERROR \<and> untrains mode then dec_hits occ fr other else other)
           in (if src = DSS_INOCULATION then inoculate other' own else inc_hits occ fr own, other')))"

definition retrain_term :: "('s, 'm) dspam_ctx \<Rightarrow> bool \<Rightarrow> ds_term \<Rightarrow> ds_term" where
  "retrain_term CTX occ t =
     (let s = tm_s t; fr = tm_frequency t;
          f = retrain_pair (has (cx_flags CTX) DSF_UNLEARN) (cx_source CTX) (cx_training_mode CTX) occ fr;
          s1 = (case cx_classification CTX of
                  DSR_ISINNOCENT \<Rightarrow>
                    (case f (st_innocent_hits s, st_spam_hits s) of (own, other) \<Rightarrow> s\<lparr>st_innocent_hits := own, st_spam_hits := other\<rparr>)
                | DSR_ISSPAM \<Rightarrow>
                    (case f (st_spam_hits s, st_innocent_hits s) of (own, other) \<Rightarrow> s\<lparr>st_spam_hits := own, st_innocent_hits := other\<rparr>)
                | DSR_NONE \<Rightarrow> s)
      in t\<lparr>tm_s := s1\<lparr>st_status := st_status s1 OR TST_DIRTY\<rparr>\<rparr>)"

text \<open>The class name is filled in once.\<close>

definition class_of_result :: "dsr \<Rightarrow> string \<Rightarrow> string" where
  "class_of_result r c =
     (if c \<noteq> [] then c
      else case r of DSR_ISSPAM \<Rightarrow> LANG_CLASS_SPAM | DSR_ISINNOCENT \<Rightarrow> LANG_CLASS_INNOCENT | DSR_NONE \<Rightarrow> [])"

definition retrain_tokens ::
    "('s, 'm) storage_driver \<Rightarrow> ('s, 'm) dspam_ctx \<Rightarrow> ds_diction \<Rightarrow> char option list \<Rightarrow> nat \<Rightarrow> bool \<Rightarrow> (('s, 'm) dspam_ctx \<times> int) cres" where
  "retrain_tokens drv CTX d m n occ =
     cbind (sig_load (\<lambda>_. ''-'') m n d) (\<lambda>d1.
     cbind (ds_getall_spamrecords drv CTX d1) (\<lambda>(CTX1, d2, r).
       if r \<noteq> 0 then Inr (CTX1, EUNKNOWN)
       else cbind (dict_each (\<lambda>_ t. Inr ((), retrain_term CTX1 occ t)) () d2) (\<lambda>(_, d3).
         if cx_training_mode CTX1 = DST_NOTRAIN then Inr (CTX1, 0)
         else cbind (ds_setall_spamrecords drv CTX1 d3) (\<lambda>(CTX2, _, r).
           Inr (CTX2, if r \<noteq> 0 then EUNKNOWN else 0)))))"

definition ds_process_signature ::
    "('s, 'm) storage_driver \<Rightarrow> (nat \<Rightarrow> bool) \<Rightarrow> ('s, 'm) dspam_ctx \<Rightarrow> (('s, 'm) dspam_ctx \<times> int) cres" where
  "ds_process_signature drv alloc CTX =
     cbind (ds_diction_create alloc 24593) (\<lambda>dict.
     cbind (word_frequency CTX) (\<lambda>occ.
       case dict of
         None \<Rightarrow> Inr (CTX, EUNKNOWN)
       | Some d \<Rightarrow>
           (case cx_signature CTX of
              None \<Rightarrow> Inr (CTX, EINVAL)
            | Some Freed \<Rightarrow> Inl UseAfterFree
            | Some (Live s) \<Rightarrow>
                (let num_tokens = sg_length s div sizeof_sig_token;
                     CTX1 = CTX\<lparr>cx_result := DSR_NONE,
                       cx_learned := cx_learned CTX \<or> \<not> has (cx_flags CTX) DSF_UNLEARN,
                       cx_totals := signature_totals CTX,
                       cx_class := class_of_result (cx_classification CTX) (cx_class CTX)\<rparr>
                 in cbind (if num_tokens = 0 then Inr (CTX1, 0)
                           else cbind (sig_memory (cx_signature CTX1)) (\<lambda>m. retrain_tokens drv CTX1 d m num_tokens occ))
                      (\<lambda>(CTX2, r).
                        if r \<noteq> 0 then Inr (CTX2, r)
                        else if cx_classification CTX2 = DSR_ISSPAM
                        then Inr (CTX2\<lparr>cx_probability := Fin 1, cx_result := DSR_ISSPAM\<rparr>, 0)
                        else Inr (CTX2\<lparr>cx_probability := Fin 0, cx_result := DSR_ISINNOCENT\<rparr>, 0))))))"

section \<open>Signatures are read back\<close>

lemma low_byte: "of_nat (unat ((x :: u64) AND 0xff) mod 256) = x AND 0xff"
proof -
  have "unat (x AND 0xff) < 256"
    using word_and_le1[of x "0xff"] by (simp add: word_le_nat_alt)
  then show ?thesis by simp
qed

lemma le_word_bytes_upto:
  "foldr (\<lambda>c w. of_nat (of_char c) + 256 * w)
     (map (\<lambda>i. char_of (unat (drop_bit (8 * i) (w :: u64) AND 0xff)) :: char) [0..<n]) 0 = take_bit (8 * n) w"
proof (induction n arbitrary: w)
  case (Suc n)
  have "drop_bit (8 * Suc i) w = drop_bit (8 * i) (drop_bit 8 w)" for i
    by (simp add: drop_bit_drop_bit add.commute)
  then have "foldr (\<lambda>c w. of_nat (of_char c) + 256 * w)
      (map (\<lambda>i. char_of (unat (drop_bit (8 * i) w AND 0xff)) :: char) [0..<Suc n]) 0 =
      (w AND 0xff) + 256 * take_bit (8 * n) (drop_bit 8 w)"
    using Suc.IH[of "drop_bit 8 w"]
    by (simp add: upt_conv_Cons map_Suc_upt[symmetric] comp_def low_byte del: upt_Suc)
  also have "\<dots> = take_bit 8 w + push_bit 8 (take_bit (8 * n) (drop_bit 8 w))"
    using take_bit_eq_mask[of 8 w] by (simp add: push_bit_eq_mult mask_eq_exp_minus_1 ac_simps)
  also have "\<dots> = take_bit (8 * Suc n) w"
    using bits_ident[of 8 "take_bit (8 * Suc n) w"] by (simp add: drop_bit_take_bit add.commute min_def)
  finally show ?case .
qed simp

lemma le_word_bytes [simp]: "le_word (le_bytes w) = w"
  using le_word_bytes_upto[of w 8] by (simp add: le_word_def le_bytes_def take_bit_word_eq_self)

lemma length_le_bytes [simp]: "length (le_bytes w) = 8"
  by (simp add: le_bytes_def)

lemma length_sig_entry [simp]: "length (sig_entry tok fr) = 16"
  by (simp add: sig_entry_def)

text \<open>Memory in which the first entries are those of the given terms.\<close>

definition sig_holds :: "char option list \<Rightarrow> ds_term list \<Rightarrow> bool" where
  "sig_holds m ts \<longleftrightarrow> take (16 * length ts) m = map Some (concat (map (\<lambda>t. sig_entry (tm_key t) (tm_frequency t)) ts))"

lemma length_entries [simp]: "length (concat (map (\<lambda>t. sig_entry (tm_key t) (tm_frequency t)) ts)) = 16 * length ts"
  by (induction ts) auto

lemma sig_token_entry:
  assumes "take 16 (drop (i * 16) m) = map Some (sig_entry tok fr)"
  shows "sig_token m i = Inr (tok, nat (fr mod 256))"
proof -
  have c: "of_char (char_of (nat (fr mod 256)) :: char) = nat (fr mod 256)"
  proof -
    have "0 \<le> fr mod 256" "fr mod 256 < 256" by simp_all
    then show ?thesis by simp
  qed
  then show ?thesis
    using assms by (simp add: sig_token_def sizeof_sig_token_def Let_def sig_entry_def nth_append in_set_conv_nth)
qed

lemma sig_holds_token:
  assumes "sig_holds m ts" "i < length ts"
  shows "sig_token m i = Inr (tm_key (ts ! i), nat (tm_frequency (ts ! i) mod 256))"
proof (rule sig_token_entry)
  let ?e = "\<lambda>t. sig_entry (tm_key t) (tm_frequency t)"
  have ts: "ts = take i ts @ ts ! i # drop (Suc i) ts" using assms(2) by (rule id_take_nth_drop)
  have "take 16 (drop (i * 16) m) = take 16 (drop (i * 16) (take (16 * length ts) m))"
    using assms(2) by (simp add: drop_take min_def take_take)
  also have "\<dots> = take 16 (drop (i * 16) (map Some (concat (map ?e ts))))" using assms(1) by (simp add: sig_holds_def)
  also have "\<dots> = map Some (take 16 (drop (i * 16) (concat (map ?e (take i ts @ ts ! i # drop (Suc i) ts)))))"
    using ts by (simp add: drop_map take_map)
  also have "\<dots> = map Some (?e (ts ! i))" using assms(2) by (simp add: min_def)
  finally show "take 16 (drop (i * 16) m) = map Some (?e (ts ! i))" .
qed

lemma sig_load_terms:
  assumes "sig_holds m ts" "n \<le> length ts" "distinct (map tm_key ts)" "dict_ok d0" "ds_diction_find d0 = Map.empty"
  shows "\<exists>d. sig_load name m n d0 = Inr d \<and> dict_ok d \<and>
    (\<forall>k. map_option tm_frequency (ds_diction_find d k) =
       map_of (map (\<lambda>t. (tm_key t, tm_frequency t mod 256)) (take n ts)) k)"
  using assms(2)
proof (induction n)
  case 0
  then show ?case using assms by (simp add: sig_load_def)
next
  case (Suc n)
  then obtain d where d: "sig_load name m n d0 = Inr d" "dict_ok d"
    "\<And>k. map_option tm_frequency (ds_diction_find d k) = map_of (map (\<lambda>t. (tm_key t, tm_frequency t mod 256)) (take n ts)) k"
    by auto
  let ?k = "tm_key (ts ! n)" and ?f = "nat (tm_frequency (ts ! n) mod 256)"
  have tok: "sig_token m n = Inr (?k, ?f)" using Suc.prems by (intro sig_holds_token[OF assms(1)]) simp
  obtain d1 where d1: "ds_diction_touch True d ?k (Some (name ?k)) 0 = Inr (d1, Some ?k)" "dict_ok d1"
    "ds_diction_find d1 = (ds_diction_find d)(?k \<mapsto> touched ?k (Some (name ?k)) (ds_diction_find d ?k))"
    using touch_spec[OF d(2), of ?k "Some (name ?k)" 0] by blast
  define d2 where "d2 = dd_update d1 ?k (\<lambda>t. t\<lparr>tm_frequency := int ?f\<rparr>)"
  have ok2: "dict_ok d2" unfolding d2_def using d1(2) by (intro dict_ok_update) auto
  have f2: "ds_diction_find d2 k = (if k = ?k then map_option (\<lambda>t. t\<lparr>tm_frequency := int ?f\<rparr>) (ds_diction_find d1 ?k)
      else ds_diction_find d1 k)" for k
    unfolding d2_def using d1(2) by (intro find_update) auto
  have load: "sig_load name m (Suc n) d0 = Inr d2"
    using d(1) tok d1(1) by (simp add: sig_load_def cfold_append d2_def)
  have new: "?k \<notin> set (map tm_key (take n ts))"
    using assms(3) Suc.prems by (auto simp: distinct_conv_nth in_set_conv_nth)
  then have "map_of (map (\<lambda>t. (tm_key t, tm_frequency t mod 256)) (take n ts)) ?k = None"
    by (auto simp: map_of_eq_None_iff image_image)
  then have "\<forall>k. map_option tm_frequency (ds_diction_find d2 k) =
      map_of (map (\<lambda>t. (tm_key t, tm_frequency t mod 256)) (take (Suc n) ts)) k"
    using Suc.prems d(3) d1(3) by (auto simp: f2 take_Suc_conv_app_nth map_add_def split: option.splits)
  with load ok2 show ?case by blast
qed

lemma increment_sig_indep [simp]:
  "increment_hits (CTX\<lparr>cx_signature := x\<rparr>) = increment_hits CTX"
  "mark_dirty (CTX\<lparr>cx_signature := x\<rparr>) = mark_dirty CTX"
  "force_probability (CTX\<lparr>cx_signature := x\<rparr>) = force_probability CTX"
  "records_signature (CTX\<lparr>cx_signature := x\<rparr>) = records_signature CTX"
  by (simp_all add: fun_eq_iff increment_hits_def mark_dirty_def force_probability_def records_signature_def
      SPAM_MISS_def FALSE_POSITIVE_def Let_def cong: if_cong)

definition incremented :: "('s, 'm) dspam_ctx \<Rightarrow> bool \<Rightarrow> u64 \<Rightarrow> ds_term \<Rightarrow> ds_term" where
  "incremented CTX occ wt t = t\<lparr>tm_s := increment_hits CTX occ (tm_frequency t)
     (mark_dirty CTX wt t (force_probability CTX (tm_s t)))\<rparr>"

lemma incremented_sig_indep [simp]: "incremented (CTX\<lparr>cx_signature := x\<rparr>) = incremented CTX"
  by (simp add: fun_eq_iff incremented_def)

lemma sig_write_holds:
  assumes "sig_holds m ds" "16 * Suc (length ds) \<le> length m" "sg_data s = Some m"
  shows "\<exists>m'. sig_write (Some (Live s)) (length ds) (tm_key t) (tm_frequency t) = Inr (Some (Live (s\<lparr>sg_data := Some m'\<rparr>))) \<and>
    length m' = length m \<and> sig_holds m' (ds @ [t])"
proof -
  define m' where "m' = take (length ds * 16) m @ map Some (sig_entry (tm_key t) (tm_frequency t)) @ drop (length ds * 16 + 16) m"
  have "mem_write m (length ds * sizeof_sig_token) (sig_entry (tm_key t) (tm_frequency t)) = Inr m'"
    using assms(2) by (simp add: mem_write_def sizeof_sig_token_def m'_def)
  moreover have "length m' = length m" "sig_holds m' (ds @ [t])"
    using assms(1,2) by (simp_all add: m'_def sig_holds_def min_def mult.commute)
  ultimately show ?thesis using assms(3) by (auto simp: sig_write_def)
qed

lemma increment_each_record:
  assumes "records_signature CTX" "cx_signature CTX = Some (Live s)" "sg_data s = Some m" "sig_holds m ds"
    "16 * (length ds + length ts) \<le> length m"
  shows "\<exists>m'. terms_each (increment_term occ wt) (CTX, length ds) ts =
      Inr ((CTX\<lparr>cx_signature := Some (Live (s\<lparr>sg_data := Some m'\<rparr>))\<rparr>, length ds + length ts), map (incremented CTX occ wt) ts) \<and>
    length m' = length m \<and> sig_holds m' (ds @ ts)"
  using assms
proof (induction ts arbitrary: CTX s m ds)
  case Nil
  have "s\<lparr>sg_data := Some m\<rparr> = s" "CTX\<lparr>cx_signature := Some (Live s)\<rparr> = CTX" using Nil by simp_all
  then show ?case using Nil by (intro exI[of _ m]) simp
next
  case (Cons t ts)
  obtain m1 where m1: "sig_write (Some (Live s)) (length ds) (tm_key t) (tm_frequency t) = Inr (Some (Live (s\<lparr>sg_data := Some m1\<rparr>)))"
    "length m1 = length m" "sig_holds m1 (ds @ [t])"
    using sig_write_holds[OF Cons.prems(4) _ Cons.prems(3), of t] Cons.prems(5) by auto
  define C1 where "C1 = CTX\<lparr>cx_signature := Some (Live (s\<lparr>sg_data := Some m1\<rparr>))\<rparr>"
  have step: "increment_term occ wt (CTX, length ds) t = Inr ((C1, Suc (length ds)), incremented CTX occ wt t)"
    using Cons.prems(1,2) m1(1) by (simp add: increment_term_def incremented_def C1_def)
  have "\<exists>m'. terms_each (increment_term occ wt) (C1, length (ds @ [t])) ts =
      Inr ((C1\<lparr>cx_signature := Some (Live (s\<lparr>sg_data := Some m1\<rparr>\<lparr>sg_data := Some m'\<rparr>))\<rparr>, length (ds @ [t]) + length ts),
        map (incremented C1 occ wt) ts) \<and> length m' = length m1 \<and> sig_holds m' ((ds @ [t]) @ ts)"
    using Cons.prems m1 by (intro Cons.IH) (auto simp: C1_def)
  then show ?case using step m1(2) by (auto simp: C1_def)
qed

lemma increment_each_plain:
  assumes "\<not> records_signature CTX"
  shows "terms_each (increment_term occ wt) (CTX, i) ts = Inr ((CTX, i + length ts), map (incremented CTX occ wt) ts)"
  by (induction ts arbitrary: i) (use assms in \<open>auto simp: increment_term_def incremented_def\<close>)

lemma increment_term_key: "increment_term occ wt a t = Inr (a', t') \<Longrightarrow> tm_key t' = tm_key t"
  by (auto simp: increment_term_def cbind_Inr_iff split: prod.splits if_splits)

text \<open>What learning does to the terms, and to the signature when one is recorded.\<close>

lemma increment_tokens_spec:
  assumes "dict_ok d" "word_frequency CTX = Inr occ"
    and "records_signature CTX \<Longrightarrow> \<exists>s m. cx_signature CTX = Some (Live s) \<and> sg_data s = Some m \<and> length m = 16 * dd_items d"
  shows "\<exists>sig d'. ds_increment_tokens CTX d = Inr (CTX\<lparr>cx_signature := sig\<rparr>, d') \<and> dict_ok d' \<and>
    dict_terms d' = map (incremented CTX occ (dd_whitelist_token d)) (dict_terms d) \<and>
    (if records_signature CTX
     then \<exists>s m. sig = Some (Live (s\<lparr>sg_data := Some m\<rparr>)) \<and> cx_signature CTX = Some (Live s) \<and> sig_holds m (dict_terms d)
     else sig = cx_signature CTX)"
proof -
  have items: "dd_items d = length (dict_terms d)" using assms(1) by (simp add: dict_ok_def dict_terms_def)
  have "\<exists>sig. terms_each (increment_term occ (dd_whitelist_token d)) (CTX, 0) (dict_terms d) =
      Inr ((CTX\<lparr>cx_signature := sig\<rparr>, length (dict_terms d)), map (incremented CTX occ (dd_whitelist_token d)) (dict_terms d)) \<and>
    (if records_signature CTX
     then \<exists>s m. sig = Some (Live (s\<lparr>sg_data := Some m\<rparr>)) \<and> cx_signature CTX = Some (Live s) \<and> sig_holds m (dict_terms d)
     else sig = cx_signature CTX)"
  proof (cases "records_signature CTX")
    case True
    then obtain s m where s: "cx_signature CTX = Some (Live s)" "sg_data s = Some m" "length m = 16 * dd_items d"
      using assms(3) by blast
    then show ?thesis
      using increment_each_record[OF True s(1,2), of "[]" "dict_terms d" occ "dd_whitelist_token d"] items True
      by (auto simp: sig_holds_def)
  next
    case False
    then show ?thesis using increment_each_plain[OF False] by (intro exI[of _ "cx_signature CTX"]) simp
  qed
  then obtain sig where sig: "terms_each (increment_term occ (dd_whitelist_token d)) (CTX, 0) (dict_terms d) =
      Inr ((CTX\<lparr>cx_signature := sig\<rparr>, length (dict_terms d)), map (incremented CTX occ (dd_whitelist_token d)) (dict_terms d))"
    "if records_signature CTX
     then \<exists>s m. sig = Some (Live (s\<lparr>sg_data := Some m\<rparr>)) \<and> cx_signature CTX = Some (Live s) \<and> sig_holds m (dict_terms d)
     else sig = cx_signature CTX" by blast
  obtain d' where d': "dict_each (increment_term occ (dd_whitelist_token d)) (CTX, 0) d =
      Inr ((CTX\<lparr>cx_signature := sig\<rparr>, length (dict_terms d)), d')"
    "dict_terms d' = map (incremented CTX occ (dd_whitelist_token d)) (dict_terms d)"
    using dict_each_ex[OF sig(1)] by blast
  have "dict_ok d'" using dict_each_ok(1)[OF d'(1) assms(1)] increment_term_key by blast
  then show ?thesis using d' sig(2) assms(2) by (auto simp: ds_increment_tokens_def)
qed

section \<open>Properties\<close>

definition hits_ok :: "ds_spam_stat \<Rightarrow> bool" where
  "hits_ok s \<longleftrightarrow> 0 \<le> st_spam_hits s \<and> 0 \<le> st_innocent_hits s"

definition totals_ok :: "ds_spam_totals \<Rightarrow> bool" where
  "totals_ok t \<longleftrightarrow> 0 \<le> spam_learned t \<and> 0 \<le> innocent_learned t \<and> 0 \<le> spam_misclassified t \<and>
     0 \<le> innocent_misclassified t \<and> 0 \<le> spam_corpusfed t \<and> 0 \<le> innocent_corpusfed t \<and>
     0 \<le> spam_classified t \<and> 0 \<le> innocent_classified t"

lemmas train_defs = incremented_def increment_hits_def mark_dirty_def force_probability_def retrain_term_def
  retrain_pair_def dec_hits_def inc_hits_def inoculate_def drop_one_def untrains_def SPAM_MISS_def FALSE_POSITIVE_def Let_def

definition word_term :: ds_term where
  "word_term = \<lparr>tm_key = 7, tm_frequency = 2, tm_s = zero_stat, tm_name = Some ''free'', tm_type = CHR ''D''\<rparr>"

definition word_dict :: ds_diction where
  "word_dict = small_dict\<lparr>dd_items := 1, dd_tbl := (replicate 53 [])[7 := [word_term]]\<rparr>"

lemma word_dict_ok: "dict_ok word_dict" "ds_diction_find word_dict 7 = Some word_term"
proof -
  have "ds_diction_find small_dict 7 = None"
    by (simp add: ds_diction_find_def small_dict_def dd_bucket_def chain_find_def)
  then show "dict_ok word_dict"
    using dict_ok_put[OF small_dict_ok, of word_term]
    by (simp add: word_dict_def word_term_def small_dict_def dd_bucket_def)
  show "ds_diction_find word_dict 7 = Some word_term"
    by (simp add: ds_diction_find_def word_dict_def small_dict_def dd_bucket_def chain_find_def word_term_def)
qed

lemma find_small_dict: "ds_diction_find small_dict = Map.empty"
  by (simp add: fun_eq_iff ds_diction_find_def small_dict_def dd_bucket_def chain_find_def)

lemma no_attributes: "ds_match_attribute (replicate 128 (Some [])) key val = Inr False"
proof -
  have "find_attribute_from (replicate 128 (Some [])) key (Suc 128) 0 = Inr None"
    unfolding find_attribute_from.simps by (simp add: slot_at_def)
  then show ?thesis by (simp add: ds_match_attribute_def ds_find_attribute_def)
qed

definition sig_ctx :: "(unit, unit) dspam_ctx" where
  "sig_ctx = plain_ctx\<lparr>cx_flags := DSF_SIGNATURE,
     cx_signature := Some (Live \<lparr>sg_data = Some (replicate 16 None), sg_length = 16, sg_ref_cnt = 1\<rparr>)\<rparr>"

text \<open>
  C3. A signature records the message it was made from. When learning records a signature,
  loading it into an empty dictionary gives exactly the tokens of the message, each with its
  frequency modulo 256, the width of the frequency field; and no byte that is read back is
  uninitialised or out of bounds.
\<close>

theorem signature_roundtrip:
  assumes "dict_ok d" "word_frequency CTX = Inr occ" "records_signature CTX"
    and "cx_signature CTX = Some (Live s)" "sg_data s = Some m" "length m = 16 * dd_items d"
    and "dict_ok d0" "ds_diction_find d0 = Map.empty"
  shows "\<exists>CTX' d' m' d2. ds_increment_tokens CTX d = Inr (CTX', d') \<and>
    cx_signature CTX' = Some (Live (s\<lparr>sg_data := Some m'\<rparr>)) \<and>
    sig_load name m' (dd_items d) d0 = Inr d2 \<and> dict_ok d2 \<and>
    (\<forall>k. map_option tm_frequency (ds_diction_find d2 k) =
       map_option (\<lambda>t. tm_frequency t mod 256) (ds_diction_find d k))"
proof -
  obtain d' m' where inc: "ds_increment_tokens CTX d = Inr (CTX\<lparr>cx_signature := Some (Live (s\<lparr>sg_data := Some m'\<rparr>))\<rparr>, d')"
    "sig_holds m' (dict_terms d)"
    using increment_tokens_spec[OF assms(1,2)] assms(3-6) by auto
  have items: "dd_items d = length (dict_terms d)" using assms(1) by (simp add: dict_ok_def dict_terms_def)
  have dist: "distinct (map tm_key (dict_terms d))" by (rule distinct_terms[OF assms(1)])
  obtain d2 where d2: "sig_load name m' (dd_items d) d0 = Inr d2" "dict_ok d2"
    "\<And>k. map_option tm_frequency (ds_diction_find d2 k) = map_of (map (\<lambda>t. (tm_key t, tm_frequency t mod 256)) (dict_terms d)) k"
    using sig_load_terms[OF inc(2) _ dist assms(7,8), of "dd_items d" name] items by auto
  have "map_of (map (\<lambda>t. (tm_key t, tm_frequency t mod 256)) (dict_terms d)) k =
      map_option (\<lambda>t. tm_frequency t mod 256) (ds_diction_find d k)" for k
  proof (cases "ds_diction_find d k")
    case None
    then have "k \<notin> set (map tm_key (dict_terms d))" using find_iff[OF assms(1), of k] by auto
    then show ?thesis using None by (auto simp: map_of_eq_None_iff image_image)
  next
    case (Some t)
    then have "t \<in> set (dict_terms d)" "tm_key t = k" using find_iff[OF assms(1)] by auto
    then show ?thesis using Some dist by (auto simp: comp_def intro!: map_of_is_SomeI)
  qed
  then show ?thesis using inc d2 by auto
qed

theorem signature_roundtrip_witness:
  "\<exists>CTX' d' m' d2. ds_increment_tokens sig_ctx word_dict = Inr (CTX', d') \<and>
     sig_load (\<lambda>_. ''-'') m' 1 small_dict = Inr d2 \<and> map_option tm_frequency (ds_diction_find d2 7) = Some 2"
proof -
  have "word_frequency sig_ctx = Inr False" "records_signature sig_ctx"
    by (simp_all add: word_frequency_def no_attributes config_create_def
        records_signature_def sig_ctx_def has_def DSF_SIGNATURE_def plain_ctx_def dspam_create_def)
  then obtain CTX' d' m' d2 where "ds_increment_tokens sig_ctx word_dict = Inr (CTX', d')"
    "sig_load (\<lambda>_. ''-'') m' (dd_items word_dict) small_dict = Inr d2"
    "\<forall>k. map_option tm_frequency (ds_diction_find d2 k) =
       map_option (\<lambda>t. tm_frequency t mod 256) (ds_diction_find word_dict k)"
    using signature_roundtrip[OF word_dict_ok(1), of sig_ctx False
        "\<lparr>sg_data = Some (replicate 16 None), sg_length = 16, sg_ref_cnt = 1\<rparr>" "replicate 16 None" small_dict "\<lambda>_. ''-''"]
      small_dict_ok find_small_dict
    by (auto simp: sig_ctx_def word_dict_def)
  moreover have "dd_items word_dict = 1" "tm_frequency word_term = 2" by (simp_all add: word_dict_def word_term_def)
  ultimately show ?thesis using word_dict_ok(2) by (intro exI conjI) (assumption | simp)+
qed

lemma marking_keeps_hits [simp]:
  "st_spam_hits (mark_dirty CTX wt t s) = st_spam_hits s" "st_innocent_hits (mark_dirty CTX wt t s) = st_innocent_hits s"
  "st_spam_hits (force_probability CTX s) = st_spam_hits s" "st_innocent_hits (force_probability CTX s) = st_innocent_hits s"
  by (auto simp: mark_dirty_def force_probability_def split: dsr.split)

lemma incremented_fields [simp]:
  "tm_key (incremented CTX occ wt t) = tm_key t" "tm_frequency (incremented CTX occ wt t) = tm_frequency t"
  by (simp_all add: incremented_def)

lemma operate_totals_fields [simp]:
  "cx_flags (operate_totals CTX) = cx_flags CTX" "cx_training_mode (operate_totals CTX) = cx_training_mode CTX"
  "cx_operating_mode (operate_totals CTX) = cx_operating_mode CTX" "cx_source (operate_totals CTX) = cx_source CTX"
  "cx_classification (operate_totals CTX) = cx_classification CTX" "cx_result (operate_totals CTX) = cx_result CTX"
  by (auto simp: operate_totals_def Let_def)

text \<open>Undoing what a learning step added, in units of the mode.\<close>

lemma dec_inc_hits:
  assumes "0 \<le> h" "0 \<le> fr"
  shows "dec_hits occ (fr mod 256) (inc_hits occ fr h) = h + (if occ then fr - fr mod 256 else 0)"
proof -
  have "fr mod 256 \<le> fr" using assms(2) by (simp add: zmod_le_nonneg_dividend)
  then show ?thesis using assms by (auto simp: dec_hits_def inc_hits_def drop_one_def)
qed





lemma dec_inc_nonneg:
  "0 \<le> h \<Longrightarrow> 0 \<le> dec_hits occ fr h" "0 \<le> h \<Longrightarrow> 0 \<le> fr \<Longrightarrow> 0 \<le> inc_hits occ fr h" "0 \<le> h \<Longrightarrow> 0 \<le> inoculate g h"
  "0 \<le> h \<Longrightarrow> 0 \<le> drop_one h"
  by (auto simp: dec_hits_def inc_hits_def inoculate_def drop_one_def)

text \<open>
  Counters never go below zero: learning, retraining and unlearning, in every mode and
  from every source, keep all hits of a token and all totals of a user non-negative.
\<close>

theorem counters_nonnegative:
  assumes "totals_ok (cx_totals CTX)" "hits_ok (tm_s t)" "0 \<le> tm_frequency t"
  shows "totals_ok (cx_totals (operate_totals CTX)) \<and> totals_ok (signature_totals CTX) \<and>
    hits_ok (tm_s (incremented CTX occ wt t)) \<and> hits_ok (tm_s (retrain_term CTX occ t))"
proof (intro conjI)
  show "totals_ok (cx_totals (operate_totals CTX))"
    using assms(1) by (simp add: operate_totals_def Let_def totals_ok_def dec_inc_nonneg)
  show "totals_ok (signature_totals CTX)"
    using assms(1) by (simp add: signature_totals_def Let_def totals_ok_def dec_inc_nonneg)
  show "hits_ok (tm_s (incremented CTX occ wt t))"
    using assms(2,3) by (simp add: incremented_def increment_hits_def hits_ok_def Let_def dec_inc_nonneg)
  show "hits_ok (tm_s (retrain_term CTX occ t))"
    using assms(2,3) by (simp add: retrain_term_def hits_ok_def Let_def retrain_pair_def dec_inc_nonneg split: dsr.split)
qed

theorem counters_nonnegative_witness:
  "totals_ok (signature_totals plain_ctx) \<and> hits_ok (tm_s (incremented plain_ctx True 0 word_term))"
  using counters_nonnegative[of plain_ctx word_term True 0]
  by (simp add: totals_ok_def hits_ok_def no_totals_def word_term_def zero_stat_def)

text \<open>
  Unlearning is not symmetric between the classes. Unlearning a corpus message as spam
  takes one spam message off the learned total; unlearning one as innocent leaves the learned
  total and counts a further innocent corpus message. And unlearning an inoculation raises the
  spam hits of its tokens.
\<close>

theorem unlearn_asymmetric:
  assumes "cx_operating_mode CTX = DSM_PROCESS" "has (cx_flags CTX) DSF_UNLEARN" "0 < spam_learned (cx_totals CTX)"
    and "cx_classification CTX = cx_result CTX" "cx_source CTX = DSS_CORPUS"
  shows "cx_totals (operate_totals CTX) =
      (let T = cx_totals CTX in
       case cx_result CTX of
         DSR_ISSPAM \<Rightarrow> T\<lparr>spam_learned := spam_learned T - 1\<rparr>
       | DSR_ISINNOCENT \<Rightarrow> T\<lparr>innocent_corpusfed := innocent_corpusfed T + 1\<rparr>
       | DSR_NONE \<Rightarrow> T) \<and>
    (cx_result CTX = DSR_ISSPAM \<longrightarrow>
       st_spam_hits s < st_spam_hits (increment_hits (CTX\<lparr>cx_source := DSS_INOCULATION\<rparr>) occ fr s))"
  using assms by (cases "cx_result CTX")
    (simp_all add: operate_totals_def increment_hits_def SPAM_MISS_def FALSE_POSITIVE_def inoculate_def drop_one_def Let_def)

theorem unlearn_asymmetric_witness:
  "let CTX = plain_ctx\<lparr>cx_flags := DSF_UNLEARN, cx_totals := no_totals\<lparr>spam_learned := 3\<rparr>,
       cx_classification := DSR_ISINNOCENT, cx_result := DSR_ISINNOCENT, cx_source := DSS_CORPUS\<rparr>
   in innocent_corpusfed (cx_totals (operate_totals CTX)) = 1"
  using unlearn_asymmetric[of "plain_ctx\<lparr>cx_flags := DSF_UNLEARN, cx_totals := no_totals\<lparr>spam_learned := 3\<rparr>,
       cx_classification := DSR_ISINNOCENT, cx_result := DSR_ISINNOCENT, cx_source := DSS_CORPUS\<rparr>" zero_stat True 1]
  by (simp add: plain_ctx_def dspam_create_def has_def DSF_UNLEARN_def no_totals_def Let_def)

end
