(* ===== verification/Ds_Noise.thy ===== *)
theory Ds_Noise
  imports Ds_Train
begin

text \<open>
  Noise reduction inside the classifier (\<^verbatim>\<open>_ds_instantiate_bnr\<close> and \<^verbatim>\<open>_ds_apply_bnr\<close> of
  \<^verbatim>\<open>libdspam.c\<close>): the patterns of the token streams of a message are loaded from storage,
  valued, and handed to the noise reduction library; tokens it eliminates lose an occurrence.
\<close>

definition BNR_SIZE :: nat where "BNR_SIZE = 3"

definition set_type :: "char \<Rightarrow> ds_term \<Rightarrow> ds_term" where
  "set_type c t = t\<lparr>tm_type := c\<rparr>"

text \<open>A term of the dictionary that a list points to.\<close>

definition term_at :: "ds_diction \<Rightarrow> u64 \<Rightarrow> ds_term cres" where
  "term_at d k = (case ds_diction_find d k of None \<Rightarrow> Inl UseAfterFree | Some t \<Rightarrow> Inr t)"

text \<open>One token of a stream: its value is calculated, and the pattern of the window touched.\<close>

definition instantiate_token ::
    "('s, 'm) dspam_ctx \<Rightarrow> char \<Rightarrow> fp list \<times> ds_diction \<times> ds_diction \<Rightarrow> u64 \<Rightarrow> (fp list \<times> ds_diction \<times> ds_diction) cres" where
  "instantiate_token CTX identifier st k =
     (case st of (probs, d, patterns) \<Rightarrow>
        cbind (term_at d k) (\<lambda>t.
        cbind (ds_calc_stat CTX (Some t) (tm_s t) DTT_DEFAULT None) (\<lambda>s.
        cbind (bnr_round (fcast S (st_probability s))) (\<lambda>v.
          let probs' = window_shift probs v; name = bnr_token identifier probs'; crc = ds_getcrc64 name
          in cbind (ds_diction_touch True patterns crc (Some name) 0) (\<lambda>(patterns', _).
               Inr (probs', dd_update d k (\<lambda>t. t\<lparr>tm_s := s\<rparr>), dd_update patterns' crc (set_type (CHR ''B''))))))))"

definition ds_instantiate_bnr ::
    "('s, 'm) dspam_ctx \<Rightarrow> ds_diction \<Rightarrow> ds_diction \<Rightarrow> u64 list \<Rightarrow> char \<Rightarrow> (ds_diction \<times> ds_diction) cres" where
  "ds_instantiate_bnr CTX d patterns stream identifier =
     cbind (cfold (instantiate_token CTX identifier) (replicate BNR_SIZE (Fin 0), d, patterns) stream)
       (\<lambda>(_, d', patterns'). Inr (d', patterns'))"

text \<open>The tokens of a stream, given to the library with their values as floats.\<close>

definition bnr_feed :: "ds_diction \<Rightarrow> string option bnr_ctx \<Rightarrow> u64 list \<Rightarrow> string option bnr_ctx cres" where
  "bnr_feed d btx stream =
     cfold (\<lambda>b k. cbind (term_at d k) (\<lambda>t.
        cbind (bnr_add True b (tm_name t) (fcast S (st_probability (tm_s t)))) (\<lambda>(b', _). Inr b'))) btx stream"

text \<open>The value of each pattern, calculated and passed to the stream its name belongs to.\<close>

definition value_pattern ::
    "('s, 'm) dspam_ctx \<Rightarrow> ds_spam_stat \<Rightarrow> string option bnr_ctx \<times> string option bnr_ctx \<Rightarrow> ds_term \<Rightarrow>
     ((string option bnr_ctx \<times> string option bnr_ctx) \<times> ds_term) cres" where
  "value_pattern CTX bnr_tot b t =
     cbind (ds_calc_stat CTX (Some t) (tm_s t) DTT_BNR (Some bnr_tot)) (\<lambda>s.
       case tm_name t of
         None \<Rightarrow> Inl NullDeref
       | Some name \<Rightarrow>
           cbind (c_at name 4) (\<lambda>c.
             let v = fcast S (st_probability s);
                 b' = (if c = CHR ''s'' then (fst (bnr_set_pattern (fst b) (Some name) v), snd b)
                       else if c = CHR ''c'' then (fst b, fst (bnr_set_pattern (snd b) (Some name) v)) else b)
             in Inr (b', t\<lparr>tm_s := s\<rparr>)))"

text \<open>An eliminated token loses one occurrence.\<close>

definition bnr_propagate :: "string option bnr_ctx \<Rightarrow> u64 list \<Rightarrow> ds_diction \<Rightarrow> ds_diction cres" where
  "bnr_propagate btx stream d =
     cbind (cfold (\<lambda>(b, d) k.
        case bnr_get_token b of
          (b', None) \<Rightarrow> Inl Uninitialised
        | (b', Some (_, elim)) \<Rightarrow>
            cbind (term_at d k) (\<lambda>_.
              Inr (b', if elim then dd_update d k (\<lambda>t. t\<lparr>tm_frequency := tm_frequency t - 1\<rparr>) else d))) (btx, d) stream)
       (\<lambda>(_, d'). Inr d')"

definition reduce_noise ::
    "('s, 'm) dspam_ctx \<Rightarrow> string option bnr_ctx \<Rightarrow> string option bnr_ctx \<Rightarrow> u64 \<Rightarrow> ds_diction \<Rightarrow> ds_diction \<Rightarrow>
     (ds_diction \<times> ds_diction) cres" where
  "reduce_noise CTX bs bc tot_key d patterns =
     (let order = nt_first (dd_order d); chained = nt_first (dd_chained_order d) in
      cbind (bnr_feed d bs order) (\<lambda>bs1.
      cbind (bnr_feed d bc chained) (\<lambda>bc1.
      cbind (bnr_instantiate bs1) (\<lambda>(bs2, _).
      cbind (bnr_instantiate bc1) (\<lambda>(bc2, _).
        let bnr_tot = fst (ds_diction_getstat patterns tot_key zero_stat) in
        cbind (dict_each (value_pattern CTX bnr_tot) (bs2, bc2) patterns) (\<lambda>((bs3, bc3), patterns').
        cbind (bnr_finalize bs3) (\<lambda>(bs4, _).
        cbind (bnr_finalize bc3) (\<lambda>(bc4, _).
        cbind (bnr_propagate bs4 order d) (\<lambda>d1.
        cbind (bnr_propagate bc4 chained d1) (\<lambda>d2. Inr (d2, patterns')))))))))))"

text \<open>The patterns join the tokens of the message, so that they are trained with it.\<close>

definition adopt_pattern :: "ds_diction \<Rightarrow> ds_term \<Rightarrow> ds_diction cres" where
  "adopt_pattern d t =
     cbind (ds_diction_touch True d (tm_key t) (tm_name t) 0) (\<lambda>(d1, _).
       let d2 = dd_update d1 (tm_key t) (set_type (CHR ''B''));
           d3 = fst (ds_diction_setstat d2 (tm_key t) (tm_s t))
       in Inr (dd_update d3 (tm_key t) (\<lambda>t. t\<lparr>tm_frequency := 1\<rparr>)))"

definition BNR_TOTALS :: string where "BNR_TOTALS = ''bnr.t|''"

text \<open>
  The result: the context, the dictionary, and the patterns if they are returned. \<open>alloc 0\<close> gives
  the allocations of the pattern dictionary, \<open>alloc 1\<close> and \<open>alloc 2\<close> those of the two contexts of
  the library; the failure of one of these is cleaned up with \<^verbatim>\<open>bnr_destroy\<close> on a NULL pointer.
\<close>

definition ds_apply_bnr ::
    "('s, 'm) storage_driver \<Rightarrow> (nat \<Rightarrow> nat \<Rightarrow> bool) \<Rightarrow> ('s, 'm) dspam_ctx \<Rightarrow> ds_diction \<Rightarrow>
     (('s, 'm) dspam_ctx \<times> ds_diction \<times> ds_diction option) cres" where
  "ds_apply_bnr drv alloc CTX d =
     cbind (ds_diction_create (alloc 0) 3079) (\<lambda>created.
     case created of
       None \<Rightarrow> Inr (CTX, d, None)
     | Some p0 \<Rightarrow>
         cbind (bnr_init (alloc 1) BNR_INDEX (CHR ''s'')) (\<lambda>init_s.
         cbind (bnr_init (alloc 2) BNR_INDEX (CHR ''c'')) (\<lambda>init_c.
         case (init_s, init_c) of
           (Some bs, Some bc) \<Rightarrow>
             cbind (ds_instantiate_bnr CTX d p0 (nt_first (dd_order d)) (CHR ''s'')) (\<lambda>(d1, p1).
             cbind (ds_instantiate_bnr CTX d1 p1 (nt_first (dd_chained_order d1)) (CHR ''c'')) (\<lambda>(d2, p2).
               let crc = ds_getcrc64 BNR_TOTALS in
               cbind (ds_diction_touch True p2 crc (Some BNR_TOTALS) 0) (\<lambda>(p3, _).
               cbind (ds_getall_spamrecords drv CTX (dd_update p3 crc (set_type (CHR ''B'')))) (\<lambda>(CTX1, p4, r).
                 if r \<noteq> 0 then Inr (CTX1, d2, None)
                 else
                   (let seen = innocent_learned (cx_totals CTX1) + innocent_classified (cx_totals CTX1) in
                    cbind (if cx_classification CTX1 = DSR_NONE \<and> \<not> cx_sig_provided CTX1 \<and> seen > 2500
                           then reduce_noise CTX1 (bs\<lparr>bx_window_size := BNR_SIZE\<rparr>) (bc\<lparr>bx_window_size := BNR_SIZE\<rparr>) crc d2 p4
                           else Inr (d2, p4)) (\<lambda>(d3, p5).
                    cbind (if seen > 1000 then cfold adopt_pattern d3 (dict_terms p5) else Inr d3) (\<lambda>d4.
                      Inr (CTX1, d4, Some p5))))))))
         | _ \<Rightarrow> Inl NullDeref)))"

section \<open>What elimination does to the message\<close>

lemma get_token_walk:
  assumes "bl_first (bx_stream b) = nodes" "j < length nodes" "bx_stream_iter b = (0 < j)" "0 < j \<Longrightarrow> bx_c_stream b = Some (j - 1)"
  shows "\<exists>b'. bnr_get_token b = (b', Some (bl_ptr (nodes ! j), bl_eliminated (nodes ! j))) \<and>
    bl_first (bx_stream b') = nodes \<and> bx_stream_iter b' \<and> bx_c_stream b' = Some j"
  using assms by (cases j) (auto simp: bnr_get_token_def Let_def c_bnr_list_first_def c_bnr_list_next_def)

definition eliminated_at :: "u64 \<Rightarrow> u64 list \<Rightarrow> 'a bnr_list_node list \<Rightarrow> nat" where
  "eliminated_at k stream nodes = length (filter (\<lambda>(x, n). x = k \<and> bl_eliminated n) (zip stream nodes))"

definition propagate_step :: "string option bnr_ctx \<times> ds_diction \<Rightarrow> u64 \<Rightarrow> (string option bnr_ctx \<times> ds_diction) cres" where
  "propagate_step = (\<lambda>(b, d) k.
        case bnr_get_token b of
          (b', None) \<Rightarrow> Inl Uninitialised
        | (b', Some (_, elim)) \<Rightarrow>
            cbind (term_at d k) (\<lambda>_.
              Inr (b', if elim then dd_update d k (\<lambda>t. t\<lparr>tm_frequency := tm_frequency t - 1\<rparr>) else d)))"

lemma propagate_loop:
  assumes "bl_first (bx_stream b) = nodes" "j + length stream \<le> length nodes" "bx_stream_iter b = (0 < j)"
    "0 < j \<Longrightarrow> bx_c_stream b = Some (j - 1)" "dict_ok d" "set stream \<subseteq> dom (ds_diction_find d)"
  shows "\<exists>b' d'. cfold propagate_step (b, d) stream = Inr (b', d') \<and> dict_ok d' \<and>
    (\<forall>k. freq d' k = freq d k - int (eliminated_at k stream (drop j nodes)))"
  using assms
proof (induction stream arbitrary: b j d)
  case Nil
  then show ?case by (simp add: eliminated_at_def)
next
  case (Cons x xs)
  have j: "j < length nodes" using Cons.prems(2) by simp
  obtain b' where b': "bnr_get_token b = (b', Some (bl_ptr (nodes ! j), bl_eliminated (nodes ! j)))"
    "bl_first (bx_stream b') = nodes" "bx_stream_iter b'" "bx_c_stream b' = Some j"
    using get_token_walk[OF Cons.prems(1) j Cons.prems(3,4)] by blast
  obtain t where t: "ds_diction_find d x = Some t" using Cons.prems(6) by auto
  define d1 where "d1 = (if bl_eliminated (nodes ! j) then dd_update d x (\<lambda>t. t\<lparr>tm_frequency := tm_frequency t - 1\<rparr>) else d)"
  have find1: "ds_diction_find (dd_update d x (\<lambda>t. t\<lparr>tm_frequency := tm_frequency t - 1\<rparr>)) k =
      (if k = x then map_option (\<lambda>t. t\<lparr>tm_frequency := tm_frequency t - 1\<rparr>) (ds_diction_find d x) else ds_diction_find d k)" for k
    by (rule find_update[OF Cons.prems(5)]) simp
  have d1: "dict_ok d1" "dom (ds_diction_find d1) = dom (ds_diction_find d)"
    "\<And>k. freq d1 k = freq d k - (if k = x \<and> bl_eliminated (nodes ! j) then 1 else 0)"
    using Cons.prems(5) t unfolding d1_def
    by (auto simp: find1 freq_def dom_def intro!: dict_ok_update split: if_splits)
  have step: "propagate_step (b, d) x = Inr (b', d1)" using b'(1) t by (simp add: propagate_step_def term_at_def d1_def)
  obtain b2 d2 where d2: "cfold propagate_step (b', d1) xs = Inr (b2, d2)" "dict_ok d2"
    "\<And>k. freq d2 k = freq d1 k - int (eliminated_at k xs (drop (Suc j) nodes))"
    using Cons.IH[of b' "Suc j" d1] b' d1(1,2) Cons.prems(2,6) by auto
  have "drop j nodes = nodes ! j # drop (Suc j) nodes" using j by (simp add: Cons_nth_drop_Suc)
  then have "eliminated_at k (x # xs) (drop j nodes) =
      (if k = x \<and> bl_eliminated (nodes ! j) then 1 else 0) + eliminated_at k xs (drop (Suc j) nodes)" for k
    by (auto simp: eliminated_at_def)
  then show ?case using step d2 d1(3) by auto
qed

section \<open>Properties\<close>

text \<open>
  A token loses exactly as many occurrences as noise reduction eliminated of it: walking
  the stream of the message and the elements of the noise reduction context side by side,
  each eliminated element takes one from the frequency of its token, and no other frequency
  changes.
\<close>

theorem eliminations_propagated:
  assumes "dict_ok d" "set stream \<subseteq> dom (ds_diction_find d)"
    and "length (bl_first (bx_stream btx)) = length stream" "\<not> bx_stream_iter btx"
  shows "\<exists>d'. bnr_propagate btx stream d = Inr d' \<and> dict_ok d' \<and>
    (\<forall>k. freq d' k = freq d k - int (length (filter (\<lambda>(x, n). x = k \<and> bl_eliminated n) (zip stream (bl_first (bx_stream btx))))))"
proof -
  have "\<exists>b' d'. cfold propagate_step (btx, d) stream = Inr (b', d') \<and> dict_ok d' \<and>
      (\<forall>k. freq d' k = freq d k - int (eliminated_at k stream (drop 0 (bl_first (bx_stream btx)))))"
    using assms by (intro propagate_loop) auto
  then show ?thesis unfolding bnr_propagate_def propagate_step_def[symmetric] by (auto simp: eliminated_at_def)
qed

definition noise_ctx :: "string option bnr_ctx" where
  "noise_ctx = \<lparr>bx_eliminations = 1,
     bx_stream = \<lparr>bl_first = [\<lparr>bl_ptr = None, bl_value = Fin 0, bl_eliminated = True\<rparr>], bl_insert = None, bl_items = 1, bl_nodetype = BNR_INDEX\<rparr>,
     bx_patterns = small_hash, bx_identifier = CHR ''s'', bx_c_stream = None, bx_c_pattern = (0, None), bx_stream_iter = False,
     bx_pattern_iter = False, bx_window_size = 3, bx_ex_radius = Fin 0, bx_in_radius = Fin 0\<rparr>"

theorem eliminations_propagated_witness: "\<exists>d'. bnr_propagate noise_ctx [7] word_dict = Inr d' \<and> freq d' 7 = 1"
proof -
  have "freq word_dict 7 = 2" using word_dict_ok(2) by (simp add: freq_def word_term_def)
  then show ?thesis
    using eliminations_propagated[OF word_dict_ok(1), of "[7]" noise_ctx] domI[of "ds_diction_find word_dict", OF word_dict_ok(2)]
    by (auto simp: noise_ctx_def)
qed

end
