(* ===== verification/Ds_Heap.thy ===== *)
theory Ds_Heap
  imports C_Float
begin

text \<open>
  heap.c: the bounded, ordered window of the most significant tokens. The linked list that
  starts at \<^verbatim>\<open>root\<close> is a list in ascending order of significance; the insertion point is the
  last node the scan accepts, given by its position in that list.
\<close>

section \<open>Data\<close>

datatype heap_type = HP_DELTA | HP_VALUE

record ds_heap_element =
  he_delta :: fp
  he_probability :: fp
  he_token :: u64
  he_frequency :: nat
  he_complexity :: int

record ds_heap =
  hp_items :: nat
  hp_size :: nat
  hp_type :: heap_type
  hp_root :: "ds_heap_element list"

text \<open>
  What \<^verbatim>\<open>ds_heap_insert\<close> returns: NULL, the new node, or the root node it has just freed.
\<close>

datatype heap_ret = HeapNull | HeapNode ds_heap_element | HeapFreed ds_heap_element

section \<open>Operations\<close>

definition ds_heap_create :: "int \<Rightarrow> heap_type \<Rightarrow> ds_heap" where
  "ds_heap_create sz type =
     \<lparr>hp_items = 0, hp_size = nat (sz mod 2 ^ 32), hp_type = type, hp_root = []\<rparr>"

definition ds_heap_element_create :: "fp \<Rightarrow> u64 \<Rightarrow> nat \<Rightarrow> int \<Rightarrow> ds_heap_element" where
  "ds_heap_element_create probability token frequency complexity =
     \<lparr>he_delta = fabs (fsub double_fmt (dlit (1/2)) probability),
      he_probability = fcast single_fmt probability,
      he_token = token, he_frequency = frequency, he_complexity = complexity\<rparr>"

text \<open>The loop body's test of one node, for each heap type.\<close>

definition heap_accepts :: "heap_type \<Rightarrow> fp \<Rightarrow> fp \<Rightarrow> nat \<Rightarrow> int \<Rightarrow> ds_heap_element \<Rightarrow> bool" where
  "heap_accepts type delta probability frequency complexity current =
     (case type of
        HP_DELTA \<Rightarrow>
          flt (he_delta current) delta \<or>
          (feq delta (he_delta current) \<and>
           (he_frequency current < frequency \<or>
            (frequency = he_frequency current \<and> he_complexity current \<le> complexity)))
      | HP_VALUE \<Rightarrow> flt (he_probability current) probability)"

text \<open>
  The scan keeps the last accepted node in \<open>insert\<close> and stops early only while no node has
  been accepted.
\<close>

fun heap_scan :: "(ds_heap_element \<Rightarrow> bool) \<Rightarrow> ds_heap_element list \<Rightarrow> nat \<Rightarrow> nat option \<Rightarrow> nat option" where
  "heap_scan acc [] pos ins = ins"
| "heap_scan acc (current # rest) pos ins =
     (let ins' = (if acc current then Some pos else ins) in
      if ins' = None then None else heap_scan acc rest (Suc pos) ins')"

definition ds_heap_insert ::
    "ds_heap \<Rightarrow> fp \<Rightarrow> u64 \<Rightarrow> nat \<Rightarrow> int \<Rightarrow> ds_heap \<times> heap_ret" where
  "ds_heap_insert h probability token frequency complexity =
     (let delta = fcast single_fmt (fabs (fsub double_fmt (dlit (1/2)) probability));
          node = ds_heap_element_create probability token frequency complexity
      in case heap_scan (heap_accepts (hp_type h) delta probability frequency complexity)
                (hp_root h) 0 None of
           Some i \<Rightarrow>
             (let root' = take (Suc i) (hp_root h) @ node # drop (Suc i) (hp_root h);
                  items' = Suc (hp_items h)
              in if items' > hp_size h
                 then (h\<lparr>hp_root := tl root', hp_items := items' - 1\<rparr>, HeapFreed (hd root'))
                 else (h\<lparr>hp_root := root', hp_items := items'\<rparr>, HeapNode node))
         | None \<Rightarrow>
             (if hp_items h = hp_size h then (h, HeapNull)
              else (h\<lparr>hp_root := node # hp_root h, hp_items := Suc (hp_items h)\<rparr>, HeapNode node)))"

section \<open>The scan\<close>

lemma heap_scan_not_None: "heap_scan acc xs pos (Some j) \<noteq> None"
  by (induction xs arbitrary: pos j) auto

lemma heap_scan_Some:
  assumes "heap_scan acc xs pos (Some j) = Some i"
  shows "i = j \<and> (\<forall>x\<in>set xs. \<not> acc x) \<or>
         pos \<le> i \<and> i < pos + length xs \<and> acc (xs ! (i - pos)) \<and>
         (\<forall>x\<in>set (drop (Suc (i - pos)) xs). \<not> acc x)"
  using assms
proof (induction xs arbitrary: pos j)
  case (Cons x xs)
  have sh: "Suc pos \<le> i \<Longrightarrow> i - pos = Suc (i - Suc pos)" by simp
  from Cons.prems have "heap_scan acc xs (Suc pos) (Some (if acc x then pos else j)) = Some i"
    by (simp split: if_splits)
  from Cons.IH[OF this] show ?case
    by (auto simp: sh split: if_splits)
qed auto

lemma heap_scan_None: "heap_scan acc xs 0 None = None \<longleftrightarrow> xs = [] \<or> \<not> acc (hd xs)"
  by (cases xs) (auto simp: heap_scan_not_None)

lemma heap_scan_result:
  assumes "heap_scan acc xs 0 None = Some i"
  shows "i < length xs" "acc (xs ! i)" "\<forall>x\<in>set (drop (Suc i) xs). \<not> acc x"
proof -
  from assms obtain x ys where xs: "xs = x # ys" by (cases xs) auto
  with assms have acc: "acc x" "heap_scan acc ys (Suc 0) (Some 0) = Some i"
    by (auto split: if_splits)
  from heap_scan_Some[OF acc(2)] acc(1) xs
  show "i < length xs" "acc (xs ! i)" "\<forall>x\<in>set (drop (Suc i) xs). \<not> acc x"
    by (cases i; auto)+
qed

section \<open>Order and capacity\<close>

text \<open>
  The heap compares the single-precision delta of the new token with the double-precision
  deltas it stores, so what it keeps in order is the stored delta rounded to single
  precision.
\<close>

definition he_key :: "ds_heap_element \<Rightarrow> rat" where
  "he_key e = fround single_fmt (fval (he_delta e))"

definition unit_prob :: "fp \<Rightarrow> bool" where
  "unit_prob p \<longleftrightarrow> (\<exists>x. p = Fin x \<and> 0 \<le> x \<and> x \<le> 1)"

lemma unit_prob_Fin [simp]: "unit_prob (Fin x) \<longleftrightarrow> 0 \<le> x \<and> x \<le> 1"
  by (simp add: unit_prob_def)

definition delta_ok :: "ds_heap_element \<Rightarrow> bool" where
  "delta_ok e \<longleftrightarrow> (\<exists>d. he_delta e = Fin d \<and> 0 \<le> d \<and> d \<le> 1)"

definition heap_ok :: "ds_heap \<Rightarrow> bool" where
  "heap_ok h \<longleftrightarrow> hp_type h = HP_DELTA \<and> hp_items h = length (hp_root h) \<and>
     hp_items h \<le> hp_size h \<and> sorted (map he_key (hp_root h)) \<and>
     (\<forall>e\<in>set (hp_root h). delta_ok e)"

declare dlit_half [simp]

lemma delta_of_unit_prob:
  assumes "unit_prob p"
  shows "\<exists>d. fabs (fsub double_fmt (dlit (1/2)) p) = Fin d \<and> 0 \<le> d \<and> d \<le> 1"
proof -
  from assms obtain x where x: "p = Fin x" "0 \<le> x" "x \<le> 1" by (auto simp: unit_prob_def)
  then have "\<bar>1/2 - x\<bar> \<le> 1" by (simp add: abs_le_iff)
  moreover have "\<bar>fround double_fmt (1/2 - x)\<bar> \<le> 1"
    using dbl.rnd_unit[of "\<bar>1/2 - x\<bar>"] calculation by (simp add: fround_abs)
  ultimately show ?thesis using x by (simp add: fsub_def fmake_unit)
qed

lemma delta_ok_create [simp]: "unit_prob p \<Longrightarrow> delta_ok (ds_heap_element_create p t f c)"
  using delta_of_unit_prob by (auto simp: delta_ok_def ds_heap_element_create_def)

lemma accepts_key:
  assumes "unit_prob p" "delta_ok e"
    and "acc = heap_accepts HP_DELTA (fcast single_fmt (fabs (fsub double_fmt (dlit (1/2)) p))) p f c"
    and "n = ds_heap_element_create p t f c"
  shows "acc e \<Longrightarrow> he_key e \<le> he_key n" "\<not> acc e \<Longrightarrow> he_key n \<le> he_key e"
proof -
  obtain d where d: "fabs (fsub double_fmt (dlit (1/2)) p) = Fin d" "0 \<le> d" "d \<le> 1"
    using delta_of_unit_prob[OF assms(1)] by blast
  obtain b where b: "he_delta e = Fin b" using assms(2) by (auto simp: delta_ok_def)
  have n: "he_key n = fround single_fmt d"
    using d by (simp add: assms(4) he_key_def ds_heap_element_create_def)
  have del: "fcast single_fmt (fabs (fsub double_fmt (dlit (1/2)) p)) = Fin (fround single_fmt d)"
    using d by (simp add: fmake_unit)
  show "acc e \<Longrightarrow> he_key e \<le> he_key n"
    using sgl.rnd_not_above[of b d] b unfolding assms(3) heap_accepts_def del n
    by (auto simp: fp_simps he_key_def)
  show "\<not> acc e \<Longrightarrow> he_key n \<le> he_key e"
    using sgl.rnd_not_below[of b d] b unfolding assms(3) heap_accepts_def del n
    by (auto simp: fp_simps he_key_def)
qed


section \<open>The insertion contract\<close>

text \<open>
  A window of bounded capacity: insertion adds the new item while there is room, and
  otherwise drops one of the least keys among the old items and the new one.
\<close>

locale top_window =
  fixes ins :: "'h \<Rightarrow> 'a \<Rightarrow> 'h"
    and items :: "'h \<Rightarrow> 'e list"
    and cap :: "'h \<Rightarrow> nat"
    and ok :: "'h \<Rightarrow> bool"
    and adm :: "'a \<Rightarrow> bool"
    and mk :: "'a \<Rightarrow> 'e"
    and key :: "'e \<Rightarrow> rat"
  assumes ins_ok: "ok h \<Longrightarrow> adm a \<Longrightarrow> ok (ins h a)"
    and ins_cap: "cap (ins h a) = cap h"
    and ok_cap: "ok h \<Longrightarrow> length (items h) \<le> cap h"
    and ins_room: "ok h \<Longrightarrow> adm a \<Longrightarrow> length (items h) < cap h \<Longrightarrow>
      mset (items (ins h a)) = add_mset (mk a) (mset (items h))"
    and ins_full: "ok h \<Longrightarrow> adm a \<Longrightarrow> length (items h) = cap h \<Longrightarrow>
      \<exists>x. add_mset x (mset (items (ins h a))) = add_mset (mk a) (mset (items h)) \<and>
          (\<forall>y\<in>set (items (ins h a)). key x \<le> key y)"
begin

lemma fold_ok: "ok h \<Longrightarrow> \<forall>a\<in>set as. adm a \<Longrightarrow> ok (foldl ins h as)"
  by (induction as arbitrary: h) (auto simp: ins_ok)

lemma fold_cap: "cap (foldl ins h as) = cap h"
  by (induction as arbitrary: h) (auto simp: ins_cap)

lemma top_step:
  assumes "ok h" "adm a" "\<forall>d\<in>#D. \<forall>y\<in>set (items h). key d \<le> key y"
    and "D \<noteq> {#} \<longrightarrow> length (items h) = cap h"
  shows "\<exists>D'. mset (items (ins h a)) + D' = add_mset (mk a) (mset (items h) + D) \<and>
    (\<forall>d\<in>#D'. \<forall>y\<in>set (items (ins h a)). key d \<le> key y) \<and>
    (D' \<noteq> {#} \<longrightarrow> length (items (ins h a)) = cap h)"
proof (cases "length (items h) = cap h")
  case True
  obtain x where x: "add_mset x (mset (items (ins h a))) = add_mset (mk a) (mset (items h))"
    "\<forall>y\<in>set (items (ins h a)). key x \<le> key y" using ins_full[OF assms(1,2) True] by blast
  have "size (add_mset x (mset (items (ins h a)))) = size (add_mset (mk a) (mset (items h)))"
    by (simp only: x(1))
  then have len: "length (items (ins h a)) = cap h" using True by simp
  have "key d \<le> key y" if d: "d \<in># D" and y: "y \<in> set (items (ins h a))" for d y
  proof (cases "y \<in># mset (items h)")
    case True
    then show ?thesis using assms(3) d by auto
  next
    case False
    have "y \<in># add_mset (mk a) (mset (items h))" using x(1) y by (metis insert_iff set_mset_add_mset_insert set_mset_mset)
    with False have "y = mk a" by simp
    with x(1) False y have "x \<noteq> y"
      by (metis add_mset_add_mset_same_iff set_mset_mset)
    then have "x \<in># mset (items h)" using x(1) \<open>y = mk a\<close>
      by (metis insert_iff set_mset_add_mset_insert)
    then show ?thesis using assms(3) d x(2) y by (metis order_trans set_mset_mset)
  qed
  then show ?thesis using x len
    by (intro exI[of _ "add_mset x D"]) (auto simp: union_assoc)
next
  case False
  then have "D = {#}" "length (items h) < cap h" using assms(1,4) ok_cap[of h] by auto
  then show ?thesis using ins_room[OF assms(1,2)] by (intro exI[of _ "{#}"]) auto
qed

lemma top_fold_gen:
  assumes "ok h" "\<forall>a\<in>set as. adm a" "\<forall>d\<in>#D. \<forall>y\<in>set (items h). key d \<le> key y"
    and "D \<noteq> {#} \<longrightarrow> length (items h) = cap h"
  shows "\<exists>D'. mset (items (foldl ins h as)) + D' = mset (items h) + D + mset (map mk as) \<and>
    (\<forall>d\<in>#D'. \<forall>y\<in>set (items (foldl ins h as)). key d \<le> key y) \<and>
    (D' \<noteq> {#} \<longrightarrow> length (items (foldl ins h as)) = cap h)"
  using assms
proof (induction as arbitrary: h D)
  case (Cons a as)
  obtain D1 where D1: "mset (items (ins h a)) + D1 = add_mset (mk a) (mset (items h) + D)"
    "\<forall>d\<in>#D1. \<forall>y\<in>set (items (ins h a)). key d \<le> key y"
    "D1 \<noteq> {#} \<longrightarrow> length (items (ins h a)) = cap h"
    using top_step[of h a D] Cons.prems by auto
  obtain D2 where D2: "mset (items (foldl ins (ins h a) as)) + D2 =
      mset (items (ins h a)) + D1 + mset (map mk as)"
    "\<forall>d\<in>#D2. \<forall>y\<in>set (items (foldl ins (ins h a) as)). key d \<le> key y"
    "D2 \<noteq> {#} \<longrightarrow> length (items (foldl ins (ins h a) as)) = cap h"
    using Cons.IH[of "ins h a" D1] Cons.prems D1 ins_ok ins_cap by (metis list.set_intros(1) list.set_intros(2))
  show ?case by (intro exI[of _ D2]) (use D1 D2 in \<open>auto simp: union_assoc\<close>)
qed auto

text \<open>Folding insertion over a list keeps the best items and drops only worse ones.\<close>

lemma top_fold:
  assumes "ok h" "items h = []" "\<forall>a\<in>set as. adm a"
  shows "\<exists>D. mset (items (foldl ins h as)) + D = mset (map mk as) \<and>
    (\<forall>d\<in>#D. \<forall>y\<in>set (items (foldl ins h as)). key d \<le> key y) \<and>
    length (items (foldl ins h as)) = min (cap h) (length as)"
proof -
  obtain D where D: "mset (items (foldl ins h as)) + D = mset (map mk as)"
    "\<forall>d\<in>#D. \<forall>y\<in>set (items (foldl ins h as)). key d \<le> key y"
    "D \<noteq> {#} \<longrightarrow> length (items (foldl ins h as)) = cap h"
    using top_fold_gen[of h as "{#}"] assms by auto
  have "length (items (foldl ins h as)) + size D = length as"
    using arg_cong[OF D(1), of size] by simp
  moreover have "length (items (foldl ins h as)) \<le> cap h"
    using ok_cap[OF fold_ok[OF assms(1,3)]] fold_cap by simp
  ultimately have "length (items (foldl ins h as)) = min (cap h) (length as)"
    using D(3) by (cases "D = {#}") auto
  then show ?thesis using D by blast
qed

end

section \<open>The heap meets the contract\<close>

definition heap_pos :: "ds_heap \<Rightarrow> fp \<Rightarrow> nat \<Rightarrow> int \<Rightarrow> nat" where
  "heap_pos h p f c =
     (case heap_scan (heap_accepts (hp_type h) (fcast single_fmt (fabs (fsub double_fmt (dlit (1/2)) p))) p f c)
            (hp_root h) 0 None of None \<Rightarrow> 0 | Some i \<Rightarrow> Suc i)"

definition heap_grown :: "ds_heap \<Rightarrow> fp \<Rightarrow> u64 \<Rightarrow> nat \<Rightarrow> int \<Rightarrow> ds_heap_element list" where
  "heap_grown h p t f c = take (heap_pos h p f c) (hp_root h) @
     ds_heap_element_create p t f c # drop (heap_pos h p f c) (hp_root h)"

lemma heap_pos_le: "heap_pos h p f c \<le> length (hp_root h)"
  using heap_scan_result(1) by (fastforce simp: heap_pos_def split: option.splits)

lemma ds_heap_insert_fields [simp]:
  "hp_size (fst (ds_heap_insert h p t f c)) = hp_size h"
  "hp_type (fst (ds_heap_insert h p t f c)) = hp_type h"
  by (auto simp: ds_heap_insert_def Let_def split: option.splits)

lemma ds_heap_insert_root:
  assumes "hp_items h = length (hp_root h)" "hp_items h \<le> hp_size h"
  shows "hp_root (fst (ds_heap_insert h p t f c)) =
           (if hp_items h < hp_size h then heap_grown h p t f c else tl (heap_grown h p t f c))"
    and "hp_items (fst (ds_heap_insert h p t f c)) = min (hp_size h) (Suc (hp_items h))"
  using assms by (auto simp: ds_heap_insert_def heap_grown_def heap_pos_def Let_def split: option.splits)

lemma mset_heap_grown: "mset (heap_grown h p t f c) = add_mset (ds_heap_element_create p t f c) (mset (hp_root h))"
  unfolding heap_grown_def by (rule mset_insert_at)

lemma length_heap_grown: "length (heap_grown h p t f c) = Suc (length (hp_root h))"
  using arg_cong[OF mset_heap_grown, of size] by simp

lemma sorted_heap_grown:
  assumes "heap_ok h" "unit_prob p"
  shows "sorted (map he_key (heap_grown h p t f c))"
proof -
  define acc where
    "acc = heap_accepts HP_DELTA (fcast single_fmt (fabs (fsub double_fmt (dlit (1/2)) p))) p f c"
  define n where "n = ds_heap_element_create p t f c"
  have ty: "hp_type h = HP_DELTA" and srt: "sorted (map he_key (hp_root h))"
    and dok: "\<forall>e\<in>set (hp_root h). delta_ok e" using assms(1) by (auto simp: heap_ok_def)
  note key = accepts_key[OF assms(2) _ acc_def n_def]
  have "(\<forall>x\<in>set (take (heap_pos h p f c) (hp_root h)). he_key x \<le> he_key n) \<and>
        (\<forall>x\<in>set (drop (heap_pos h p f c) (hp_root h)). he_key n \<le> he_key x)"
  proof (cases "heap_scan acc (hp_root h) 0 None")
    case None
    then have pos: "heap_pos h p f c = 0" by (simp add: heap_pos_def acc_def ty)
    have "he_key n \<le> he_key x" if x: "x \<in> set (hp_root h)" for x
    proof -
      from x obtain y ys where r: "hp_root h = y # ys" by (cases "hp_root h") auto
      then have "\<not> acc y" using None heap_scan_None[of acc "hp_root h"] by simp
      then have "he_key n \<le> he_key y" using key(2)[of y] dok r by simp
      then show ?thesis using srt x r by auto
    qed
    then show ?thesis using pos by simp
  next
    case (Some i)
    then have pos: "heap_pos h p f c = Suc i" by (simp add: heap_pos_def acc_def ty)
    note res = heap_scan_result[OF Some]
    have "he_key (hp_root h ! i) \<le> he_key n" using key(1)[of "hp_root h ! i"] dok res by simp
    moreover have "he_key x \<le> he_key (hp_root h ! i)" if "x \<in> set (take (Suc i) (hp_root h))" for x
      using that res(1) sorted_nth_mono[OF srt, of _ i] by (auto simp: in_set_conv_nth)
    ultimately show ?thesis using pos res dok key(2) by (fastforce dest: in_set_dropD)
  qed
  then show ?thesis
    unfolding heap_grown_def n_def[symmetric] using srt heap_pos_le[of h p f c]
    by (intro sorted_insert_at) auto
qed

lemma set_heap_grown: "set (heap_grown h p t f c) = insert (ds_heap_element_create p t f c) (set (hp_root h))"
  using arg_cong[OF mset_heap_grown, of set_mset] by simp

lemma heap_ok_insert:
  assumes "heap_ok h" "unit_prob p"
  shows "heap_ok (fst (ds_heap_insert h p t f c))"
proof -
  note root = ds_heap_insert_root[of h p t f c]
  have "\<forall>e\<in>set (heap_grown h p t f c). delta_ok e"
    using assms by (auto simp: set_heap_grown heap_ok_def)
  moreover have "set (tl (heap_grown h p t f c)) \<subseteq> set (heap_grown h p t f c)"
    by (cases "heap_grown h p t f c") auto
  ultimately show ?thesis
    using assms sorted_heap_grown[OF assms, of t f c] root
    by (auto simp: heap_ok_def length_heap_grown map_tl sorted_tl)
qed

fun heap_ins :: "ds_heap \<Rightarrow> fp \<times> u64 \<times> nat \<times> int \<Rightarrow> ds_heap" where
  "heap_ins h (p, t, f, c) = fst (ds_heap_insert h p t f c)"

fun heap_elem :: "fp \<times> u64 \<times> nat \<times> int \<Rightarrow> ds_heap_element" where
  "heap_elem (p, t, f, c) = ds_heap_element_create p t f c"

interpretation hw: top_window heap_ins hp_root hp_size heap_ok "\<lambda>a. unit_prob (fst a)" heap_elem he_key
proof
  fix h :: ds_heap and a :: "fp \<times> u64 \<times> nat \<times> int"
  obtain p t f c where a: "a = (p, t, f, c)" by (cases a)
  show "hp_size (heap_ins h a) = hp_size h" by (simp add: a)
  show "heap_ok h \<Longrightarrow> length (hp_root h) \<le> hp_size h" by (simp add: heap_ok_def)
  show "heap_ok h \<Longrightarrow> unit_prob (fst a) \<Longrightarrow> heap_ok (heap_ins h a)"
    by (simp add: a heap_ok_insert)
  show "heap_ok h \<Longrightarrow> unit_prob (fst a) \<Longrightarrow> length (hp_root h) < hp_size h \<Longrightarrow>
      mset (hp_root (heap_ins h a)) = add_mset (heap_elem a) (mset (hp_root h))"
    by (simp add: a heap_ok_def ds_heap_insert_root mset_heap_grown)
  assume ok: "heap_ok h" "unit_prob (fst a)" and full: "length (hp_root h) = hp_size h"
  define g where "g = heap_grown h p t f c"
  have g: "g \<noteq> []" "sorted (map he_key g)"
    using length_heap_grown[of h p t f c] sorted_heap_grown[of h p t f c] ok by (auto simp: g_def a)
  then have "\<forall>y\<in>set (tl g). he_key (hd g) \<le> he_key y" by (cases g) auto
  moreover have "add_mset (hd g) (mset (tl g)) = add_mset (heap_elem a) (mset (hp_root h))"
    using g(1) mset_heap_grown[of h p t f c] by (cases g) (auto simp: a g_def)
  ultimately show "\<exists>x. add_mset x (mset (hp_root (heap_ins h a))) = add_mset (heap_elem a) (mset (hp_root h)) \<and>
      (\<forall>y\<in>set (hp_root (heap_ins h a)). he_key x \<le> he_key y)"
    using ok full by (auto simp: a g_def heap_ok_def ds_heap_insert_root intro!: exI[of _ "hd g"])
qed

section \<open>Decimal probabilities\<close>

lemma fround_double_9_10: "fround double_fmt (9/10) = 8106479329266893/9007199254740992"
  by (subst fround_at[where e = "- 1" and m = 8106479329266893])
     (simp_all add: double_fmt_def power_int_minus)

lemma fround_double_delta: "fround double_fmt (3602879701896397/9007199254740992) = 3602879701896397/9007199254740992"
  by (rule fround_exact[where m = 3602879701896397 and k = "- 53"])
     (simp_all add: double_fmt_def power_int_minus)

lemma fround_single_delta: "fround single_fmt (3602879701896397/9007199254740992) = 13421773/33554432"
  by (subst fround_at[where e = "- 2" and m = 13421773])
     (simp_all add: single_fmt_def power_int_minus)

lemmas decimal_rounds = fround_double_9_10 fround_double_delta fround_single_delta

section \<open>Properties\<close>

text \<open>
  C19. The heap keeps the most significant tokens. Inserting any list of tokens with
  probabilities in [0, 1] into a fresh heap of size \<open>n\<close> leaves \<open>min n (length as)\<close> of them,
  ascending in the distance of the probability from 0.5 (rounded to single precision, which
  is what the code compares), and every token that was turned away or thrown out is no more
  significant than any token kept.
\<close>

theorem heap_keeps_most_significant:
  assumes "0 \<le> n" "n < 2 ^ 32" "\<forall>a\<in>set as. unit_prob (fst a)"
  defines "h \<equiv> foldl heap_ins (ds_heap_create n HP_DELTA) as"
  shows "sorted (map he_key (hp_root h)) \<and> hp_items h = length (hp_root h) \<and>
    length (hp_root h) = min (nat n) (length as) \<and>
    (\<exists>D. mset (hp_root h) + D = mset (map heap_elem as) \<and>
         (\<forall>d\<in>#D. \<forall>y\<in>set (hp_root h). he_key d \<le> he_key y))"
proof -
  have ok: "heap_ok (ds_heap_create n HP_DELTA)" by (simp add: heap_ok_def ds_heap_create_def)
  have sz: "hp_size (ds_heap_create n HP_DELTA) = nat n"
    using assms by (simp add: ds_heap_create_def)
  have "heap_ok h" unfolding h_def by (rule hw.fold_ok[OF ok assms(3)])
  then show ?thesis
    using hw.top_fold[OF ok _ assms(3)] sz
    by (auto simp: h_def heap_ok_def ds_heap_create_def)
qed

theorem heap_keeps_most_significant_witness:
  "let as = [(Fin (3/4), 7, 1, 1), (Fin (1/2), 8, 1, 1), (Fin 1, 9, 1, 1)];
       h = foldl heap_ins (ds_heap_create 2 HP_DELTA) as
   in sorted (map he_key (hp_root h)) \<and> hp_items h = 2 \<and>
      (\<exists>D. mset (hp_root h) + D = mset (map heap_elem as) \<and>
           (\<forall>d\<in>#D. \<forall>y\<in>set (hp_root h). he_key d \<le> he_key y))"
proof -
  define as :: "(fp \<times> u64 \<times> nat \<times> int) list"
    where "as = [(Fin (3/4), 7, 1, 1), (Fin (1/2), 8, 1, 1), (Fin 1, 9, 1, 1)]"
  have "\<forall>a\<in>set as. unit_prob (fst a)" "length as = 3" by (simp_all add: as_def)
  then show ?thesis
    using heap_keeps_most_significant[of 2 as] unfolding as_def[symmetric] by simp
qed

text \<open>
  The tie-break by frequency does not work for equal probabilities in general: of two
  tokens with probability 0.9, the second and rarer one is placed above the first, because
  its single-precision delta exceeds the double-precision delta stored for the first.
\<close>

theorem heap_tie_break_ignored:
  "map he_frequency (hp_root (foldl heap_ins (ds_heap_create 5 HP_DELTA)
     [(dlit (9/10), 7, 100, 1), (dlit (9/10), 8, 1, 1)])) = [100, 1]"
  by (simp add: ds_heap_create_def ds_heap_insert_def ds_heap_element_create_def heap_accepts_def
      fsub_def dlit_def fmake_unit decimal_rounds fround_half feq_def Let_def)

end
