(* ===== verification/Ds_Result.thy ===== *)
theory Ds_Result
  imports Ds_Stat Ds_Heap
begin

text \<open>
  The decision about a message (\<^verbatim>\<open>_ds_calc_result\<close> of \<^verbatim>\<open>libdspam.c\<close>): the combination of the
  most significant tokens by Graham's, Burton's and Robinson's formulas, of all tokens by
  naive Bayes and the inverse chi-square, the verdict, its probability, its confidence and
  the factors it is explained by. The functions of the C mathematics library are arguments.
\<close>

unbundle bit_operations_syntax

section \<open>Accumulators\<close>

record libm =
  c_exp :: "fp \<Rightarrow> fp"
  c_log :: "fp \<Rightarrow> fp"
  c_pow :: "fp \<Rightarrow> fp \<Rightarrow> fp"

definition ds_factor :: "dspam_factor nt \<Rightarrow> string option \<Rightarrow> fp \<Rightarrow> dspam_factor nt cres" where
  "ds_factor l token_name v =
     (case token_name of
        None \<Rightarrow> Inl NullDeref
      | Some n \<Rightarrow> cbind (nt_add True l \<lparr>fa_token_name = n, fa_value = fcast S v\<rparr>) (\<lambda>(l', _). Inr l'))"

record bayes =
  ac_top :: fp
  ac_bot :: fp
  ac_used :: nat
  ac_factors :: "dspam_factor nt"

definition bayes_new :: bayes where
  "bayes_new = \<lparr>ac_top = Fin 0, ac_bot = Fin 0, ac_used = 0, ac_factors = nt_create NT_PTR\<rparr>"

text \<open>
  One more token in a Bayesian product. \<open>conv\<close> is the conversion to the type of the product:
  to \<^verbatim>\<open>float\<close> for Graham's and the naive product, none for Burton's.
\<close>

definition bayes_mul :: "(fp \<Rightarrow> fp) \<Rightarrow> fp \<Rightarrow> bayes \<Rightarrow> bayes" where
  "bayes_mul conv p a =
     (let q = fsub D (Fin 1) p in
      if ac_used a = 0 then a\<lparr>ac_top := conv p, ac_bot := conv q, ac_used := 1\<rparr>
      else a\<lparr>ac_top := conv (fmul D (ac_top a) p), ac_bot := conv (fmul D (ac_bot a) q), ac_used := Suc (ac_used a)\<rparr>)"

definition bayes_put :: "(fp \<Rightarrow> fp) \<Rightarrow> string option \<Rightarrow> fp \<Rightarrow> bayes \<Rightarrow> bayes cres" where
  "bayes_put conv name p a =
     cbind (ds_factor (ac_factors a) name p) (\<lambda>l. Inr (bayes_mul conv p (a\<lparr>ac_factors := l\<rparr>)))"

definition graham_put :: "string option \<Rightarrow> fp \<Rightarrow> bayes \<Rightarrow> bayes cres" where
  "graham_put name p a = (if ac_used a < 15 then bayes_put (fcast S) name p a else Inr a)"

definition BURTON_WINDOW_SIZE :: nat where "BURTON_WINDOW_SIZE = 27"

definition burton_put :: "string option \<Rightarrow> int \<Rightarrow> fp \<Rightarrow> bayes \<Rightarrow> bayes cres" where
  "burton_put name frequency p a =
     (if ac_used a < BURTON_WINDOW_SIZE then
        cbind (bayes_put id name p a) (\<lambda>a1.
          if ac_used a1 < BURTON_WINDOW_SIZE \<and> frequency > 1 then bayes_put id name p a1 else Inr a1)
      else Inr a)"

text \<open>Robinson's geometric mean, in \<^verbatim>\<open>float\<close>; the factors record the value of the token itself.\<close>

definition ROB_S :: fp where "ROB_S = dlit (10/1000)"
definition ROB_X :: fp where "ROB_X = dlit (500/1000)"

definition ROB_CUTOFF :: fp where "ROB_CUTOFF = dlit (50/100)"

definition rob_value :: "nat \<Rightarrow> fp \<Rightarrow> fp" where
  "rob_value items p =
     (let n = fof_int D (if items > 25 then 25 else int items)
      in fcast S (fdiv D (fadd D (fmul D ROB_S ROB_X) (fmul D n p)) (fadd D ROB_S n)))"

definition rob_mul :: "fp \<Rightarrow> bayes \<Rightarrow> bayes" where
  "rob_mul v a =
     (let q = fsub S (Fin 1) v in
      if ac_used a = 0 then a\<lparr>ac_top := v, ac_bot := q, ac_used := 1\<rparr>
      else a\<lparr>ac_top := fmul S (ac_top a) v, ac_bot := fmul S (ac_bot a) q, ac_used := Suc (ac_used a)\<rparr>)"

definition rob_put :: "nat \<Rightarrow> string option \<Rightarrow> int \<Rightarrow> fp \<Rightarrow> bayes \<Rightarrow> bayes cres" where
  "rob_put items name frequency p a =
     (if ac_used a < 25 then
        (let v = rob_value items p in
         cbind (ds_factor (ac_factors a) name p) (\<lambda>l.
           let a1 = a\<lparr>ac_factors := l\<rparr> in
           if flt v (dlit (3/10)) \<or> flt (dlit (7/10)) v then
             (let a2 = rob_mul v a1 in
              if ac_used a2 < 25 \<and> frequency > 1 then
                cbind (ds_factor (ac_factors a2) name p) (\<lambda>l2. Inr (rob_mul v (a2\<lparr>ac_factors := l2\<rparr>)))
              else Inr a2)
           else Inr a1))
      else Inr a)"

section \<open>The most significant tokens\<close>

text \<open>
  The loop over the heap. \<open>cs_stat\<close> is the variable \<^verbatim>\<open>stat\<close>, which stays uninitialised until a
  token is found.
\<close>

record combine_state =
  cs_stat :: "ds_spam_stat option"
  cs_bay :: bayes
  cs_abay :: bayes
  cs_rob :: bayes

definition forced_probability :: "('s, 'm) dspam_ctx \<Rightarrow> fp \<Rightarrow> fp" where
  "forced_probability CTX p =
     (case cx_classification CTX of DSR_ISSPAM \<Rightarrow> Fin 1 | DSR_ISINNOCENT \<Rightarrow> Fin 0 | DSR_NONE \<Rightarrow> p)"

definition combine_step ::
    "('s, 'm) dspam_ctx \<Rightarrow> nat \<Rightarrow> ds_diction \<Rightarrow> combine_state \<Rightarrow> ds_heap_element \<Rightarrow> combine_state cres" where
  "combine_step CTX items d st node =
     (case ds_diction_find d (he_token node) of
        None \<Rightarrow> Inr st
      | Some t \<Rightarrow>
          if tm_type t = CHR ''B'' then Inr st
          else if tm_name t = None then Inr (st\<lparr>cs_stat := Some (tm_s t)\<rparr>)
          else
            (let alg = cx_algorithms CTX; p = forced_probability CTX (st_probability (tm_s t)) in
             cbind (if has alg DSA_GRAHAM then graham_put (tm_name t) p (cs_bay st) else Inr (cs_bay st)) (\<lambda>bay.
             cbind (if has alg DSA_BURTON then burton_put (tm_name t) (tm_frequency t) p (cs_abay st) else Inr (cs_abay st)) (\<lambda>abay.
             cbind (rob_put items (tm_name t) (tm_frequency t) p (cs_rob st)) (\<lambda>rob.
               Inr \<lparr>cs_stat = Some (tm_s t\<lparr>st_probability := p\<rparr>), cs_bay = bay, cs_abay = abay, cs_rob = rob\<rparr>)))))"

definition combine_new :: combine_state where
  "combine_new = \<lparr>cs_stat = None, cs_bay = bayes_new, cs_abay = bayes_new, cs_rob = bayes_new\<rparr>"

text \<open>The heap is walked from its most significant element, the last of the list.\<close>

definition combine_heap :: "('s, 'm) dspam_ctx \<Rightarrow> ds_heap \<Rightarrow> ds_diction \<Rightarrow> combine_state cres" where
  "combine_heap CTX h d =
     (if length (hp_root h) < hp_items h then Inl NullDeref
      else cfold (combine_step CTX (hp_items h) d) combine_new (rev (take (hp_items h) (hp_root h))))"

section \<open>All tokens\<close>

record all_state =
  as_nbay :: bayes
  as_chi_used :: nat
  as_chi_s :: fp
  as_chi_h :: fp
  as_chi_sx :: int
  as_chi_hx :: int
  as_chi_factors :: "dspam_factor nt"

definition all_new :: all_state where
  "all_new = \<lparr>as_nbay = bayes_new, as_chi_used = 0, as_chi_s = Fin 1, as_chi_h = Fin 1, as_chi_sx = 0, as_chi_hx = 0,
     as_chi_factors = nt_create NT_PTR\<rparr>"

definition chi_fw :: "('s, 'm) dspam_ctx \<Rightarrow> ds_spam_stat \<Rightarrow> fp" where
  "chi_fw CTX s =
     (if has (cx_algorithms CTX) DSP_ROBINSON then st_probability s
      else (let n = fof_int D (sint (of_int (st_spam_hits s + st_innocent_hits s) :: u32))
            in fdiv D (fadd D (fmul D CHI_S CHI_X) (fmul D n (st_probability s))) (fadd D CHI_S n)))"

text \<open>A product that gets small is split by \<^verbatim>\<open>frexp\<close>, its exponent counted apart.\<close>

definition chi_scale :: "fp \<Rightarrow> int \<Rightarrow> fp \<times> int" where
  "chi_scale v x = (if flt v (dlit (1 / 10 ^ 200)) then (fst (ffrexp v), x + snd (ffrexp v)) else (v, x))"

definition chi_put :: "('s, 'm) dspam_ctx \<Rightarrow> ds_term \<Rightarrow> all_state \<Rightarrow> all_state cres" where
  "chi_put CTX t a =
     (let fw = chi_fw CTX (tm_s t) in
      if tm_type t \<noteq> CHR ''B'' \<and> flt (dlit (4500/10000)) (fabs (fsub D (dlit (1/2)) fw)) then
        cbind (ds_factor (as_chi_factors a) (tm_name t) (st_probability (tm_s t))) (\<lambda>l.
          let (s, sx) = chi_scale (fmul D (as_chi_s a) (fsub D (Fin 1) fw)) (as_chi_sx a);
              (h, hx) = chi_scale (fmul D (as_chi_h a) fw) (as_chi_hx a)
          in Inr (a\<lparr>as_chi_used := Suc (as_chi_used a), as_chi_s := s, as_chi_sx := sx, as_chi_h := h, as_chi_hx := hx,
               as_chi_factors := l\<rparr>))
      else Inr a)"

text \<open>
  The naive product takes the variable \<^verbatim>\<open>stat\<close> the loop over the heap left behind, not the
  statistics of the term it is at.
\<close>

definition naive_put :: "ds_spam_stat option \<Rightarrow> ds_term \<Rightarrow> bayes \<Rightarrow> bayes cres" where
  "naive_put stat t a =
     (case stat of
        None \<Rightarrow> Inl Uninitialised
      | Some s \<Rightarrow> bayes_put (fcast S) (tm_name t) (st_probability s) a)"

definition all_step :: "('s, 'm) dspam_ctx \<Rightarrow> ds_spam_stat option \<Rightarrow> all_state \<Rightarrow> ds_term \<Rightarrow> all_state cres" where
  "all_step CTX stat a t =
     (if tm_key t = CONTROL_TOKEN then Inr a
      else cbind (if has (cx_algorithms CTX) DSA_NAIVE
                  then cbind (naive_put stat t (as_nbay a)) (\<lambda>n. Inr (a\<lparr>as_nbay := n\<rparr>)) else Inr a) (\<lambda>a1.
        if has (cx_algorithms CTX) DSA_CHI_SQUARE then chi_put CTX t a1 else Inr a1))"

definition all_tokens :: "('s, 'm) dspam_ctx \<Rightarrow> ds_spam_stat option \<Rightarrow> ds_diction \<Rightarrow> all_state cres" where
  "all_tokens CTX stat d =
     (if has (cx_algorithms CTX) DSA_CHI_SQUARE \<or> has (cx_algorithms CTX) DSA_NAIVE
      then cfold (all_step CTX stat) all_new (dict_terms d) else Inr all_new)"

section \<open>Combined probabilities\<close>

definition LN2 :: fp where "LN2 = dlit (69314718055994530942 / 10 ^ 20)"
definition CHI_CUTOFF :: fp where "CHI_CUTOFF = dlit (5010/10000)"

definition bayes_share :: "fformat \<Rightarrow> bayes \<Rightarrow> fp" where
  "bayes_share f a = fdiv f (ac_top a) (fadd f (ac_top a) (ac_bot a))"

definition rob_share :: "libm \<Rightarrow> bayes \<Rightarrow> fp" where
  "rob_share m a =
     (if ac_used a = 0 then Fin 0
      else
        (let e = fdiv D (Fin 1) (fof_int D (int (ac_used a)));
             p = fsub D (Fin 1) (c_pow m (ac_bot a) e);
             q = fsub D (Fin 1) (c_pow m (ac_top a) e);
             s = fdiv D (fsub D p q) (fadd D p q)
         in fcast S (fdiv D (fadd D s (Fin 1)) (Fin 2))))"

definition chi_share :: "libm \<Rightarrow> all_state \<Rightarrow> fp" where
  "chi_share m a =
     (let ls = fadd D (c_log m (as_chi_s a)) (fmul D (fof_int D (as_chi_sx a)) LN2);
          lh = fadd D (c_log m (as_chi_h a)) (fmul D (fof_int D (as_chi_hx a)) LN2);
          v = 2 * int (as_chi_used a)
      in if as_chi_used a \<noteq> 0 then
           (let s = fsub D (Fin 1) (chi2Q (c_exp m) (fmul D (Fin (- 2)) ls) v);
                h = fsub D (Fin 1) (chi2Q (c_exp m) (fmul D (Fin (- 2)) lh) v)
            in fcast S (fdiv D (fadd D (fsub D s h) (Fin 1)) (Fin 2)))
         else fcast S (fsub D CHI_CUTOFF (dlit (1/10))))"

record results =
  rs_nbay :: fp
  rs_bay :: fp
  rs_abay :: fp
  rs_rob :: fp
  rs_chi :: fp

definition combined :: "libm \<Rightarrow> ('s, 'm) dspam_ctx \<Rightarrow> combine_state \<Rightarrow> all_state \<Rightarrow> results" where
  "combined m CTX cs a =
     (let alg = cx_algorithms CTX in
      \<lparr>rs_nbay = (if has alg DSA_NAIVE then bayes_share S (as_nbay a) else Fin (- 1)),
       rs_bay = (if has alg DSA_GRAHAM then bayes_share S (cs_bay cs) else Fin (- 1)),
       rs_abay = (if has alg DSA_BURTON then bayes_share D (cs_abay cs) else Fin (- 1)),
       rs_rob = rob_share m (cs_rob cs),
       rs_chi = (if has alg DSA_CHI_SQUARE then chi_share m a else Fin (- 1))\<rparr>)"

section \<open>The verdict\<close>

definition reaches :: "('s, 'm) dspam_ctx \<Rightarrow> fp \<Rightarrow> fp \<Rightarrow> bool" where
  "reaches CTX cutoff v \<longleftrightarrow>
     (if has (cx_algorithms CTX) DSP_MARKOV then flt (dlit (1/2)) v else fle cutoff v)"

text \<open>
  One algorithm's part of the decision: \<open>always\<close> tells whether its probability and its factors
  replace what an earlier algorithm set.
\<close>

definition vote ::
    "u32 \<Rightarrow> fp \<Rightarrow> fp \<Rightarrow> bool \<Rightarrow> bool \<Rightarrow> dspam_factor nt \<Rightarrow> ('s, 'm) dspam_ctx \<times> dspam_factor nt option \<Rightarrow>
     ('s, 'm) dspam_ctx \<times> dspam_factor nt option" where
  "vote alg cutoff v force_prob force_factors fs st =
     (case st of (CTX, factor) \<Rightarrow>
        if has (cx_algorithms CTX) alg then
          (if reaches CTX cutoff v then
             (CTX\<lparr>cx_result := DSR_ISSPAM,
                  cx_probability := (if force_prob \<or> flt (cx_probability CTX) (Fin 0) then fcast S v else cx_probability CTX),
                  cx_factors := (if force_factors \<or> cx_factors CTX = None then Some fs else cx_factors CTX)\<rparr>, Some fs)
           else (CTX, Some fs))
        else (CTX, factor))"

definition decide :: "results \<Rightarrow> combine_state \<Rightarrow> all_state \<Rightarrow> ('s, 'm) dspam_ctx \<Rightarrow> ('s, 'm) dspam_ctx" where
  "decide rs cs a CTX =
     (case cx_classification CTX of
        DSR_ISSPAM \<Rightarrow> CTX\<lparr>cx_result := DSR_ISSPAM, cx_probability := Fin 1\<rparr>
      | DSR_ISINNOCENT \<Rightarrow> CTX\<lparr>cx_result := DSR_ISINNOCENT, cx_probability := Fin 0\<rparr>
      | DSR_NONE \<Rightarrow>
          (case vote DSA_CHI_SQUARE CHI_CUTOFF (rs_chi rs) False False (as_chi_factors a)
                 (vote DSA_ROBINSON ROB_CUTOFF (rs_rob rs) False False (ac_factors (cs_rob cs))
                 (vote DSA_BURTON (dlit (9/10)) (rs_abay rs) True False (ac_factors (cs_abay cs))
                 (vote DSA_GRAHAM (dlit (9/10)) (rs_bay rs) True True (ac_factors (cs_bay cs))
                 (vote DSA_NAIVE (dlit (9/10)) (rs_nbay rs) True True (ac_factors (as_nbay a)) (CTX, None))))) of
             (CTX1, factor) \<Rightarrow> if cx_factors CTX1 = None then CTX1\<lparr>cx_factors := factor\<rparr> else CTX1))"

text \<open>A probability that no algorithm assigned is taken from the first that has one.\<close>

definition assign_probability :: "results \<Rightarrow> ('s, 'm) dspam_ctx \<Rightarrow> ('s, 'm) dspam_ctx" where
  "assign_probability rs CTX =
     (let alg = cx_algorithms CTX in
      if feq (cx_probability CTX) DSP_UNCALCULATED then
        (let p1 = (if has alg DSA_GRAHAM then rs_bay rs else cx_probability CTX);
             p2 = (if has alg DSA_NAIVE then rs_nbay rs else p1);
             p3 = (if flt p2 (Fin 0) \<and> has alg DSA_BURTON then fcast S (rs_abay rs) else p2);
             p4 = (if flt p3 (Fin 0) \<and> has alg DSA_ROBINSON then rs_rob rs else p3);
             p5 = (if flt p4 (Fin 0) \<and> has alg DSA_CHI_SQUARE then rs_chi rs else p4)
         in CTX\<lparr>cx_probability := p5\<rparr>)
      else CTX)"

definition confidence_of :: "results \<Rightarrow> ('s, 'm) dspam_ctx \<Rightarrow> fp" where
  "confidence_of rs CTX =
     (let v = (if has (cx_algorithms CTX) DSP_MARKOV then cx_probability CTX else rs_rob rs)
      in if cx_result CTX = DSR_ISSPAM then v else fcast S (fsub D (Fin 1) v))"

definition ds_calc_result ::
    "libm \<Rightarrow> ('s, 'm) dspam_ctx \<Rightarrow> ds_heap \<Rightarrow> ds_diction \<Rightarrow> (('s, 'm) dspam_ctx \<times> int) cres" where
  "ds_calc_result m CTX h d =
     cbind (combine_heap CTX h d) (\<lambda>cs.
     cbind (all_tokens CTX (cs_stat cs) d) (\<lambda>a.
       let rs = combined m CTX cs a;
           CTX1 = assign_probability rs (decide rs cs a CTX);
           CTX2 = CTX1\<lparr>cx_confidence := confidence_of rs CTX1\<rparr>
       in Inr (CTX2, dsr_code (cx_result CTX2))))"

section \<open>Bounds of the products\<close>

text \<open>The part of a product that its result depends on.\<close>

definition unit_bayes :: "fformat \<Rightarrow> nat \<Rightarrow> bayes \<Rightarrow> bool" where
  "unit_bayes f n a \<longleftrightarrow> fin_in f 0 1 (ac_top a) \<and> fin_in f 0 1 (ac_bot a) \<and> ac_used a \<le> n \<and> nt_ok (ac_factors a)"

lemma frep_one: "fok f \<Longrightarrow> frep f 1"
  using frep_pow2[of f 0] by (simp add: fok_def)

lemma unit_closed:
  assumes "fok f" "0 \<le> r" "r \<le> 1" "0 \<le> s" "s \<le> 1"
  shows "fin_in f 0 1 (fmul f (Fin r) (Fin s))" "fin_in f 0 1 (fsub f (Fin 1) (Fin r))" "fin_in f 0 1 (fcast f (Fin r))"
  using assms frep_one[OF assms(1)] by (auto simp: fsub_def mult_le_one intro!: fin_in_make)

lemma bayes_mul_unit:
  assumes "fin_in D 0 1 p" "unit_bayes f n a" "ac_used a < n" "(f, conv) \<in> {(S, fcast S), (D, id)}"
  shows "unit_bayes f n (bayes_mul conv p a)"
proof -
  obtain r where r: "p = Fin r" "fround D r = r" "0 \<le> r" "r \<le> 1" using assms(1) by (auto elim!: fin_inE)
  obtain u v where uv: "ac_top a = Fin u" "0 \<le> u" "u \<le> 1" "ac_bot a = Fin v" "0 \<le> v" "v \<le> 1"
    using assms(2) by (auto simp: unit_bayes_def elim!: fin_inE)
  have q: "fin_in D 0 1 (fsub D (Fin 1) p)" using r unit_closed(2)[of D r 0] by simp
  then obtain w where w: "fsub D (Fin 1) p = Fin w" "0 \<le> w" "w \<le> 1" by (auto elim!: fin_inE)
  have m: "fin_in D 0 1 (fmul D (ac_top a) p)" "fin_in D 0 1 (fmul D (ac_bot a) (fsub D (Fin 1) p))"
    using r uv w unit_closed(1)[of D u r] unit_closed(1)[of D v w] by auto
  have c: "fin_in f 0 1 (conv x)" if "fin_in D 0 1 x" for x
    using that assms(4) unit_closed(3)[of S _ 0] by (auto elim!: fin_inE simp: fin_in_def)
  show ?thesis
    using assms(1-3) c[OF q] c[OF m(1)] c[OF m(2)] c[OF assms(1)] by (auto simp: bayes_mul_def Let_def unit_bayes_def)
qed

lemma ds_factor_ok: "nt_ok l \<Longrightarrow> \<exists>l'. ds_factor l (Some n) v = Inr l' \<and> nt_ok l'"
  using nt_add_ok[of l] nt_add_invariant[of l] by (auto simp: ds_factor_def)

lemma bayes_put_unit:
  assumes "fin_in D 0 1 p" "unit_bayes f n a" "ac_used a < n" "(f, conv) \<in> {(S, fcast S), (D, id)}"
  shows "\<exists>a'. bayes_put conv (Some name) p a = Inr a' \<and> unit_bayes f n a'"
proof -
  obtain l where "ds_factor (ac_factors a) (Some name) p = Inr l" "nt_ok l"
    using ds_factor_ok[of "ac_factors a" name p] assms(2) by (auto simp: unit_bayes_def)
  then show ?thesis using bayes_mul_unit[OF assms(1) _ _ assms(4), of n "a\<lparr>ac_factors := l\<rparr>"] assms(2,3)
    by (auto simp: bayes_put_def unit_bayes_def)
qed

lemma graham_put_unit:
  "fin_in D 0 1 p \<Longrightarrow> unit_bayes S 15 a \<Longrightarrow> \<exists>a'. graham_put (Some name) p a = Inr a' \<and> unit_bayes S 15 a'"
  using bayes_put_unit[of p S 15 a "fcast S"] by (auto simp: graham_put_def)

lemma burton_put_unit:
  assumes "fin_in D 0 1 p" "unit_bayes D 27 a"
  shows "\<exists>a'. burton_put (Some name) frequency p a = Inr a' \<and> unit_bayes D 27 a'"
proof (cases "ac_used a < 27")
  case True
  obtain a1 where a1: "bayes_put id (Some name) p a = Inr a1" "unit_bayes D 27 a1"
    using bayes_put_unit[OF assms True, of id name] by auto
  then show ?thesis
    using True bayes_put_unit[OF assms(1) a1(2), of id name] by (auto simp: burton_put_def BURTON_WINDOW_SIZE_def)
qed (use assms in \<open>auto simp: burton_put_def BURTON_WINDOW_SIZE_def\<close>)

lemma rob_value_unit:
  assumes "fin_in D 0 1 p"
  shows "fin_in S 0 1 (rob_value items p)"
proof -
  obtain s where s: "ROB_S = Fin s" "0 < s" "s \<le> 1" "fround D s = s"
    using dlit_weight[of "10/1000"] by (auto simp: ROB_S_def)
  have x: "ROB_X = Fin (1/2)" using dlit_half by (simp add: ROB_X_def)
  have "fin_in D 0 (2 ^ 52) (fof_int D (if items > 25 then 25 else int items))"
    by (rule fin_in_of_int(1)) auto
  from weighted_range[OF this assms s(2-4)] show ?thesis
    unfolding rob_value_def Let_def x s(1) using unit_closed(3)[of S _ 0] by (auto elim!: fin_inE)
qed

lemma rob_mul_unit:
  assumes "fin_in S 0 1 v" "unit_bayes S n a" "ac_used a < n"
  shows "unit_bayes S n (rob_mul v a)"
proof -
  obtain r where r: "v = Fin r" "0 \<le> r" "r \<le> 1" using assms(1) by (auto elim!: fin_inE)
  obtain u w where uv: "ac_top a = Fin u" "0 \<le> u" "u \<le> 1" "ac_bot a = Fin w" "0 \<le> w" "w \<le> 1"
    using assms(2) by (auto simp: unit_bayes_def elim!: fin_inE)
  have q: "fin_in S 0 1 (fsub S (Fin 1) v)" using r unit_closed(2)[of S r 0] by simp
  then obtain z where z: "fsub S (Fin 1) v = Fin z" "0 \<le> z" "z \<le> 1" by (auto elim!: fin_inE)
  have "fin_in S 0 1 (fmul S (ac_top a) v)" "fin_in S 0 1 (fmul S (ac_bot a) (fsub S (Fin 1) v))"
    using r uv z unit_closed(1)[of S u r] unit_closed(1)[of S w z] by auto
  then show ?thesis using assms q by (auto simp: rob_mul_def Let_def unit_bayes_def)
qed

lemma rob_put_unit:
  assumes "fin_in D 0 1 p" "unit_bayes S 25 a"
  shows "\<exists>a'. rob_put items (Some name) frequency p a = Inr a' \<and> unit_bayes S 25 a'"
proof (cases "ac_used a < 25")
  case True
  note v = rob_value_unit[OF assms(1), of items]
  obtain l where l: "ds_factor (ac_factors a) (Some name) p = Inr l" "nt_ok l"
    using ds_factor_ok[of "ac_factors a" name p] assms(2) by (auto simp: unit_bayes_def)
  let ?a1 = "a\<lparr>ac_factors := l\<rparr>" and ?v = "rob_value items p"
  have u1: "unit_bayes S 25 ?a1" using assms(2) l by (simp add: unit_bayes_def)
  then have u2: "unit_bayes S 25 (rob_mul ?v ?a1)" using True by (intro rob_mul_unit[OF v]) auto
  obtain l2 where l2: "ds_factor (ac_factors (rob_mul ?v ?a1)) (Some name) p = Inr l2" "nt_ok l2"
    using ds_factor_ok[of "ac_factors (rob_mul ?v ?a1)" name p] u2 by (auto simp: unit_bayes_def)
  then have "unit_bayes S 25 (rob_mul ?v (rob_mul ?v ?a1\<lparr>ac_factors := l2\<rparr>))" if "ac_used (rob_mul ?v ?a1) < 25"
    using u2 that by (intro rob_mul_unit[OF v]) (auto simp: unit_bayes_def)
  then show ?thesis using True l u1 u2 l2 by (auto simp: rob_put_def Let_def)
qed (use assms in \<open>auto simp: rob_put_def\<close>)

lemma bayes_share_unit:
  assumes "unit_bayes f n a" "fok f" "frep f 2"
  shows "if ac_top a = Fin 0 \<and> ac_bot a = Fin 0 then bayes_share f a = NaN else fin_in f 0 1 (bayes_share f a)"
proof (cases "ac_top a = Fin 0 \<and> ac_bot a = Fin 0")
  case True
  then show ?thesis by (simp add: bayes_share_def fmake_def)
next
  case False
  then show ?thesis
    using assms unfolding bayes_share_def unit_bayes_def by (auto intro!: fin_in_share[where hi = 1 and hi' = 1 and H = 2])
qed

definition unit_terms :: "ds_diction \<Rightarrow> bool" where
  "unit_terms d \<longleftrightarrow> (\<forall>k t. ds_diction_find d k = Some t \<longrightarrow> fin_in D 0 1 (st_probability (tm_s t)))"

definition combine_ok :: "combine_state \<Rightarrow> bool" where
  "combine_ok cs \<longleftrightarrow> unit_bayes S 15 (cs_bay cs) \<and> unit_bayes D 27 (cs_abay cs) \<and> unit_bayes S 25 (cs_rob cs)"

lemma combine_step_ok:
  assumes "unit_terms d" "combine_ok cs"
  shows "\<exists>cs'. combine_step CTX items d cs node = Inr cs' \<and> combine_ok cs'"
proof (cases "ds_diction_find d (he_token node)")
  case (Some t)
  show ?thesis
  proof (cases "tm_type t = CHR ''B'' \<or> tm_name t = None")
    case False
    then obtain name where name: "tm_name t = Some name" by auto
    let ?p = "forced_probability CTX (st_probability (tm_s t))"
    have p: "fin_in D 0 1 ?p"
      using assms(1) Some frep_D_1 by (auto simp: unit_terms_def forced_probability_def fin_in_def frep_def split: dsr.split)
    have "\<exists>b. (if has (cx_algorithms CTX) DSA_GRAHAM then graham_put (Some name) ?p (cs_bay cs) else Inr (cs_bay cs)) = Inr b \<and> unit_bayes S 15 b"
      using graham_put_unit[OF p, of "cs_bay cs" name] assms(2) by (auto simp: combine_ok_def)
    moreover have "\<exists>b. (if has (cx_algorithms CTX) DSA_BURTON then burton_put (Some name) (tm_frequency t) ?p (cs_abay cs) else Inr (cs_abay cs)) = Inr b \<and> unit_bayes D 27 b"
      using burton_put_unit[OF p, of "cs_abay cs" name "tm_frequency t"] assms(2) by (auto simp: combine_ok_def)
    moreover have "\<exists>b. rob_put items (Some name) (tm_frequency t) ?p (cs_rob cs) = Inr b \<and> unit_bayes S 25 b"
      using rob_put_unit[OF p, of "cs_rob cs" items name "tm_frequency t"] assms(2) by (auto simp: combine_ok_def)
    ultimately show ?thesis using Some False name by (auto simp: combine_step_def Let_def combine_ok_def)
  qed (use Some assms(2) in \<open>auto simp: combine_step_def combine_ok_def\<close>)
qed (use assms in \<open>simp add: combine_step_def\<close>)

lemma combine_fold_ok:
  assumes "unit_terms d" "combine_ok cs"
  shows "\<exists>cs'. cfold (combine_step CTX items d) cs ns = Inr cs' \<and> combine_ok cs'"
  using assms(2)
proof (induction ns arbitrary: cs)
  case (Cons n ns)
  then show ?case using combine_step_ok[OF assms(1) Cons.prems, of CTX items n] by auto
qed simp

lemma combine_heap_ok:
  assumes "unit_terms d" "hp_items h \<le> length (hp_root h)"
  shows "\<exists>cs. combine_heap CTX h d = Inr cs \<and> combine_ok cs"
proof -
  have "combine_ok combine_new"
    by (simp add: combine_ok_def combine_new_def unit_bayes_def bayes_new_def fin_in_def)
  then show ?thesis using combine_fold_ok[OF assms(1)] assms(2) by (simp add: combine_heap_def)
qed

section \<open>Properties\<close>


definition tiny_dict :: ds_diction where
  "tiny_dict = \<lparr>dd_size = 1, dd_items = 1, dd_tbl = [[\<lparr>tm_key = 7, tm_frequency = 1,
     tm_s = zero_stat\<lparr>st_probability := Fin (1/2)\<rparr>, tm_name = Some ''free'', tm_type = CHR ''D''\<rparr>]],
     dd_whitelist_token = 0, dd_order = nt_create NT_INDEX, dd_chained_order = nt_create NT_INDEX\<rparr>"

definition tiny_heap :: ds_heap where
  "tiny_heap = \<lparr>hp_items = 1, hp_size = 15, hp_type = HP_DELTA,
     hp_root = [\<lparr>he_delta = Fin 0, he_probability = Fin (1/2), he_token = 7, he_frequency = 1, he_complexity = 1\<rparr>]\<rparr>"

lemma tiny_dict_unit: "unit_terms tiny_dict"
  using dlit_half dlit_range[of "1/2"]
  by (auto simp: unit_terms_def ds_diction_find_def tiny_dict_def dd_bucket_def chain_find_def split: if_splits)


lemma reaches_cong: "cx_algorithms C = cx_algorithms C' \<Longrightarrow> reaches C c v = reaches C' c v"
  by (simp add: reaches_def)

text \<open>The fields of a context that calculating a result does not touch.\<close>

definition same_setup :: "('s, 'm) dspam_ctx \<Rightarrow> ('s, 'm) dspam_ctx \<Rightarrow> bool" where
  "same_setup C C' \<longleftrightarrow> cx_tokenizer C' = cx_tokenizer C \<and> cx_flags C' = cx_flags C \<and> cx_attributes C' = cx_attributes C \<and>
     cx_totals C' = cx_totals C \<and> cx_signature C' = cx_signature C \<and> cx_operating_mode C' = cx_operating_mode C \<and>
     cx_training_mode C' = cx_training_mode C \<and> cx_classification C' = cx_classification C \<and> cx_source C' = cx_source C \<and>
     cx_algorithms C' = cx_algorithms C \<and> cx_sig_provided C' = cx_sig_provided C \<and> cx_storage C' = cx_storage C \<and>
     cx_message C' = cx_message C"

lemma same_setup_refl [simp]: "same_setup C C"
  by (simp add: same_setup_def)

lemma same_setup_trans: "same_setup A B \<Longrightarrow> same_setup B C \<Longrightarrow> same_setup A C"
  by (auto simp: same_setup_def)

lemma vote_spec:
  assumes "vote alg ctf v fp ff fs (C, factor) = (C', factor')"
  shows "cx_algorithms C' = cx_algorithms C"
    "cx_result C' = (if has (cx_algorithms C) alg \<and> reaches C ctf v then DSR_ISSPAM else cx_result C)"
    "same_setup C C'"
  using assms by (auto simp: vote_def same_setup_def split: if_splits)

text \<open>The algorithms with their cutoffs and combined values.\<close>

definition ballots :: "results \<Rightarrow> (u32 \<times> fp \<times> fp) list" where
  "ballots rs = [(DSA_NAIVE, dlit (9/10), rs_nbay rs), (DSA_GRAHAM, dlit (9/10), rs_bay rs), (DSA_BURTON, dlit (9/10), rs_abay rs),
     (DSA_ROBINSON, ROB_CUTOFF, rs_rob rs), (DSA_CHI_SQUARE, CHI_CUTOFF, rs_chi rs)]"

definition voted_spam :: "('s, 'm) dspam_ctx \<Rightarrow> results \<Rightarrow> bool" where
  "voted_spam CTX rs \<longleftrightarrow> (\<exists>(alg, ctf, v)\<in>set (ballots rs). has (cx_algorithms CTX) alg \<and> reaches CTX ctf v)"

lemma decide_result:
  "cx_result (decide rs cs a CTX) =
     (case cx_classification CTX of
        DSR_NONE \<Rightarrow> if voted_spam CTX rs then DSR_ISSPAM else cx_result CTX
      | c \<Rightarrow> c)"
proof (cases "cx_classification CTX")
  case DSR_NONE
  obtain C1 f1 where 1: "vote DSA_NAIVE (dlit (9/10)) (rs_nbay rs) True True (ac_factors (as_nbay a)) (CTX, None) = (C1, f1)" by fastforce
  obtain C2 f2 where 2: "vote DSA_GRAHAM (dlit (9/10)) (rs_bay rs) True True (ac_factors (cs_bay cs)) (C1, f1) = (C2, f2)" by fastforce
  obtain C3 f3 where 3: "vote DSA_BURTON (dlit (9/10)) (rs_abay rs) True False (ac_factors (cs_abay cs)) (C2, f2) = (C3, f3)" by fastforce
  obtain C4 f4 where 4: "vote DSA_ROBINSON ROB_CUTOFF (rs_rob rs) False False (ac_factors (cs_rob cs)) (C3, f3) = (C4, f4)" by fastforce
  obtain C5 f5 where 5: "vote DSA_CHI_SQUARE CHI_CUTOFF (rs_chi rs) False False (as_chi_factors a) (C4, f4) = (C5, f5)" by fastforce
  note alg = vote_spec(1)[OF 1] vote_spec(1)[OF 2] vote_spec(1)[OF 3] vote_spec(1)[OF 4]
  have r: "reaches C1 c v = reaches CTX c v" "reaches C2 c v = reaches CTX c v" "reaches C3 c v = reaches CTX c v" "reaches C4 c v = reaches CTX c v" for c v
    using alg by (simp_all add: reaches_def)
  have "cx_result C5 = (if voted_spam CTX rs then DSR_ISSPAM else cx_result CTX)"
    using vote_spec(2)[OF 1] vote_spec(2)[OF 2] vote_spec(2)[OF 3] vote_spec(2)[OF 4] vote_spec(2)[OF 5] alg
    by (simp add: r voted_spam_def ballots_def)
  then show ?thesis using DSR_NONE by (simp add: decide_def 1 2 3 4 5)
qed (simp_all add: decide_def)

lemma decide_setup: "same_setup CTX (decide rs cs a CTX)"
proof (cases "cx_classification CTX")
  case DSR_NONE
  obtain C1 f1 where 1: "vote DSA_NAIVE (dlit (9/10)) (rs_nbay rs) True True (ac_factors (as_nbay a)) (CTX, None) = (C1, f1)" by fastforce
  obtain C2 f2 where 2: "vote DSA_GRAHAM (dlit (9/10)) (rs_bay rs) True True (ac_factors (cs_bay cs)) (C1, f1) = (C2, f2)" by fastforce
  obtain C3 f3 where 3: "vote DSA_BURTON (dlit (9/10)) (rs_abay rs) True False (ac_factors (cs_abay cs)) (C2, f2) = (C3, f3)" by fastforce
  obtain C4 f4 where 4: "vote DSA_ROBINSON ROB_CUTOFF (rs_rob rs) False False (ac_factors (cs_rob cs)) (C3, f3) = (C4, f4)" by fastforce
  obtain C5 f5 where 5: "vote DSA_CHI_SQUARE CHI_CUTOFF (rs_chi rs) False False (as_chi_factors a) (C4, f4) = (C5, f5)" by fastforce
  have "same_setup CTX C5"
    using vote_spec(3)[OF 1] vote_spec(3)[OF 2] vote_spec(3)[OF 3] vote_spec(3)[OF 4] vote_spec(3)[OF 5] same_setup_trans by blast
  moreover have "decide rs cs a CTX = (if cx_factors C5 = None then C5\<lparr>cx_factors := f5\<rparr> else C5)"
    using DSR_NONE by (simp add: decide_def 1 2 3 4 5)
  ultimately show ?thesis by (simp add: same_setup_def)
qed (simp_all add: decide_def same_setup_def)

lemma assign_setup: "same_setup C (assign_probability rs C\<lparr>cx_confidence := c\<rparr>)"
  by (simp add: assign_probability_def same_setup_def Let_def)

lemma calc_result_setup: "ds_calc_result m CTX h d = Inr (CTX', r) \<Longrightarrow> same_setup CTX CTX'"
  using same_setup_trans[OF decide_setup assign_setup] by (auto simp: ds_calc_result_def cbind_Inr_iff Let_def)

text \<open>
  C1. The verdict. Without a given class a message is spam if and only if the context already
  says so or the combined value of one of the enabled algorithms reaches its cutoff (one half
  under Markovian weighting; else 0.9 for the naive, Graham's and Burton's product, 0.5 for
  Robinson's mean and 0.501 for chi-square); a NaN reaches none. With a given class the
  verdict is that class with probability 1 or 0, whatever the tokens say.
\<close>

theorem calc_result_verdict:
  assumes "ds_calc_result m CTX h d = Inr (CTX', r)"
  shows "\<exists>cs a. combine_heap CTX h d = Inr cs \<and> all_tokens CTX (cs_stat cs) d = Inr a \<and> r = dsr_code (cx_result CTX') \<and>
    (case cx_classification CTX of
       DSR_NONE \<Rightarrow> cx_result CTX' = (if voted_spam CTX (combined m CTX cs a) then DSR_ISSPAM else cx_result CTX)
     | DSR_ISSPAM \<Rightarrow> cx_result CTX' = DSR_ISSPAM \<and> cx_probability CTX' = Fin 1
     | DSR_ISINNOCENT \<Rightarrow> cx_result CTX' = DSR_ISINNOCENT \<and> cx_probability CTX' = Fin 0)"
proof -
  obtain cs a where ca: "combine_heap CTX h d = Inr cs" "all_tokens CTX (cs_stat cs) d = Inr a"
    and C: "CTX' = (let C1 = assign_probability (combined m CTX cs a) (decide (combined m CTX cs a) cs a CTX)
                    in C1\<lparr>cx_confidence := confidence_of (combined m CTX cs a) C1\<rparr>)" "r = dsr_code (cx_result CTX')"
    using assms by (auto simp: ds_calc_result_def cbind_Inr_iff Let_def)
  have res: "cx_result CTX' = cx_result (decide (combined m CTX cs a) cs a CTX)"
    by (simp add: C(1) Let_def assign_probability_def)
  have prob: "cx_classification CTX \<noteq> DSR_NONE \<Longrightarrow> cx_probability CTX' = (if cx_classification CTX = DSR_ISSPAM then Fin 1 else Fin 0)"
    by (cases "cx_classification CTX") (simp_all add: C(1) Let_def assign_probability_def decide_def feq_def DSP_UNCALCULATED_def)
  show ?thesis
    using ca C(2) res prob by (cases "cx_classification CTX") (auto simp: decide_result)
qed

theorem calc_result_verdict_witness:
  "\<exists>CTX' r. ds_calc_result \<lparr>c_exp = id, c_log = id, c_pow = (\<lambda>x _. x)\<rparr>
       (plain_ctx\<lparr>cx_algorithms := 0, cx_classification := DSR_ISSPAM\<rparr>) tiny_heap tiny_dict = Inr (CTX', r) \<and>
     cx_result CTX' = DSR_ISSPAM \<and> cx_probability CTX' = Fin 1"
proof -
  let ?C = "plain_ctx\<lparr>cx_algorithms := 0, cx_classification := DSR_ISSPAM\<rparr>" and ?m = "\<lparr>c_exp = id, c_log = id, c_pow = (\<lambda>x _. x)\<rparr>"
  obtain cs where "combine_heap ?C tiny_heap tiny_dict = Inr cs"
    using combine_heap_ok[OF tiny_dict_unit, of tiny_heap ?C] by (auto simp: tiny_heap_def)
  then obtain CTX' r where r: "ds_calc_result ?m ?C tiny_heap tiny_dict = Inr (CTX', r)"
    by (auto simp: ds_calc_result_def all_tokens_def has_def Let_def)
  then show ?thesis using calc_result_verdict[OF r] by auto
qed

lemma chi_put_nbay: "chi_put CTX t a0 = Inr a' \<Longrightarrow> as_nbay a' = as_nbay a0"
  by (auto simp: chi_put_def Let_def cbind_Inr_iff case_prod_unfold split: if_splits)

lemma all_step_naive:
  assumes "all_step CTX (Some s) a0 t = Inr a1" "has (cx_algorithms CTX) DSA_NAIVE" "tm_key t \<noteq> CONTROL_TOKEN"
  shows "\<exists>l. as_nbay a1 = bayes_mul (fcast S) (st_probability s) (as_nbay a0\<lparr>ac_factors := l\<rparr>)"
proof -
  obtain l where "(if has (cx_algorithms CTX) DSA_CHI_SQUARE
      then chi_put CTX t (a0\<lparr>as_nbay := bayes_mul (fcast S) (st_probability s) (as_nbay a0\<lparr>ac_factors := l\<rparr>)\<rparr>)
      else Inr (a0\<lparr>as_nbay := bayes_mul (fcast S) (st_probability s) (as_nbay a0\<lparr>ac_factors := l\<rparr>)\<rparr>)) = Inr a1"
    using assms by (auto simp: all_step_def naive_put_def bayes_put_def cbind_Inr_iff)
  then show ?thesis using chi_put_nbay by (intro exI[of _ l]) (fastforce split: if_splits)
qed

text \<open>
  The naive algorithm looks at one token only. However many terms the dictionary has and
  whatever their statistics, the naive product is the value of the token the loop over the
  heap saw last, multiplied with itself once per term.
\<close>

theorem naive_uses_one_token:
  assumes "all_tokens CTX (Some s) d = Inr a" "has (cx_algorithms CTX) DSA_NAIVE"
  defines "n \<equiv> length (filter (\<lambda>t. tm_key t \<noteq> CONTROL_TOKEN) (dict_terms d))"
  shows "bayes_share single_fmt (as_nbay a) =
    bayes_share single_fmt ((bayes_mul (fcast single_fmt) (st_probability s) ^^ n) bayes_new)"
proof -
  have loop: "ac_top (as_nbay a') = ac_top ((bayes_mul (fcast S) (st_probability s) ^^ length (filter (\<lambda>t. tm_key t \<noteq> CONTROL_TOKEN) ts)) b) \<and>
      ac_bot (as_nbay a') = ac_bot ((bayes_mul (fcast S) (st_probability s) ^^ length (filter (\<lambda>t. tm_key t \<noteq> CONTROL_TOKEN) ts)) b)"
    if "cfold (all_step CTX (Some s)) a0 ts = Inr a'"
      "ac_top (as_nbay a0) = ac_top b" "ac_bot (as_nbay a0) = ac_bot b" "ac_used (as_nbay a0) = ac_used b" for ts a0 a' b
    using that
  proof (induction ts arbitrary: a0 b)
    case (Cons t ts)
    then obtain a1 where a1: "all_step CTX (Some s) a0 t = Inr a1" "cfold (all_step CTX (Some s)) a1 ts = Inr a'"
      by (auto simp: cbind_Inr_iff)
    show ?case
    proof (cases "tm_key t = CONTROL_TOKEN")
      case True
      then show ?thesis using Cons.IH[OF a1(2), of b] Cons.prems a1(1) by (simp add: all_step_def)
    next
      case False
      then obtain l where "as_nbay a1 = bayes_mul (fcast S) (st_probability s) (as_nbay a0\<lparr>ac_factors := l\<rparr>)"
        using all_step_naive[OF a1(1) assms(2)] by blast
      then have "ac_top (as_nbay a1) = ac_top (bayes_mul (fcast S) (st_probability s) b)"
        "ac_bot (as_nbay a1) = ac_bot (bayes_mul (fcast S) (st_probability s) b)"
        "ac_used (as_nbay a1) = ac_used (bayes_mul (fcast S) (st_probability s) b)"
        using Cons.prems by (simp_all add: bayes_mul_def Let_def)
      from Cons.IH[OF a1(2) this] False show ?thesis by (simp add: funpow_swap1)
    qed
  qed simp
  have run: "cfold (all_step CTX (Some s)) all_new (dict_terms d) = Inr a"
    using assms(1,2) by (simp add: all_tokens_def)
  have "as_nbay all_new = bayes_new" by (simp add: all_new_def)
  with loop[OF run, of bayes_new] have "ac_top (as_nbay a) = ac_top ((bayes_mul (fcast S) (st_probability s) ^^ n) bayes_new)"
    "ac_bot (as_nbay a) = ac_bot ((bayes_mul (fcast S) (st_probability s) ^^ n) bayes_new)"
    unfolding n_def by auto
  then show ?thesis unfolding bayes_share_def by simp
qed

theorem naive_uses_one_token_witness:
  "\<exists>a. all_tokens (plain_ctx\<lparr>cx_algorithms := DSA_NAIVE\<rparr>) (Some zero_stat) tiny_dict = Inr a \<and>
     bayes_share single_fmt (as_nbay a) = bayes_share single_fmt (bayes_mul (fcast single_fmt) (Fin 0) bayes_new)"
proof -
  have n: "\<not> has DSA_NAIVE DSA_CHI_SQUARE" "has DSA_NAIVE DSA_NAIVE"
    by (simp_all add: has_def DSA_NAIVE_def DSA_CHI_SQUARE_def)
  then obtain a where a: "all_tokens (plain_ctx\<lparr>cx_algorithms := DSA_NAIVE\<rparr>) (Some zero_stat) tiny_dict = Inr a"
    by (simp add: all_tokens_def dict_terms_def tiny_dict_def all_step_def CONTROL_TOKEN_def naive_put_def bayes_put_def
        all_new_def bayes_new_def ds_factor_def nt_add_ok)
  then show ?thesis
    using naive_uses_one_token[OF a] n(2) by (auto simp: dict_terms_def tiny_dict_def CONTROL_TOKEN_def zero_stat_def)
qed

end
