(* ===== verification/Ds_Base64.thy ===== *)
theory Ds_Base64
  imports Dspam_Prelude
begin

text \<open>
  base64.c: the base64 decoder and encoder. Strings are the characters before the NUL. The
  accumulator \<^verbatim>\<open>bits\<close> is an int whose shifts are products and floor divisions; an index into
  one of the tables that is negative or too large is a fault, and so is an output that does
  not fit the memory allocated for it. Both routines write their output from left to right
  and keep it terminated, so the last byte they touch is the terminator of the result.
\<close>

section \<open>The alphabet\<close>

definition b64_alphabet :: string where
  "b64_alphabet = ''ABCDEFGHIJKLMNOPQRSTUVWXYZabcdefghijklmnopqrstuvwxyz0123456789+/''"

definition b64_char :: "int \<Rightarrow> char cres" where
  "b64_char i = (if 0 \<le> i \<and> i < 64 then Inr (b64_alphabet ! nat i) else Inl OutOfBounds)"

definition b64_decoder :: "char \<Rightarrow> int" where
  "b64_decoder c = int (length (takeWhile (\<lambda>a. a \<noteq> c) b64_alphabet))"

section \<open>Decoding\<close>

definition byte :: "int \<Rightarrow> char" where
  "byte i = char_of i"

definition b64_tail :: "int \<Rightarrow> nat \<Rightarrow> string" where
  "b64_tail bits char_count =
     (if char_count = 2 then [byte (bits div 2 ^ 10)]
      else if char_count = 3 then [byte (bits div 2 ^ 16), byte (bits div 2 ^ 8)]
      else [])"

fun b64_decode_loop :: "int \<Rightarrow> nat \<Rightarrow> string \<Rightarrow> string cres" where
  "b64_decode_loop bits char_count [] = Inr []"
| "b64_decode_loop bits char_count (c # cs) =
     (if c = CHR ''='' then Inr (b64_tail bits char_count)
      else if schar c < 0 then Inl OutOfBounds
      else if c \<notin> set b64_alphabet then b64_decode_loop bits char_count cs
      else
        (let bits = bits + b64_decoder c; char_count = Suc char_count in
         if char_count = 4
         then cbind (b64_decode_loop 0 0 cs) (\<lambda>r.
           Inr (byte (bits div 2 ^ 16) # byte (bits div 2 ^ 8) # byte bits # r))
         else b64_decode_loop (bits * 2 ^ 6) char_count cs))"

text \<open>
  The final newline goes to the end of the C string, that is to the first NUL the decoded
  data contains.
\<close>

definition base64decode :: "string \<Rightarrow> string cres" where
  "base64decode buf =
     cbind (b64_decode_loop 0 0 buf) (\<lambda>decoded.
       let str = takeWhile (\<lambda>c. c \<noteq> CHR 0x00) decoded;
           res = (if str \<noteq> [] \<and> last str \<noteq> CHR 0x0A then str @ [CHR 0x0A] else str)
       in if max (length decoded) (length res) < length buf * 2 + 2 then Inr res else Inl OutOfBounds)"

section \<open>Encoding\<close>

definition b64_quad :: "int \<Rightarrow> string cres" where
  "b64_quad bits =
     cbind (b64_char (bits div 2 ^ 18)) (\<lambda>a.
     cbind (b64_char (bits div 2 ^ 12 mod 64)) (\<lambda>b.
     cbind (b64_char (bits div 2 ^ 6 mod 64)) (\<lambda>c.
     cbind (b64_char (bits mod 64)) (\<lambda>d. Inr [a, b, c, d]))))"

definition b64_end :: "int \<Rightarrow> nat \<Rightarrow> nat \<Rightarrow> string cres" where
  "b64_end bits char_count cols =
     (if char_count = 0 then Inr []
      else (let bits = bits * 2 ^ (16 - 8 * char_count);
                nl = (if cols > 0 then [CHR 0x0A] else [])
            in cbind (b64_char (bits div 2 ^ 18)) (\<lambda>a.
               cbind (b64_char (bits div 2 ^ 12 mod 64)) (\<lambda>b.
                 if char_count = 1 then Inr ([a, b] @ ''=='' @ nl)
                 else cbind (b64_char (bits div 2 ^ 6 mod 64)) (\<lambda>c. Inr ([a, b, c] @ ''='' @ nl))))))"

fun b64_encode_loop :: "int \<Rightarrow> nat \<Rightarrow> nat \<Rightarrow> string \<Rightarrow> string cres" where
  "b64_encode_loop bits char_count cols [] = b64_end bits char_count cols"
| "b64_encode_loop bits char_count cols (c # cs) =
     (let bits = bits + schar c; char_count = Suc char_count in
      if char_count = 3 then
        cbind (b64_quad bits) (\<lambda>q.
          if cols + 4 = 72
          then cbind (b64_encode_loop 0 0 0 cs) (\<lambda>r. Inr (q @ CHR 0x0A # r))
          else cbind (b64_encode_loop 0 0 (cols + 4) cs) (\<lambda>r. Inr (q @ r)))
      else b64_encode_loop (bits * 2 ^ 8) char_count cols cs)"

definition base64encode :: "string \<Rightarrow> string cres" where
  "base64encode buf =
     cbind (b64_encode_loop 0 0 0 buf) (\<lambda>out.
       let res = (if out = [] \<or> last out \<noteq> CHR 0x0A then out @ [CHR 0x0A] else out)
       in if length res < length buf * 2 then Inr res else Inl OutOfBounds)"

section \<open>Groups\<close>

definition ascii :: "char \<Rightarrow> bool" where
  "ascii c \<longleftrightarrow> of_char c < (128::int) \<and> c \<noteq> CHR 0x00"

lemma schar_ascii: "ascii c \<Longrightarrow> 0 \<le> schar c \<and> schar c < 128"
  by (simp add: ascii_def schar_def of_char_def)

lemma byte_schar: "ascii c \<Longrightarrow> byte (schar c) = c"
  by (simp add: byte_def schar_def ascii_def)

lemma shift8: "0 \<le> c \<Longrightarrow> c < 256 \<Longrightarrow> (p * 2 ^ 8 + c) div 2 ^ 8 = (p::int)"
  by simp

lemma byte_cong: "i mod 256 = j mod 256 \<Longrightarrow> byte i = byte j"
  by (simp add: byte_def)

lemma alphabet_ok:
  "\<forall>i\<in>set [0..<64]. b64_alphabet ! i \<in> set b64_alphabet \<and> b64_decoder (b64_alphabet ! i) = int i \<and>
     b64_alphabet ! i \<noteq> CHR ''='' \<and> 0 \<le> schar (b64_alphabet ! i) \<and> b64_alphabet ! i \<noteq> CHR 0x0A"
  by code_simp

lemma newline_skipped: "schar (CHR 0x0A) \<ge> 0" "CHR 0x0A \<notin> set b64_alphabet"
  by code_simp+

lemma decode_newline [simp]: "b64_decode_loop bits n (CHR 0x0A # cs) = b64_decode_loop bits n cs"
  using newline_skipped by simp

text \<open>What the decoder does with a character that encodes the sextet \<open>i\<close>.\<close>

definition decodes_to :: "char \<Rightarrow> int \<Rightarrow> bool" where
  "decodes_to a i \<longleftrightarrow> (\<forall>bits n cs. b64_decode_loop bits n (a # cs) =
     (if n = 3 then cbind (b64_decode_loop 0 0 cs) (\<lambda>r.
        Inr (byte ((bits + i) div 2 ^ 16) # byte ((bits + i) div 2 ^ 8) # byte (bits + i) # r))
      else b64_decode_loop ((bits + i) * 2 ^ 6) (Suc n) cs))"

lemma b64_char_ok:
  assumes "0 \<le> i" "i < 64"
  shows "\<exists>a. b64_char i = Inr a \<and> a \<noteq> CHR 0x0A \<and> decodes_to a i"
proof -
  have "nat i \<in> set [0..<64]" "int (nat i) = i" using assms by auto
  then have "b64_alphabet ! nat i \<in> set b64_alphabet" "b64_decoder (b64_alphabet ! nat i) = i"
    "b64_alphabet ! nat i \<noteq> CHR ''=''" "0 \<le> schar (b64_alphabet ! nat i)" "b64_alphabet ! nat i \<noteq> CHR 0x0A"
    using alphabet_ok by metis+
  then show ?thesis using assms by (simp add: b64_char_def decodes_to_def Let_def)
qed

lemma sextet_ok: "\<exists>a. b64_char (i mod 64) = Inr a \<and> a \<noteq> CHR 0x0A \<and> decodes_to a (i mod 64)"
  by (rule b64_char_ok) simp_all

lemma regroup:
  fixes b :: int
  shows "((b div 2 ^ 18 * 2 ^ 6 + b div 2 ^ 12 mod 64) * 2 ^ 6 + b div 2 ^ 6 mod 64) * 2 ^ 6 + b mod 64 = b"
proof -
  have "b div 2 ^ 18 = b div 64 div 64 div 64" "b div 2 ^ 12 = b div 64 div 64" "b div 2 ^ 6 = b div 64"
    by (simp_all add: zdiv_zmult2_eq[symmetric])
  then show ?thesis by simp
qed

lemma b64_quad_ok:
  assumes "0 \<le> bits" "bits < 2 ^ 24"
  shows "\<exists>q. b64_quad bits = Inr q \<and> length q = 4 \<and> last q \<noteq> CHR 0x0A \<and>
    (\<forall>rest. b64_decode_loop 0 0 (q @ rest) = cbind (b64_decode_loop 0 0 rest) (\<lambda>r.
       Inr (byte (bits div 2 ^ 16) # byte (bits div 2 ^ 8) # byte bits # r)))"
proof -
  have r1: "0 \<le> bits div 2 ^ 18" "bits div 2 ^ 18 < 64" using assms by auto
  obtain a b c d where abcd: "b64_char (bits div 2 ^ 18) = Inr a" "decodes_to a (bits div 2 ^ 18)"
    "b64_char (bits div 2 ^ 12 mod 64) = Inr b" "decodes_to b (bits div 2 ^ 12 mod 64)"
    "b64_char (bits div 2 ^ 6 mod 64) = Inr c" "decodes_to c (bits div 2 ^ 6 mod 64)"
    "b64_char (bits mod 64) = Inr d" "decodes_to d (bits mod 64)" "d \<noteq> CHR 0x0A"
    using b64_char_ok[OF r1] sextet_ok by meson
  have "b64_decode_loop 0 0 ([a, b, c, d] @ rest) = cbind (b64_decode_loop 0 0 rest) (\<lambda>r.
      Inr (byte (bits div 2 ^ 16) # byte (bits div 2 ^ 8) # byte bits # r))" for rest
    using abcd(2,4,6,8) regroup[of bits] by (simp add: decodes_to_def)
  moreover have "b64_quad bits = Inr [a, b, c, d]"
    unfolding b64_quad_def abcd cbind.simps by simp
  ultimately show ?thesis using abcd(9) by (intro exI[of _ "[a, b, c, d]"]) simp
qed

lemma b64_end_ok:
  assumes "0 \<le> bits * 2 ^ (16 - 8 * n)" "bits * 2 ^ (16 - 8 * n) < 2 ^ 24" "n = 1 \<or> n = 2"
  shows "\<exists>e. b64_end bits n cols = Inr e \<and> length e = 4 + (if cols > 0 then 1 else 0) \<and>
    (last e = CHR 0x0A \<longleftrightarrow> cols > 0) \<and>
    (\<forall>rest. b64_decode_loop 0 0 (e @ rest) =
       Inr (if n = 1 then [byte (bits * 2 ^ 8 div 2 ^ 16)] else [byte (bits div 2 ^ 16), byte (bits div 2 ^ 8 mod 256)]))"
proof -
  define b where "b = bits * 2 ^ (16 - 8 * n)"
  have r1: "0 \<le> b div 2 ^ 18" "b div 2 ^ 18 < 64" using assms by (auto simp: b_def)
  obtain x y z where xyz: "b64_char (b div 2 ^ 18) = Inr x" "decodes_to x (b div 2 ^ 18)"
    "b64_char (b div 2 ^ 12 mod 64) = Inr y" "decodes_to y (b div 2 ^ 12 mod 64)"
    "b64_char (b div 2 ^ 6 mod 64) = Inr z" "decodes_to z (b div 2 ^ 6 mod 64)"
    using b64_char_ok[OF r1] sextet_ok by meson
  have t: "b div 2 ^ 18 * 2 ^ 6 + b div 2 ^ 12 mod 64 = b div 2 ^ 12"
    "b div 2 ^ 12 * 2 ^ 6 + b div 2 ^ 6 mod 64 = b div 2 ^ 6"
    using div_mult_mod_eq[of "b div 2 ^ 12" 64] div_mult_mod_eq[of "b div 2 ^ 6" 64]
    by (simp_all add: zdiv_zmult2_eq[symmetric])
  have g: "b div 2 ^ 12 * 2 ^ 6 div 2 ^ 10 = b div 2 ^ 16" "b div 2 ^ 6 * 2 ^ 6 div 2 ^ 16 = b div 2 ^ 16"
    "b div 2 ^ 6 * 2 ^ 6 div 2 ^ 8 = b div 2 ^ 8"
  proof -
    have "b div 2 ^ 12 * 2 ^ 6 div 2 ^ 10 = b div 2 ^ 12 div 2 ^ 4"
      using div_mult_mult2[of "2 ^ 6" "b div 2 ^ 12" "2 ^ 4"] by simp
    moreover have "b div 2 ^ 6 * 2 ^ 6 div 2 ^ 16 = b div 2 ^ 6 div 2 ^ 10"
      using div_mult_mult2[of "2 ^ 6" "b div 2 ^ 6" "2 ^ 10"] by simp
    moreover have "b div 2 ^ 6 * 2 ^ 6 div 2 ^ 8 = b div 2 ^ 6 div 2 ^ 2"
      using div_mult_mult2[of "2 ^ 6" "b div 2 ^ 6" "2 ^ 2"] by simp
    ultimately show "b div 2 ^ 12 * 2 ^ 6 div 2 ^ 10 = b div 2 ^ 16" "b div 2 ^ 6 * 2 ^ 6 div 2 ^ 16 = b div 2 ^ 16"
      "b div 2 ^ 6 * 2 ^ 6 div 2 ^ 8 = b div 2 ^ 8" by (simp_all add: zdiv_zmult2_eq[symmetric])
  qed
  have d2: "b64_decode_loop 0 0 (x # y # rest) = b64_decode_loop (b div 2 ^ 12 * 2 ^ 6) 2 rest" for rest
    using xyz(2,4) t(1) by (simp add: decodes_to_def numeral_2_eq_2)
  have d3: "b64_decode_loop 0 0 (x # y # z # rest) = b64_decode_loop (b div 2 ^ 6 * 2 ^ 6) 3 rest" for rest
    unfolding d2 using xyz(6) t(2) by (simp add: decodes_to_def numeral_3_eq_3)
  show ?thesis
  proof (cases "n = 1")
    case True
    then have "b64_end bits n cols = Inr ([x, y] @ ''=='' @ (if cols > 0 then [CHR 0x0A] else []))"
      using xyz(1,3) by (simp add: b64_end_def b_def)
    then show ?thesis using d2 g(1) True by (auto simp: b64_tail_def b_def)
  next
    case False
    then have n: "n = 2" using assms(3) by simp
    then have "b64_end bits n cols = Inr ([x, y, z] @ ''='' @ (if cols > 0 then [CHR 0x0A] else []))"
      using xyz(1,3,5) by (simp add: b64_end_def b_def)
    then show ?thesis using d3 g(2,3) n by (auto simp: b64_tail_def b_def byte_def)
  qed
qed

section \<open>Round trip\<close>

definition b64_line :: "string \<Rightarrow> string" where
  "b64_line out = (if out = [] \<or> last out \<noteq> CHR 0x0A then out @ [CHR 0x0A] else out)"

lemma group_bytes:
  assumes "ascii a" "ascii b" "ascii c"
  defines "x \<equiv> ((schar a * 2 ^ 8 + schar b) * 2 ^ 8 + schar c :: int)"
  shows "0 \<le> x" "x < 2 ^ 24" "byte (x div 2 ^ 16) = a" "byte (x div 2 ^ 8) = b" "byte x = c"
proof -
  note r = schar_ascii[OF assms(1)] schar_ascii[OF assms(2)] schar_ascii[OF assms(3)]
  have d: "x div 2 ^ 8 = schar a * 2 ^ 8 + schar b" unfolding x_def using r by (intro shift8) auto
  have "x div 2 ^ 16 = x div 2 ^ 8 div 2 ^ 8" by (simp add: zdiv_zmult2_eq[symmetric])
  then have e: "x div 2 ^ 16 = schar a" unfolding d using r shift8[of "schar b" "schar a"] by simp
  show "0 \<le> x" "x < 2 ^ 24" using r by (simp_all add: x_def)
  show "byte (x div 2 ^ 16) = a" using e byte_schar assms by simp
  have m: "byte (p * 2 ^ 8 + i) = byte i" for p i :: int by (intro byte_cong) simp
  show "byte (x div 2 ^ 8) = b" unfolding d m using byte_schar assms(2) by simp
  show "byte x = c" unfolding x_def m using byte_schar assms(3) by simp
qed

lemma encode_loop_ok:
  assumes "\<forall>c\<in>set s. ascii c"
  shows "\<exists>e nl. b64_encode_loop 0 0 cols s = Inr e \<and>
    (\<forall>rest. b64_decode_loop 0 0 (e @ rest) =
       (if length s mod 3 = 0 then cbind (b64_decode_loop 0 0 rest) (\<lambda>r. Inr (s @ r)) else Inr s)) \<and>
    72 * nl \<le> cols + 4 * (length s div 3) \<and>
    4 * ((length s + 2) div 3) + 1 \<le> length (b64_line e) \<and>
    length (b64_line e) \<le> 4 * ((length s + 2) div 3) + nl + 1"
  using assms
proof (induction "length s" arbitrary: s cols rule: less_induct)
  case less
  consider "s = []" | a where "s = [a]" | a b where "s = [a, b]" | a b c cs where "s = a # b # c # cs"
    by (metis remdups_adj.cases)
  then show ?case
  proof cases
    case 1
    have "cbind m Inr = m" for m :: "string cres" by (cases m) auto
    then show ?thesis using 1 by (intro exI[of _ "[]"] exI[of _ 0]) (simp add: b64_end_def b64_line_def)
  next
    case (2 a)
    then have r: "0 \<le> schar a" "schar a < 128" using schar_ascii less.prems by auto
    obtain e where "b64_end (schar a * 2 ^ 8) 1 cols = Inr e" "length e = 4 + (if cols > 0 then 1 else 0)"
      "last e = CHR 0x0A \<longleftrightarrow> cols > 0" "\<And>rest. b64_decode_loop 0 0 (e @ rest) = Inr [byte (schar a)]"
      using b64_end_ok[of "schar a * 2 ^ 8" 1 cols] r by auto
    then show ?thesis using 2 byte_schar less.prems
      by (intro exI[of _ e] exI[of _ 0]) (auto simp: b64_line_def)
  next
    case (3 a b)
    then have r: "0 \<le> schar a" "schar a < 128" "0 \<le> schar b" "schar b < 128"
      using schar_ascii less.prems by auto
    define x where "x = (schar a * 2 ^ 8 + schar b) * 2 ^ 8"
    have "0 \<le> x" "x < 2 ^ 24" "x div 2 ^ 16 = schar a" "x div 2 ^ 8 mod 256 = schar b"
      using r by (simp_all add: x_def zdiv_zmult2_eq[of _ 256 256, simplified])
    moreover from calculation obtain e where "b64_end x 2 cols = Inr e" "length e = 4 + (if cols > 0 then 1 else 0)"
      "last e = CHR 0x0A \<longleftrightarrow> cols > 0"
      "\<And>rest. b64_decode_loop 0 0 (e @ rest) = Inr [byte (schar a), byte (schar b)]"
      using b64_end_ok[of x 2 cols] by auto
    ultimately show ?thesis using 3 byte_schar less.prems
      by (intro exI[of _ e] exI[of _ 0]) (auto simp: b64_line_def x_def numeral_2_eq_2)
  next
    case (4 a b c cs)
    define x where "x = (schar a * 2 ^ 8 + schar b) * 2 ^ 8 + schar c"
    note g = group_bytes[of a b c, folded x_def]
    have asc: "ascii a" "ascii b" "ascii c" using 4 less.prems by auto
    obtain q where q: "b64_quad x = Inr q" "length q = 4" "last q \<noteq> CHR 0x0A"
      "\<And>rest. b64_decode_loop 0 0 (q @ rest) = cbind (b64_decode_loop 0 0 rest) (\<lambda>r. Inr (a # b # c # r))"
      using b64_quad_ok[OF g(1,2)[OF asc]] g(3-5)[OF asc] by auto
    define cols' where "cols' = (if cols + 4 = 72 then 0 else cols + 4)"
    obtain e nl where e: "b64_encode_loop 0 0 cols' cs = Inr e"
      "\<And>rest. b64_decode_loop 0 0 (e @ rest) =
         (if length cs mod 3 = 0 then cbind (b64_decode_loop 0 0 rest) (\<lambda>r. Inr (cs @ r)) else Inr cs)"
      "72 * nl \<le> cols' + 4 * (length cs div 3)" "4 * ((length cs + 2) div 3) + 1 \<le> length (b64_line e)"
      "length (b64_line e) \<le> 4 * ((length cs + 2) div 3) + nl + 1"
      using less.hyps[of cs cols'] less.prems 4 by auto
    define mid where "mid = (if cols + 4 = 72 then [CHR 0x0A] else [])"
    have enc: "b64_encode_loop 0 0 cols s = Inr (q @ mid @ e)"
      using q(1) e(1) 4 by (simp add: x_def cols'_def mid_def numeral_3_eq_3 split: if_splits)
    have "b64_decode_loop 0 0 ((q @ mid @ e) @ rest) =
        cbind (b64_decode_loop 0 0 (e @ rest)) (\<lambda>r. Inr (a # b # c # r))" for rest
      using q(4) by (simp add: mid_def del: b64_decode_loop.simps)
    moreover have "cbind (cbind m (\<lambda>r. Inr (cs @ r))) (\<lambda>r. Inr (a # b # c # r)) =
        cbind m (\<lambda>r. Inr (s @ r))" for m :: "string cres" by (cases m) (simp_all add: 4)
    moreover have "length (b64_line (q @ mid @ e)) \<le> 4 + length mid + length (b64_line e)"
      "4 + length (b64_line e) \<le> length (b64_line (q @ mid @ e))"
      using q(2,3) by (cases "e = []"; auto simp: b64_line_def mid_def split: if_splits)+
    moreover have "length s mod 3 = length cs mod 3" "length s div 3 = Suc (length cs div 3)"
      "(length s + 2) div 3 = Suc ((length cs + 2) div 3)" using 4 by simp_all
    ultimately show ?thesis using enc e
      by (intro exI[of _ "q @ mid @ e"] exI[of _ "nl + length mid"])
         (auto simp: 4 mid_def cols'_def split: if_splits)
  qed
qed

section \<open>Properties\<close>

text \<open>
  C29. Base64 round trip. A non-empty text of 7-bit characters that is encoded without a
  fault is decoded to itself, with a newline added at the end if it has none; and the encoder
  writes beyond the memory it allocated exactly for the lengths 0, 1, 2 and 4.
\<close>

theorem base64_roundtrip:
  assumes "\<forall>c\<in>set s. ascii c"
  shows "if length s \<in> {0, 1, 2, 4} then base64encode s = Inl OutOfBounds
    else \<exists>e. base64encode s = Inr e \<and> base64decode e = Inr (b64_line s)"
proof -
  obtain e nl where e: "b64_encode_loop 0 0 0 s = Inr e"
    "\<And>rest. b64_decode_loop 0 0 (e @ rest) =
       (if length s mod 3 = 0 then cbind (b64_decode_loop 0 0 rest) (\<lambda>r. Inr (s @ r)) else Inr s)"
    "72 * nl \<le> 4 * (length s div 3)" "4 * ((length s + 2) div 3) + 1 \<le> length (b64_line e)"
    "length (b64_line e) \<le> 4 * ((length s + 2) div 3) + nl + 1"
    using encode_loop_ok[OF assms, of 0] by auto
  have enc: "base64encode s = (if length (b64_line e) < length s * 2 then Inr (b64_line e) else Inl OutOfBounds)"
    by (simp add: base64encode_def e(1) b64_line_def)
  show ?thesis
  proof (cases "length s \<in> {0, 1, 2, 4}")
    case True
    then have "\<not> length (b64_line e) < length s * 2" using e(4) by auto
    then show ?thesis using True enc by simp
  next
    case False
    define g where "g = length s div 3"
    have "length s = 3 * g + length s mod 3" "length s mod 3 < 3" by (simp_all add: g_def)
    then consider "length s = 3 * g" | "length s = 3 * g + 1" | "length s = 3 * g + 2" by linarith
    moreover have "(3 * g + 2) div 3 = g" by simp
    ultimately have fits: "length (b64_line e) < length s * 2"
      using e(3,5) False by cases (auto simp: g_def[symmetric])
    have "b64_line e = e @ [] \<or> b64_line e = e @ [CHR 0x0A]" by (simp add: b64_line_def)
    then have "b64_decode_loop 0 0 (b64_line e) = Inr s" using e(2)[of "[]"] e(2)[of "[CHR 0x0A]"]
      by (auto simp del: b64_decode_loop.simps simp: b64_decode_loop.simps(1))
    moreover have tw: "takeWhile (\<lambda>c. c \<noteq> CHR 0x00) s = s" "s \<noteq> []"
      using assms False by (auto simp: takeWhile_eq_all_conv ascii_def)
    moreover have "length (b64_line s) \<le> length s + 1" "length s \<le> length (b64_line e) * 2"
      using e(4) by (auto simp: b64_line_def)
    moreover have "(if s \<noteq> [] \<and> last s \<noteq> CHR 0x0A then s @ [CHR 0x0A] else s) = b64_line s"
      using tw(2) by (simp add: b64_line_def)
    ultimately have "base64decode (b64_line e) = Inr (b64_line s)"
      unfolding base64decode_def by (simp only: cbind.simps Let_def tw(1)) simp
    then show ?thesis using False enc fits by simp
  qed
qed

theorem base64_roundtrip_witness:
  "\<exists>e. base64encode ''Hello world'' = Inr e \<and> base64decode e = Inr (''Hello world'' @ [CHR 0x0A])"
proof -
  have "\<forall>c\<in>set ''Hello world''. ascii c" by (simp add: ascii_def)
  from base64_roundtrip[OF this] show ?thesis by (simp add: b64_line_def)
qed

text \<open>
  Bytes from 128 on are outside what either routine handles: as the first of a group of
  three the encoder uses it as a negative index into the alphabet, and the decoder uses it as
  a negative index into its table wherever it occurs before the end.
\<close>

theorem base64_8bit_faults:
  assumes "schar c < 0" "CHR ''='' \<notin> set xs" "\<forall>x\<in>set xs. 0 \<le> schar x"
  shows "base64decode (xs @ c # ys) = Inl OutOfBounds \<and> base64encode (c # a # b # ys) = Inl OutOfBounds"
proof
  have "c \<noteq> CHR ''=''" using assms(1) by (auto simp: schar_def)
  then have "b64_decode_loop bits n (xs @ c # ys) = Inl OutOfBounds" for bits n
    using assms(2,3) by (induction xs arbitrary: bits n) (auto simp: assms(1) Let_def)
  then show "base64decode (xs @ c # ys) = Inl OutOfBounds" by (simp add: base64decode_def)
  define x where "x = (schar c * 2 ^ 8 + schar a) * 2 ^ 8 + schar b"
  have lt: "of_char z < (256::int)" for z by (metis of_char_mod_256 pos_mod_bound zero_less_numeral)
  have "schar z < 128" for z using lt[of z] by (simp add: schar_def)
  from this[of a] this[of b] have "x < 0" using assms(1) by (simp add: x_def)
  then have "x div 2 ^ 18 < 0" by (simp add: neg_imp_zdiv_neg_iff)
  then have "b64_char (x div 2 ^ 18) = Inl OutOfBounds" by (simp add: b64_char_def)
  then have "b64_quad x = Inl OutOfBounds" by (simp add: b64_quad_def)
  then show "base64encode (c # a # b # ys) = Inl OutOfBounds"
    by (simp add: base64encode_def x_def numeral_3_eq_3)
qed

theorem base64_8bit_faults_witness:
  "base64decode [CHR ''Q'', CHR 0xE9] = Inl OutOfBounds \<and>
   base64encode [CHR 0xE9, CHR ''t'', CHR ''e''] = Inl OutOfBounds"
  using base64_8bit_faults[of "CHR 0xE9" "[CHR ''Q'']" "[]" "CHR ''t''" "CHR ''e''"] by (simp add: schar_def)

end
