(* ===== verification/Ds_Decode.thy ===== *)
theory Ds_Decode
  imports Ds_Base64 Ds_Config Ds_Nodetree
begin

text \<open>
  decode.c: parsing a message into parts with headers and bodies, decoding and encoding of
  blocks, and the assembly of a message from its parts. A nodetree of headers or parts is the
  list of its items, which C code changes in place; buffers and strings are their characters.
  The pointer to the current heading is a position, which may be one in an earlier part.
\<close>

section \<open>Data\<close>

datatype encoding = EN_7BIT | EN_8BIT | EN_QUOTED_PRINTABLE | EN_BASE64 | EN_BINARY | EN_UNKNOWN | EN_OTHER

datatype media_type = MT_TEXT | MT_MULTIPART | MT_MESSAGE | MT_APPLICATION | MT_UNKNOWN | MT_OTHER

datatype media_subtype = MST_PLAIN | MST_HTML | MST_MIXED | MST_ALTERNATIVE | MST_RFC822 | MST_DSPAM_SIGNATURE
  | MST_SIGNED | MST_INOCULATION | MST_ENCRYPTED | MST_UNKNOWN | MST_OTHER

datatype content_disposition = PCD_INLINE | PCD_ATTACHMENT | PCD_UNKNOWN | PCD_OTHER

record ds_header =
  hf_heading :: string
  hf_data :: string
  hf_original_data :: "string option"
  hf_concatenated_data :: string

record ds_message_part =
  mp_headers :: "ds_header list"
  mp_body :: string
  mp_original_signed_body :: "string option"
  mp_boundary :: "string option"
  mp_terminating_boundary :: "string option"
  mp_encoding :: encoding
  mp_original_encoding :: encoding
  mp_media_type :: media_type
  mp_media_subtype :: media_subtype
  mp_content_disposition :: content_disposition

record ds_message =
  ms_components :: "ds_message_part list"
  ms_protect :: bool

definition ds_create_message_part :: ds_message_part where
  "ds_create_message_part =
     \<lparr>mp_headers = [], mp_body = [], mp_original_signed_body = None, mp_boundary = None, mp_terminating_boundary = None,
      mp_encoding = EN_UNKNOWN, mp_original_encoding = EN_UNKNOWN, mp_media_type = MT_TEXT, mp_media_subtype = MST_PLAIN,
      mp_content_disposition = PCD_UNKNOWN\<rparr>"

text \<open>The field of a header line; without a colon its data is empty.\<close>

definition blank :: "char \<Rightarrow> bool" where
  "blank c \<longleftrightarrow> c = CHR '' '' \<or> c = CHR 0x09"

definition ds_create_header_field :: "string \<Rightarrow> ds_header" where
  "ds_create_header_field line =
     (let (name, rest) = the (strsep (Some line) '':'');
          data = (case rest of None \<Rightarrow> [] | Some s \<Rightarrow> dropWhile blank s)
      in \<lparr>hf_heading = name, hf_data = data, hf_original_data = None, hf_concatenated_data = data\<rparr>)"

text \<open>\<^verbatim>\<open>strncasecmp (s, p, strlen (p)) == 0\<close>.\<close>

definition case_prefix :: "string \<Rightarrow> string \<Rightarrow> bool" where
  "case_prefix p s \<longleftrightarrow> strcaseeq (take (length p) s) p"

section \<open>Decoding and encoding of text\<close>

definition c_isxdigit :: "char \<Rightarrow> bool" where
  "c_isxdigit c \<longleftrightarrow> (let n = of_char c :: nat in 48 \<le> n \<and> n \<le> 57 \<or> 65 \<le> n \<and> n \<le> 70 \<or> 97 \<le> n \<and> n \<le> 102)"

definition ds_hex2dec :: "char \<Rightarrow> int" where
  "ds_hex2dec c =
     (let n = of_char c :: int in
      if 48 \<le> n \<and> n \<le> 57 then n - 48
      else if 65 \<le> n \<and> n \<le> 70 then n - 55
      else if 97 \<le> n \<and> n \<le> 102 then n - 87 else - 1)"

definition hex_byte :: "char \<Rightarrow> char \<Rightarrow> char" where
  "hex_byte a b = byte (ds_hex2dec a * 16 + ds_hex2dec b)"

definition hex_pair :: "string \<Rightarrow> bool" where
  "hex_pair s \<longleftrightarrow> 2 \<le> length s \<and> c_isxdigit (s ! 0) \<and> c_isxdigit (s ! 1)"

function quoted_loop :: "string \<Rightarrow> string" where
  "quoted_loop [] = []"
| "quoted_loop (c # cs) =
     (if c = CHR ''='' then
        if take 2 cs = [CHR 0x0D, CHR 0x0A] then quoted_loop (drop 2 cs)
        else if take 1 cs = [CHR 0x0A] then quoted_loop (drop 1 cs)
        else if hex_pair cs then hex_byte (cs ! 0) (cs ! 1) # quoted_loop (drop 2 cs)
        else c # quoted_loop cs
      else c # quoted_loop cs)"
  by pat_completeness auto
termination by (relation "measure length") auto

function hex8bit_loop :: "string \<Rightarrow> string" where
  "hex8bit_loop [] = []"
| "hex8bit_loop (c # cs) =
     (if c = CHR ''%'' \<and> hex_pair cs then hex_byte (cs ! 0) (cs ! 1) # hex8bit_loop (drop 2 cs)
      else c # hex8bit_loop cs)"
  by pat_completeness auto
termination by (relation "measure length") auto

text \<open>The result as a C string ends at the first NUL that was decoded.\<close>

definition c_str :: "string \<Rightarrow> string" where
  "c_str s = takeWhile (\<lambda>c. c \<noteq> CHR 0x00) s"

definition ds_decode_quoted :: "string \<Rightarrow> string" where
  "ds_decode_quoted body = c_str (quoted_loop body)"

definition ds_decode_hex8bit :: "string \<Rightarrow> string" where
  "ds_decode_hex8bit body = c_str (hex8bit_loop body)"

definition ds_decode_base64 :: "string \<Rightarrow> string cres" where
  "ds_decode_base64 body = base64decode body"

definition ds_encode_base64 :: "string \<Rightarrow> string cres" where
  "ds_encode_base64 body = base64encode body"

definition ds_decode_block :: "ds_message_part \<Rightarrow> string option cres" where
  "ds_decode_block block =
     (if mp_encoding block = EN_BASE64 then cbind (ds_decode_base64 (mp_body block)) (\<lambda>s. Inr (Some s))
      else if mp_encoding block = EN_QUOTED_PRINTABLE then Inr (Some (ds_decode_quoted (mp_body block)))
      else Inr None)"

definition ds_encode_block :: "ds_message_part \<Rightarrow> encoding \<Rightarrow> (ds_message_part \<times> int) cres" where
  "ds_encode_block block enc =
     (if mp_encoding block = enc then Inr (block, EINVAL)
      else if mp_encoding block = EN_BASE64 \<or> mp_encoding block = EN_QUOTED_PRINTABLE then Inr (block, EFAILURE)
      else if enc = EN_BASE64
      then cbind (ds_encode_base64 (mp_body block)) (\<lambda>s. Inr (block\<lparr>mp_body := s, mp_encoding := EN_BASE64\<rparr>, 0))
      else Inr (block, 0))"

section \<open>Boundaries\<close>

definition ds_push_boundary :: "bool \<Rightarrow> string nt \<Rightarrow> string \<Rightarrow> (string nt \<times> int) cres" where
  "ds_push_boundary alloc stack boundary =
     (if boundary = [] then Inr (stack, EINVAL)
      else if \<not> alloc then Inr (stack, EUNKNOWN)
      else cbind (nt_add alloc stack (''--'' @ boundary)) (\<lambda>(stack', _). Inr (stack', 0)))"

text \<open>The last node is unlinked and freed; the count and the insertion pointer stay.\<close>

definition ds_pop_boundary :: "string nt \<Rightarrow> string nt \<times> string option" where
  "ds_pop_boundary stack =
     (if nt_first stack = [] then (stack, None)
      else (stack\<lparr>nt_first := butlast (nt_first stack)\<rparr>, Some (last (nt_first stack))))"

definition ds_match_boundary :: "string nt \<Rightarrow> string \<Rightarrow> bool" where
  "ds_match_boundary stack buff \<longleftrightarrow> (\<exists>b\<in>set (nt_first stack). take (length b) buff = b)"

text \<open>
  The token after the equals sign is cut off by \<^verbatim>\<open>strtok_r\<close>, whose result is not used: separators
  in front of the token stay, and without a token the rest of the line does.
\<close>

definition cut_token :: "string \<Rightarrow> string" where
  "cut_token s =
     (let seps = '' '' @ [CHR 0x22] @ '';'' @ [CHR 0x0A, CHR 0x09];
          lead = takeWhile (\<lambda>c. c \<in> set seps) s
      in case strtok_r s seps of None \<Rightarrow> s | Some (tok, _) \<Rightarrow> lead @ tok)"

fun extract_from :: "string \<Rightarrow> string option" where
  "extract_from [] = None"
| "extract_from (c # cs) =
     (if case_prefix ''boundary'' (c # cs)
      then (case dropWhile (\<lambda>x. x \<noteq> CHR ''='') (c # cs) of
              [] \<Rightarrow> None
            | _ # s \<Rightarrow>
                (let s1 = dropWhile c_isspace s;
                     s2 = (if take 1 s1 = [CHR 0x22] then drop 1 s1 else s1)
                 in Some (cut_token s2)))
      else extract_from cs)"

text \<open>The boundary a line names, cut to the size of the array; None stands for \<open>EFAILURE\<close>.\<close>

definition ds_extract_boundary :: "nat \<Rightarrow> string \<Rightarrow> string option" where
  "ds_extract_boundary siz mem = map_option (take (siz - 1)) (extract_from mem)"

text \<open>What both callers do with it.\<close>

definition note_boundary :: "string nt \<Rightarrow> ds_message_part \<Rightarrow> string \<Rightarrow> (string nt \<times> ds_message_part) cres" where
  "note_boundary boundaries block text =
     (case ds_extract_boundary 128 text of
        Some boundary \<Rightarrow>
          if ds_match_boundary boundaries boundary then Inr (boundaries, block)
          else cbind (ds_push_boundary True boundaries boundary) (\<lambda>(bs, _).
                 Inr (bs, block\<lparr>mp_boundary := Some boundary\<rparr>))
      | None \<Rightarrow> cbind (ds_push_boundary True boundaries []) (\<lambda>(bs, _). Inr (bs, block)))"

section \<open>Headers\<close>

definition type_of :: "string \<Rightarrow> media_type \<times> media_subtype" where
  "type_of data =
     (let sub = (\<lambda>n p. n \<le> length data \<and> case_prefix p (drop n data)) in
      if case_prefix ''text'' data then
        (MT_TEXT, if sub 5 ''plain'' then MST_PLAIN else if sub 5 ''html'' then MST_HTML else MST_OTHER)
      else if case_prefix ''application'' data then
        (MT_APPLICATION, if sub 12 ''dspam-signature'' then MST_DSPAM_SIGNATURE else MST_OTHER)
      else if case_prefix ''message'' data then
        (MT_MESSAGE, if sub 8 ''rfc822'' then MST_RFC822 else if sub 8 ''inoculation'' then MST_INOCULATION else MST_OTHER)
      else if case_prefix ''multipart'' data then
        (MT_MULTIPART, if sub 10 ''mixed'' then MST_MIXED else if sub 10 ''alternative'' then MST_ALTERNATIVE
           else if sub 10 ''signed'' then MST_SIGNED else if sub 10 ''encrypted'' then MST_ENCRYPTED else MST_OTHER)
      else (MT_OTHER, MST_OTHER))"

definition encoding_of :: "string \<Rightarrow> encoding" where
  "encoding_of data =
     (if case_prefix ''7bit'' data then EN_7BIT
      else if case_prefix ''8bit'' data then EN_8BIT
      else if case_prefix ''quoted-printable'' data then EN_QUOTED_PRINTABLE
      else if case_prefix ''base64'' data then EN_BASE64
      else if case_prefix ''binary'' data then EN_BINARY
      else EN_OTHER)"

definition disposition_of :: "string \<Rightarrow> content_disposition" where
  "disposition_of data =
     (if case_prefix ''inline'' data then PCD_INLINE
      else if case_prefix ''attachment'' data then PCD_ATTACHMENT else PCD_OTHER)"

definition ds_analyze_header :: "ds_message_part \<Rightarrow> ds_header \<Rightarrow> string nt \<Rightarrow> (string nt \<times> ds_message_part) cres" where
  "ds_analyze_header block header boundaries =
     cbind
       (if strcaseeq (hf_heading header) ''Content-Type'' then
          (let (mt, mst) = type_of (hf_data header); block1 = block\<lparr>mp_media_type := mt, mp_media_subtype := mst\<rparr>
           in if mt = MT_MULTIPART then note_boundary boundaries block1 (hf_data header) else Inr (boundaries, block1))
        else if strcaseeq (hf_heading header) ''Content-Transfer-Encoding''
        then Inr (boundaries, block\<lparr>mp_encoding := encoding_of (hf_data header)\<rparr>)
        else Inr (boundaries, block))
       (\<lambda>(bs, block2).
          Inr (bs, if strcaseeq (hf_heading header) ''Content-Disposition''
                   then block2\<lparr>mp_content_disposition := disposition_of (hf_data header)\<rparr> else block2))"

text \<open>
  An encoded word at an offset: \<^verbatim>\<open>strtok_r\<close> cuts the string behind the equals sign of the word, and
  again behind each of its parts, so that \<open>rest\<close> points at the terminator it has written.
  The result is the header and the offset to go on with.
\<close>

definition decode_word :: "ds_header \<Rightarrow> nat \<Rightarrow> (ds_header \<times> nat) cres" where
  "decode_word h offset =
     (let enc = drop offset (hf_concatenated_data h);
          next = (\<lambda>s. Option.bind s (\<lambda>(_, r). strtok_r r ''?''));
          t1 = strtok_r enc ''?''; t2 = next t1; t3 = next t2; t4 = next t3;
          was_null = (hf_original_data h = None);
          cut = h\<lparr>hf_concatenated_data := take (offset + 1) (hf_concatenated_data h)\<rparr>;
          kept = h\<lparr>hf_original_data := (if was_null then Some (hf_data h) else hf_original_data h)\<rparr>
      in case (t3, t4) of
           (Some (ptr, _), Some (dptr, _)) \<Rightarrow>
             (let r = drop (length dptr) dptr;
                  rest = (if r \<noteq> [] then (let r1 = drop 1 r in if r1 \<noteq> [] then drop 1 r1 else r1) else r)
              in cbind (if take 1 ptr = ''b'' \<or> take 1 ptr = ''B'' then cbind (ds_decode_base64 dptr) (\<lambda>s. Inr (Some s))
                        else if take 1 ptr = ''q'' \<or> take 1 ptr = ''Q'' then Inr (Some (ds_decode_quoted dptr))
                        else Inr None) (\<lambda>decoded.
                   case decoded of
                     Some s \<Rightarrow> Inr (kept\<lparr>hf_concatenated_data := take offset (hf_concatenated_data h) @ s @ rest\<rparr>, offset + length s)
                   | None \<Rightarrow> Inr (cut, offset + 1)))
         | _ \<Rightarrow> Inr (cut, offset + 1))"

lemma decode_word_ends: "decode_word h offset = Inr (h', off') \<Longrightarrow> length (hf_concatenated_data h') \<le> off'"
  by (auto simp: decode_word_def Let_def cbind_Inr_iff split: option.splits if_splits)

function decode_from :: "nat \<Rightarrow> ds_header \<Rightarrow> ds_header cres" where
  "decode_from enc_offset h =
     (if enc_offset < length (hf_concatenated_data h) then
        if take 2 (drop enc_offset (hf_concatenated_data h)) = ''=?''
        then (case decode_word h enc_offset of Inl e \<Rightarrow> Inl e | Inr (h', off') \<Rightarrow> decode_from off' h')
        else decode_from (enc_offset + 1) h
      else Inr h)"
  by pat_completeness auto
termination
  by (relation "measure (\<lambda>(off, h). length (hf_concatenated_data h) - off)") (auto dest!: decode_word_ends)

declare decode_from.simps [simp del]

definition decode_header :: "ds_header \<Rightarrow> ds_header cres" where
  "decode_header h =
     cbind (decode_from 0 h) (\<lambda>h1.
       Inr (if hf_original_data h1 = None then h1 else h1\<lparr>hf_data := hf_concatenated_data h1\<rparr>))"

definition ds_decode_headers :: "ds_message_part \<Rightarrow> ds_message_part cres" where
  "ds_decode_headers block =
     cbind (cfold (\<lambda>hs h. cbind (decode_header h) (\<lambda>h'. Inr (hs @ [h']))) [] (mp_headers block)) (\<lambda>hs.
       Inr (block\<lparr>mp_headers := hs\<rparr>))"

section \<open>The parser\<close>

text \<open>The state of the loop over the lines; the current block is the last part.\<close>

record parse =
  ps_parts :: "ds_message_part list"
  ps_heading :: "(nat \<times> nat) option"
  ps_boundaries :: "string nt"
  ps_in_body :: bool
  ps_in_content :: bool

definition set_current :: "parse \<Rightarrow> ds_message_part \<Rightarrow> parse" where
  "set_current ps block = ps\<lparr>ps_parts := butlast (ps_parts ps) @ [block]\<rparr>"

text \<open>A boundary ends the current block and begins a new one; None when there is no memory for it.\<close>

definition next_part :: "bool \<Rightarrow> parse \<Rightarrow> string \<Rightarrow> parse option cres" where
  "next_part alloc ps line =
     (let block = last (ps_parts ps);
          block1 = block\<lparr>mp_terminating_boundary := (if alloc then Some (drop 2 line) else None),
                         mp_original_encoding := mp_encoding block\<rparr>
      in cbind (ds_decode_headers block1) (\<lambda>block2.
           Inr (if alloc then Some ((set_current ps block2)\<lparr>ps_parts := ps_parts (set_current ps block2) @ [ds_create_message_part],
                                     ps_in_body := False\<rparr>)
                else None)))"

definition fold_line :: "ds_header \<Rightarrow> string \<Rightarrow> ds_header" where
  "fold_line h line = h\<lparr>hf_data := hf_data h @ [CHR 0x0A] @ line,
     hf_concatenated_data := hf_concatenated_data h @ dropWhile c_isspace line,
     hf_original_data := map_option (\<lambda>s. s @ [CHR 0x0A] @ line) (hf_original_data h)\<rparr>"

definition header_line :: "bool \<Rightarrow> parse \<Rightarrow> string \<Rightarrow> parse option cres" where
  "header_line alloc ps line =
     (if ds_match_boundary (ps_boundaries ps) line then next_part alloc ps line
      else if take 1 line = '' '' \<or> take 1 line = [CHR 0x09] then
        (case ps_heading ps of
           None \<Rightarrow> Inr (Some ps)
         | Some (i, j) \<Rightarrow>
             if \<not> alloc then Inr None
             else
               (let h = fold_line (mp_headers (ps_parts ps ! i) ! j) line;
                    ps1 = ps\<lparr>ps_parts := (ps_parts ps)[i := (ps_parts ps ! i)\<lparr>mp_headers := (mp_headers (ps_parts ps ! i))[j := h]\<rparr>]\<rparr>
                in cbind (ds_analyze_header (last (ps_parts ps1)) h (ps_boundaries ps)) (\<lambda>(bs, block).
                     Inr (Some ((set_current ps1 block)\<lparr>ps_boundaries := bs\<rparr>)))))
      else if line \<noteq> [] \<and> take 1 line \<noteq> [CHR 0x0D] then
        (if \<not> alloc then Inr (Some ps)
         else
           (let h = ds_create_header_field line in
            cbind (ds_analyze_header (last (ps_parts ps)) h (ps_boundaries ps)) (\<lambda>(bs, block).
              Inr (Some ((set_current ps (block\<lparr>mp_headers := mp_headers block @ [h]\<rparr>))\<lparr>ps_boundaries := bs,
                ps_heading := Some (length (ps_parts ps) - 1, length (mp_headers block))\<rparr>)))))
      else Inr (Some (ps\<lparr>ps_in_body := True\<rparr>)))"

text \<open>A line of a body; \<open>cont\<close> tells whether the message goes on after it.\<close>

definition body_line :: "bool \<Rightarrow> bool \<Rightarrow> parse \<Rightarrow> string \<Rightarrow> parse option cres" where
  "body_line alloc cont ps line =
     (let typed = (case_prefix ''Content-Type'' line \<or> ((take 1 line = '' '' \<or> take 1 line = [CHR 0x09]) \<and> ps_in_content ps)) in
      cbind (if typed \<and> alloc then note_boundary (ps_boundaries ps) (last (ps_parts ps)) line
             else Inr (ps_boundaries ps, last (ps_parts ps))) (\<lambda>(bs, block).
        let ps1 = (set_current ps block)\<lparr>ps_boundaries := bs, ps_in_content := typed\<rparr> in
        if ds_match_boundary bs line then next_part alloc ps1 line
        else Inr (Some (set_current ps1 (block\<lparr>mp_body := mp_body block @
               (if alloc then line @ (if cont then [CHR 0x0A] else []) else [])\<rparr>)))))"

fun parse_lines :: "(nat \<Rightarrow> bool) \<Rightarrow> nat \<Rightarrow> parse \<Rightarrow> string list \<Rightarrow> parse option cres" where
  "parse_lines alloc n ps [] = Inr (Some ps)"
| "parse_lines alloc n ps (line # rest) =
     cbind (if ps_in_body ps then body_line (alloc n) (rest \<noteq> []) ps line else header_line (alloc n) ps line) (\<lambda>r.
       case r of None \<Rightarrow> Inr None | Some ps' \<Rightarrow> parse_lines alloc (Suc n) ps' rest)"

text \<open>The lines \<^verbatim>\<open>strsep\<close> gives for a newline.\<close>

function split_lines :: "string \<Rightarrow> string list" where
  "split_lines s =
     (case strsep (Some s) [CHR 0x0A] of
        Some (line, Some rest) \<Rightarrow> line # split_lines rest
      | Some (line, None) \<Rightarrow> [line]
      | None \<Rightarrow> [])"
  by pat_completeness auto
termination
proof (relation "measure length")
  fix s line rest and x :: "string \<times> string option" and b
  assume "strsep (Some s) [CHR 0x0A] = Some x" "(line, b) = x" "b = Some rest"
  then show "(rest, s) \<in> measure length"
    using length_dropWhile_le[of "\<lambda>c. c \<notin> set [CHR 0x0A]" s]
    by (auto simp: strsep_def split: list.splits simp del: set_simps)
qed simp

declare split_lines.simps [simp del]

text \<open>
  \<open>alloc\<close> tells for the start and for every line whether its allocations succeed. The result
  is NULL when an allocation that the code checks fails.
\<close>

definition ds_actualize_message :: "(nat \<Rightarrow> bool) \<Rightarrow> string option \<Rightarrow> ds_message option cres" where
  "ds_actualize_message alloc message =
     (case message of
        None \<Rightarrow> Inr None
      | Some m \<Rightarrow>
          if m = [] \<or> \<not> alloc 0 then Inr None
          else
            cbind (parse_lines alloc 1 \<lparr>ps_parts = [ds_create_message_part], ps_heading = None, ps_boundaries = nt_create NT_CHAR,
                     ps_in_body = False, ps_in_content = False\<rparr> (split_lines m)) (\<lambda>r.
              case r of
                None \<Rightarrow> Inr None
              | Some ps \<Rightarrow>
                  cbind (ds_decode_headers (last (ps_parts ps))) (\<lambda>block.
                    Inr (Some \<lparr>ms_components = ps_parts (set_current ps block), ms_protect = False\<rparr>))))"

section \<open>Assembly and lookup\<close>

definition assemble_header :: "string \<Rightarrow> ds_header \<Rightarrow> string" where
  "assemble_header newline h =
     (let data = (case hf_original_data h of None \<Rightarrow> hf_data h | Some s \<Rightarrow> s) in
      if take 5 (hf_heading h) = ''From '' \<or> take 2 (hf_heading h) = ''--''
      then hf_heading h @ '':'' @ data @ newline
      else hf_heading h @ '': '' @ data @ newline)"

definition assemble_part :: "bool \<Rightarrow> string \<Rightarrow> ds_message_part \<Rightarrow> string" where
  "assemble_part protect newline block =
     concat (map (assemble_header newline) (mp_headers block)) @ newline @
     (case mp_original_signed_body block of Some s \<Rightarrow> if protect then s else mp_body block | None \<Rightarrow> mp_body block) @
     (case mp_terminating_boundary block of Some b \<Rightarrow> ''--'' @ b | None \<Rightarrow> [])"

fun assemble_parts :: "bool \<Rightarrow> string \<Rightarrow> ds_message_part list \<Rightarrow> string" where
  "assemble_parts protect newline [] = []"
| "assemble_parts protect newline (p # ps) =
     assemble_part protect newline p @ (if ps \<noteq> [] then newline else []) @ assemble_parts protect newline ps"

definition ds_assemble_message :: "ds_message \<Rightarrow> string \<Rightarrow> string" where
  "ds_assemble_message message newline = assemble_parts (ms_protect message) newline (ms_components message)"

definition ds_find_header :: "ds_message \<Rightarrow> string \<Rightarrow> string option" where
  "ds_find_header message heading =
     (case ms_components message of
        [] \<Rightarrow> None
      | block # _ \<Rightarrow> map_option hf_data (find (\<lambda>h. strcaseeq (hf_heading h) heading) (mp_headers block)))"

end
