(* ===== verification/Ds_Html.thy ===== *)
theory Ds_Html
  imports Ds_Decode
begin

text \<open>
  The removal of HTML tags (\<^verbatim>\<open>_ds_strip_html\<close> of decode.c). The loop is a function on its local
  variables; what was written to \<^verbatim>\<open>html2\<close>, which has room for one character more than the input,
  is a string, and writing beyond the room is a fault. Reading is on positions of the input;
  where the code looks ahead without a test, reading beyond the terminator is a fault.
\<close>

section \<open>Tables\<close>

definition charset :: "(nat \<times> string) list" where
  "charset =
    [(32, ''&nbsp;''), (34, ''&quot;''), (34, ''&quot;''), (38, ''&amp;''), (38, ''&amp;''),
     (39, ''&apos;''), (60, ''&lt;''), (60, ''&lt;''), (62, ''&gt;''), (62, ''&gt;''),
     (160, ''&nbsp;''), (161, ''&iexcl;''), (162, ''&cent;''), (163, ''&pound;''), (164, ''&curren;''),
     (165, ''&yen;''), (166, ''&brvbar;''), (167, ''&sect;''), (168, ''&uml;''), (169, ''&copy;''),
     (170, ''&ordf;''), (171, ''&laquo;''), (172, ''&not;''), (173, ''&shy;''), (174, ''&reg;''),
     (175, ''&macr;''), (176, ''&deg;''), (177, ''&plusmn;''), (178, ''&sup2;''), (179, ''&sup3;''),
     (180, ''&acute;''), (181, ''&micro;''), (182, ''&para;''), (183, ''&middot;''), (184, ''&cedil;''),
     (185, ''&sup1;''), (186, ''&ordm;''), (187, ''&raquo;''), (188, ''&frac14;''), (189, ''&frac12;''),
     (190, ''&frac34;''), (191, ''&iquest;''), (192, ''&Agrave;''), (193, ''&Aacute;''), (194, ''&Acirc;''),
     (195, ''&Atilde;''), (196, ''&Auml;''), (197, ''&Aring;''), (198, ''&AElig;''), (199, ''&Ccedil;''),
     (200, ''&Egrave;''), (201, ''&Eacute;''), (202, ''&Ecirc;''), (203, ''&Euml;''), (204, ''&Igrave;''),
     (205, ''&Iacute;''), (206, ''&Icirc;''), (207, ''&Iuml;''), (208, ''&ETH;''), (209, ''&Ntilde;''),
     (210, ''&Ograve;''), (211, ''&Oacute;''), (212, ''&Ocirc;''), (213, ''&Otilde;''), (214, ''&Ouml;''),
     (215, ''&times;''), (216, ''&Oslash;''), (217, ''&Ugrave;''), (218, ''&Uacute;''), (219, ''&Ucirc;''),
     (220, ''&Uuml;''), (221, ''&Yacute;''), (222, ''&THORN;''), (223, ''&szlig;''), (224, ''&agrave;''),
     (225, ''&aacute;''), (226, ''&acirc;''), (227, ''&atilde;''), (228, ''&auml;''), (229, ''&aring;''),
     (230, ''&aelig;''), (231, ''&ccedil;''), (232, ''&egrave;''), (233, ''&eacute;''), (234, ''&ecirc;''),
     (235, ''&euml;''), (236, ''&igrave;''), (237, ''&iacute;''), (238, ''&icirc;''), (239, ''&iuml;''),
     (240, ''&eth;''), (241, ''&ntilde;''), (242, ''&ograve;''), (243, ''&oacute;''), (244, ''&ocirc;''),
     (245, ''&otilde;''), (246, ''&ouml;''), (247, ''&divide;''), (248, ''&oslash;''), (249, ''&ugrave;''),
     (250, ''&uacute;''), (251, ''&ucirc;''), (252, ''&uuml;''), (253, ''&yacute;''), (254, ''&thorn;''),
     (255, ''&yuml;''), (338, ''&OElig;''), (339, ''&oelig;''), (352, ''&Scaron;''), (353, ''&scaron;''),
     (376, ''&Yuml;''), (402, ''&fnof;''), (710, ''&circ;''), (732, ''&tilde;''), (913, ''&Alpha;''),
     (914, ''&Beta;''), (915, ''&Gamma;''), (916, ''&Delta;''), (917, ''&Epsilon;''), (918, ''&Zeta;''),
     (919, ''&Eta;''), (920, ''&Theta;''), (921, ''&Iota;''), (922, ''&Kappa;''), (923, ''&Lambda;''),
     (924, ''&Mu;''), (925, ''&Nu;''), (926, ''&Xi;''), (927, ''&Omicron;''), (928, ''&Pi;''),
     (929, ''&Rho;''), (931, ''&Sigma;''), (932, ''&Tau;''), (933, ''&Upsilon;''), (934, ''&Phi;''),
     (935, ''&Chi;''), (936, ''&Psi;''), (937, ''&Omega;''), (945, ''&alpha;''), (946, ''&beta;''),
     (947, ''&gamma;''), (948, ''&delta;''), (949, ''&epsilon;''), (950, ''&zeta;''), (951, ''&eta;''),
     (952, ''&theta;''), (953, ''&iota;''), (954, ''&kappa;''), (955, ''&lambda;''), (956, ''&mu;''),
     (957, ''&nu;''), (958, ''&xi;''), (959, ''&omicron;''), (960, ''&pi;''), (961, ''&rho;''),
     (962, ''&sigmaf;''), (963, ''&sigma;''), (964, ''&tau;''), (965, ''&upsilon;''), (966, ''&phi;''),
     (967, ''&chi;''), (968, ''&psi;''), (969, ''&omega;''), (977, ''&thetasym''), (978, ''&upsih;''),
     (982, ''&piv;''), (8194, ''&ensp;''), (8195, ''&emsp;''), (8201, ''&thinsp;''), (8204, ''&zwnj;''),
     (8205, ''&zwj;''), (8206, ''&lrm;''), (8207, ''&rlm;''), (8211, ''&ndash;''), (8212, ''&mdash;''),
     (8216, ''&lsquo;''), (8217, ''&rsquo;''), (8218, ''&sbquo;''), (8220, ''&ldquo;''), (8221, ''&rdquo;''),
     (8222, ''&bdquo;''), (8224, ''&dagger;''), (8225, ''&Dagger;''), (8226, ''&bull;''), (8230, ''&hellip;''),
     (8240, ''&permil;''), (8242, ''&prime;''), (8243, ''&Prime;''), (8249, ''&lsaquo;''), (8250, ''&rsaquo;''),
     (8254, ''&oline;''), (8260, ''&frasl;''), (8364, ''&euro;''), (8465, ''&image;''), (8472, ''&weierp;''),
     (8476, ''&real;''), (8482, ''&trade;''), (8501, ''&alefsym;''), (8592, ''&larr;''), (8593, ''&uarr;''),
     (8594, ''&rarr;''), (8595, ''&darr;''), (8596, ''&harr;''), (8629, ''&crarr;''), (8656, ''&lArr;''),
     (8657, ''&uArr;''), (8658, ''&rArr;''), (8659, ''&dArr;''), (8660, ''&hArr;''), (8704, ''&forall;''),
     (8706, ''&part;''), (8707, ''&exist;''), (8709, ''&empty;''), (8711, ''&nabla;''), (8712, ''&isin;''),
     (8713, ''&notin;''), (8715, ''&ni;''), (8719, ''&prod;''), (8721, ''&sum;''), (8722, ''&minus;''),
     (8727, ''&lowast;''), (8730, ''&radic;''), (8733, ''&prop;''), (8734, ''&infin;''), (8736, ''&ang;''),
     (8743, ''&and;''), (8744, ''&or;''), (8745, ''&cap;''), (8746, ''&cup;''), (8747, ''&int;''),
     (8756, ''&there4;''), (8764, ''&sim;''), (8773, ''&cong;''), (8776, ''&asymp;''), (8800, ''&ne;''),
     (8801, ''&equiv;''), (8804, ''&le;''), (8805, ''&ge;''), (8834, ''&sub;''), (8835, ''&sup;''),
     (8836, ''&nsub;''), (8838, ''&sube;''), (8839, ''&supe;''), (8853, ''&oplus;''), (8855, ''&otimes;''),
     (8869, ''&perp;''), (8901, ''&sdot;''), (8968, ''&lceil;''), (8969, ''&rceil;''), (8970, ''&lfloor;''),
     (8971, ''&rfloor;''), (9001, ''&lang;''), (9002, ''&rang;''), (9674, ''&loz;''), (9824, ''&spades;''),
     (9827, ''&clubs;''), (9829, ''&hearts;''), (9830, ''&diams;'')]"

definition uritag :: "(string \<times> string) list" where
  "uritag =
    [(''<a'', ''href''), (''<img'', ''src''), (''<input'', ''src''), (''<iframe'', ''src''),
     (''<frame'', ''src''), (''<script'', ''src''), (''<form'', ''action''), (''<embed'', ''src''),
     (''<area'', ''href''), (''<base'', ''href''), (''<link'', ''href''), (''<source'', ''src''),
     (''<body'', ''background''), (''<blockquote'', ''cite''), (''<q'', ''cite''), (''<ins'', ''cite''),
     (''<del'', ''cite'')]"

definition break_tags :: "string list" where
  "break_tags = [''<p>'', ''<p '', ''<p'' @ [CHR 0x09], ''<tr'', ''<option'', ''<br'', ''<li'', ''<div'', ''</select>'', ''</table>'']"

text \<open>Elements whose contents are dropped, with the tag that ends them, in the order of the tests.\<close>

definition cdata_tags :: "(string \<times> string) list" where
  "cdata_tags = [(''<applet'', ''</applet>''), (''<embed'', ''</embed>''), (''<frameset'', ''</frameset>''), (''<frame'', ''</frame>''),
     (''<iframe'', ''</iframe>''), (''<noembed'', ''</noembed>''), (''<noscript'', ''</noscript>''), (''<object'', ''</object>''),
     (''<script'', ''</script>''), (''<style'', ''</style>'')]"

section \<open>The loop\<close>

record strip =
  sh_i :: nat
  sh_out :: string
  sh_visible :: bool
  sh_closing_td :: bool
  sh_cdata :: "string option"

text \<open>The character at a position up to the terminator, and whether a text stands there.\<close>

definition char_at :: "string \<Rightarrow> nat \<Rightarrow> char" where
  "char_at html k = (if k < length html then html ! k else CHR 0x00)"

definition text_at :: "string \<Rightarrow> nat \<Rightarrow> string \<Rightarrow> bool" where
  "text_at html k p \<longleftrightarrow> case_prefix p (drop k html)"

definition skip_spaces :: "string \<Rightarrow> nat \<Rightarrow> nat" where
  "skip_spaces html k = k + length (takeWhile c_isspace (drop k html))"

definition emit :: "string \<Rightarrow> char \<Rightarrow> strip \<Rightarrow> strip cres" where
  "emit html c st = (if length (sh_out st) \<le> length html then Inr (st\<lparr>sh_out := sh_out st @ [c]\<rparr>) else Inl OutOfBounds)"

text \<open>The copying loops, which stop when the output is as long as the input.\<close>

definition copy_until :: "string \<Rightarrow> char \<Rightarrow> nat \<Rightarrow> strip \<Rightarrow> string" where
  "copy_until html stop k st = take (length html - length (sh_out st)) (takeWhile (\<lambda>c. c \<noteq> stop) (drop k html))"

text \<open>Where the address of a tag begins, and which character ends it.\<close>

definition url_value :: "string \<Rightarrow> nat \<Rightarrow> (nat \<times> char) option" where
  "url_value html k =
     (let eq = skip_spaces html k; v = skip_spaces html (eq + 1); c = char_at html v in
      if char_at html eq = CHR ''='' then
        (if c = CHR 0x22 \<or> c = CHR 0x27 then Some (v + 1, c) else Some (v, CHR ''>''))
      else None)"

function find_url :: "string \<Rightarrow> string \<Rightarrow> nat \<Rightarrow> nat \<Rightarrow> nat \<Rightarrow> (nat \<times> char) option" where
  "find_url html url_tag tag_offset k u =
     (if u \<le> k then
        if text_at html u url_tag then url_value html (u + length url_tag)
        else if 50 \<le> u - tag_offset then None
        else find_url html url_tag tag_offset k (u + 1)
      else None)"
  by pat_completeness auto
termination by (relation "measure (\<lambda>(html, url_tag, tag_offset, k, u). Suc k - u)") auto

declare find_url.simps [simp del]

definition put_url :: "string \<Rightarrow> nat \<Rightarrow> char \<Rightarrow> strip \<Rightarrow> strip cres" where
  "put_url html start delim st =
     (if start < length html \<and> (text_at html start ''http:'' \<or> text_at html start ''https:'' \<or> text_at html start ''ftp:'')
      then cbind (emit html (CHR '' '') st) (\<lambda>st1.
             emit html (CHR '' '') (st1\<lparr>sh_out := sh_out st1 @ copy_until html delim start st1\<rparr>))
      else Inr st)"

text \<open>A tag ends before the next angle bracket. What is written for it: its address, or a line break.\<close>

definition tag_end :: "string \<Rightarrow> nat \<Rightarrow> nat" where
  "tag_end html i = i + 1 + length (takeWhile (\<lambda>c. c \<noteq> CHR ''<'' \<and> c \<noteq> CHR ''>'') (drop (i + 1) html))"

definition uri_tag_at :: "string \<Rightarrow> nat \<Rightarrow> string \<times> string \<Rightarrow> bool" where
  "uri_tag_at html i u \<longleftrightarrow> text_at html i (fst u) \<and> i + length (fst u) < length html \<and> c_isspace (html ! (i + length (fst u)))"

definition tag_text :: "string \<Rightarrow> strip \<Rightarrow> strip cres" where
  "tag_text html st =
     (let i = sh_i st; k = tag_end html i in
      case find (uri_tag_at html i) uritag of
        Some (open_tag, url_tag) \<Rightarrow>
          (let tag_offset = i + length open_tag + 1 in
           case find_url html url_tag tag_offset k tag_offset of
             Some (start, delim) \<Rightarrow> put_url html start delim st
           | None \<Rightarrow> Inr st)
      | None \<Rightarrow>
          if list_ex (text_at html i) break_tags then
            (if sh_out st \<noteq> [] \<and> last (sh_out st) \<noteq> CHR 0x0A \<and> last (sh_out st) \<noteq> CHR 0x0D then emit html (CHR 0x0A) st else Inr st)
          else
            Inr (case find (\<lambda>t. text_at html i (fst t)) cdata_tags of
                   Some (_, close_tag) \<Rightarrow> st\<lparr>sh_cdata := Some close_tag\<rparr>
                 | None \<Rightarrow> st))"

definition strip_tag :: "string \<Rightarrow> strip \<Rightarrow> strip cres" where
  "strip_tag html st =
     (let k = tag_end html (sh_i st) in
      cbind (tag_text html st) (\<lambda>st'. Inr (st'\<lparr>sh_i := (if char_at html k = CHR ''<'' \<or> k = length html then k else k + 1)\<rparr>)))"

text \<open>An angle bracket that begins no tag is copied with the text up to the next one, which is skipped.\<close>

definition strip_angle :: "string \<Rightarrow> strip \<Rightarrow> strip cres" where
  "strip_angle html st =
     cbind (emit html (html ! sh_i st) (st\<lparr>sh_visible := True\<rparr>)) (\<lambda>st1.
       let s = copy_until html (CHR ''<'') (sh_i st + 1) st1 in
       Inr (st1\<lparr>sh_out := sh_out st1 @ s, sh_i := sh_i st + 1 + length s + 1\<rparr>))"

definition c_isdigit :: "char \<Rightarrow> bool" where
  "c_isdigit c \<longleftrightarrow> 48 \<le> (of_char c :: nat) \<and> (of_char c :: nat) \<le> 57"

definition digits :: "string \<Rightarrow> nat" where
  "digits s = foldl (\<lambda>n c. 10 * n + (of_char c - 48)) 0 s"

definition put_code :: "string \<Rightarrow> nat \<Rightarrow> strip \<Rightarrow> strip cres" where
  "put_code html x st = (if x \<le> 255 \<and> 32 \<le> x then emit html (char_of x) st else Inr st)"

text \<open>A numeric character reference of two or four digits after its zeros; any other is dropped.\<close>

definition strip_numeric :: "string \<Rightarrow> strip \<Rightarrow> strip cres" where
  "strip_numeric html st =
     (let z = length (takeWhile (\<lambda>c. c = CHR ''0'') (drop (sh_i st + 2) html)); i = sh_i st + z; hidden = st\<lparr>sh_visible := False\<rparr> in
      cbind (c_at html (i + 4)) (\<lambda>c4.
        if c4 = CHR '';'' \<and> c_isdigit (html ! (i + 2)) \<and> c_isdigit (html ! (i + 3))
        then cbind (put_code html (digits (take 2 (drop (i + 2) html))) hidden) (\<lambda>st1. Inr (st1\<lparr>sh_i := i + 5\<rparr>))
        else cbind (c_at html (i + 6)) (\<lambda>c6.
          if c6 = CHR '';'' \<and> c_isdigit (html ! (i + 2)) \<and> c_isdigit (html ! (i + 3)) \<and> c_isdigit (html ! (i + 4)) \<and> c_isdigit (html ! (i + 5))
          then cbind (put_code html (digits (take 4 (drop (i + 2) html))) hidden) (\<lambda>st1. Inr (st1\<lparr>sh_i := i + 7\<rparr>))
          else Inr (hidden\<lparr>sh_i := i + length (takeWhile (\<lambda>c. c \<noteq> CHR '';'' \<and> c \<noteq> CHR '' '' \<and> c \<noteq> CHR 0x09) (drop i html)) + 1\<rparr>))))"

text \<open>All entities are tried one after the other, also after one was found.\<close>

definition strip_entity :: "string \<Rightarrow> strip \<Rightarrow> nat \<times> string \<Rightarrow> strip cres" where
  "strip_entity html st e =
     (case e of (n, entity) \<Rightarrow>
        if text_at html (sh_i st) entity
        then cbind (if n \<le> 255 then emit html (char_of n) st else Inr st) (\<lambda>st1.
               Inr (st1\<lparr>sh_i := sh_i st + (length entity - 1), sh_visible := False\<rparr>))
        else Inr st)"

definition strip_char :: "string \<Rightarrow> strip \<Rightarrow> strip cres" where
  "strip_char html st =
     (if take 2 (drop (sh_i st) html) = ''&#'' then strip_numeric html st
      else
        cbind (if char_at html (sh_i st) = CHR ''&'' then cfold (strip_entity html) st charset else Inr st) (\<lambda>st1.
          let len = length html in
          cbind (if length (sh_out st1) < len \<and> sh_visible st1 then emit html (char_at html (sh_i st1)) st1 else Inr st1) (\<lambda>st2.
            Inr (if len \<le> length (sh_out st2) then st2\<lparr>sh_out := take len (sh_out st2), sh_i := len + 1\<rparr>
                 else st2\<lparr>sh_i := sh_i st2 + 1\<rparr>))))"

definition tag_start :: "char \<Rightarrow> bool" where
  "tag_start c \<longleftrightarrow> (let n = of_char c :: nat in 65 \<le> n \<and> n \<le> 90 \<or> 97 \<le> n \<and> n \<le> 122 \<or> n = 47 \<or> n = 33)"

definition enter_tag :: "string \<Rightarrow> strip \<Rightarrow> strip cres" where
  "enter_tag html st =
     (if text_at html (sh_i st) ''<td'' \<and> sh_closing_td st
      then cbind (if sh_out st \<noteq> [] \<and> \<not> c_isspace (last (sh_out st)) then emit html (CHR '' '') st else Inr st) (\<lambda>st1.
             Inr (st1\<lparr>sh_visible := False\<rparr>))
      else Inr (st\<lparr>sh_closing_td := False, sh_visible := True\<rparr>))"

definition strip_step :: "string \<Rightarrow> strip \<Rightarrow> strip cres" where
  "strip_step html st =
     (let i = sh_i st; len = length html in
      if char_at html i = CHR ''<'' then
        (case sh_cdata st of
           Some close_tag \<Rightarrow>
             Inr (if text_at html i close_tag then st\<lparr>sh_i := i + (length close_tag - 1) + 1, sh_cdata := None\<rparr> else st\<lparr>sh_i := i + 1\<rparr>)
         | None \<Rightarrow>
             if text_at html i ''</td>'' then Inr (st\<lparr>sh_i := i + 5, sh_closing_td := True\<rparr>)
             else
               cbind (enter_tag html st) (\<lambda>st1.
                 if i + 1 < len then (if tag_start (html ! (i + 1)) then strip_tag html st1 else strip_angle html st1)
                 else strip_char html st1))
      else if sh_cdata st \<noteq> None then Inr (st\<lparr>sh_i := i + 1\<rparr>)
      else strip_char html (if c_isspace (char_at html i) then st else st\<lparr>sh_visible := True\<rparr>))"

lemma emit_same: "emit html c st = Inr st' \<Longrightarrow> st' = st\<lparr>sh_out := sh_out st @ [c]\<rparr>"
  by (simp add: emit_def split: if_splits)

lemma entities_progress:
  "cfold (strip_entity html) st es = Inr st' \<Longrightarrow> sh_i st \<le> sh_i st'"
proof (induction es arbitrary: st)
  case (Cons e es)
  then obtain st1 where 1: "strip_entity html st e = Inr st1" "cfold (strip_entity html) st1 es = Inr st'" by (auto simp: cbind_Inr_iff)
  have "sh_i st \<le> sh_i st1" using 1(1) by (auto simp: strip_entity_def cbind_Inr_iff split: prod.splits if_splits dest!: emit_same)
  then show ?case using Cons.IH[OF 1(2)] by simp
qed simp

lemma put_code_same: "put_code html x st = Inr st' \<Longrightarrow> sh_i st' = sh_i st"
  by (auto simp: put_code_def split: if_splits dest!: emit_same)

lemma strip_numeric_progress: "strip_numeric html st = Inr st' \<Longrightarrow> sh_i st < sh_i st'"
  unfolding strip_numeric_def Let_def cbind_Inr_iff
  by (elim exE conjE) (simp only: split: if_splits; auto simp: cbind_Inr_iff split: if_splits)

lemma strip_char_progress:
  assumes "strip_char html st = Inr st'" "sh_i st < length html"
  shows "sh_i st < sh_i st'"
proof (cases "take 2 (drop (sh_i st) html) = ''&#''")
  case True
  then show ?thesis using assms(1) strip_numeric_progress unfolding strip_char_def by simp
next
  case False
  then obtain st1 st2 where "(if char_at html (sh_i st) = CHR ''&'' then cfold (strip_entity html) st charset else Inr st) = Inr st1"
    "(if length (sh_out st1) < length html \<and> sh_visible st1 then emit html (char_at html (sh_i st1)) st1 else Inr st1) = Inr st2"
    "st' = (if length html \<le> length (sh_out st2) then st2\<lparr>sh_out := take (length html) (sh_out st2), sh_i := length html + 1\<rparr>
                 else st2\<lparr>sh_i := sh_i st2 + 1\<rparr>)"
    using assms(1) by (auto simp: strip_char_def cbind_Inr_iff Let_def)
  then show ?thesis using entities_progress[of html st charset st1] assms(2) by (auto split: if_splits dest!: emit_same)
qed

lemma enter_tag_same: "enter_tag html st = Inr st' \<Longrightarrow> sh_i st' = sh_i st"
  by (auto simp: enter_tag_def cbind_Inr_iff split: if_splits dest!: emit_same)

lemma strip_tag_progress: "strip_tag html st = Inr st' \<Longrightarrow> sh_i st < sh_i st'"
  by (auto simp: strip_tag_def tag_end_def Let_def cbind_Inr_iff)

lemma strip_angle_progress: "strip_angle html st = Inr st' \<Longrightarrow> sh_i st < sh_i st'"
  by (auto simp: strip_angle_def Let_def cbind_Inr_iff)

text \<open>The four ways a step goes on.\<close>

lemma strip_step_cases:
  assumes "strip_step html st = Inr st'"
  obtains (skip) n where "0 < n" "st' = st\<lparr>sh_i := sh_i st + n, sh_cdata := sh_cdata st', sh_closing_td := sh_closing_td st'\<rparr>"
  | (tag) st1 where "enter_tag html st = Inr st1" "char_at html (sh_i st) = CHR ''<''" "sh_i st + 1 < length html"
      "tag_start (html ! (sh_i st + 1))" "strip_tag html st1 = Inr st'"
  | (angle) st1 where "enter_tag html st = Inr st1" "char_at html (sh_i st) = CHR ''<''" "sh_i st + 1 < length html"
      "\<not> tag_start (html ! (sh_i st + 1))" "strip_angle html st1 = Inr st'"
  | (last) st1 where "enter_tag html st = Inr st1" "char_at html (sh_i st) = CHR ''<''" "length html \<le> sh_i st + 1" "strip_char html st1 = Inr st'"
  | (char) v where "char_at html (sh_i st) \<noteq> CHR ''<''" "strip_char html (st\<lparr>sh_visible := v\<rparr>) = Inr st'"
proof (cases "char_at html (sh_i st) = CHR ''<''")
  case lt: True
  show thesis
  proof (cases "sh_cdata st")
    case (Some close_tag)
    then show thesis using assms lt skip[of "if text_at html (sh_i st) close_tag then length close_tag - 1 + 1 else 1"]
      by (auto simp: strip_step_def Let_def split: if_splits)
  next
    case None
    show thesis
    proof (cases "text_at html (sh_i st) ''</td>''")
      case True
      then show thesis using assms lt None skip[of 5] by (auto simp: strip_step_def Let_def)
    next
      case False
      then obtain st1 where "enter_tag html st = Inr st1" "(if sh_i st + 1 < length html then
          (if tag_start (html ! (sh_i st + 1)) then strip_tag html st1 else strip_angle html st1) else strip_char html st1) = Inr st'"
        using assms lt None by (auto simp: strip_step_def Let_def cbind_Inr_iff)
      then show thesis using tag angle last lt by (auto split: if_splits)
    qed
  qed
next
  case False
  show thesis
  proof (cases "sh_cdata st")
    case None
    then show thesis using assms False char[of "if c_isspace (char_at html (sh_i st)) then sh_visible st else True"]
      by (auto simp: strip_step_def Let_def split: if_splits)
  next
    case (Some c)
    then show thesis using assms False skip[of 1] by (auto simp: strip_step_def Let_def)
  qed
qed

lemma strip_step_progress:
  assumes "strip_step html st = Inr st'" "sh_i st < length html"
  shows "sh_i st < sh_i st'"
  using assms(1)
proof (cases rule: strip_step_cases)
  case (skip n)
  then show ?thesis by (metis less_add_same_cancel1 strip.select_convs(1) strip.surjective strip.update_convs(1-5))
next
  case (tag st1)
  then show ?thesis using enter_tag_same strip_tag_progress by fastforce
next
  case (angle st1)
  then show ?thesis using enter_tag_same strip_angle_progress by fastforce
next
  case (last st1)
  then show ?thesis using enter_tag_same strip_char_progress assms(2) by fastforce
next
  case (char v)
  then show ?thesis using strip_char_progress[of html "st\<lparr>sh_visible := v\<rparr>"] assms(2) by simp
qed

function strip_loop :: "string \<Rightarrow> strip \<Rightarrow> strip cres" where
  "strip_loop html st =
     (if sh_i st < length html
      then (case strip_step html st of Inl e \<Rightarrow> Inl e | Inr st' \<Rightarrow> strip_loop html st')
      else Inr st)"
  by pat_completeness auto
termination by (relation "measure (\<lambda>(html, st). length html - sh_i st)") (auto dest: strip_step_progress)

declare strip_loop.simps [simp del]

text \<open>The terminator is written behind the output.\<close>

definition ds_strip_html :: "string \<Rightarrow> string cres" where
  "ds_strip_html html =
     cbind (strip_loop html \<lparr>sh_i = 0, sh_out = [], sh_visible = True, sh_closing_td = False, sh_cdata = None\<rparr>) (\<lambda>st.
       if length (sh_out st) \<le> length html then Inr (sh_out st) else Inl OutOfBounds)"

section \<open>Text at a position\<close>

lemma case_prefix_nth:
  assumes "case_prefix p s" "n < length p"
  shows "n < length s" "c_tolower (s ! n) = c_tolower (p ! n)"
proof -
  have eq: "map c_tolower (take (length p) s) = map c_tolower p" using assms(1) by (simp add: case_prefix_def strcaseeq_def)
  then have "length (take (length p) s) = length p" by (metis length_map)
  then show n: "n < length s" using assms(2) by simp
  have "map c_tolower (take (length p) s) ! n = c_tolower (s ! n)" using n assms(2) by simp
  then show "c_tolower (s ! n) = c_tolower (p ! n)" using assms(2) by (simp add: eq)
qed

lemma text_at_nth:
  assumes "text_at html k p" "n < length p"
  shows "k + n < length html" "c_tolower (html ! (k + n)) = c_tolower (p ! n)"
  using case_prefix_nth[of p "drop k html" n] assms by (auto simp: text_at_def)

lemma text_at_length: "text_at html k p \<Longrightarrow> p \<noteq> [] \<Longrightarrow> k + length p \<le> length html"
  using text_at_nth(1)[of html k p "length p - 1"] by simp

text \<open>Only letters change with their case.\<close>

lemma tolower_other: "c_tolower c = d \<Longrightarrow> \<not> (97 \<le> (of_char d :: nat) \<and> (of_char d :: nat) \<le> 122) \<Longrightarrow> c = d"
  by (auto simp: c_tolower_def c_isupper_def split: if_splits)

lemma text_at_char:
  assumes "text_at html k p" "d \<in> set p" "c_tolower d = d" "\<not> (97 \<le> (of_char d :: nat) \<and> (of_char d :: nat) \<le> 122)"
  shows "d \<in> set html"
proof -
  obtain n where n: "n < length p" "p ! n = d" using assms(2) by (auto simp: in_set_conv_nth)
  have "html ! (k + n) = d" using text_at_nth(2)[OF assms(1) n(1)] tolower_other[OF _ assms(4)] n(2) assms(3) by simp
  then show ?thesis using text_at_nth(1)[OF assms(1) n(1)] nth_mem by metis
qed

section \<open>Bounds of the output\<close>

text \<open>Without a colon there is no address to copy.\<close>

lemma put_url_none: "CHR '':'' \<notin> set html \<Longrightarrow> put_url html start delim st = Inr st"
proof -
  assume no: "CHR '':'' \<notin> set html"
  have colon: "c_tolower (CHR '':'') = CHR '':''" by (simp add: c_tolower_def c_isupper_def)
  have "\<not> text_at html start ''http:''" "\<not> text_at html start ''https:''" "\<not> text_at html start ''ftp:''"
    using text_at_char[OF _ _ colon, of html start] no by fastforce+
  then show ?thesis by (simp add: put_url_def)
qed

lemma tag_text_bound:
  assumes "CHR '':'' \<notin> set html" "length (sh_out st) \<le> length html"
  shows "\<exists>st'. tag_text html st = Inr st' \<and> length (sh_out st') \<le> length (sh_out st) + 1"
  using assms put_url_none[OF assms(1)]
  by (auto simp: tag_text_def emit_def Let_def split: option.split)

lemma tag_end_bounds: "i < length html \<Longrightarrow> i + 1 \<le> tag_end html i \<and> tag_end html i \<le> length html"
  using length_takeWhile_le[of "\<lambda>c. c \<noteq> CHR ''<'' \<and> c \<noteq> CHR ''>''" "drop (i + 1) html"] by (simp add: tag_end_def)

lemma td_tag_end:
  assumes "text_at html i ''<td''"
  shows "i + 3 \<le> tag_end html i" "i + 1 < length html" "tag_start (html ! (i + 1))"
proof -
  have len: "i + 3 \<le> length html" using text_at_length[OF assms] by simp
  have t: "c_tolower (html ! (i + 1)) = CHR ''t''" "c_tolower (html ! (i + 2)) = CHR ''d''"
    using text_at_nth(2)[OF assms, of 1] text_at_nth(2)[OF assms, of 2] by (simp_all add: c_tolower_def c_isupper_def eval_nat_numeral)
  have angle: "c_tolower (CHR ''<'') = CHR ''<''" "c_tolower (CHR ''>'') = CHR ''>''" by (simp_all add: c_tolower_def c_isupper_def)
  then have ne: "html ! (i + 1) \<noteq> CHR ''<''" "html ! (i + 1) \<noteq> CHR ''>''" "html ! (i + 2) \<noteq> CHR ''<''" "html ! (i + 2) \<noteq> CHR ''>''"
    using t by auto
  have d: "drop (i + 1) html = html ! (i + 1) # html ! (i + 2) # drop (i + 3) html"
    using Cons_nth_drop_Suc[of "i + 1" html] Cons_nth_drop_Suc[of "i + 2" html] len by (simp add: eval_nat_numeral)
  then show "i + 3 \<le> tag_end html i" using ne unfolding tag_end_def by simp
  show "i + 1 < length html" using len by simp
  show "tag_start (html ! (i + 1))" using t(1) tolower_other[of "html ! (i + 1)" "html ! (i + 1)"]
    by (auto simp: tag_start_def c_tolower_def c_isupper_def Let_def split: if_splits)
qed

lemma enter_tag_bound:
  assumes "length (sh_out st) \<le> length html"
  shows "\<exists>st'. enter_tag html st = Inr st' \<and> length (sh_out st') \<le> length (sh_out st) + (if text_at html (sh_i st) ''<td'' then 1 else 0)"
  using assms by (auto simp: enter_tag_def emit_def)

lemma strip_tag_bound:
  assumes "CHR '':'' \<notin> set html" "sh_i st < length html" "length (sh_out st) + 1 \<le> tag_end html (sh_i st)"
  shows "\<exists>st'. strip_tag html st = Inr st' \<and> length (sh_out st') \<le> min (sh_i st') (length html)"
  using tag_text_bound[OF assms(1), of st] assms tag_end_bounds[OF assms(2)]
  by (auto simp: strip_tag_def Let_def char_at_def)

lemma strip_angle_bound:
  assumes "length (sh_out st) \<le> sh_i st" "sh_i st < length html"
  shows "\<exists>st'. strip_angle html st = Inr st' \<and> length (sh_out st') \<le> min (sh_i st') (length html)"
  using assms by (auto simp: strip_angle_def emit_def copy_until_def Let_def)

lemma charset_long: "e \<in> set charset \<Longrightarrow> 2 \<le> length (snd e)"
proof -
  have "list_all (\<lambda>e. 2 \<le> length (snd e)) charset" by (simp add: charset_def)
  then show "e \<in> set charset \<Longrightarrow> 2 \<le> length (snd e)" by (auto simp: list_all_iff)
qed

lemma entities_bound:
  assumes "\<And>e. e \<in> set es \<Longrightarrow> 2 \<le> length (snd e)" "length (sh_out st) \<le> sh_i st" "sh_i st < length html"
  shows "\<exists>st'. cfold (strip_entity html) st es = Inr st' \<and> length (sh_out st') \<le> sh_i st' \<and> sh_i st' < length html"
  using assms
proof (induction es arbitrary: st)
  case (Cons e es)
  have "snd e \<noteq> []" "2 \<le> length (snd e)" using Cons.prems(1)[of e] by auto
  then have "\<exists>st1. strip_entity html st e = Inr st1 \<and> length (sh_out st1) \<le> sh_i st1 \<and> sh_i st1 < length html"
    using text_at_length[of html "sh_i st" "snd e"] Cons.prems(2,3)
    by (cases "text_at html (sh_i st) (snd e)") (auto simp: strip_entity_def emit_def split: prod.split)
  then show ?case using Cons.IH Cons.prems(1) by fastforce
qed simp

lemma strip_char_bound:
  assumes "CHR ''#'' \<notin> set html" "length (sh_out st) \<le> sh_i st" "sh_i st < length html"
  shows "\<exists>st'. strip_char html st = Inr st' \<and> length (sh_out st') \<le> min (sh_i st') (length html)"
proof -
  have "take 2 (drop (sh_i st) html) \<noteq> ''&#''" using assms(1) by (metis in_set_dropD in_set_takeD list.set_intros(1,2))
  moreover obtain st1 where st1: "(if char_at html (sh_i st) = CHR ''&'' then cfold (strip_entity html) st charset else Inr st) = Inr st1"
    "length (sh_out st1) \<le> sh_i st1" "sh_i st1 < length html"
    using entities_bound[of charset, OF charset_long assms(2,3)] assms(2,3) by (cases "char_at html (sh_i st) = CHR ''&''") auto
  ultimately show ?thesis using st1(2,3) unfolding strip_char_def by (auto simp: st1(1) emit_def Let_def)
qed

lemma strip_step_bound:
  assumes "CHR '':'' \<notin> set html" "CHR ''#'' \<notin> set html" "length (sh_out st) \<le> sh_i st" "sh_i st < length html"
  shows "\<exists>st'. strip_step html st = Inr st' \<and> length (sh_out st') \<le> min (sh_i st') (length html)"
proof -
  have out: "length (sh_out st) \<le> length html" using assms(3,4) by simp
  obtain st1 where st1: "enter_tag html st = Inr st1" "sh_i st1 = sh_i st"
    "length (sh_out st1) \<le> length (sh_out st) + (if text_at html (sh_i st) ''<td'' then 1 else 0)"
    using enter_tag_bound[OF out] enter_tag_same by metis
  have tag: "length (sh_out st1) + 1 \<le> tag_end html (sh_i st1)"
    using st1 td_tag_end(1) tag_end_bounds[OF assms(4)] assms(3) by (cases "text_at html (sh_i st) ''<td''") fastforce+
  have other: "length (sh_out st1) \<le> sh_i st1" if "\<not> (sh_i st + 1 < length html \<and> tag_start (html ! (sh_i st + 1)))"
    using st1 td_tag_end(2,3) that assms(3) by (cases "text_at html (sh_i st) ''<td''") auto
  have inner: "\<exists>st'. (if sh_i st + 1 < length html then (if tag_start (html ! (sh_i st + 1)) then strip_tag html st1 else strip_angle html st1)
      else strip_char html st1) = Inr st' \<and> length (sh_out st') \<le> min (sh_i st') (length html)"
    using strip_tag_bound[OF assms(1) _ tag] strip_angle_bound[of st1 html] strip_char_bound[OF assms(2), of st1] other st1(2) assms(4)
    by (cases "sh_i st + 1 < length html"; cases "tag_start (html ! (sh_i st + 1))") simp_all
  have char: "\<exists>st'. strip_char html (if c_isspace (char_at html (sh_i st)) then st else st\<lparr>sh_visible := True\<rparr>) = Inr st' \<and>
      length (sh_out st') \<le> min (sh_i st') (length html)"
    using strip_char_bound[OF assms(2), of st] strip_char_bound[OF assms(2), of "st\<lparr>sh_visible := True\<rparr>"] assms(3,4) by auto
  show ?thesis unfolding strip_step_def Let_def st1(1) cbind.simps using inner char assms(3,4) by (auto split: option.split)
qed

lemma strip_loop_bound:
  assumes "CHR '':'' \<notin> set html" "CHR ''#'' \<notin> set html" "length (sh_out st) \<le> min (sh_i st) (length html)"
  shows "\<exists>st'. strip_loop html st = Inr st' \<and> length (sh_out st') \<le> length html"
  using assms
proof (induction html st rule: strip_loop.induct)
  case (1 html st)
  show ?case
  proof (cases "sh_i st < length html")
    case True
    obtain st' where "strip_step html st = Inr st'" "length (sh_out st') \<le> min (sh_i st') (length html)"
      using strip_step_bound[OF 1(2,3)] 1(4) True by auto
    then show ?thesis using 1 True by (subst strip_loop.simps) simp
  qed (use 1(4) in \<open>simp add: strip_loop.simps\<close>)
qed

section \<open>Simple markup\<close>

text \<open>A text of characters and tags that stand for nothing but markup.\<close>

datatype piece = Text string | Tag string

fun source :: "piece \<Rightarrow> string" where
  "source (Text s) = s"
| "source (Tag s) = CHR ''<'' # s @ ''>''"

fun rendered :: "piece \<Rightarrow> string" where
  "rendered (Text s) = s"
| "rendered (Tag s) = []"

definition special_tags :: "string list" where
  "special_tags = [''</td>'', ''<td''] @ map fst uritag @ break_tags @ map fst cdata_tags"

definition clashes :: "string \<Rightarrow> string \<Rightarrow> bool" where
  "clashes tag p \<longleftrightarrow> strcaseeq (take (length p) tag) (take (length tag) p)"

fun simple_piece :: "piece \<Rightarrow> bool" where
  "simple_piece (Text s) \<longleftrightarrow> CHR ''<'' \<notin> set s \<and> CHR ''&'' \<notin> set s"
| "simple_piece (Tag s) \<longleftrightarrow> s \<noteq> [] \<and> tag_start (s ! 0) \<and> CHR ''<'' \<notin> set s \<and> CHR ''>'' \<notin> set s \<and>
     (\<forall>p\<in>set special_tags. \<not> clashes (CHR ''<'' # s @ ''>'') p)"

lemma not_clash: "\<not> clashes tag p \<Longrightarrow> \<not> text_at (pre @ tag @ post) (length pre) p"
proof
  assume no: "\<not> clashes tag p" and "text_at (pre @ tag @ post) (length pre) p"
  then have "map c_tolower (take (length p) (tag @ post)) = map c_tolower p"
    by (simp add: text_at_def case_prefix_def strcaseeq_def)
  then have "take (length tag) (map c_tolower (take (length p) (tag @ post))) = take (length tag) (map c_tolower p)" by simp
  then have "map c_tolower (take (length p) tag) = map c_tolower (take (length tag) p)"
    by (cases "length p \<le> length tag") (simp_all add: take_map)
  then show False using no by (simp add: clashes_def strcaseeq_def)
qed

definition shown :: "strip \<Rightarrow> bool" where
  "shown st \<longleftrightarrow> sh_visible st \<and> sh_cdata st = None \<and> length (sh_out st) \<le> sh_i st"

lemma text_step:
  assumes "shown st" "sh_i st < length html" "html ! sh_i st \<noteq> CHR ''<''" "html ! sh_i st \<noteq> CHR ''&''"
  shows "\<exists>st'. strip_step html st = Inr st' \<and> shown st' \<and> sh_out st' = sh_out st @ [html ! sh_i st] \<and>
    (sh_i st' = sh_i st + 1 \<or> Suc (sh_i st) = length html \<and> length html \<le> sh_i st')"
proof -
  have "take 2 (drop (sh_i st) html) \<noteq> ''&#''"
    using Cons_nth_drop_Suc[OF assms(2)] assms(4) by (metis list.inject numeral_2_eq_2 take_Suc_Cons)
  then show ?thesis using assms
    by (cases "c_isspace (html ! sh_i st)") (auto simp: strip_step_def char_at_def strip_char_def shown_def emit_def Let_def)
qed

lemma text_run:
  assumes "html = pre @ s @ post" "sh_i st = length pre" "shown st" "CHR ''<'' \<notin> set s" "CHR ''&'' \<notin> set s"
  shows "\<exists>st'. strip_loop html st = strip_loop html st' \<and> shown st' \<and> sh_out st' = sh_out st @ s \<and>
    (sh_i st' = length (pre @ s) \<or> post = [] \<and> length html \<le> sh_i st')"
  using assms
proof (induction s arbitrary: pre st)
  case (Cons c s)
  have c: "sh_i st < length html" "html ! sh_i st = c" using Cons.prems(1,2) by (simp_all add: nth_append)
  obtain st1 where st1: "strip_step html st = Inr st1" "shown st1" "sh_out st1 = sh_out st @ [c]"
    "sh_i st1 = sh_i st + 1 \<or> Suc (sh_i st) = length html \<and> length html \<le> sh_i st1"
    using text_step[OF Cons.prems(3) c(1)] c(2) Cons.prems(4,5) by auto
  have loop: "strip_loop html st = strip_loop html st1" using c(1) st1(1) by (subst strip_loop.simps) simp
  show ?case
  proof (cases "sh_i st1 = sh_i st + 1")
    case True
    then have "\<exists>st'. strip_loop html st1 = strip_loop html st' \<and> shown st' \<and> sh_out st' = sh_out st1 @ s \<and>
      (sh_i st' = length ((pre @ [c]) @ s) \<or> post = [] \<and> length html \<le> sh_i st')"
      using Cons.IH[of "pre @ [c]" st1] Cons.prems st1(2) by simp
    then show ?thesis using loop st1(3) by auto
  next
    case False
    then have "s = []" "post = []" using st1(4) Cons.prems(1,2) by auto
    then show ?thesis using loop st1 False by (intro exI[of _ st1]) auto
  qed
qed auto

lemma tag_run:
  assumes "html = pre @ (CHR ''<'' # s @ ''>'') @ post" "sh_i st = length pre" "shown st" "simple_piece (Tag s)"
  shows "\<exists>st'. strip_loop html st = strip_loop html st' \<and> shown st' \<and> sh_out st' = sh_out st \<and> sh_i st' = length pre + length s + 2"
proof -
  define tag where "tag = CHR ''<'' # s @ ''>''"
  have html: "html = pre @ tag @ post" using assms(1) by (simp add: tag_def)
  have no: "\<not> text_at html (length pre) p" if "p \<in> set special_tags" for p
    using assms(4) that not_clash[of tag p pre post] by (simp add: html tag_def)
  have sp: "set (map fst uritag) \<subseteq> set special_tags" "set break_tags \<subseteq> set special_tags" "set (map fst cdata_tags) \<subseteq> set special_tags"
    "''</td>'' \<in> set special_tags" "''<td'' \<in> set special_tags" by (auto simp: special_tags_def simp del: set_map)
  have at: "char_at html (length pre) = CHR ''<''" "length pre + 1 < length html" "tag_start (html ! (length pre + 1))"
    using assms(1,4) by (simp_all add: char_at_def nth_append)
  have drop: "drop (length pre + 1) html = s @ CHR ''>'' # post" using assms(1) by simp
  have "takeWhile (\<lambda>c. c \<noteq> CHR ''<'' \<and> c \<noteq> CHR ''>'') (s @ CHR ''>'' # post) = s"
    using assms(4) by (subst takeWhile_append2) auto
  then have k: "tag_end html (length pre) = length pre + 1 + length s" unfolding tag_end_def drop by simp
  have after: "char_at html (length pre + 1 + length s) = CHR ''>''" using assms(1) by (simp add: char_at_def nth_append)
  have "find (uri_tag_at html (length pre)) uritag = None" using no sp(1) by (auto simp: find_None_iff uri_tag_at_def)
  moreover have "\<not> list_ex (text_at html (length pre)) break_tags" using no sp(2) by (auto simp: list_ex_iff)
  moreover have "find (\<lambda>t. text_at html (length pre) (fst t)) cdata_tags = None" using no sp(3) by (auto simp: find_None_iff)
  ultimately have "tag_text html (st\<lparr>sh_closing_td := False, sh_visible := True\<rparr>) = Inr (st\<lparr>sh_closing_td := False, sh_visible := True\<rparr>)"
    using assms(2) by (simp add: tag_text_def Let_def)
  then have "strip_tag html (st\<lparr>sh_closing_td := False, sh_visible := True\<rparr>) =
      Inr (st\<lparr>sh_closing_td := False, sh_visible := True, sh_i := length pre + length s + 2\<rparr>)"
    using assms(1,2) k after by (simp add: strip_tag_def Let_def)
  moreover have "enter_tag html st = Inr (st\<lparr>sh_closing_td := False, sh_visible := True\<rparr>)"
    using no[OF sp(5)] assms(2) by (simp add: enter_tag_def)
  ultimately have "strip_step html st = Inr (st\<lparr>sh_closing_td := False, sh_visible := True, sh_i := length pre + length s + 2\<rparr>)"
    using at no[OF sp(4)] assms(2,3) by (simp add: strip_step_def Let_def shown_def)
  then have "strip_loop html st = strip_loop html (st\<lparr>sh_closing_td := False, sh_visible := True, sh_i := length pre + length s + 2\<rparr>)"
    using at(2) assms(2) by (subst strip_loop.simps) simp
  then show ?thesis using assms(2,3)
    by (intro exI[of _ "st\<lparr>sh_closing_td := False, sh_visible := True, sh_i := length pre + length s + 2\<rparr>"]) (simp add: shown_def)
qed

lemma pieces_run:
  assumes "html = pre @ concat (map source ps)" "sh_i st = length pre \<or> ps = [] \<and> length html \<le> sh_i st" "shown st" "\<forall>p\<in>set ps. simple_piece p"
  shows "\<exists>st'. strip_loop html st = Inr st' \<and> sh_out st' = sh_out st @ concat (map rendered ps)"
  using assms
proof (induction ps arbitrary: pre st)
  case Nil
  then show ?case by (subst strip_loop.simps) auto
next
  case (Cons p ps)
  have st: "sh_i st = length pre" using Cons.prems(2) by simp
  have "\<exists>st1. strip_loop html st = strip_loop html st1 \<and> shown st1 \<and> sh_out st1 = sh_out st @ rendered p \<and>
      (sh_i st1 = length (pre @ source p) \<or> concat (map source ps) = [] \<and> length html \<le> sh_i st1)"
  proof (cases p)
    case (Text s)
    then show ?thesis using text_run[of html pre s "concat (map source ps)" st] Cons.prems st by auto
  next
    case (Tag s)
    then show ?thesis using tag_run[of html pre s "concat (map source ps)" st] Cons.prems st by auto
  qed
  then obtain st1 where st1: "strip_loop html st = strip_loop html st1" "shown st1" "sh_out st1 = sh_out st @ rendered p"
    "sh_i st1 = length (pre @ source p) \<or> concat (map source ps) = [] \<and> length html \<le> sh_i st1" by blast
  show ?case
  proof (cases "sh_i st1 = length (pre @ source p)")
    case True
    then show ?thesis using Cons.IH[of "pre @ source p" st1] Cons.prems st1 by simp
  next
    case False
    then have "concat (map rendered ps) = []" using st1(4) by (auto simp: concat_eq_Nil_conv) (metis rendered.elims source.simps(1))
    moreover have "strip_loop html st1 = Inr st1" using False st1(4) by (subst strip_loop.simps) simp
    ultimately show ?thesis using st1 by simp
  qed
qed

section \<open>Properties\<close>

text \<open>
  C22. Simple markup is removed and all text is kept: a document of text (without angle
  brackets and ampersands) and tags that neither carry an address nor break a line nor hide
  their contents is stripped to the text alone.
\<close>

theorem html_markup_removed:
  assumes "\<forall>p\<in>set ps. simple_piece p"
  shows "ds_strip_html (concat (map source ps)) = Inr (concat (map rendered ps))"
proof -
  define st where "st = \<lparr>sh_i = 0, sh_out = [], sh_visible = True, sh_closing_td = False, sh_cdata = None\<rparr>"
  obtain st' where "strip_loop (concat (map source ps)) st = Inr st'" "sh_out st' = concat (map rendered ps)"
    using pieces_run[of "concat (map source ps)" "[]" ps st] assms by (auto simp: st_def shown_def)
  moreover have "length (rendered p) \<le> length (source p)" for p by (cases p) auto
  then have "length (concat (map rendered ps)) \<le> length (concat (map source ps))" by (induction ps) (auto intro: add_mono)
  ultimately show ?thesis by (simp add: ds_strip_html_def st_def)
qed

theorem html_markup_removed_witness: "ds_strip_html ''a<b>c</b> d'' = Inr ''ac d''"
proof -
  have "\<forall>p\<in>set [Text ''a'', Tag ''b'', Text ''c'', Tag ''/b'', Text '' d'']. simple_piece p" by code_simp
  from html_markup_removed[OF this] show ?thesis by simp
qed

text \<open>
  C25. The output fits its buffer as long as the input names no address: without a colon and a
  number sign in it, stripping ends without a fault and the result is no longer than the
  input, whatever tags and entities there are.
\<close>

theorem html_output_fits:
  assumes "CHR '':'' \<notin> set html" "CHR ''#'' \<notin> set html"
  shows "\<exists>r. ds_strip_html html = Inr r \<and> length r \<le> length html"
  using strip_loop_bound[OF assms, of "\<lparr>sh_i = 0, sh_out = [], sh_visible = True, sh_closing_td = False, sh_cdata = None\<rparr>"]
  by (auto simp: ds_strip_html_def)

theorem html_output_fits_witness: "\<exists>r. ds_strip_html ''<td>x</td><td>&amp;<br>< 5<p'' = Inr r \<and> length r \<le> 28"
  using html_output_fits[of "''<td>x</td><td>&amp;<br>< 5<p''"] by (simp add: eval_nat_numeral)


text \<open>An angle bracket in a text swallows the next one, so that the tag after it becomes text.\<close>

lemma angle_swallows_tag: "ds_strip_html ''a < b <b>c'' = Inr ''a < b b>c''"
  by code_simp

end
