(* ===== verification/Ds_Message.thy ===== *)
theory Ds_Message
  imports Ds_Decode
begin

text \<open>
  What parsing keeps of a message: the text of a well-formed message is what assembling its
  parts gives back, with encoded words decoded and boundaries recognised in between.
\<close>

section \<open>Decoding of headers\<close>

lemma b64_decode_ascii:
  "(\<And>c. c \<in> set cs \<Longrightarrow> ascii c) \<Longrightarrow> n < 4 \<Longrightarrow> \<exists>r. b64_decode_loop bits n cs = Inr r \<and> 4 * length r \<le> 3 * (length cs + n)"
proof (induction cs arbitrary: bits n)
  case (Cons c cs)
  have c: "0 \<le> schar c" using Cons.prems(1) by (simp add: schar_ascii)
  note IH = Cons.IH[OF Cons.prems(1)]
  show ?case
  proof (cases "c = CHR ''='' \<or> c \<notin> set b64_alphabet")
    case True
    then show ?thesis using c IH[of n bits] Cons.prems(2) by (auto simp: b64_tail_def)
  next
    case False
    obtain r where r: "b64_decode_loop 0 0 cs = Inr r" "4 * length r \<le> 3 * length cs" using IH[of 0 0] by auto
    have r': "Suc n < 4 \<Longrightarrow> \<exists>r'. b64_decode_loop ((bits + b64_decoder c) * 2 ^ 6) (Suc n) cs = Inr r' \<and> 4 * length r' \<le> 3 * (length cs + Suc n)"
      by (rule IH) auto
    show ?thesis using False c r r' Cons.prems(2) by (cases "Suc n = 4") (auto simp: Let_def)
  qed
qed auto

lemma base64decode_ascii: "(\<And>c. c \<in> set s \<Longrightarrow> ascii c) \<Longrightarrow> \<exists>r. base64decode s = Inr r"
proof -
  assume "\<And>c. c \<in> set s \<Longrightarrow> ascii c"
  from b64_decode_ascii[OF this, of s 0 0] obtain r where r: "b64_decode_loop 0 0 s = Inr r" "4 * length r \<le> 3 * length s" by auto
  have "length (takeWhile (\<lambda>c. c \<noteq> CHR 0x00) r) \<le> length r" by (rule length_takeWhile_le)
  then show ?thesis using r by (auto simp: base64decode_def Let_def)
qed

lemma strtok_subset: "strtok_r s d = Some (t, r) \<Longrightarrow> set t \<subseteq> set s \<and> set r \<subseteq> set s"
  by (auto simp: strtok_r_def Let_def split: if_splits dest!: set_takeWhileD in_set_dropD set_dropWhileD)

text \<open>A header that is not decoded yet, or whose original data is kept.\<close>

definition raw_header :: "ds_header \<Rightarrow> bool" where
  "raw_header h \<longleftrightarrow> hf_original_data h = None \<and> (\<forall>c\<in>set (hf_concatenated_data h). ascii c)"

definition kept_header :: "ds_header \<Rightarrow> ds_header \<Rightarrow> bool" where
  "kept_header h h' \<longleftrightarrow> hf_heading h' = hf_heading h \<and> hf_data h' = hf_data h \<and>
     (hf_original_data h' = None \<or> hf_original_data h' = Some (hf_data h))"

lemma decode_word_kept:
  assumes "raw_header h"
  shows "\<exists>h' off'. decode_word h off = Inr (h', off') \<and> kept_header h h'"
proof -
  define enc where "enc = drop off (hf_concatenated_data h)"
  define next_tok where "next_tok = (\<lambda>s. Option.bind s (\<lambda>(_ :: string, r). strtok_r r ''?''))"
  have sub: "set t \<subseteq> set (hf_concatenated_data h)" if toks: "next_tok (next_tok (next_tok (strtok_r enc ''?''))) = Some (t, r)" for t r
  proof -
    obtain r1 r2 r3 t1 t2 t3 where toks: "strtok_r enc ''?'' = Some (t1, r1)" "strtok_r r1 ''?'' = Some (t2, r2)"
      "strtok_r r2 ''?'' = Some (t3, r3)" "strtok_r r3 ''?'' = Some (t, r)"
      using toks by (auto simp: next_tok_def split: Option.bind_splits)
    show ?thesis using toks[THEN strtok_subset] set_drop_subset[of off "hf_concatenated_data h"] unfolding enc_def by blast
  qed
  have b64: "\<exists>s. ds_decode_base64 t = Inr s" if "next_tok (next_tok (next_tok (strtok_r enc ''?''))) = Some (t, r)" for t r
    using base64decode_ascii[of t] sub[OF that] assms by (auto simp: ds_decode_base64_def raw_header_def)
  show ?thesis
    unfolding decode_word_def Let_def enc_def[symmetric] next_tok_def[symmetric]
    using assms b64 by (auto simp: kept_header_def raw_header_def split: option.split)
qed

lemma decode_from_kept: "raw_header h \<Longrightarrow> \<exists>h'. decode_from off h = Inr h' \<and> kept_header h h'"
proof (induction "length (hf_concatenated_data h) - off" arbitrary: off rule: less_induct)
  case less
  show ?case
  proof (cases "off < length (hf_concatenated_data h)")
    case True
    show ?thesis
    proof (cases "take 2 (drop off (hf_concatenated_data h)) = ''=?''")
      case enc: True
      obtain h' off' where w: "decode_word h off = Inr (h', off')" "kept_header h h'" using decode_word_kept[OF less(2)] by blast
      have "decode_from off' h' = Inr h'" using decode_word_ends[OF w(1)] by (subst decode_from.simps) simp
      then show ?thesis using True enc w by (subst decode_from.simps) simp
    next
      case False
      then have "decode_from off h = decode_from (off + 1) h" using True by (subst decode_from.simps) simp
      then show ?thesis using less True by simp
    qed
  next
    case False
    then show ?thesis using less(2) by (subst decode_from.simps) (simp add: kept_header_def raw_header_def)
  qed
qed

lemma decode_header_text:
  assumes "raw_header h"
  shows "\<exists>h'. decode_header h = Inr h' \<and> assemble_header nl h' = assemble_header nl h"
  using decode_from_kept[OF assms, of 0] assms
  by (auto simp: decode_header_def kept_header_def raw_header_def assemble_header_def Let_def)

lemma decode_headers_text:
  assumes "\<And>h. h \<in> set (mp_headers b) \<Longrightarrow> raw_header h"
  shows "\<exists>hs. ds_decode_headers b = Inr (b\<lparr>mp_headers := hs\<rparr>) \<and> map (assemble_header nl) hs = map (assemble_header nl) (mp_headers b)"
proof -
  have "\<exists>hs. cfold (\<lambda>hs h. cbind (decode_header h) (\<lambda>h'. Inr (hs @ [h']))) acc xs = Inr (acc @ hs) \<and>
      map (assemble_header nl) hs = map (assemble_header nl) xs" if "\<And>h. h \<in> set xs \<Longrightarrow> raw_header h" for acc xs
    using that
  proof (induction xs arbitrary: acc)
    case (Cons x xs)
    obtain h' where h': "decode_header x = Inr h'" "assemble_header nl h' = assemble_header nl x"
      using decode_header_text[of x nl] Cons.prems by auto
    obtain hs where "cfold (\<lambda>hs h. cbind (decode_header h) (\<lambda>h'. Inr (hs @ [h']))) (acc @ [h']) xs = Inr ((acc @ [h']) @ hs)"
      "map (assemble_header nl) hs = map (assemble_header nl) xs" using Cons.IH[of "acc @ [h']"] Cons.prems by auto
    then show ?case using h' by (intro exI[of _ "h' # hs"]) simp
  qed simp
  from this[of "mp_headers b" "[]"] assms show ?thesis by (auto simp: ds_decode_headers_def)
qed

section \<open>Well-formed messages\<close>

abbreviation (input) nl :: string where "nl \<equiv> [CHR 0x0A]"

definition starts_blank :: "string \<Rightarrow> bool" where
  "starts_blank s \<longleftrightarrow> (case s of [] \<Rightarrow> False | c # _ \<Rightarrow> blank c)"

text \<open>
  A header line: a name, a colon, one space and the data; the envelope line \<^verbatim>\<open>From \<close> has no space
  after its first colon.
\<close>

definition canon_field :: "string \<Rightarrow> bool" where
  "canon_field line \<longleftrightarrow>
     (let name = takeWhile (\<lambda>c. c \<noteq> CHR '':'') line; rest = drop (length name) line in
      line \<noteq> [] \<and> \<not> starts_blank line \<and> take 1 line \<noteq> [CHR 0x0D] \<and> take 2 line \<noteq> ''--'' \<and>
      (if take 5 name = ''From '' then rest \<noteq> [] \<and> \<not> starts_blank (drop 1 rest)
       else take 2 rest = '': '' \<and> \<not> starts_blank (drop 2 rest)))"

text \<open>
  The lines of a message: a block of headers with their continuations, an empty line, and a
  body; a line of the body with two dashes may end the part, so that headers may follow.
\<close>

fun canon_head :: "bool \<Rightarrow> string list \<Rightarrow> bool"
  and canon_body :: "string list \<Rightarrow> bool" where
  "canon_head first [] = False"
| "canon_head first (l # ls) =
     (if l = [] then ls \<noteq> [] \<and> canon_body ls
      else if starts_blank l then \<not> first \<and> canon_head False ls
      else canon_field l \<and> canon_head False ls)"
| "canon_body [] = True"
| "canon_body (l # ls) = (if take 2 l = ''--'' then canon_head True ls else canon_body ls)"

fun join_lines :: "string list \<Rightarrow> string" where
  "join_lines [] = []"
| "join_lines (l # ls) = l @ (if ls \<noteq> [] then nl else []) @ join_lines ls"

lemma split_lines_join: "join_lines (split_lines s) = s" "split_lines s \<noteq> []" "set (concat (split_lines s)) \<subseteq> set s"
proof -
  have "join_lines (split_lines s) = s \<and> split_lines s \<noteq> [] \<and> set (concat (split_lines s)) \<subseteq> set s"
  proof (induction s rule: split_lines.induct)
    case (1 s)
    show ?case
    proof (cases "dropWhile (\<lambda>c. c \<noteq> CHR 0x0A) s")
      case Nil
      then have "dropWhile (\<lambda>c. c \<notin> set [CHR 0x0A]) s = []" by simp
      then have "strsep (Some s) [CHR 0x0A] = Some (s, None)" by (simp only: strsep_def option.case list.case)
      then have "split_lines s = [s]" by (subst split_lines.simps) simp
      then show ?thesis by simp
    next
      case (Cons d rest)
      then have d: "d = CHR 0x0A" using hd_dropWhile[of "\<lambda>c. c \<noteq> CHR 0x0A" s] by simp
      have s: "s = takeWhile (\<lambda>c. c \<noteq> CHR 0x0A) s @ d # rest" using Cons takeWhile_dropWhile_id by metis
      have sep: "strsep (Some s) [CHR 0x0A] = Some (takeWhile (\<lambda>c. c \<noteq> CHR 0x0A) s, Some rest)" using Cons by (simp add: strsep_def)
      have IH: "join_lines (split_lines rest) = rest \<and> split_lines rest \<noteq> [] \<and> set (concat (split_lines rest)) \<subseteq> set rest"
        using 1[OF sep refl refl] by blast
      have sl: "split_lines s = takeWhile (\<lambda>c. c \<noteq> CHR 0x0A) s # split_lines rest" using sep by (subst split_lines.simps) simp
      have "set rest \<subseteq> set s" by (subst s) auto
      then show ?thesis using IH s d unfolding sl by (auto dest: set_takeWhileD)
    qed
  qed
  then show "join_lines (split_lines s) = s" "split_lines s \<noteq> []" "set (concat (split_lines s)) \<subseteq> set s" by auto
qed

lemma assemble_parts_snoc:
  "ps \<noteq> [] \<Longrightarrow> assemble_parts f n ps = concat (map (\<lambda>p. assemble_part f n p @ n) (butlast ps)) @ assemble_part f n (last ps)"
  by (induction ps) auto

section \<open>The text of a parse\<close>

definition same_text :: "ds_message_part \<Rightarrow> ds_message_part \<Rightarrow> bool" where
  "same_text b b' \<longleftrightarrow> mp_headers b' = mp_headers b \<and> mp_body b' = mp_body b \<and>
     mp_original_signed_body b' = mp_original_signed_body b \<and> mp_terminating_boundary b' = mp_terminating_boundary b"

definition stack_ok :: "string nt \<Rightarrow> bool" where
  "stack_ok bs \<longleftrightarrow> nt_ok bs \<and> (\<forall>b\<in>set (nt_first bs). take 2 b = ''--'')"

lemma stack_match: "stack_ok bs \<Longrightarrow> ds_match_boundary bs line \<Longrightarrow> take 2 line = ''--''"
proof -
  assume "stack_ok bs" "ds_match_boundary bs line"
  then obtain b where b: "take 2 b = ''--''" "take (length b) line = b" by (auto simp: stack_ok_def ds_match_boundary_def)
  then have "2 \<le> length b" by (metis length_take min_def length_Cons list.size(3) numeral_2_eq_2 nat_le_linear)
  then have "take 2 (take (length b) line) = take 2 line" by (simp add: min_def)
  then show ?thesis using b by simp
qed

lemma push_boundary_ok: "stack_ok bs \<Longrightarrow> \<exists>bs' r. ds_push_boundary True bs b = Inr (bs', r) \<and> stack_ok bs'"
  by (auto simp: ds_push_boundary_def stack_ok_def nt_add_ok dest: nt_add_invariant)

lemma note_boundary_ok:
  assumes "stack_ok bs"
  shows "\<exists>bs' b'. note_boundary bs b text = Inr (bs', b') \<and> stack_ok bs' \<and> same_text b b'"
proof (cases "ds_extract_boundary 128 text")
  case None
  then show ?thesis using push_boundary_ok[OF assms, of "[]"] by (auto simp: note_boundary_def same_text_def)
next
  case (Some x)
  then show ?thesis using push_boundary_ok[OF assms, of x] assms by (auto simp: note_boundary_def same_text_def)
qed

lemma analyze_header_ok:
  assumes "stack_ok bs"
  shows "\<exists>bs' b'. ds_analyze_header b h bs = Inr (bs', b') \<and> stack_ok bs' \<and> same_text b b'"
proof -
  define b1 where "b1 = b\<lparr>mp_media_type := fst (type_of (hf_data h)), mp_media_subtype := snd (type_of (hf_data h))\<rparr>"
  obtain bs' b' where n: "note_boundary bs b1 (hf_data h) = Inr (bs', b')" "stack_ok bs'" "same_text b1 b'"
    using note_boundary_ok[OF assms] by blast
  then show ?thesis using assms
    by (auto simp: ds_analyze_header_def Let_def split_beta b1_def[symmetric]) (auto simp: same_text_def b1_def)
qed

definition block_ok :: "ds_message_part \<Rightarrow> bool \<Rightarrow> bool" where
  "block_ok b in_body \<longleftrightarrow> mp_original_signed_body b = None \<and> mp_terminating_boundary b = None \<and>
     (\<forall>h\<in>set (mp_headers b). raw_header h) \<and> (\<not> in_body \<longrightarrow> mp_body b = [])"

definition block_text :: "ds_message_part \<Rightarrow> bool \<Rightarrow> string" where
  "block_text b in_body = concat (map (assemble_header nl) (mp_headers b)) @ (if in_body then nl @ mp_body b else [])"

definition parse_inv :: "parse \<Rightarrow> string \<Rightarrow> bool" where
  "parse_inv ps txt \<longleftrightarrow> ps_parts ps \<noteq> [] \<and> stack_ok (ps_boundaries ps) \<and> block_ok (last (ps_parts ps)) (ps_in_body ps) \<and>
     txt = concat (map (\<lambda>p. assemble_part False nl p @ nl) (butlast (ps_parts ps))) @ block_text (last (ps_parts ps)) (ps_in_body ps)"

definition heading_ok :: "parse \<Rightarrow> bool" where
  "heading_ok ps \<longleftrightarrow> mp_headers (last (ps_parts ps)) \<noteq> [] \<and>
     ps_heading ps = Some (length (ps_parts ps) - 1, length (mp_headers (last (ps_parts ps))) - 1)"

lemma set_current_simps [simp]:
  "last (ps_parts (set_current ps b)) = b" "butlast (ps_parts (set_current ps b)) = butlast (ps_parts ps)"
  "ps_parts (set_current ps b) \<noteq> []" "ps_boundaries (set_current ps b) = ps_boundaries ps"
  "ps_in_body (set_current ps b) = ps_in_body ps" "ps_heading (set_current ps b) = ps_heading ps"
  "ps_parts ps \<noteq> [] \<Longrightarrow> length (ps_parts (set_current ps b)) = length (ps_parts ps)"
  by (simp_all add: set_current_def)

lemma next_part_text:
  assumes "parse_inv ps txt" "ps_in_body ps" "take 2 line = ''--''"
  shows "\<exists>ps'. next_part True ps line = Inr (Some ps') \<and> parse_inv ps' (txt @ line @ nl) \<and> \<not> ps_in_body ps'"
proof -
  define b where "b = last (ps_parts ps)"
  define b1 where "b1 = b\<lparr>mp_terminating_boundary := Some (drop 2 line), mp_original_encoding := mp_encoding b\<rparr>"
  have b: "block_ok b True" "ps_parts ps \<noteq> []" "stack_ok (ps_boundaries ps)"
    "txt = concat (map (\<lambda>p. assemble_part False nl p @ nl) (butlast (ps_parts ps))) @ block_text b True"
    using assms(1,2) by (auto simp: parse_inv_def b_def)
  obtain hs where hs: "ds_decode_headers b1 = Inr (b1\<lparr>mp_headers := hs\<rparr>)" "map (assemble_header nl) hs = map (assemble_header nl) (mp_headers b)"
    using decode_headers_text[of b1 nl] b(1) by (auto simp: block_ok_def b1_def)
  have line: "line = ''--'' @ drop 2 line" using assms(3) append_take_drop_id[of 2 line] by simp
  have ptext: "assemble_part False nl (b1\<lparr>mp_headers := hs\<rparr>) = block_text b True @ line"
    using b(1) hs(2) by (subst line) (simp add: assemble_part_def block_text_def b1_def block_ok_def)
  show ?thesis
    using hs(1) b ptext unfolding next_part_def b_def[symmetric] b1_def[symmetric] Let_def
    by (simp add: b1_def[symmetric]) (simp add: parse_inv_def set_current_def butlast_append block_ok_def block_text_def ds_create_message_part_def)
qed

lemma body_line_text:
  assumes "parse_inv ps txt" "ps_in_body ps"
  shows "\<exists>ps'. body_line True cont ps line = Inr (Some ps') \<and>
    (ps_in_body ps' \<and> parse_inv ps' (txt @ line @ (if cont then nl else [])) \<or>
     \<not> ps_in_body ps' \<and> take 2 line = ''--'' \<and> parse_inv ps' (txt @ line @ nl))"
proof -
  define typed where "typed = (case_prefix ''Content-Type'' line \<or> ((take 1 line = '' '' \<or> take 1 line = [CHR 0x09]) \<and> ps_in_content ps))"
  define b where "b = last (ps_parts ps)"
  have inv: "ps_parts ps \<noteq> []" "stack_ok (ps_boundaries ps)" "block_ok b True"
    "txt = concat (map (\<lambda>p. assemble_part False nl p @ nl) (butlast (ps_parts ps))) @ block_text b True"
    using assms by (auto simp: parse_inv_def b_def)
  obtain bs b' where n: "(if typed \<and> True then note_boundary (ps_boundaries ps) b line else Inr (ps_boundaries ps, b)) = Inr (bs, b')"
    "stack_ok bs" "same_text b b'"
    using note_boundary_ok[OF inv(2), of b line] inv(2) by (cases typed) (auto simp: same_text_def)
  define ps1 where "ps1 = (set_current ps b')\<lparr>ps_boundaries := bs, ps_in_content := typed\<rparr>"
  have ps1: "parse_inv ps1 txt" "ps_in_body ps1" "last (ps_parts ps1) = b'" "butlast (ps_parts ps1) = butlast (ps_parts ps)"
    using inv n(2,3) assms(2) by (auto simp: parse_inv_def ps1_def block_ok_def block_text_def same_text_def)
  have run: "body_line True cont ps line =
      (if ds_match_boundary bs line then next_part True ps1 line
       else Inr (Some (set_current ps1 (b'\<lparr>mp_body := mp_body b' @ line @ (if cont then nl else [])\<rparr>))))"
    using n(1) unfolding body_line_def Let_def b_def[symmetric] typed_def[symmetric] by (simp add: ps1_def)
  show ?thesis
  proof (cases "ds_match_boundary bs line")
    case True
    then show ?thesis using run next_part_text[OF ps1(1,2)] stack_match[OF n(2) True] by auto
  next
    case False
    then show ?thesis using run ps1 by (auto simp: parse_inv_def block_ok_def block_text_def)
  qed
qed

text \<open>A header line is assembled as it was read.\<close>

lemma dashes_prefix: "take 2 s = ''--'' \<Longrightarrow> take 2 (s @ r) = ''--''"
  by (cases s; cases "tl s") auto

lemma field_text:
  assumes "canon_field line"
  shows "assemble_header nl (ds_create_header_field line) = line @ nl"
proof -
  define name where "name = takeWhile (\<lambda>c. c \<noteq> CHR '':'') line"
  define rest where "rest = drop (length name) line"
  have line: "line = name @ rest" by (simp add: name_def rest_def flip: dropWhile_eq_drop)
  have c: "take 2 line \<noteq> ''--''" "if take 5 name = ''From '' then rest \<noteq> [] \<and> \<not> starts_blank (drop 1 rest)
      else take 2 rest = '': '' \<and> \<not> starts_blank (drop 2 rest)"
    using assms by (auto simp: canon_field_def Let_def name_def[symmetric] rest_def[symmetric])
  have "take 2 name \<noteq> ''--''" using c(1) dashes_prefix[of name rest] unfolding line[symmetric] by blast
  moreover have dw: "dropWhile (\<lambda>c. c \<noteq> CHR '':'') line = rest"
    by (simp add: rest_def name_def flip: dropWhile_eq_drop)
  moreover have "rest \<noteq> []" using c(2) by (auto split: if_splits)
  then obtain r where r: "rest = CHR '':'' # r" using dw hd_dropWhile[of "\<lambda>c. c \<noteq> CHR '':''" line] by (cases rest) auto
  have sep: "strsep (Some line) '':'' = Some (name, Some r)"
    using dw r by (simp add: strsep_def name_def)
  have drop_blank: "dropWhile blank s = s" if "\<not> starts_blank s" for s
    using that by (cases s) (auto simp: starts_blank_def)
  show ?thesis
  proof (cases "take 5 name = ''From ''")
    case True
    then show ?thesis using c(2) drop_blank[of r] line r sep by (simp add: ds_create_header_field_def assemble_header_def)
  next
    case False
    then obtain d where d: "r = CHR '' '' # d" "\<not> starts_blank d" using c(2) r by (cases r) auto
    then have "dropWhile blank r = d" using drop_blank[of d] by (simp add: blank_def)
    then show ?thesis using False \<open>take 2 name \<noteq> ''--''\<close> line r sep d(1)
      by (simp add: ds_create_header_field_def assemble_header_def)
  qed
qed

lemma field_raw: "(\<And>c. c \<in> set line \<Longrightarrow> ascii c) \<Longrightarrow> raw_header (ds_create_header_field line)"
  by (auto simp: raw_header_def ds_create_header_field_def strsep_def Let_def split: list.splits dest!: set_dropWhileD)
    (metis list.set_intros(2) set_dropWhileD)

lemma fold_line_text: "raw_header h \<Longrightarrow> assemble_header nl (fold_line h line) = assemble_header nl h @ line @ nl"
  by (simp add: raw_header_def fold_line_def assemble_header_def Let_def)

lemma fold_line_raw: "raw_header h \<Longrightarrow> (\<And>c. c \<in> set line \<Longrightarrow> ascii c) \<Longrightarrow> raw_header (fold_line h line)"
  by (auto simp: raw_header_def fold_line_def dest: set_dropWhileD)

lemma update_last: "xs \<noteq> [] \<Longrightarrow> xs[length xs - 1 := x] = butlast xs @ [x]"
  by (induction xs) (auto simp: nth_Cons' Suc_diff_Suc list_update.simps split: nat.split)

lemma starts_blank_take: "starts_blank line \<longleftrightarrow> take 1 line = '' '' \<or> take 1 line = [CHR 0x09]"
  by (cases line) (auto simp: starts_blank_def blank_def)

lemma header_no_match: "stack_ok bs \<Longrightarrow> starts_blank line \<or> canon_field line \<or> line = [] \<Longrightarrow> \<not> ds_match_boundary bs line"
  using stack_match[of bs line] by (cases line) (auto simp: starts_blank_def blank_def canon_field_def Let_def)

lemma field_line_step:
  assumes "parse_inv ps txt" "\<not> ps_in_body ps" "canon_field line" "\<And>c. c \<in> set line \<Longrightarrow> ascii c"
  shows "\<exists>ps'. header_line True ps line = Inr (Some ps') \<and> parse_inv ps' (txt @ line @ nl) \<and> \<not> ps_in_body ps' \<and> heading_ok ps'"
proof -
  define h where "h = ds_create_header_field line"
  have inv: "ps_parts ps \<noteq> []" "stack_ok (ps_boundaries ps)" using assms(1) by (auto simp: parse_inv_def)
  obtain bs b where b: "ds_analyze_header (last (ps_parts ps)) h (ps_boundaries ps) = Inr (bs, b)" "stack_ok bs"
    "same_text (last (ps_parts ps)) b" using analyze_header_ok[OF inv(2)] by blast
  have c: "line \<noteq> []" "\<not> starts_blank line" "take 1 line \<noteq> [CHR 0x0D]" using assms(3) by (auto simp: canon_field_def Let_def)
  have run: "header_line True ps line = Inr (Some ((set_current ps (b\<lparr>mp_headers := mp_headers b @ [h]\<rparr>))\<lparr>ps_boundaries := bs,
      ps_heading := Some (length (ps_parts ps) - 1, length (mp_headers b))\<rparr>))"
    using header_no_match[OF inv(2), of line] assms(3) c b(1) unfolding header_line_def starts_blank_take[symmetric] by (simp add: h_def)
  have "raw_header h" "assemble_header nl h = line @ nl" using field_raw field_text assms(3,4) by (auto simp: h_def)
  then show ?thesis using run assms(1,2) b(2,3) inv(1)
    by (auto simp: parse_inv_def heading_ok_def block_ok_def block_text_def same_text_def)
qed

lemma fold_line_step:
  assumes "parse_inv ps txt" "\<not> ps_in_body ps" "heading_ok ps" "starts_blank line" "\<And>c. c \<in> set line \<Longrightarrow> ascii c"
  shows "\<exists>ps'. header_line True ps line = Inr (Some ps') \<and> parse_inv ps' (txt @ line @ nl) \<and> \<not> ps_in_body ps' \<and> heading_ok ps'"
proof -
  define b where "b = last (ps_parts ps)"
  define h where "h = fold_line (last (mp_headers b)) line"
  define b1 where "b1 = b\<lparr>mp_headers := butlast (mp_headers b) @ [h]\<rparr>"
  have inv: "ps_parts ps \<noteq> []" "stack_ok (ps_boundaries ps)" "block_ok b False" "mp_headers b \<noteq> []"
    "ps_heading ps = Some (length (ps_parts ps) - 1, length (mp_headers b) - 1)"
    using assms(1-3) by (auto simp: parse_inv_def heading_ok_def b_def)
  obtain bs b2 where b2: "ds_analyze_header b1 h (ps_boundaries ps) = Inr (bs, b2)" "stack_ok bs" "same_text b1 b2"
    using analyze_header_ok[OF inv(2)] by blast
  have nth: "ps_parts ps ! (length (ps_parts ps) - 1) = b" "mp_headers b ! (length (mp_headers b) - 1) = last (mp_headers b)"
    using inv by (simp_all add: b_def last_conv_nth)
  have run: "header_line True ps line = Inr (Some ((set_current ps b2)\<lparr>ps_boundaries := bs\<rparr>))"
    using header_no_match[OF inv(2), of line] assms(4) b2(1)
    unfolding header_line_def inv(5) starts_blank_take[symmetric] option.case prod.case nth update_last[OF inv(1)] update_last[OF inv(4)]
        h_def[symmetric] b1_def[symmetric] Let_def by (simp add: set_current_def)
  have raw: "raw_header (last (mp_headers b))" using inv(3,4) by (simp add: block_ok_def)
  have hs: "mp_headers b = butlast (mp_headers b) @ [last (mp_headers b)]" using inv(4) by simp
  have "map (assemble_header nl) (mp_headers b) = map (assemble_header nl) (butlast (mp_headers b)) @ [assemble_header nl (last (mp_headers b))]"
    by (subst hs) simp
  then have htext: "concat (map (assemble_header nl) (mp_headers b1)) = concat (map (assemble_header nl) (mp_headers b)) @ line @ nl"
    by (simp add: b1_def h_def fold_line_text[OF raw])
  have "\<forall>x\<in>set (mp_headers b1). raw_header x"
    using inv(3) fold_line_raw[OF raw assms(5)] in_set_butlastD[of _ "mp_headers b"] by (auto simp: b1_def h_def block_ok_def)
  moreover have "length (mp_headers b1) = length (mp_headers b)" "mp_headers b1 \<noteq> []" using inv(4) by (auto simp: b1_def)
  ultimately show ?thesis using run assms(1,2) b2(2,3) inv htext
    by (auto simp: parse_inv_def heading_ok_def block_ok_def block_text_def same_text_def b_def[symmetric]) (auto simp: b1_def)
qed

lemma empty_line_step:
  assumes "parse_inv ps txt" "\<not> ps_in_body ps"
  shows "\<exists>ps'. header_line True ps [] = Inr (Some ps') \<and> parse_inv ps' (txt @ nl) \<and> ps_in_body ps'"
  using assms header_no_match[of "ps_boundaries ps" "[]"]
  by (auto simp: header_line_def parse_inv_def block_ok_def block_text_def)

lemma canon_head_line:
  assumes "canon_head first (l # ls)"
  shows "ls \<noteq> []" "take 2 l \<noteq> ''--''" "canon_body ls \<or> canon_head False ls"
    and "l = [] \<and> canon_body ls \<or> starts_blank l \<and> \<not> first \<and> canon_head False ls \<or> canon_field l \<and> canon_head False ls"
  using assms by (cases l; auto simp: starts_blank_def blank_def canon_field_def Let_def split: if_splits)+

lemma run_lines:
  assumes "parse_inv ps t" "\<forall>l\<in>set ls. \<forall>c\<in>set l. ascii c"
    "ps_in_body ps \<and> canon_body ls \<or> canon_head first ls \<and> (ps_in_body ps \<or> first \<or> heading_ok ps)"
  shows "\<exists>ps'. parse_lines (\<lambda>_. True) n ps ls = Inr (Some ps') \<and> parse_inv ps' (t @ join_lines ls) \<and> ps_in_body ps'"
  using assms
proof (induction ls arbitrary: ps t first n)
  case (Cons l ls)
  have asc: "\<And>c. c \<in> set l \<Longrightarrow> ascii c" "\<forall>l\<in>set ls. \<forall>c\<in>set l. ascii c" using Cons.prems(2) by auto
  note IH = Cons.IH[OF _ asc(2)]
  show ?case
  proof (cases "ps_in_body ps")
    case True
    obtain ps1 where ps1: "body_line True (ls \<noteq> []) ps l = Inr (Some ps1)"
      "ps_in_body ps1 \<and> parse_inv ps1 (t @ l @ (if ls \<noteq> [] then nl else [])) \<or>
       \<not> ps_in_body ps1 \<and> take 2 l = ''--'' \<and> parse_inv ps1 (t @ l @ nl)"
      using body_line_text[OF Cons.prems(1) True] by blast
    have "canon_body ls \<or> (\<exists>f. canon_head f ls)" using Cons.prems(3) canon_head_line(3)[of first l ls] by (auto split: if_splits)
    note rest = this
    have dashes: "canon_head True ls \<and> ls \<noteq> []" if "take 2 l = ''--''"
    proof
      show c: "canon_head True ls" using that Cons.prems(3) canon_head_line(2)[of first l ls] by auto
      then show "ls \<noteq> []" by auto
    qed
    obtain f where "parse_inv ps1 (t @ l @ (if ls \<noteq> [] then nl else []))"
      "ps_in_body ps1 \<and> canon_body ls \<or> canon_head f ls \<and> (ps_in_body ps1 \<or> f \<or> heading_ok ps1)"
      using ps1(2) rest dashes that[of True] that by (cases "ps_in_body ps1") (auto split: if_splits)
    from IH[OF this, of "Suc n"] show ?thesis using True ps1(1) by auto
  next
    case False
    then have ch: "canon_head first (l # ls)" "first \<or> heading_ok ps" using Cons.prems(3) by auto
    note line = canon_head_line[OF ch(1)]
    have "\<exists>ps1. header_line True ps l = Inr (Some ps1) \<and> parse_inv ps1 (t @ l @ nl) \<and>
        (ps_in_body ps1 \<and> canon_body ls \<or> canon_head False ls \<and> (ps_in_body ps1 \<or> False \<or> heading_ok ps1))"
      using line(4) empty_line_step[OF Cons.prems(1) False] fold_line_step[OF Cons.prems(1) False _ _ asc(1)]
        field_line_step[OF Cons.prems(1) False _ asc(1)] ch(2) by fastforce
    then obtain ps1 where "header_line True ps l = Inr (Some ps1)" "parse_inv ps1 (t @ l @ nl)"
      "ps_in_body ps1 \<and> canon_body ls \<or> canon_head False ls \<and> (ps_in_body ps1 \<or> False \<or> heading_ok ps1)" by blast
    then show ?thesis using IH[of ps1 "t @ l @ nl" False "Suc n"] False line(1) by auto
  qed
qed auto

section \<open>Properties\<close>

text \<open>
  C7. Parsing and assembling a message gives it back. Let a message be 7-bit text whose lines
  are blocks of header fields (name, colon, space, data) with continuation lines, an empty
  line and a body, where headers may follow a line of the body that begins with two dashes.
  Then parsing ends without a fault, and the parts it found, some ended by boundaries that
  headers declared, some with encoded words that were decoded, are assembled to the message.
\<close>

theorem message_roundtrip:
  assumes "canon_head True (split_lines m)" "\<And>c. c \<in> set m \<Longrightarrow> ascii c"
  shows "\<exists>msg. ds_actualize_message (\<lambda>_. True) (Some m) = Inr (Some msg) \<and> ds_assemble_message msg nl = m"
proof -
  define ps where "ps = \<lparr>ps_parts = [ds_create_message_part], ps_heading = None, ps_boundaries = nt_create NT_CHAR,
    ps_in_body = False, ps_in_content = False\<rparr>"
  have inv: "parse_inv ps []"
    by (simp add: parse_inv_def ps_def stack_ok_def block_ok_def block_text_def ds_create_message_part_def)
  have "m \<noteq> []" using assms(1) by (auto simp: split_lines.simps strsep_def)
  have asc: "\<forall>l\<in>set (split_lines m). \<forall>c\<in>set l. ascii c" using assms(2) split_lines_join(3)[of m] by fastforce
  from run_lines[where first = True and n = 1 and ls = "split_lines m", OF inv asc] assms(1) obtain ps' where
    ps': "parse_lines (\<lambda>_. True) 1 ps (split_lines m) = Inr (Some ps')" "parse_inv ps' m" "ps_in_body ps'"
    by (auto simp: split_lines_join)
  define b where "b = last (ps_parts ps')"
  have b: "block_ok b True" "ps_parts ps' \<noteq> []"
    "m = concat (map (\<lambda>p. assemble_part False nl p @ nl) (butlast (ps_parts ps'))) @ block_text b True"
    using ps'(2,3) by (auto simp: parse_inv_def b_def)
  obtain hs where hs: "ds_decode_headers b = Inr (b\<lparr>mp_headers := hs\<rparr>)" "map (assemble_header nl) hs = map (assemble_header nl) (mp_headers b)"
    using decode_headers_text[of b nl] b(1) by (auto simp: block_ok_def)
  have "assemble_part False nl (b\<lparr>mp_headers := hs\<rparr>) = block_text b True"
    using b(1) hs(2) by (simp add: assemble_part_def block_text_def block_ok_def)
  then have "assemble_parts False nl (ps_parts (set_current ps' (b\<lparr>mp_headers := hs\<rparr>))) = m"
    using b(3) by (subst assemble_parts_snoc) simp_all
  then show ?thesis using ps'(1) hs(1) \<open>m \<noteq> []\<close> unfolding ds_actualize_message_def ps_def[symmetric]
    by (simp add: b_def[symmetric] ds_assemble_message_def)
qed

text \<open>A message of two parts, with an encoded word in a header.\<close>

definition two_parts :: string where
  "two_parts = ''Subject: =?u?Q?a=62?='' @ nl @ ''Content-Type: multipart/mixed;'' @ nl @ '' boundary=b'' @ nl @ nl @
     ''hi'' @ nl @ ''--b'' @ nl @ ''To: c'' @ nl @ nl @ ''yo'' @ nl"

theorem message_roundtrip_witness:
  "\<exists>msg. ds_actualize_message (\<lambda>_. True) (Some two_parts) = Inr (Some msg) \<and> ds_assemble_message msg nl = two_parts"
proof (rule message_roundtrip)
  show "canon_head True (split_lines two_parts)" by code_simp
  have "list_all ascii two_parts" by code_simp
  then show "\<And>c. c \<in> set two_parts \<Longrightarrow> ascii c" by (simp add: list_all_iff)
qed

text \<open>Quoted-printable text: what RFC 2045 allows as the encoding of a text.\<close>

definition hex_digit :: "nat \<Rightarrow> char \<Rightarrow> bool" where
  "hex_digit n a \<longleftrightarrow> n < 16 \<and> (a = ''0123456789ABCDEF'' ! n \<or> a = ''0123456789abcdef'' ! n)"

inductive qp_encodes :: "string \<Rightarrow> string \<Rightarrow> bool" where
  empty: "qp_encodes [] []"
| literal: "qp_encodes t e \<Longrightarrow> c \<noteq> CHR ''='' \<Longrightarrow> qp_encodes (c # t) (c # e)"
| hex: "qp_encodes t e \<Longrightarrow> hex_digit (of_char c div 16) a \<Longrightarrow> hex_digit (of_char c mod 16) b \<Longrightarrow> qp_encodes (c # t) (CHR ''='' # a # b # e)"
| soft: "qp_encodes t e \<Longrightarrow> qp_encodes t (CHR ''='' # CHR 0x0A # e)"
| soft_crlf: "qp_encodes t e \<Longrightarrow> qp_encodes t (CHR ''='' # CHR 0x0D # CHR 0x0A # e)"

lemma hex_digit_value: "hex_digit n a \<Longrightarrow> c_isxdigit a \<and> ds_hex2dec a = int n \<and> a \<noteq> CHR 0x0A \<and> a \<noteq> CHR 0x0D"
proof -
  assume h: "hex_digit n a"
  then have "n \<in> set [0..<16]" by (simp add: hex_digit_def)
  moreover have "list_all (\<lambda>n. \<forall>a\<in>set [''0123456789ABCDEF'' ! n, ''0123456789abcdef'' ! n].
      c_isxdigit a \<and> ds_hex2dec a = int n \<and> a \<noteq> CHR 0x0A \<and> a \<noteq> CHR 0x0D) [0..<16]" by code_simp
  ultimately show ?thesis using h by (auto simp: list_all_iff hex_digit_def)
qed

lemma hex_byte_char:
  assumes "hex_digit (of_char c div 16) a" "hex_digit (of_char c mod 16) b"
  shows "hex_byte a b = c"
proof -
  have "ds_hex2dec a * 16 + ds_hex2dec b = int (of_char c)"
    using hex_digit_value[OF assms(1)] hex_digit_value[OF assms(2)] by (simp add: zdiv_int zmod_int)
  then show ?thesis by (simp add: hex_byte_def byte_def)
qed

lemma quoted_loop_decodes: "qp_encodes t e \<Longrightarrow> quoted_loop e = t"
proof (induction rule: qp_encodes.induct)
  case (hex t e c a b)
  then show ?case using hex_digit_value[OF hex(2)] hex_digit_value[OF hex(3)] hex_byte_char[OF hex(2,3)]
    by (auto simp: hex_pair_def)
qed auto

text \<open>
  C23. Decoding of quoted-printable text. Whatever encoding of a text (without NUL) that RFC
  2045 allows, with literal characters, hexadecimal escapes in either case and soft line
  breaks at any place, the decoder gives the text back.
\<close>

theorem quoted_printable_decodes: "qp_encodes t e \<Longrightarrow> CHR 0x00 \<notin> set t \<Longrightarrow> ds_decode_quoted e = t"
  using quoted_loop_decodes[of t e] by (auto simp: ds_decode_quoted_def c_str_def takeWhile_eq_all_conv)

theorem quoted_printable_decodes_witness: "ds_decode_quoted ''a=3dB=3D'' = ''a=B=''"
proof -
  have "qp_encodes ''a=B='' ''a=3dB=3D''"
    by (rule qp_encodes.literal qp_encodes.hex qp_encodes.empty | simp add: hex_digit_def)+
  from quoted_printable_decodes[OF this] show ?thesis by simp
qed

text \<open>
  An encoded word ends its header. Whatever follows the first encoded word of a header
  field, further words or plain text, is not in the data the field has after decoding, since
  the text behind the word is looked for behind the terminator of the word itself.
\<close>

theorem encoded_word_cuts_header:
  assumes "hf_concatenated_data h = pre @ ''=?'' @ cs @ ''?Q?'' @ word @ ''?'' @ tail" "CHR ''='' \<notin> set pre"
    "cs \<noteq> []" "CHR ''?'' \<notin> set cs" "word \<noteq> []" "CHR ''?'' \<notin> set word"
  shows "\<exists>h'. decode_header h = Inr h' \<and> hf_data h' = pre @ ds_decode_quoted word"
proof -
  have skip: "decode_from i h = decode_from (length pre) h" if "i \<le> length pre" for i
    using that
  proof (induction rule: inc_induct)
    case (step n)
    then have "drop n pre \<noteq> []" "hd (drop n pre) \<noteq> CHR ''=''" using assms(2) by (auto simp: hd_drop_conv_nth in_set_conv_nth)
    then have "take 2 (drop n (hf_concatenated_data h)) \<noteq> ''=?''" using step assms(1) by (cases "drop n pre") (auto simp: numeral_2_eq_2)
    then have "decode_from n h = decode_from (n + 1) h" using step assms(1) by (subst decode_from.simps) simp
    then show ?case using step by simp
  qed simp
  have drop: "drop (length pre) (hf_concatenated_data h) = ''=?'' @ cs @ ''?Q?'' @ word @ ''?'' @ tail" using assms(1) by simp
  have tok: "strtok_r (s @ CHR ''?'' # r) ''?'' = Some (s, r)" if "s \<noteq> []" "CHR ''?'' \<notin> set s" for s r
  proof -
    have "dropWhile (\<lambda>c. c \<in> set ''?'') (s @ CHR ''?'' # r) = s @ CHR ''?'' # r" using that by (cases s) auto
    then show ?thesis using that by (auto simp: strtok_r_def takeWhile_append dropWhile_append takeWhile_eq_all_conv Let_def)
  qed
  have "decode_word h (length pre) = Inr (h\<lparr>hf_original_data := (if hf_original_data h = None then Some (hf_data h) else hf_original_data h),
      hf_concatenated_data := pre @ ds_decode_quoted word\<rparr>, length pre + length (ds_decode_quoted word))"
    using tok[of "''=''" "cs @ ''?Q?'' @ word @ ''?'' @ tail"] tok[of cs "''Q?'' @ word @ ''?'' @ tail"] tok[of "''Q''" "word @ ''?'' @ tail"]
      tok[of word tail] assms
    by (simp add: decode_word_def drop Let_def)
  note word = this
  have "decode_from 0 h = Inr (h\<lparr>hf_original_data := (if hf_original_data h = None then Some (hf_data h) else hf_original_data h),
      hf_concatenated_data := pre @ ds_decode_quoted word\<rparr>)"
  proof -
    have "decode_from (length pre) h = (case decode_word h (length pre) of Inl e \<Rightarrow> Inl e | Inr (h', off') \<Rightarrow> decode_from off' h')"
      using drop assms(1) by (subst decode_from.simps) simp
    also have "\<dots> = Inr (h\<lparr>hf_original_data := (if hf_original_data h = None then Some (hf_data h) else hf_original_data h),
      hf_concatenated_data := pre @ ds_decode_quoted word\<rparr>)" by (simp add: word) (simp add: decode_from.simps)
    finally show ?thesis using skip[of 0] by simp
  qed
  then show ?thesis by (cases "hf_original_data h") (simp_all add: decode_header_def)
qed

theorem encoded_word_cuts_header_witness:
  "\<exists>h'. decode_header \<lparr>hf_heading = ''Subject'', hf_data = [], hf_original_data = None,
     hf_concatenated_data = ''re: =?u?Q?buy?= now''\<rparr> = Inr h' \<and> hf_data h' = ''re: '' @ ds_decode_quoted ''buy''"
  by (rule encoded_word_cuts_header[where cs = "''u''" and tail = "''= now''"]) simp_all

end
