(* ===== verification/Ds_Degenerate.thy ===== *)
theory Ds_Degenerate
  imports Ds_Html Ds_Message Ds_Context
begin

text \<open>
  The text of a message that the tokenizers work on (\<^verbatim>\<open>_ds_degenerate_message\<close> of tokenizer.c): the
  headers of all parts and the bodies of the parts with text, decoded and freed of markup. A
  part that was decoded keeps its original body.
\<close>

section \<open>The operation\<close>

type_synonym 's msg_ctx = "('s, ds_message) dspam_ctx"

text \<open>A header line is printed into an array of 1024 characters.\<close>

definition heading_text :: "ds_header \<Rightarrow> string" where
  "heading_text h = take 1023 (hf_heading h @ '': '' @ hf_data h @ [CHR 0x0A])"

definition tokenizable :: "nat \<Rightarrow> ds_message_part \<Rightarrow> bool" where
  "tokenizable i block \<longleftrightarrow> mp_media_type block = MT_TEXT \<or> mp_media_type block = MT_MESSAGE \<or> mp_media_type block = MT_UNKNOWN \<or>
     (mp_media_type block = MT_MULTIPART \<and> i = 0)"

definition to_decode :: "ds_message_part \<Rightarrow> bool" where
  "to_decode block \<longleftrightarrow> (mp_encoding block = EN_BASE64 \<or> mp_encoding block = EN_QUOTED_PRINTABLE) \<and>
     mp_original_signed_body block = None \<and> mp_content_disposition block \<noteq> PCD_ATTACHMENT"

definition prefilter :: "ds_message_part \<Rightarrow> string \<Rightarrow> string cres" where
  "prefilter block decode =
     (let decode2 = (if mp_encoding block = EN_8BIT then ds_decode_hex8bit decode else decode)
      in if mp_media_subtype block = MST_HTML then ds_strip_html decode2 else Inr decode2)"

definition degenerate_body :: "ds_message_part \<Rightarrow> (string \<times> ds_message_part) cres" where
  "degenerate_body block =
     (if to_decode block
      then cbind (ds_decode_block block) (\<lambda>decode.
             case decode of
               None \<Rightarrow> Inr ([], block)
             | Some s \<Rightarrow> cbind (prefilter block s) (\<lambda>t.
                 Inr (t, block\<lparr>mp_original_signed_body := Some (mp_body block), mp_body := s\<rparr>)))
      else cbind (prefilter block (mp_body block)) (\<lambda>t. Inr (t, block)))"

definition degenerate_part :: "nat \<Rightarrow> ds_message_part \<Rightarrow> (string \<times> string \<times> ds_message_part) cres" where
  "degenerate_part i block =
     (if mp_headers block = [] then Inr ([], [], block)
      else
        (let header = concat (map heading_text (mp_headers block)) in
         if tokenizable i block then cbind (degenerate_body block) (\<lambda>(body, block'). Inr (header, body, block'))
         else Inr (header, [], block)))"

fun degenerate_parts :: "nat \<Rightarrow> ds_message_part list \<Rightarrow> (string \<times> string \<times> ds_message_part list) cres" where
  "degenerate_parts i [] = Inr ([], [], [])"
| "degenerate_parts i (block # blocks) =
     cbind (degenerate_part i block) (\<lambda>(h, b, block').
     cbind (degenerate_parts (Suc i) blocks) (\<lambda>(hs, bs, blocks'). Inr (h @ hs, b @ bs, block' # blocks')))"

definition ds_degenerate_message :: "'s msg_ctx \<Rightarrow> string \<Rightarrow> string \<Rightarrow> ('s msg_ctx \<times> string \<times> string \<times> int) cres" where
  "ds_degenerate_message CTX header body =
     (case cx_message CTX of
        None \<Rightarrow> Inr (CTX, header, body, EUNKNOWN)
      | Some msg \<Rightarrow>
          cbind (degenerate_parts 0 (ms_components msg)) (\<lambda>(h, b, blocks).
            Inr (CTX\<lparr>cx_message := Some (msg\<lparr>ms_components := blocks\<rparr>)\<rparr>, header @ h, body @ b, 0)))"

section \<open>What the operation keeps\<close>

lemma degenerate_part_restorable:
  assumes "degenerate_part i p = Inr (h, b, p')" "mp_original_signed_body p = None"
  shows "assemble_part True newline p' = assemble_part False newline p"
  using assms by (auto simp: degenerate_part_def degenerate_body_def assemble_part_def cbind_Inr_iff Let_def split: if_splits option.splits)

lemma degenerate_parts_restorable:
  "degenerate_parts i ps = Inr (h, b, ps') \<Longrightarrow> \<forall>p\<in>set ps. mp_original_signed_body p = None \<Longrightarrow>
    assemble_parts True newline ps' = assemble_parts False newline ps \<and> (ps' = [] \<longleftrightarrow> ps = [])"
proof (induction ps arbitrary: i h b ps')
  case (Cons p ps)
  then obtain h1 b1 p1 h2 b2 ps2 where d: "degenerate_part i p = Inr (h1, b1, p1)" "degenerate_parts (Suc i) ps = Inr (h2, b2, ps2)" "ps' = p1 # ps2"
    by (auto simp: cbind_Inr_iff)
  then show ?case using Cons.IH[OF d(2)] Cons.prems(2) degenerate_part_restorable[OF d(1), of newline] by simp
qed simp


section \<open>Properties\<close>

text \<open>
  C24. A message is not lost when its text is made for the tokenizers. Parts that are decoded
  keep their original bodies, so that assembling the message with its protection on gives
  the text that it would have been assembled to before.
\<close>

theorem degenerate_restorable:
  assumes "cx_message CTX = Some msg" "\<not> ms_protect msg" "\<forall>p\<in>set (ms_components msg). mp_original_signed_body p = None"
    "ds_degenerate_message CTX header body = Inr (CTX', header', body', r)"
  shows "\<exists>msg'. cx_message CTX' = Some msg' \<and> r = 0 \<and>
    ds_assemble_message (msg'\<lparr>ms_protect := True\<rparr>) newline = ds_assemble_message msg newline"
proof -
  obtain h b ps where "degenerate_parts 0 (ms_components msg) = Inr (h, b, ps)" "CTX' = CTX\<lparr>cx_message := Some (msg\<lparr>ms_components := ps\<rparr>)\<rparr>" "r = 0"
    using assms(1,4) by (auto simp: ds_degenerate_message_def cbind_Inr_iff)
  then show ?thesis using degenerate_parts_restorable[of 0 "ms_components msg" h b ps newline] assms(2,3)
    by (simp add: ds_assemble_message_def)
qed

definition encoded_part :: ds_message_part where
  "encoded_part = ds_create_message_part\<lparr>mp_headers := [ds_create_header_field ''To: a''], mp_body := ''x=3Dy'', mp_encoding := EN_QUOTED_PRINTABLE\<rparr>"

definition encoded_ctx :: "unit msg_ctx" where
  "encoded_ctx = (the (dspam_create (\<lambda>_. True) None None None None DSM_PROCESS 0))\<lparr>cx_message := Some \<lparr>ms_components = [encoded_part], ms_protect = False\<rparr>\<rparr>"

theorem degenerate_restorable_witness:
  "\<exists>C h b msg'. ds_degenerate_message encoded_ctx [] [] = Inr (C, h, b, 0) \<and> b = ''x=y'' \<and> cx_message C = Some msg' \<and>
     ds_assemble_message (msg'\<lparr>ms_protect := True\<rparr>) nl = ''To: a'' @ nl @ nl @ ''x=3Dy''"
proof -
  have parts: "\<exists>ps. degenerate_parts 0 [encoded_part] = Inr (heading_text (ds_create_header_field ''To: a''), ''x=y'', ps)"
  proof -
    have "ds_decode_quoted ''x=3Dy'' = ''x=y''" by code_simp
    then show ?thesis
      by (simp add: encoded_part_def ds_create_message_part_def degenerate_part_def tokenizable_def degenerate_body_def to_decode_def
          ds_decode_block_def prefilter_def)
  qed
  have m: "cx_message encoded_ctx = Some \<lparr>ms_components = [encoded_part], ms_protect = False\<rparr>" by (simp add: encoded_ctx_def)
  obtain C h b where run: "ds_degenerate_message encoded_ctx [] [] = Inr (C, h, b, 0)" "b = ''x=y''"
    using parts by (auto simp: ds_degenerate_message_def m)
  have asm: "ds_assemble_message \<lparr>ms_components = [encoded_part], ms_protect = False\<rparr> nl = ''To: a'' @ nl @ nl @ ''x=3Dy''"
    by code_simp
  show ?thesis using degenerate_restorable[OF m _ _ run(1), of nl] run asm by (auto simp: encoded_part_def ds_create_message_part_def)
qed

end
