(* ===== verification/Ds_HashFile.thy ===== *)
theory Ds_HashFile
  imports Ds_Context
begin

text \<open>
  The file of the hash storage driver (\<^verbatim>\<open>hash_drv.c\<close>): a sequence of extents, each a header and
  an open-addressing table of records, mapped into memory. Headers and records consist of
  64-bit words, so the file is a list of words; an offset counts bytes as in the source. The
  list of extents that the driver keeps is a cache of the headers.
\<close>

unbundle bit_operations_syntax

section \<open>Constants and data\<close>

definition HMAP_AUTOEXTEND :: u32 where "HMAP_AUTOEXTEND = 0x01"
definition HMAP_HOLES :: u32 where "HMAP_HOLES = 0x02"
definition HMAP_FALLOCATE :: u32 where "HMAP_FALLOCATE = 0x04"
definition HMAP_POW2 :: u32 where "HMAP_POW2 = 0x08"
definition HMAP_ALLOW_BROKEN :: u32 where "HMAP_ALLOW_BROKEN = 0x10"

definition HASH_FILE_FLAG_HASHFN_MASK :: u32 where "HASH_FILE_FLAG_HASHFN_MASK = 3"
definition HASH_FILE_FLAG_HASHFN_DIV :: u32 where "HASH_FILE_FLAG_HASHFN_DIV = 0"
definition HASH_FILE_FLAG_HASHFN_POW2_0 :: u32 where "HASH_FILE_FLAG_HASHFN_POW2_0 = 1"

text \<open>The sizes of the two structures in bytes; \<open>ULONG_MAX\<close> is also \<^verbatim>\<open>SIZE_MAX\<close>.\<close>

definition sizeof_header :: nat where "sizeof_header = 80"
definition sizeof_record :: nat where "sizeof_record = 24"
definition ULONG_MAX :: nat where "ULONG_MAX = 2 ^ 64 - 1"

datatype hash_fn = HASH_DRV_HASH_DIV | HASH_DRV_HASH_POW2_0

record hash_drv_extent =
  he_hash_rec_max :: nat
  he_offset :: nat
  he_next_offset :: nat
  he_idx :: nat
  he_header :: bool
  he_num_records :: nat
  he_hash_fn :: hash_fn
  he_hash_op :: nat
  he_is_broken :: bool

definition zero_extent :: hash_drv_extent where
  "zero_extent = \<lparr>he_hash_rec_max = 0, he_offset = 0, he_next_offset = 0, he_idx = 0, he_header = False,
     he_num_records = 0, he_hash_fn = HASH_DRV_HASH_DIV, he_hash_op = 0, he_is_broken = False\<rparr>"

text \<open>
  The map: the words of the file, and whether it is mapped. While it is, its length is that of
  the mapping.
\<close>

record hash_drv_map =
  hm_file :: "u64 list"
  hm_mapped :: bool
  hm_max_seek :: nat
  hm_max_extents :: nat
  hm_extent_size :: nat
  hm_pctincrease :: int
  hm_flags :: u32
  hm_extents :: "hash_drv_extent list"

definition file_len :: "hash_drv_map \<Rightarrow> nat" where
  "file_len m = 8 * length (hm_file m)"

text \<open>What the system calls of an operation answer: whether each succeeds.\<close>

record hash_io =
  io_ftruncate :: bool
  io_fallocate :: bool
  io_header :: bool
  io_fill :: bool
  io_restore :: bool
  io_mmap :: bool
  io_realloc :: bool

section \<open>The size of an extent\<close>

text \<open>Trial division by odd numbers, up to a limit.\<close>

function trial_division :: "nat \<Rightarrow> nat \<Rightarrow> bool" where
  "trial_division v f =
     (if f * f \<le> v \<and> f < 10000 then (if v mod f = 0 then False else trial_division v (f + 2)) else v \<ge> 2)"
  by pat_completeness auto
termination by (relation "measure (\<lambda>(v, f). 10000 - f)") auto

definition is_prime :: "nat \<Rightarrow> bool" where
  "is_prime v = (if v > 2 \<and> v mod 2 = 0 then False else trial_division v 3)"

function next_prime :: "nat \<Rightarrow> nat" where
  "next_prime v = (if \<not> is_prime v \<and> v < ULONG_MAX then next_prime (v + 1) else v)"
  by pat_completeness auto
termination by (relation "measure (\<lambda>v. ULONG_MAX - v)") auto

declare trial_division.simps [simp del] next_prime.simps [simp del]

text \<open>The number of bits of a word: its width less the leading zeros.\<close>

fun bit_len :: "nat \<Rightarrow> nat" where
  "bit_len n = (if n = 0 then 0 else Suc (bit_len (n div 2)))"

declare bit_len.simps [simp del]

definition roundup_hash_op :: "u32 \<Rightarrow> nat \<Rightarrow> nat cres" where
  "roundup_hash_op flags v =
     (if has flags HMAP_POW2 then
        (let e = (if v \<le> 1 then 0 else bit_len (v - 1)) in if e \<ge> 64 then Inl BadShift else Inr (2 ^ e))
      else Inr (next_prime v))"

definition calculate_next_rec_max :: "hash_drv_map \<Rightarrow> hash_drv_extent option \<Rightarrow> nat cres" where
  "calculate_next_rec_max m ext =
     cbind (case ext of
              None \<Rightarrow> Inr (hm_extent_size m)
            | Some e \<Rightarrow>
                (let r = fof_int double_fmt (int (he_hash_rec_max e));
                     pct = fdiv double_fmt (fof_int double_fmt (hm_pctincrease m)) (Fin 100)
                 in case ftrunc (fadd double_fmt r (fmul double_fmt r pct)) of
                      None \<Rightarrow> Inl BadConversion
                    | Some i \<Rightarrow> if 0 \<le> i \<and> i \<le> int ULONG_MAX then Inr (nat i) else Inl BadConversion))
       (roundup_hash_op (hm_flags m))"

section \<open>Growing the file\<close>

definition totals_words :: "ds_spam_totals \<Rightarrow> u64 list" where
  "totals_words t = map of_int [spam_learned t, innocent_learned t, spam_misclassified t, innocent_misclassified t,
     spam_corpusfed t, innocent_corpusfed t, spam_classified t, innocent_classified t]"

definition header_words :: "nat \<Rightarrow> ds_spam_totals \<Rightarrow> u32 \<Rightarrow> u64 list" where
  "header_words rec_max t flags = of_nat rec_max # totals_words t @ [ucast flags]"

text \<open>
  A header and \<open>rec_max\<close> empty records at the end of the file, which cannot grow beyond what
  \<^verbatim>\<open>off_t\<close> counts. \<^verbatim>\<open>posix_fallocate\<close> reports a failure with a positive number, which the test for
  a negative one misses; a failure that cannot be undone is retried for ever.
\<close>

definition OFF_MAX :: nat where "OFF_MAX = 2 ^ 63 - 1"

definition hash_drv_allocate :: "hash_io \<Rightarrow> u32 \<Rightarrow> u64 list \<Rightarrow> nat \<Rightarrow> u32 \<Rightarrow> (u64 list \<times> bool) cres" where
  "hash_drv_allocate io flags file rec_max hflags =
     (let holes = has flags HMAP_HOLES; fallocate = has flags HMAP_FALLOCATE;
          records = (if \<not> holes \<and> fallocate \<and> \<not> io_fallocate io then [] else replicate (3 * rec_max) 0);
          too_long = (OFF_MAX < 8 * length file + sizeof_header + 8 * length records);
          failed = (too_long \<or> (holes \<and> \<not> io_ftruncate io) \<or> \<not> io_header io \<or> (\<not> holes \<and> \<not> fallocate \<and> \<not> io_fill io))
      in if failed then (if io_restore io then Inr (file, False) else Inl NoReturn)
         else Inr (file @ header_words rec_max no_totals hflags @ records, True))"

definition hash_drv_mmap :: "hash_io \<Rightarrow> hash_drv_map \<Rightarrow> hash_drv_map \<times> int" where
  "hash_drv_mmap io m = (if io_mmap io then (m\<lparr>hm_mapped := True\<rparr>, 0) else (m\<lparr>hm_mapped := False\<rparr>, - 1))"

definition hash_drv_autoextend ::
    "hash_io \<Rightarrow> hash_drv_map \<Rightarrow> hash_drv_extent option \<Rightarrow> (hash_drv_map \<times> int) cres" where
  "hash_drv_autoextend io m prev_ext =
     cbind (calculate_next_rec_max m prev_ext) (\<lambda>rec_max.
       let hflags = (if has (hm_flags m) HMAP_POW2 then HASH_FILE_FLAG_HASHFN_POW2_0 else HASH_FILE_FLAG_HASHFN_DIV);
           m1 = m\<lparr>hm_mapped := False, hm_extents := map (\<lambda>e. e\<lparr>he_header := False\<rparr>) (hm_extents m)\<rparr>
       in cbind (hash_drv_allocate io (hm_flags m) (hm_file m) rec_max hflags) (\<lambda>(file, ok).
            if \<not> ok then Inr (m1, EFAILURE) else Inr (hash_drv_mmap io (m1\<lparr>hm_file := file\<rparr>))))"

section \<open>Extents\<close>

text \<open>\<^verbatim>\<open>ffs\<close> of the value as an \<^verbatim>\<open>int\<close>, less one, as an \<^verbatim>\<open>unsigned long\<close>.\<close>

definition ffs_op :: "u64 \<Rightarrow> nat" where
  "ffs_op w =
     (let l = ucast w :: u32 in
      if l = 0 then ULONG_MAX else length (takeWhile (\<lambda>i. \<not> bit l i) [0..<32]))"

text \<open>The hash function the flags of a header name, and the rest of the entry; False when it is refused.\<close>

definition set_extent :: "nat \<Rightarrow> nat \<Rightarrow> u64 \<Rightarrow> u32 \<Rightarrow> hash_drv_extent \<Rightarrow> hash_drv_extent \<times> bool" where
  "set_extent idx offset rec_max_word flags ext =
     (let fn = flags AND HASH_FILE_FLAG_HASHFN_MASK; rec_max = unat rec_max_word;
          filled = (\<lambda>e. e\<lparr>he_idx := idx, he_offset := offset, he_hash_rec_max := rec_max, he_header := True,
            he_next_offset := sizeof_header + offset + rec_max * sizeof_record,
            he_num_records := (if he_is_broken e then he_num_records e else rec_max)\<rparr>)
      in if fn = HASH_FILE_FLAG_HASHFN_DIV
         then (filled (ext\<lparr>he_hash_fn := HASH_DRV_HASH_DIV, he_hash_op := rec_max\<rparr>), True)
         else if fn = HASH_FILE_FLAG_HASHFN_POW2_0 then
           (if rec_max_word = 0 \<or> rec_max_word AND (rec_max_word - 1) \<noteq> 0 then (ext, False)
            else (filled (ext\<lparr>he_hash_fn := HASH_DRV_HASH_POW2_0, he_hash_op := ffs_op rec_max_word\<rparr>), True))
         else (ext, False))"

text \<open>Reading a header into an entry of the cache.\<close>

definition fill_extent :: "hash_drv_map \<Rightarrow> nat \<Rightarrow> nat \<Rightarrow> hash_drv_extent \<Rightarrow> hash_drv_extent \<times> bool" where
  "fill_extent m idx offset ext =
     (if ULONG_MAX - sizeof_header < offset \<or> file_len m < offset + sizeof_header then (ext, False)
      else
        (let rec_max_word = hm_file m ! (offset div 8); rec_max = unat rec_max_word;
             flags = (ucast (hm_file m ! (offset div 8 + 9)) :: u32)
         in if (ULONG_MAX - offset - sizeof_header) div sizeof_record < rec_max then (ext, False)
            else
              (let short = (file_len m < offset + sizeof_header + rec_max * sizeof_record) in
               if short \<and> \<not> has (hm_flags m) HMAP_ALLOW_BROKEN then (ext, False)
               else
                 set_extent idx offset rec_max_word flags
                   (if short
                    then ext\<lparr>he_is_broken := True, he_num_records := (file_len m - offset - sizeof_header) div sizeof_record\<rparr>
                    else ext))))"

definition hash_drv_next_extent ::
    "hash_io \<Rightarrow> hash_drv_map \<Rightarrow> hash_drv_extent option \<Rightarrow> hash_drv_map \<times> hash_drv_extent option" where
  "hash_drv_next_extent io m prev =
     (let offset = (case prev of None \<Rightarrow> 0 | Some p \<Rightarrow> he_next_offset p);
          idx = (case prev of None \<Rightarrow> 0 | Some p \<Rightarrow> he_idx p + 1);
          n = length (hm_extents m)
      in if n \<le> idx \<and> \<not> io_realloc io then (m, None)
         else
           (let m1 = (if n \<le> idx then m\<lparr>hm_extents := hm_extents m @ replicate (idx + 1 - n) zero_extent\<rparr> else m);
                ext = hm_extents m1 ! idx
            in if he_header ext then (m1, Some ext)
               else
                 (let (ext', ok) = fill_extent m1 idx offset ext
                  in (m1\<lparr>hm_extents := (hm_extents m1)[idx := ext']\<rparr>, if ok then Some ext' else None))))"

section \<open>Searching an extent\<close>

text \<open>The bits of a code folded onto its low \<open>sft\<close> bits; without any bits the loop does not end.\<close>

function pow2_0_loop :: "nat \<Rightarrow> nat \<Rightarrow> u64 \<Rightarrow> u64 \<Rightarrow> u64" where
  "pow2_0_loop sft i res code =
     (if i < 64 \<and> 0 < sft then pow2_0_loop sft (i + sft) (res XOR code) (drop_bit sft code) else res)"
  by pat_completeness auto
termination by (relation "measure (\<lambda>(sft, i, res, code). 64 - i)") auto

declare pow2_0_loop.simps [simp del]

definition calc_hash_pow2_0 :: "u64 \<Rightarrow> nat \<Rightarrow> nat cres" where
  "calc_hash_pow2_0 code sft =
     (if sft = 0 then Inl NoReturn
      else if sft \<ge> 64 then Inl BadShift
      else Inr (unat (pow2_0_loop sft 0 0 code AND (push_bit sft 1 - 1))))"

definition calc_hash_value :: "hash_drv_extent \<Rightarrow> u64 \<Rightarrow> nat cres" where
  "calc_hash_value ext hashcode =
     (case he_hash_fn ext of
        HASH_DRV_HASH_POW2_0 \<Rightarrow> calc_hash_pow2_0 hashcode (he_hash_op ext mod 2 ^ 32)
      | HASH_DRV_HASH_DIV \<Rightarrow> if he_hash_op ext = 0 then Inl DivByZero else Inr (unat hashcode mod he_hash_op ext))"

text \<open>
  A record is named by the index of its first word. The loop stops at the code or at an empty
  record and else leaves the last record it looked at.
\<close>

definition word_at :: "u64 list \<Rightarrow> nat \<Rightarrow> u64 cres" where
  "word_at file i = (if i < length file then Inr (file ! i) else Inl OutOfBounds)"

definition rec_pos :: "hash_drv_extent \<Rightarrow> nat \<Rightarrow> nat" where
  "rec_pos ext fpos = (he_offset ext + sizeof_header) div 8 + 3 * fpos"

fun seek_loop :: "u64 list \<Rightarrow> hash_drv_extent \<Rightarrow> u64 \<Rightarrow> nat \<Rightarrow> nat \<Rightarrow> nat option \<Rightarrow> nat option cres" where
  "seek_loop file ext hashcode 0 fpos rec = Inr rec"
| "seek_loop file ext hashcode (Suc iterations) fpos rec =
     cbind (word_at file (rec_pos ext fpos)) (\<lambda>w.
       if w = hashcode \<or> w = 0 then Inr (Some (rec_pos ext fpos))
       else seek_loop file ext hashcode iterations
              (if fpos + 1 \<ge> he_hash_rec_max ext then 0 else fpos + 1) (Some (rec_pos ext fpos)))"

definition hash_drv_seek :: "hash_drv_map \<Rightarrow> hash_drv_extent \<Rightarrow> u64 \<Rightarrow> bool \<Rightarrow> nat option cres" where
  "hash_drv_seek m ext hashcode insert_flag =
     cbind (calc_hash_value ext hashcode) (\<lambda>fpos.
       if fpos \<ge> he_hash_rec_max ext then Inr None
       else
         cbind (seek_loop (hm_file m) ext hashcode (hm_max_seek m mod 2 ^ 32) fpos None) (\<lambda>rec.
           case rec of
             None \<Rightarrow> Inr None
           | Some p \<Rightarrow>
               cbind (word_at (hm_file m) p) (\<lambda>w.
                 if w = hashcode \<or> (w = 0 \<and> insert_flag) then Inr (Some p) else Inr None)))"

text \<open>
  The loop over the extents: the last extent it looked at, unless an extent was refused, and
  the record. Every extent takes the space of a header, so that the fuel covers every file.
\<close>

fun find_record ::
    "nat \<Rightarrow> hash_io \<Rightarrow> hash_drv_map \<Rightarrow> hash_drv_extent option \<Rightarrow> u64 \<Rightarrow> bool \<Rightarrow>
     (hash_drv_map \<times> hash_drv_extent option \<times> nat option) cres" where
  "find_record 0 io m ext hashcode insert_flag = Inl NoReturn"
| "find_record (Suc fuel) io m ext hashcode insert_flag =
     (case hash_drv_next_extent io m ext of
        (m1, None) \<Rightarrow> Inr (m1, None, None)
      | (m1, Some ext1) \<Rightarrow>
          cbind (hash_drv_seek m1 ext1 hashcode insert_flag) (\<lambda>rec.
            if rec = None \<and> he_next_offset ext1 < file_len m1
            then find_record fuel io m1 (Some ext1) hashcode insert_flag
            else Inr (m1, Some ext1, rec)))"

definition scan_fuel :: "hash_drv_map \<Rightarrow> nat" where
  "scan_fuel m = file_len m div sizeof_header + 1"

section \<open>Reading and writing a record\<close>

definition write_record :: "hash_drv_map \<Rightarrow> nat \<Rightarrow> u64 \<Rightarrow> u64 \<Rightarrow> u64 \<Rightarrow> hash_drv_map cres" where
  "write_record m p hashcode nonspam spam =
     (if p + 2 < length (hm_file m)
      then Inr (m\<lparr>hm_file := (hm_file m)[p := hashcode, p + 1 := nonspam, p + 2 := spam]\<rparr>)
      else Inl OutOfBounds)"

text \<open>
  A record is written where \<open>map_offset\<close> says, or else searched for. A full table is extended
  and the search begun anew; the fuel bounds the number of extensions.
\<close>

fun hash_drv_set_spamrecord ::
    "nat \<Rightarrow> hash_io \<Rightarrow> hash_drv_map \<Rightarrow> u64 \<Rightarrow> u64 \<Rightarrow> u64 \<Rightarrow> nat \<Rightarrow> (hash_drv_map \<times> int) cres" where
  "hash_drv_set_spamrecord 0 io m hashcode nonspam spam map_offset = Inl NoReturn"
| "hash_drv_set_spamrecord (Suc fuel) io m hashcode nonspam spam map_offset =
     (let put = (\<lambda>m p. cbind (word_at (hm_file m) p) (\<lambda>w.
                  cbind (write_record m p hashcode nonspam spam) (\<lambda>m'. Inr (m', if w = 0 then 0 else 1))))
      in if \<not> hm_mapped m then Inr (m, EINVAL)
         else if map_offset \<noteq> 0 then put m (map_offset div 8)
         else
           cbind (find_record (scan_fuel m) io m None hashcode True) (\<lambda>(m1, ext, rec).
             case rec of
               Some p \<Rightarrow> put m1 p
             | None \<Rightarrow>
                 (case ext of
                    None \<Rightarrow> Inr (m1, EFAILURE)
                  | Some e \<Rightarrow>
                      if has (hm_flags m1) HMAP_AUTOEXTEND \<and> \<not> (he_idx e \<ge> hm_max_extents m1 \<and> hm_max_extents m1 \<noteq> 0) then
                        cbind (hash_drv_autoextend io m1 (Some e)) (\<lambda>(m2, r).
                          if r = 0 then hash_drv_set_spamrecord fuel io m2 hashcode nonspam spam map_offset
                          else Inr (m2, EFAILURE))
                      else Inr (m1, EFAILURE))))"

text \<open>The offset of a record, 0 when there is none, and its counters.\<close>

definition hash_drv_get_spamrecord :: "hash_io \<Rightarrow> hash_drv_map \<Rightarrow> u64 \<Rightarrow> (hash_drv_map \<times> nat \<times> u64 \<times> u64) cres" where
  "hash_drv_get_spamrecord io m hashcode =
     (if \<not> hm_mapped m then Inr (m, 0, 0, 0)
      else
        cbind (find_record (scan_fuel m) io m None hashcode False) (\<lambda>(m1, _, rec).
          case rec of
            None \<Rightarrow> Inr (m1, 0, 0, 0)
          | Some p \<Rightarrow>
              cbind (word_at (hm_file m1) (p + 1)) (\<lambda>nonspam. cbind (word_at (hm_file m1) (p + 2)) (\<lambda>spam.
                Inr (m1, 8 * p, nonspam, spam)))))"

section \<open>Well-formed files\<close>

definition ext_ok :: "hash_drv_extent \<Rightarrow> bool" where
  "ext_ok e \<longleftrightarrow> 0 < he_hash_rec_max e \<and>
     (case he_hash_fn e of
        HASH_DRV_HASH_DIV \<Rightarrow> he_hash_op e = he_hash_rec_max e
      | HASH_DRV_HASH_POW2_0 \<Rightarrow> 0 < he_hash_op e \<and> he_hash_op e < 32 \<and> he_hash_rec_max e = 2 ^ he_hash_op e)"

text \<open>The extents of a file, one after the other up to its end.\<close>

fun layout :: "hash_drv_map \<Rightarrow> nat \<Rightarrow> nat \<Rightarrow> hash_drv_extent list \<Rightarrow> bool" where
  "layout m idx off [] \<longleftrightarrow> off = file_len m"
| "layout m idx off (e # es) \<longleftrightarrow>
     fill_extent m idx off zero_extent = (e, True) \<and> \<not> he_is_broken e \<and> ext_ok e \<and> layout m (Suc idx) (he_next_offset e) es"

text \<open>The cache holds the headers of the file, or nothing.\<close>

definition cache_ok :: "hash_drv_map \<Rightarrow> hash_drv_extent list \<Rightarrow> bool" where
  "cache_ok m exts \<longleftrightarrow> length (hm_extents m) \<le> length exts \<and>
     (\<forall>i < length (hm_extents m). \<not> he_is_broken (hm_extents m ! i) \<and>
        (he_header (hm_extents m ! i) \<longrightarrow> hm_extents m ! i = exts ! i))"

definition hash_ok :: "hash_drv_map \<Rightarrow> hash_drv_extent list \<Rightarrow> bool" where
  "hash_ok m exts \<longleftrightarrow> hm_mapped m \<and> exts \<noteq> [] \<and> layout m 0 0 exts \<and> cache_ok m exts \<and> 0 < hm_max_seek m mod 2 ^ 32"

lemma map_extents_simps [simp]:
  "file_len (m\<lparr>hm_extents := c\<rparr>) = file_len m"
  "fill_extent (m\<lparr>hm_extents := c\<rparr>) i off e = fill_extent m i off e"
  "layout (m\<lparr>hm_extents := c\<rparr>) i off exts = layout m i off exts"
proof -
  show len: "file_len (m\<lparr>hm_extents := c\<rparr>) = file_len m" by (simp add: file_len_def)
  show fill: "fill_extent (m\<lparr>hm_extents := c\<rparr>) i off e = fill_extent m i off e" for i off e
    unfolding fill_extent_def len by (simp add: Let_def cong: if_cong)
  show "layout (m\<lparr>hm_extents := c\<rparr>) i off exts = layout m i off exts"
    by (induction exts arbitrary: i off) (simp_all add: len fill)
qed

lemma set_extentD:
  assumes "set_extent idx off w fl z = (e, True)"
  shows "he_idx e = idx" "he_offset e = off" "he_header e" "he_is_broken e = he_is_broken z" "he_hash_rec_max e = unat w"
    "he_next_offset e = sizeof_header + off + he_hash_rec_max e * sizeof_record"
  using assms by (auto simp: set_extent_def Let_def split: if_splits)

lemma set_extent_old:
  assumes "set_extent idx off w fl z = (e, True)" "\<not> he_is_broken z" "\<not> he_is_broken old"
  shows "set_extent idx off w fl old = (e, True)"
  using assms by (auto simp: set_extent_def Let_def split: if_splits)

lemma fill_extent_iff:
  "fill_extent m idx off z = (e, True) \<and> \<not> he_is_broken e \<longleftrightarrow>
     off \<le> ULONG_MAX - sizeof_header \<and> off + sizeof_header \<le> file_len m \<and>
     unat (hm_file m ! (off div 8)) \<le> (ULONG_MAX - off - sizeof_header) div sizeof_record \<and>
     off + sizeof_header + unat (hm_file m ! (off div 8)) * sizeof_record \<le> file_len m \<and>
     set_extent idx off (hm_file m ! (off div 8)) (ucast (hm_file m ! (off div 8 + 9))) z = (e, True) \<and> \<not> he_is_broken z"
  unfolding fill_extent_def Let_def by (auto dest: set_extentD(4) split: if_splits)

lemma fill_extentD:
  assumes "fill_extent m idx off z = (e, True)" "\<not> he_is_broken e"
  shows "he_idx e = idx" "he_offset e = off" "he_header e"
    "he_next_offset e = sizeof_header + off + he_hash_rec_max e * sizeof_record"
    "he_next_offset e \<le> file_len m"
proof -
  have f: "off + sizeof_header + unat (hm_file m ! (off div 8)) * sizeof_record \<le> file_len m"
    "set_extent idx off (hm_file m ! (off div 8)) (ucast (hm_file m ! (off div 8 + 9))) z = (e, True)"
    using assms fill_extent_iff[of m idx off z e] by auto
  show "he_idx e = idx" "he_offset e = off" "he_header e"
    "he_next_offset e = sizeof_header + off + he_hash_rec_max e * sizeof_record" "he_next_offset e \<le> file_len m"
    using set_extentD[OF f(2)] f(1) by auto
qed

lemma fill_extent_old:
  assumes "fill_extent m idx off z = (e, True)" "\<not> he_is_broken e" "\<not> he_is_broken old"
  shows "fill_extent m idx off old = (e, True)"
  using assms fill_extent_iff[of m idx off] set_extent_old by blast

text \<open>An extent is read the same in a longer file with the same header.\<close>

lemma fill_extent_grow:
  assumes "fill_extent m i off z = (e, True)" "\<not> he_is_broken e" "file_len m \<le> file_len m'"
    "hm_file m' ! (off div 8) = hm_file m ! (off div 8)" "hm_file m' ! (off div 8 + 9) = hm_file m ! (off div 8 + 9)"
  shows "fill_extent m' i off z = (e, True)"
proof -
  have "fill_extent m' i off z = (e, True) \<and> \<not> he_is_broken e"
    using assms(1,2)[unfolded conj_ac] assms(3-5) fill_extent_iff[of m i off z e] fill_extent_iff[of m' i off z e] by auto
  then show ?thesis by simp
qed

lemma layout_nth:
  assumes "layout m k off exts" "i < length exts"
  shows "fill_extent m (k + i) (if i = 0 then off else he_next_offset (exts ! (i - 1))) zero_extent = (exts ! i, True)
    \<and> \<not> he_is_broken (exts ! i) \<and> ext_ok (exts ! i)"
  using assms
proof (induction exts arbitrary: k off i)
  case (Cons e es)
  then show ?case
  proof (cases i)
    case (Suc j)
    then show ?thesis using Cons.IH[of "Suc k" "he_next_offset e" j] Cons.prems by (cases j) auto
  qed auto
qed simp

lemma layout_fields:
  assumes "layout m 0 0 exts" "i < length exts"
  shows "he_idx (exts ! i) = i" "he_offset (exts ! i) = (if i = 0 then 0 else he_next_offset (exts ! (i - 1)))"
    "he_next_offset (exts ! i) = sizeof_header + he_offset (exts ! i) + he_hash_rec_max (exts ! i) * sizeof_record"
    "he_next_offset (exts ! i) \<le> file_len m" "ext_ok (exts ! i)"
proof -
  have f: "fill_extent m i (if i = 0 then 0 else he_next_offset (exts ! (i - 1))) zero_extent = (exts ! i, True)"
    "\<not> he_is_broken (exts ! i)" "ext_ok (exts ! i)" using layout_nth[OF assms] by auto
  from fill_extentD[OF f(1,2)] f(3)
  show "he_idx (exts ! i) = i" "he_offset (exts ! i) = (if i = 0 then 0 else he_next_offset (exts ! (i - 1)))"
    "he_next_offset (exts ! i) = sizeof_header + he_offset (exts ! i) + he_hash_rec_max (exts ! i) * sizeof_record"
    "he_next_offset (exts ! i) \<le> file_len m" "ext_ok (exts ! i)" by auto
qed

definition prev_of :: "hash_drv_extent list \<Rightarrow> nat \<Rightarrow> hash_drv_extent option" where
  "prev_of exts i = (if i = 0 then None else Some (exts ! (i - 1)))"

lemma next_extent_ok:
  assumes ok: "hash_ok m exts" and i: "i < length exts" and io: "io_realloc io"
  shows "\<exists>c. hash_drv_next_extent io m (prev_of exts i) = (m\<lparr>hm_extents := c\<rparr>, Some (exts ! i)) \<and> hash_ok (m\<lparr>hm_extents := c\<rparr>) exts"
proof -
  define off where "off = (if i = 0 then 0 else he_next_offset (exts ! (i - 1)))"
  have L: "layout m 0 0 exts" and C: "cache_ok m exts" using ok by (auto simp: hash_ok_def)
  have f: "fill_extent m i off zero_extent = (exts ! i, True)" "\<not> he_is_broken (exts ! i)"
    using layout_nth[OF L i] by (auto simp: off_def)
  have idx: "(case prev_of exts i of None \<Rightarrow> 0 | Some p \<Rightarrow> he_idx p + 1) = i"
    using layout_fields(1)[OF L, of "i - 1"] i by (cases i) (auto simp: prev_of_def)
  have off: "(case prev_of exts i of None \<Rightarrow> 0 | Some p \<Rightarrow> he_next_offset p) = off"
    by (simp add: prev_of_def off_def)
  define c where "c = (if length (hm_extents m) \<le> i then hm_extents m @ replicate (i + 1 - length (hm_extents m)) zero_extent else hm_extents m)"
  have c: "i < length c" "length c \<le> length exts" "j < length c \<Longrightarrow> \<not> he_is_broken (c ! j) \<and> (he_header (c ! j) \<longrightarrow> c ! j = exts ! j)" for j
    using C i by (auto simp: c_def cache_ok_def nth_append zero_extent_def)
  have m1: "(if length (hm_extents m) \<le> i then m\<lparr>hm_extents := hm_extents m @ replicate (i + 1 - length (hm_extents m)) zero_extent\<rparr> else m)
      = m\<lparr>hm_extents := c\<rparr>" by (simp add: c_def)
  have fill: "fill_extent (m\<lparr>hm_extents := c\<rparr>) i off (c ! i) = (exts ! i, True)"
    using fill_extent_old[OF f, of "c ! i"] c(3)[OF c(1)] by simp
  show ?thesis
  proof (cases "he_header (c ! i)")
    case True
    then have "c ! i = exts ! i" using c(3)[OF c(1)] by simp
    then have "hash_drv_next_extent io m (prev_of exts i) = (m\<lparr>hm_extents := c\<rparr>, Some (exts ! i))"
      unfolding hash_drv_next_extent_def Let_def idx off m1 using io True by simp
    moreover have "hash_ok (m\<lparr>hm_extents := c\<rparr>) exts" using ok c by (auto simp: hash_ok_def cache_ok_def)
    ultimately show ?thesis by blast
  next
    case False
    then have "hash_drv_next_extent io m (prev_of exts i) = (m\<lparr>hm_extents := c[i := exts ! i]\<rparr>, Some (exts ! i))"
      unfolding hash_drv_next_extent_def Let_def idx off m1 using io fill by simp
    moreover have "hash_ok (m\<lparr>hm_extents := c[i := exts ! i]\<rparr>) exts"
      using ok c f(2) by (auto simp: hash_ok_def cache_ok_def nth_list_update)
    ultimately show ?thesis by blast
  qed
qed

section \<open>Searching\<close>

definition hash_of :: "hash_drv_extent \<Rightarrow> u64 \<Rightarrow> nat" where
  "hash_of e k = (case calc_hash_value e k of Inr h \<Rightarrow> h | Inl _ \<Rightarrow> 0)"

text \<open>The records of an extent in the order in which a code looks at them.\<close>

definition slots :: "hash_drv_map \<Rightarrow> hash_drv_extent \<Rightarrow> u64 \<Rightarrow> nat list" where
  "slots m e k = map (\<lambda>j. rec_pos e ((hash_of e k + j) mod he_hash_rec_max e)) [0..<hm_max_seek m mod 2 ^ 32]"

definition hit :: "u64 list \<Rightarrow> u64 \<Rightarrow> nat \<Rightarrow> bool" where
  "hit file k p \<longleftrightarrow> file ! p = k \<or> file ! p = 0"

definition pick :: "u64 list \<Rightarrow> u64 \<Rightarrow> bool \<Rightarrow> nat list \<Rightarrow> nat option" where
  "pick file k ins ps = (case find (hit file k) ps of Some p \<Rightarrow> if file ! p = k \<or> ins then Some p else None | None \<Rightarrow> None)"

lemma calc_hash_ok: "ext_ok e \<Longrightarrow> calc_hash_value e k = Inr (hash_of e k) \<and> hash_of e k < he_hash_rec_max e"
proof (cases "he_hash_fn e")
  case HASH_DRV_HASH_POW2_0
  assume ok: "ext_ok e"
  then have op: "0 < he_hash_op e" "he_hash_op e < 32" "he_hash_rec_max e = 2 ^ he_hash_op e" "he_hash_op e mod 2 ^ 32 = he_hash_op e"
    using HASH_DRV_HASH_POW2_0 by (auto simp: ext_ok_def)
  define w where "w = pow2_0_loop (he_hash_op e) 0 0 k"
  have "push_bit (he_hash_op e) 1 - 1 = (mask (he_hash_op e) :: u64)"
    by (simp add: mask_eq_exp_minus_1 push_bit_eq_mult)
  then have "unat (w AND (push_bit (he_hash_op e) 1 - 1)) = unat (take_bit (he_hash_op e) w)"
    by (simp add: take_bit_eq_mask)
  also have "\<dots> < 2 ^ he_hash_op e"
    by (simp add: unsigned_take_bit_eq)
  finally show ?thesis
    using HASH_DRV_HASH_POW2_0 op by (simp add: calc_hash_value_def hash_of_def calc_hash_pow2_0_def w_def)
qed (auto simp: ext_ok_def calc_hash_value_def hash_of_def)

lemma find_map_upt_Suc: "map f [0..<Suc n] = f 0 # map (\<lambda>j. f (Suc j)) [0..<n]"
  by (simp add: upt_conv_Cons map_Suc_upt[symmetric] del: upt_Suc)

lemma seek_loop_find:
  assumes "0 < he_hash_rec_max e" "\<And>f. f < he_hash_rec_max e \<Longrightarrow> rec_pos e f < length file" "fpos < he_hash_rec_max e"
    and "ps = map (\<lambda>j. rec_pos e ((fpos + j) mod he_hash_rec_max e)) [0..<n]"
  shows "seek_loop file e k n fpos r =
    Inr (case find (hit file k) ps of Some p \<Rightarrow> Some p | None \<Rightarrow> if n = 0 then r else Some (last ps))"
  using assms(3,4)
proof (induction n arbitrary: fpos r ps)
  case (Suc n)
  define fpos' where "fpos' = (if fpos + 1 \<ge> he_hash_rec_max e then 0 else fpos + 1)"
  define qs where "qs = map (\<lambda>j. rec_pos e ((fpos' + j) mod he_hash_rec_max e)) [0..<n]"
  have m: "(fpos + Suc j) mod he_hash_rec_max e = (fpos' + j) mod he_hash_rec_max e" for j
  proof (cases "fpos + 1 \<ge> he_hash_rec_max e")
    case True
    then have "fpos + Suc j = he_hash_rec_max e + j" using Suc.prems(1) by simp
    then show ?thesis using True unfolding fpos'_def by (simp only: if_True mod_add_self1 add_0)
  qed (simp add: fpos'_def)
  have ps: "ps = rec_pos e fpos # qs"
    unfolding Suc.prems(2) find_map_upt_Suc qs_def m using Suc.prems(1) by simp
  have "fpos' < he_hash_rec_max e" using assms(1) by (simp add: fpos'_def)
  from Suc.IH[OF this qs_def, of "Some (rec_pos e fpos)"] assms(2)[OF Suc.prems(1)]
  show ?case
    by (auto simp: ps word_at_def hit_def fpos'_def qs_def split: option.splits)
qed simp

text \<open>The positions of records lie within the file.\<close>

lemma rec_pos_bound:
  assumes "layout m 0 0 exts" "i < length exts" "f < he_hash_rec_max (exts ! i)"
  shows "rec_pos (exts ! i) f + 2 < length (hm_file m)"
proof -
  have "he_offset (exts ! i) + 80 + 24 * he_hash_rec_max (exts ! i) \<le> 8 * length (hm_file m)"
    using layout_fields(3,4)[OF assms(1,2)] by (simp add: file_len_def sizeof_header_def sizeof_record_def)
  moreover have "24 * f + 24 \<le> 24 * he_hash_rec_max (exts ! i)" using assms(3) by simp
  ultimately show ?thesis
    by (simp add: rec_pos_def sizeof_header_def)
qed

lemma seek_ok:
  assumes "hash_ok m exts" "i < length exts"
  shows "hash_drv_seek m (exts ! i) k ins = Inr (pick (hm_file m) k ins (slots m (exts ! i) k))"
proof -
  let ?e = "exts ! i"
  define n where "n = hm_max_seek m mod 2 ^ 32"
  have sd: "slots m ?e k = map (\<lambda>j. rec_pos ?e ((hash_of ?e k + j) mod he_hash_rec_max ?e)) [0..<n]"
    unfolding slots_def n_def ..
  have skd: "hash_drv_seek m ?e k ins = cbind (calc_hash_value ?e k) (\<lambda>fpos.
       if fpos \<ge> he_hash_rec_max ?e then Inr None
       else cbind (seek_loop (hm_file m) ?e k n fpos None) (\<lambda>rec.
           case rec of None \<Rightarrow> Inr None
           | Some p \<Rightarrow> cbind (word_at (hm_file m) p) (\<lambda>w.
                 if w = k \<or> (w = 0 \<and> ins) then Inr (Some p) else Inr None)))"
    unfolding hash_drv_seek_def n_def ..
  have L: "layout m 0 0 exts" and n: "0 < n" using assms by (simp_all add: hash_ok_def n_def)
  have e: "ext_ok ?e" using layout_fields(5)[OF L assms(2)] .
  then have h: "calc_hash_value ?e k = Inr (hash_of ?e k)" "hash_of ?e k < he_hash_rec_max ?e" "0 < he_hash_rec_max ?e"
    using calc_hash_ok[OF e] by (auto simp: ext_ok_def)
  have b: "f < he_hash_rec_max ?e \<Longrightarrow> rec_pos ?e f < length (hm_file m)" for f
    using rec_pos_bound[OF L assms(2)] by (meson add_lessD1)
  have ps: "slots m ?e k \<noteq> []" "\<And>p. p \<in> set (slots m ?e k) \<Longrightarrow> p < length (hm_file m)"
    using n b h(3) by (auto simp: sd)
  have sl: "seek_loop (hm_file m) ?e k n (hash_of ?e k) None =
      Inr (case find (hit (hm_file m) k) (slots m ?e k) of Some p \<Rightarrow> Some p | None \<Rightarrow> Some (last (slots m ?e k)))"
    using seek_loop_find[OF h(3) b h(2) sd, of k None] n by simp
  show ?thesis
  proof (cases "find (hit (hm_file m) k) (slots m ?e k)")
    case None
    then have "\<not> hit (hm_file m) k (last (slots m ?e k))" using ps(1) by (simp add: find_None_iff)
    then show ?thesis using None h sl ps by (simp add: skd pick_def word_at_def hit_def)
  next
    case (Some p)
    then have "hit (hm_file m) k p" "p \<in> set (slots m ?e k)" by (auto simp: find_Some_iff)
    then show ?thesis using Some h sl ps by (auto simp: skd pick_def word_at_def hit_def)
  qed
qed

fun scan :: "hash_drv_map \<Rightarrow> u64 \<Rightarrow> bool \<Rightarrow> hash_drv_extent list \<Rightarrow> nat option" where
  "scan m k ins [] = None"
| "scan m k ins (e # es) =
     (case pick (hm_file m) k ins (slots m e k) of Some p \<Rightarrow> Some p | None \<Rightarrow> scan m k ins es)"

lemma scan_extents [simp]: "slots (m\<lparr>hm_extents := c\<rparr>) e k = slots m e k" "scan (m\<lparr>hm_extents := c\<rparr>) k ins exts = scan m k ins exts"
proof -
  show s: "slots (m\<lparr>hm_extents := c\<rparr>) e k = slots m e k" for e by (simp add: slots_def)
  show "scan (m\<lparr>hm_extents := c\<rparr>) k ins exts = scan m k ins exts" by (induction exts) (simp_all add: s split: option.split)
qed

lemma layout_last: "layout m k off es \<Longrightarrow> es \<noteq> [] \<Longrightarrow> he_next_offset (last es) = file_len m"
  by (induction es arbitrary: k off) (auto split: if_splits)

lemma layout_end:
  assumes "layout m 0 0 exts" "i < length exts"
  shows "he_next_offset (exts ! i) < file_len m \<longleftrightarrow> Suc i < length exts"
proof
  assume lt: "he_next_offset (exts ! i) < file_len m"
  have "exts \<noteq> []" using assms(2) by auto
  from layout_last[OF assms(1) this] lt have "i \<noteq> length exts - 1" by (auto simp: last_conv_nth[OF \<open>exts \<noteq> []\<close>])
  then show "Suc i < length exts" using assms(2) by linarith
next
  assume s: "Suc i < length exts"
  show "he_next_offset (exts ! i) < file_len m"
    using layout_fields(2-4)[OF assms(1) s] by (simp add: sizeof_header_def)
qed

lemma find_record_ok:
  assumes "hash_ok m exts" "i < length exts" "io_realloc io" "length exts \<le> i + fuel"
  shows "\<exists>c j. find_record fuel io m (prev_of exts i) k ins = Inr (m\<lparr>hm_extents := c\<rparr>, Some (exts ! j), scan m k ins (drop i exts)) \<and>
    hash_ok (m\<lparr>hm_extents := c\<rparr>) exts \<and> j < length exts \<and> (scan m k ins (drop i exts) = None \<longrightarrow> Suc j = length exts)"
  using assms
proof (induction fuel arbitrary: m i)
  case (Suc fuel)
  obtain c where c: "hash_drv_next_extent io m (prev_of exts i) = (m\<lparr>hm_extents := c\<rparr>, Some (exts ! i))" "hash_ok (m\<lparr>hm_extents := c\<rparr>) exts"
    using next_extent_ok[OF Suc.prems(1-3)] by blast
  have d: "drop i exts = exts ! i # drop (Suc i) exts" using Suc.prems(2) by (simp add: Cons_nth_drop_Suc)
  have sk: "hash_drv_seek (m\<lparr>hm_extents := c\<rparr>) (exts ! i) k ins = Inr (pick (hm_file m) k ins (slots m (exts ! i) k))"
    using seek_ok[OF c(2) Suc.prems(2)] by simp
  have L: "layout m 0 0 exts" using Suc.prems(1) by (simp add: hash_ok_def)
  show ?case
  proof (cases "pick (hm_file m) k ins (slots m (exts ! i) k) = None \<and> Suc i < length exts")
    case True
    have "prev_of exts (Suc i) = Some (exts ! i)" by (simp add: prev_of_def)
    with Suc.IH[OF c(2), of "Suc i"] True Suc.prems(3,4) obtain c' j where
      "find_record fuel io (m\<lparr>hm_extents := c\<rparr>) (Some (exts ! i)) k ins = Inr (m\<lparr>hm_extents := c'\<rparr>, Some (exts ! j), scan m k ins (drop (Suc i) exts))"
      "hash_ok (m\<lparr>hm_extents := c'\<rparr>) exts" "j < length exts" "scan m k ins (drop (Suc i) exts) = None \<longrightarrow> Suc j = length exts" by auto
    then show ?thesis using c(1) sk True d layout_end[OF L Suc.prems(2)] by (auto intro!: exI[of _ c'] exI[of _ j])
  next
    case False
    then show ?thesis
      using c sk d layout_end[OF L Suc.prems(2)] Suc.prems(2)
      by (cases "pick (hm_file m) k ins (slots m (exts ! i) k)") (auto intro!: exI[of _ c] exI[of _ i] simp: not_less le_Suc_eq)
  qed
qed simp

end
