(* ===== verification/Ds_HashStore.thy ===== *)
theory Ds_HashStore
  imports Ds_HashFile
begin

text \<open>
  The contract of the hash file: what is stored for a token is read back, the records of other
  tokens are left alone, and a full table is extended. The invariant says that an insertion of
  a stored token would end at its record.
\<close>

declare hash_drv_set_spamrecord.simps [simp del]

section \<open>Where records lie\<close>

definition records :: "hash_drv_extent list \<Rightarrow> nat set" where
  "records exts = {rec_pos e f |e f. e \<in> set exts \<and> f < he_hash_rec_max e}"

lemma recordsE:
  assumes "p \<in> records exts"
  obtains i f where "i < length exts" "f < he_hash_rec_max (exts ! i)" "p = rec_pos (exts ! i) f"
  using assms by (auto simp: records_def in_set_conv_nth)

lemma layout_base: "layout m 0 0 exts \<Longrightarrow> i < length exts \<Longrightarrow> 8 dvd he_offset (exts ! i)"
proof (induction i)
  case (Suc i)
  then show ?case using layout_fields(2)[of m exts "Suc i"] layout_fields(3)[of m exts i]
    by (auto simp: sizeof_header_def sizeof_record_def)
qed (use layout_fields(2)[of m exts 0] in auto)

lemma layout_mono: "layout m 0 0 exts \<Longrightarrow> i < j \<Longrightarrow> j < length exts \<Longrightarrow> he_next_offset (exts ! i) \<le> he_offset (exts ! j)"
proof (induction j)
  case (Suc j)
  then show ?case using layout_fields(2)[of m exts "Suc j"] layout_fields(3)[of m exts j] by (auto simp: less_Suc_eq)
qed simp

lemma rec_pos_range:
  assumes "layout m 0 0 exts" "i < length exts" "f < he_hash_rec_max (exts ! i)"
  shows "he_offset (exts ! i) + 80 \<le> 8 * rec_pos (exts ! i) f" "8 * rec_pos (exts ! i) f + 24 \<le> he_next_offset (exts ! i)"
proof -
  obtain b where b: "he_offset (exts ! i) = 8 * b" using layout_base[OF assms(1,2)] by (rule dvdE)
  then show "he_offset (exts ! i) + 80 \<le> 8 * rec_pos (exts ! i) f" "8 * rec_pos (exts ! i) f + 24 \<le> he_next_offset (exts ! i)"
    using layout_fields(3)[OF assms(1,2)] assms(3) by (simp_all add: rec_pos_def sizeof_header_def sizeof_record_def)
qed

lemma records_apart:
  assumes L: "layout m 0 0 exts" and "p \<in> records exts" "q \<in> records exts" "p \<noteq> q"
  shows "p + 3 \<le> q \<or> q + 3 \<le> p"
proof -
  obtain i f where p: "i < length exts" "f < he_hash_rec_max (exts ! i)" "p = rec_pos (exts ! i) f" using assms(2) by (rule recordsE)
  obtain j g where q: "j < length exts" "g < he_hash_rec_max (exts ! j)" "q = rec_pos (exts ! j) g" using assms(3) by (rule recordsE)
  note pr = rec_pos_range[OF L p(1,2), folded p(3)] and qr = rec_pos_range[OF L q(1,2), folded q(3)]
  consider "i < j" | "j < i" | "i = j" by linarith
  then show ?thesis
  proof cases
    case 1 then show ?thesis using layout_mono[OF L 1 q(1)] pr qr by linarith
  next
    case 2 then show ?thesis using layout_mono[OF L 2 p(1)] pr qr by linarith
  next
    case 3 then show ?thesis using p(3) q(3) assms(4) by (auto simp: rec_pos_def)
  qed
qed

lemma records_headers:
  assumes L: "layout m 0 0 exts" and "p \<in> records exts" "e \<in> set exts"
  shows "he_offset e div 8 + 9 < p \<or> p + 2 < he_offset e div 8"
proof -
  obtain i f where p: "i < length exts" "f < he_hash_rec_max (exts ! i)" "p = rec_pos (exts ! i) f" using assms(2) by (rule recordsE)
  obtain j where j: "j < length exts" "e = exts ! j" using assms(3) by (auto simp: in_set_conv_nth)
  obtain b where b: "he_offset e = 8 * b" using layout_base[OF L j(1)] unfolding j(2) by (rule dvdE)
  note pr = rec_pos_range[OF L p(1,2), folded p(3)]
  consider "i < j" | "j < i" | "i = j" by linarith
  then show ?thesis
  proof cases
    case 1 then show ?thesis using layout_mono[OF L 1 j(1)] pr b j(2) by simp
  next
    case 2 then show ?thesis using layout_mono[OF L 2 p(1)] layout_fields(3)[OF L j(1)] pr b j(2) by (simp add: sizeof_header_def)
  next
    case 3 then show ?thesis using pr b j(2) by simp
  qed
qed

lemma records_bound: "layout m 0 0 exts \<Longrightarrow> p \<in> records exts \<Longrightarrow> p + 2 < length (hm_file m) \<and> 0 < p"
  using rec_pos_bound by (fastforce elim!: recordsE simp: rec_pos_def sizeof_header_def)

section \<open>The order of the search\<close>

definition probes :: "hash_drv_map \<Rightarrow> hash_drv_extent list \<Rightarrow> u64 \<Rightarrow> nat list" where
  "probes m exts k = concat (map (\<lambda>e. slots m e k) exts)"

text \<open>The record of a token: where its insertion would end, if that holds the token.\<close>

definition located :: "hash_drv_map \<Rightarrow> hash_drv_extent list \<Rightarrow> u64 \<Rightarrow> nat option" where
  "located m exts k =
     (case find (hit (hm_file m) k) (probes m exts k) of
        Some p \<Rightarrow> if hm_file m ! p = k then Some p else None
      | None \<Rightarrow> None)"

definition placed :: "hash_drv_map \<Rightarrow> hash_drv_extent list \<Rightarrow> bool" where
  "placed m exts \<longleftrightarrow> (\<forall>p\<in>records exts. hm_file m ! p \<noteq> 0 \<longrightarrow>
     find (hit (hm_file m) (hm_file m ! p)) (probes m exts (hm_file m ! p)) = Some p)"

lemma probes_records: "layout m 0 0 exts \<Longrightarrow> set (probes m exts k) \<subseteq> records exts"
proof
  fix p
  assume L: "layout m 0 0 exts" and "p \<in> set (probes m exts k)"
  then obtain e j where e: "e \<in> set exts" "p = rec_pos e ((hash_of e k + j) mod he_hash_rec_max e)"
    by (auto simp: probes_def slots_def)
  then have "0 < he_hash_rec_max e" using layout_fields(5)[OF L] by (auto simp: in_set_conv_nth ext_ok_def)
  then have "(hash_of e k + j) mod he_hash_rec_max e < he_hash_rec_max e" by simp
  then show "p \<in> records exts" using e unfolding records_def by blast
qed

lemma find_SomeD: "find P xs = Some x \<Longrightarrow> x \<in> set xs \<and> P x"
  by (induction xs) (auto split: if_splits)

lemma find_eq: "(\<And>x. x \<in> set xs \<Longrightarrow> P x = Q x) \<Longrightarrow> find P xs = find Q xs"
  by (induction xs) auto

lemma find_append_option: "find P (xs @ ys) = (case find P xs of Some x \<Rightarrow> Some x | None \<Rightarrow> find P ys)"
  by (induction xs) auto

lemma scan_insert: "scan m k True exts = find (hit (hm_file m) k) (probes m exts k)"
  by (induction exts) (auto simp: probes_def pick_def find_append_option split: option.split)

lemma scan_hit:
  "find (hit (hm_file m) k) (probes m exts k) = Some p \<Longrightarrow> hm_file m ! p = k \<Longrightarrow> scan m k False exts = Some p"
  by (induction exts) (auto simp: probes_def pick_def find_append_option split: option.splits)

lemma scan_miss: "(\<And>p. p \<in> set (probes m exts k) \<Longrightarrow> hm_file m ! p \<noteq> k) \<Longrightarrow> scan m k False exts = None"
proof (induction exts)
  case (Cons e es)
  have "pick (hm_file m) k False (slots m e k) = None"
    using Cons.prems by (auto simp: pick_def probes_def dest: find_SomeD split: option.split)
  then show ?case using Cons by (simp add: probes_def)
qed simp

lemma scan_located:
  assumes "layout m 0 0 exts" "placed m exts" "k \<noteq> 0"
  shows "scan m k False exts = located m exts k"
proof (cases "located m exts k")
  case None
  have "hm_file m ! p \<noteq> k" if "p \<in> set (probes m exts k)" for p
    using that None assms probes_records[OF assms(1), of k] by (auto simp: placed_def located_def split: option.splits)
  then show ?thesis using scan_miss None by metis
next
  case (Some p)
  then show ?thesis using scan_hit by (auto simp: located_def split: option.splits if_splits)
qed

lemma find_mono: "find P xs = Some x \<Longrightarrow> P' x \<Longrightarrow> (\<And>y. y \<in> set xs \<Longrightarrow> P' y \<Longrightarrow> P y) \<Longrightarrow> find P' xs = Some x"
  by (induction xs) (auto split: if_splits)

section \<open>Writing a record\<close>

definition put :: "hash_drv_map \<Rightarrow> nat \<Rightarrow> u64 \<Rightarrow> u64 \<Rightarrow> u64 \<Rightarrow> hash_drv_map" where
  "put m p k ns s = m\<lparr>hm_file := (hm_file m)[p := k, p + 1 := ns, p + 2 := s]\<rparr>"

definition entry :: "hash_drv_map \<Rightarrow> nat \<Rightarrow> u64 \<times> u64" where
  "entry m p = (hm_file m ! (p + 1), hm_file m ! (p + 2))"

lemma put_words:
  assumes "layout m 0 0 exts" "p \<in> records exts"
  shows "hm_file (put m p k ns s) ! p = k" "entry (put m p k ns s) p = (ns, s)"
    and "q < p \<or> p + 2 < q \<Longrightarrow> hm_file (put m p k ns s) ! q = hm_file m ! q"
    and "q \<in> records exts \<Longrightarrow> q \<noteq> p \<Longrightarrow> hm_file (put m p k ns s) ! q = hm_file m ! q \<and> entry (put m p k ns s) q = entry m q"
proof -
  have b: "p + 2 < length (hm_file m)" using records_bound[OF assms] by simp
  show "hm_file (put m p k ns s) ! p = k" "entry (put m p k ns s) p = (ns, s)"
    using b by (simp_all add: put_def entry_def nth_list_update)
  show o: "q < p \<or> p + 2 < q \<Longrightarrow> hm_file (put m p k ns s) ! q = hm_file m ! q" for q
    by (auto simp: put_def)
  show "q \<in> records exts \<Longrightarrow> q \<noteq> p \<Longrightarrow> hm_file (put m p k ns s) ! q = hm_file m ! q \<and> entry (put m p k ns s) q = entry m q"
    using records_apart[OF assms(1) assms(2), of q] by (auto simp: entry_def intro!: o)
qed

lemma fill_extent_cong:
  assumes "length file' = length (hm_file m)"
    "file' ! (off div 8) = hm_file m ! (off div 8)" "file' ! (off div 8 + 9) = hm_file m ! (off div 8 + 9)"
  shows "fill_extent (m\<lparr>hm_file := file'\<rparr>) i off z = fill_extent m i off z"
  using assms by (simp add: fill_extent_def file_len_def Let_def cong: if_cong)

lemma layout_cong:
  assumes "layout m i off es" "length file' = length (hm_file m)"
    "\<And>e. e \<in> set es \<Longrightarrow> file' ! (he_offset e div 8) = hm_file m ! (he_offset e div 8) \<and>
       file' ! (he_offset e div 8 + 9) = hm_file m ! (he_offset e div 8 + 9)"
  shows "layout (m\<lparr>hm_file := file'\<rparr>) i off es"
  using assms(1,3)
proof (induction es arbitrary: i off)
  case (Cons e es)
  have "he_offset e = off" using Cons.prems(1) by (auto dest: fill_extentD)
  then have "fill_extent (m\<lparr>hm_file := file'\<rparr>) i off zero_extent = (e, True)"
    using fill_extent_cong[OF assms(2), of off i zero_extent] Cons.prems(1) Cons.prems(2)[of e] by simp
  then show ?case using Cons by simp
qed (simp add: assms(2) file_len_def)

lemma put_layout:
  assumes "layout m 0 0 exts" "p \<in> records exts"
  shows "layout (put m p k ns s) 0 0 exts"
proof -
  have "hm_file (put m p k ns s) ! (he_offset e div 8) = hm_file m ! (he_offset e div 8) \<and>
      hm_file (put m p k ns s) ! (he_offset e div 8 + 9) = hm_file m ! (he_offset e div 8 + 9)" if "e \<in> set exts" for e
    using records_headers[OF assms that] by (auto intro!: put_words(3)[OF assms])
  then show ?thesis using layout_cong[OF assms(1)] by (simp add: put_def)
qed

lemma put_probes [simp]: "probes (put m p k ns s) exts k' = probes m exts k'"
  by (simp add: probes_def slots_def put_def)

lemma put_placed:
  assumes L: "layout m 0 0 exts" and P: "placed m exts" and k: "k \<noteq> 0"
    and f: "find (hit (hm_file m) k) (probes m exts k) = Some p" and m': "m' = put m p k ns s"
  shows "placed m' exts" "located m' exts k = Some p"
    and "k' \<noteq> 0 \<Longrightarrow> k' \<noteq> k \<Longrightarrow> located m' exts k' = located m exts k'"
    and "k' \<noteq> 0 \<Longrightarrow> k' \<noteq> k \<Longrightarrow> located m exts k' = Some q \<Longrightarrow> q \<in> records exts \<and> q \<noteq> p"
proof -
  have p: "p \<in> records exts" using f probes_records[OF L, of k] by (auto dest: find_SomeD)
  have hp: "hm_file m ! p = k \<or> hm_file m ! p = 0" using f by (auto dest: find_SomeD simp: hit_def)
  note w = put_words[OF L p, where k = k and ns = ns and s = s, folded m']
  have pr: "probes m' exts k' = probes m exts k'" for k' by (simp add: m')
  have less: "hit (hm_file m') k' q \<Longrightarrow> hit (hm_file m) k' q" if "q \<in> set (probes m exts k')" "k' = k \<or> k' \<noteq> k" for q k'
    using that probes_records[OF L, of k'] w(1) w(4)[of q] hp k by (cases "q = p") (auto simp: hit_def)
  have found: "find (hit (hm_file m') k') (probes m' exts k') = Some q"
    if "find (hit (hm_file m) k') (probes m exts k') = Some q" "hit (hm_file m') k' q" for k' q
    unfolding pr by (rule find_mono[OF that(1), of "hit (hm_file m') k'"]) (use that(2) less in blast)+
  show pk: "located m' exts k = Some p" using found[OF f] w(1) by (simp add: located_def hit_def)
  have stay: "find (hit (hm_file m') k') (probes m' exts k') = Some q \<and> k' \<noteq> k"
    if "q \<in> records exts" "q \<noteq> p" "hm_file m ! q = k'" "k' \<noteq> 0" for q k'
  proof -
    have fq: "find (hit (hm_file m) k') (probes m exts k') = Some q" using P that by (auto simp: placed_def)
    then have "k' \<noteq> k" using f that(2) by auto
    then show ?thesis using found[OF fq] w(4)[OF that(1,2)] that(3) by (simp add: hit_def)
  qed
  show "placed m' exts"
    unfolding placed_def
  proof (intro ballI impI)
    fix q
    assume q: "q \<in> records exts" "hm_file m' ! q \<noteq> 0"
    show "find (hit (hm_file m') (hm_file m' ! q)) (probes m' exts (hm_file m' ! q)) = Some q"
      using stay[OF q(1)] w(4)[OF q(1)] q(2) found[OF f] w(1) by (cases "q = p") (auto simp: hit_def)
  qed
  show old: "q \<in> records exts \<and> q \<noteq> p" if "k' \<noteq> 0" "k' \<noteq> k" "located m exts k' = Some q" for k' q
  proof -
    have "q \<in> set (probes m exts k')" "hm_file m ! q = k'"
      using that(3) by (auto simp: located_def dest: find_SomeD split: option.splits if_splits)
    then show ?thesis using probes_records[OF L, of k'] hp that(1,2) by auto
  qed
  show "located m' exts k' = located m exts k'" if k': "k' \<noteq> 0" "k' \<noteq> k" for k'
  proof (cases "located m exts k'")
    case (Some q)
    then have "hm_file m ! q = k'" by (auto simp: located_def split: option.splits if_splits)
    then show ?thesis using stay[of q k'] old[OF k' Some] w(4)[of q] k' Some by (auto simp: located_def)
  next
    case None
    have "hm_file m' ! q \<noteq> k'" if q: "find (hit (hm_file m') k') (probes m' exts k') = Some q" for q
    proof
      assume e: "hm_file m' ! q = k'"
      have "q \<in> records exts" using q probes_records[OF L, of k'] by (auto dest: find_SomeD simp: pr)
      moreover have "q \<noteq> p" using e w(1) k'(2) by auto
      ultimately have "hm_file m ! q = k'" "q \<in> records exts" using w(4) e by auto
      then show False using P None k'(1) by (auto simp: placed_def located_def)
    qed
    then show ?thesis using None by (auto simp: located_def split: option.splits)
  qed
qed

section \<open>Reading and storing\<close>

definition store_ok :: "hash_drv_map \<Rightarrow> hash_drv_extent list \<Rightarrow> bool" where
  "store_ok m exts \<longleftrightarrow> hash_ok m exts \<and> placed m exts"

lemma store_okD: "store_ok m exts \<Longrightarrow> hash_ok m exts \<and> placed m exts \<and> layout m 0 0 exts \<and> hm_mapped m \<and> exts \<noteq> []"
  by (simp add: store_ok_def hash_ok_def)

text \<open>The abstract view of a file: the counters of each token.\<close>

definition counters :: "hash_drv_map \<Rightarrow> hash_drv_extent list \<Rightarrow> u64 \<Rightarrow> (u64 \<times> u64) option" where
  "counters m exts k = map_option (entry m) (located m exts k)"

lemma view_extents [simp]:
  "probes (m\<lparr>hm_extents := c\<rparr>) exts k = probes m exts k" "located (m\<lparr>hm_extents := c\<rparr>) exts k = located m exts k"
  "placed (m\<lparr>hm_extents := c\<rparr>) exts = placed m exts" "counters (m\<lparr>hm_extents := c\<rparr>) exts k = counters m exts k"
  "entry (m\<lparr>hm_extents := c\<rparr>) = entry m"
proof -
  show p: "probes (m\<lparr>hm_extents := c\<rparr>) exts k = probes m exts k" for k by (simp add: probes_def)
  show l: "located (m\<lparr>hm_extents := c\<rparr>) exts k = located m exts k" by (simp add: located_def p split: option.split)
  show "placed (m\<lparr>hm_extents := c\<rparr>) exts = placed m exts" by (simp add: placed_def p)
  show e: "entry (m\<lparr>hm_extents := c\<rparr>) = entry m" by (simp add: entry_def fun_eq_iff)
  show "counters (m\<lparr>hm_extents := c\<rparr>) exts k = counters m exts k" by (simp add: counters_def l e)
qed

lemma layout_length: "layout m i off exts \<Longrightarrow> off + 80 * length exts \<le> file_len m"
proof (induction exts arbitrary: i off)
  case (Cons e es)
  then have "he_next_offset e = sizeof_header + off + he_hash_rec_max e * sizeof_record" by (auto dest: fill_extentD)
  moreover have "he_next_offset e + 80 * length es \<le> file_len m"
    using Cons.IH[of "Suc i" "he_next_offset e"] Cons.prems by simp
  ultimately show ?case by (simp add: sizeof_header_def)
qed simp

lemma find_from_start:
  assumes "hash_ok m exts" "io_realloc io"
  shows "\<exists>c j. find_record (scan_fuel m) io m None k ins = Inr (m\<lparr>hm_extents := c\<rparr>, Some (exts ! j), scan m k ins exts) \<and>
    hash_ok (m\<lparr>hm_extents := c\<rparr>) exts \<and> j < length exts \<and> (scan m k ins exts = None \<longrightarrow> Suc j = length exts)"
proof -
  have "layout m 0 0 exts" "0 < length exts" using assms by (auto simp: hash_ok_def)
  moreover from this have "length exts \<le> scan_fuel m" using layout_length[of m 0 0 exts] by (simp add: scan_fuel_def sizeof_header_def)
  ultimately show ?thesis using find_record_ok[OF assms(1) _ assms(2), of 0 "scan_fuel m" k ins] by (simp add: prev_of_def)
qed

lemma get_ok:
  assumes "store_ok m exts" "io_realloc io" "k \<noteq> 0"
  shows "\<exists>c. hash_drv_get_spamrecord io m k =
      Inr (m\<lparr>hm_extents := c\<rparr>, case located m exts k of None \<Rightarrow> (0, 0, 0) | Some p \<Rightarrow> (8 * p, entry m p)) \<and>
    store_ok (m\<lparr>hm_extents := c\<rparr>) exts"
proof -
  note ok = store_okD[OF assms(1)]
  obtain c j where c: "find_record (scan_fuel m) io m None k False = Inr (m\<lparr>hm_extents := c\<rparr>, Some (exts ! j), scan m k False exts)"
    "hash_ok (m\<lparr>hm_extents := c\<rparr>) exts" using find_from_start[of m exts io k False] ok assms(2) by auto
  have sl: "scan m k False exts = located m exts k" using scan_located[of m exts k] ok assms(3) by simp
  show ?thesis
  proof (cases "located m exts k")
    case (Some p)
    then have "p \<in> records exts" using probes_records[of m exts k] ok by (auto simp: located_def dest: find_SomeD split: option.splits if_splits)
    then have "p + 2 < length (hm_file m)" using records_bound[of m exts p] ok by simp
    then show ?thesis using c ok sl Some by (auto simp: hash_drv_get_spamrecord_def word_at_def entry_def store_ok_def)
  qed (use c ok sl in \<open>auto simp: hash_drv_get_spamrecord_def store_ok_def\<close>)
qed

text \<open>A record for which there is room is written; the file then holds it and all others.\<close>

lemma put_store_ok:
  assumes "store_ok m exts" "k \<noteq> 0" "find (hit (hm_file m) k) (probes m exts k) = Some p"
  shows "store_ok (put m p k ns s) exts" "counters (put m p k ns s) exts k = Some (ns, s)"
    "k' \<noteq> 0 \<Longrightarrow> k' \<noteq> k \<Longrightarrow> counters (put m p k ns s) exts k' = counters m exts k'"
    "write_record m p k ns s = Inr (put m p k ns s)"
proof -
  note ok = store_okD[OF assms(1)]
  have L: "layout m 0 0 exts" and P: "placed m exts" using ok by auto
  have p: "p \<in> records exts" using assms(3) probes_records[OF L] by (auto dest: find_SomeD)
  define M where "M = put m p k ns s"
  note pp = put_placed[OF L P assms(2,3) M_def, unfolded M_def]
  show "store_ok (put m p k ns s) exts"
    using ok pp(1) put_layout[OF L p] by (auto simp: store_ok_def hash_ok_def put_def cache_ok_def)
  show "counters (put m p k ns s) exts k = Some (ns, s)"
    using pp(2) put_words(2)[OF L p] by (simp add: counters_def)
  show "counters (put m p k ns s) exts k' = counters m exts k'" if "k' \<noteq> 0" "k' \<noteq> k"
    using pp(3)[OF that] pp(4)[OF that] put_words(4)[OF L p] by (cases "located m exts k'") (auto simp: counters_def)
  show "write_record m p k ns s = Inr (put m p k ns s)"
    using records_bound[OF L p] by (simp add: write_record_def put_def)
qed

lemma put_extents [simp]: "put (m\<lparr>hm_extents := c\<rparr>) p k ns s = (put m p k ns s)\<lparr>hm_extents := c\<rparr>"
  by (simp add: put_def)

lemma set_found:
  assumes "store_ok m exts" "k \<noteq> 0" "io_realloc io" "find (hit (hm_file m) k) (probes m exts k) = Some p"
  shows "\<exists>c r. hash_drv_set_spamrecord (Suc fuel) io m k ns s 0 = Inr ((put m p k ns s)\<lparr>hm_extents := c\<rparr>, r) \<and> 0 \<le> r \<and>
    store_ok ((put m p k ns s)\<lparr>hm_extents := c\<rparr>) exts"
proof -
  note ok = store_okD[OF assms(1)]
  have L: "layout m 0 0 exts" using ok by auto
  obtain c j where c: "find_record (scan_fuel m) io m None k True = Inr (m\<lparr>hm_extents := c\<rparr>, Some (exts ! j), scan m k True exts)"
    "hash_ok (m\<lparr>hm_extents := c\<rparr>) exts" using find_from_start[of m exts io k True] ok assms(3) by auto
  have s1: "store_ok (m\<lparr>hm_extents := c\<rparr>) exts" using c(2) ok by (simp add: store_ok_def)
  have f1: "find (hit (hm_file (m\<lparr>hm_extents := c\<rparr>)) k) (probes (m\<lparr>hm_extents := c\<rparr>) exts k) = Some p" using assms(4) by simp
  note pk = put_store_ok[OF s1 assms(2) f1]
  have "p \<in> records exts" using assms(4) probes_records[OF L] by (auto dest: find_SomeD)
  from records_bound[OF L this] have "p < length (hm_file m)" by simp
  then show ?thesis using c(1) ok pk(1)[of ns s] pk(4)[of ns s] assms(4)
    by (auto simp: scan_insert word_at_def hash_drv_set_spamrecord.simps Let_def)
qed

text \<open>A record is rewritten at the offset where it was read.\<close>

lemma set_at_offset:
  assumes "store_ok m exts" "k \<noteq> 0" "located m exts k = Some p"
  shows "hash_drv_set_spamrecord (Suc fuel) io m k ns s (8 * p) = Inr (put m p k ns s, 1)"
proof -
  note ok = store_okD[OF assms(1)]
  have f: "find (hit (hm_file m) k) (probes m exts k) = Some p" "hm_file m ! p = k"
    using assms(3) by (auto simp: located_def split: option.splits if_splits)
  then have "p \<in> records exts" using probes_records[of m exts k] ok by (auto dest: find_SomeD)
  then have "p + 2 < length (hm_file m)" "0 < p" using records_bound[of m exts p] ok by auto
  then show ?thesis using ok put_store_ok(4)[OF assms(1,2) f(1), of ns s] f(2) assms(2) by (simp add: word_at_def hash_drv_set_spamrecord.simps Let_def)
qed

section \<open>Extending the file\<close>

text \<open>All system calls succeed.\<close>

definition io_fine :: "hash_io \<Rightarrow> bool" where
  "io_fine io \<longleftrightarrow> io_ftruncate io \<and> io_fallocate io \<and> io_header io \<and> io_fill io \<and> io_restore io \<and> io_mmap io \<and> io_realloc io"

text \<open>The next extent has a size that the file can have.\<close>

definition size_ok :: "hash_drv_map \<Rightarrow> nat \<Rightarrow> bool" where
  "size_ok m rm \<longleftrightarrow> 0 < rm \<and> file_len m + sizeof_header + rm * sizeof_record \<le> OFF_MAX \<and>
     (has (hm_flags m) HMAP_POW2 \<longrightarrow> (\<exists>e. 0 < e \<and> e < 32 \<and> rm = 2 ^ e))"

definition can_extend :: "hash_drv_map \<Rightarrow> hash_drv_extent list \<Rightarrow> nat \<Rightarrow> bool" where
  "can_extend m exts rm \<longleftrightarrow> calculate_next_rec_max m (Some (last exts)) = Inr rm \<and> size_ok m rm"

definition new_extent :: "hash_drv_map \<Rightarrow> nat \<Rightarrow> nat \<Rightarrow> hash_drv_extent" where
  "new_extent m idx rm = \<lparr>he_hash_rec_max = rm, he_offset = file_len m,
     he_next_offset = sizeof_header + file_len m + rm * sizeof_record, he_idx = idx, he_header = True, he_num_records = rm,
     he_hash_fn = (if has (hm_flags m) HMAP_POW2 then HASH_DRV_HASH_POW2_0 else HASH_DRV_HASH_DIV),
     he_hash_op = (if has (hm_flags m) HMAP_POW2 then ffs_op (of_nat rm) else rm), he_is_broken = False\<rparr>"

definition extended :: "hash_drv_map \<Rightarrow> nat \<Rightarrow> hash_drv_map" where
  "extended m rm = m\<lparr>hm_file := hm_file m @ header_words rm no_totals
        (if has (hm_flags m) HMAP_POW2 then HASH_FILE_FLAG_HASHFN_POW2_0 else HASH_FILE_FLAG_HASHFN_DIV) @ replicate (3 * rm) 0,
     hm_mapped := True, hm_extents := map (\<lambda>e. e\<lparr>he_header := False\<rparr>) (hm_extents m)\<rparr>"

lemma length_header_words [simp]: "length (header_words rm t fl) = 10"
  by (simp add: header_words_def totals_words_def)

lemma autoextend_ok:
  assumes "io_fine io" "can_extend m exts rm"
  shows "hash_drv_autoextend io m (Some (last exts)) = Inr (extended m rm, 0)"
  using assms by (simp add: hash_drv_autoextend_def can_extend_def size_ok_def io_fine_def hash_drv_allocate_def hash_drv_mmap_def
      extended_def file_len_def sizeof_record_def Let_def)

lemma autoextend_success:
  assumes "io_fine io" "hash_drv_autoextend io m (Some (last exts)) = Inr (m', 0)" "\<not> has (hm_flags m) HMAP_POW2"
  shows "\<exists>rm. can_extend m exts rm"
proof -
  obtain rm where rm: "calculate_next_rec_max m (Some (last exts)) = Inr rm"
    using assms(2) by (auto simp: hash_drv_autoextend_def cbind_Inr_iff)
  have "file_len m + sizeof_header + rm * sizeof_record \<le> OFF_MAX"
    using assms rm by (auto simp: hash_drv_autoextend_def io_fine_def hash_drv_allocate_def EFAILURE_def file_len_def
        sizeof_record_def Let_def split: if_splits)
  moreover have "0 < next_prime v" for v
  proof (induction v rule: next_prime.induct)
    case (1 v)
    show ?case using 1 by (subst next_prime.simps) (auto simp: is_prime_def trial_division.simps ULONG_MAX_def)
  qed
  then have "0 < rm" using rm assms(3) by (auto simp: calculate_next_rec_max_def roundup_hash_op_def cbind_Inr_iff)
  ultimately show ?thesis using rm assms(3) by (auto simp: can_extend_def size_ok_def)
qed

lemma extended_len: "file_len (extended m rm) = file_len m + sizeof_header + rm * sizeof_record"
  by (simp add: file_len_def extended_def sizeof_header_def sizeof_record_def)

lemma unat_of_nat_small: "n < 2 ^ 64 \<Longrightarrow> unat (of_nat n :: u64) = n"
  by (simp add: unsigned_of_nat take_bit_nat_eq_self)

lemma pow2_word:
  assumes "e < 32"
  shows "ffs_op (2 ^ e) = e" "(2 ^ e :: u64) AND (2 ^ e - 1) = 0" "(2 ^ e :: u64) \<noteq> 0" "unat (2 ^ e :: u64) = 2 ^ e"
proof -
  have u: "(ucast (2 ^ e :: u64) :: u32) = 2 ^ e" using assms by (simp add: unsigned_ucast_eq bit_eq_iff bit_simps)
  have "takeWhile (\<lambda>i. \<not> bit (2 ^ e :: u32) i) [0..<32] = [0..<e]"
  proof -
    have "[0..<32] = [0..<e] @ e # [Suc e..<32]" using assms by (metis less_imp_le_nat upt_conv_Cons upt_add_eq_append le_add_diff_inverse zero_le)
    moreover have "takeWhile (\<lambda>i. \<not> bit (2 ^ e :: u32) i) ([0..<e] @ e # [Suc e..<32]) = [0..<e]"
      using assms by (subst takeWhile_append2) (auto simp: bit_exp_iff)
    ultimately show ?thesis by simp
  qed
  then show "ffs_op (2 ^ e) = e" using assms u by (simp add: ffs_op_def Let_def)
  show "(2 ^ e :: u64) AND (2 ^ e - 1) = 0"
    by (rule bit_word_eqI) (auto simp: bit_and_iff bit_exp_iff bit_mask_iff mask_eq_exp_minus_1[symmetric])
  have "(2 :: nat) ^ e < 2 ^ 64" using assms by (intro power_strict_increasing) auto
  from unat_of_nat_small[OF this] show "unat (2 ^ e :: u64) = 2 ^ e" by simp
  then show "(2 ^ e :: u64) \<noteq> 0" by (metis power_not_zero unat_0 zero_neq_numeral)
qed

lemma new_extent_fill:
  assumes L: "layout m 0 0 exts" and ce: "size_ok m rm"
  shows "fill_extent (extended m rm) (length exts) (file_len m) zero_extent = (new_extent m (length exts) rm, True) \<and>
    \<not> he_is_broken (new_extent m (length exts) rm) \<and> ext_ok (new_extent m (length exts) rm)"
proof -
  let ?pow2 = "has (hm_flags m) HMAP_POW2"
  have lim: "file_len m + sizeof_header + rm * sizeof_record \<le> ULONG_MAX" and pos: "0 < rm"
    and pow: "?pow2 \<Longrightarrow> \<exists>e. 0 < e \<and> e < 32 \<and> rm = 2 ^ e" using ce by (auto simp: size_ok_def OFF_MAX_def ULONG_MAX_def)
  have w: "hm_file (extended m rm) ! (file_len m div 8) = of_nat rm"
    "hm_file (extended m rm) ! (file_len m div 8 + 9) = ucast (if ?pow2 then HASH_FILE_FLAG_HASHFN_POW2_0 else HASH_FILE_FLAG_HASHFN_DIV)"
    by (simp_all add: extended_def file_len_def nth_append header_words_def totals_words_def)
  have rm: "unat (of_nat rm :: u64) = rm"
    using lim by (intro unat_of_nat_small) (simp add: ULONG_MAX_def sizeof_record_def)
  have se: "set_extent (length exts) (file_len m) (of_nat rm)
      (ucast (ucast (if ?pow2 then HASH_FILE_FLAG_HASHFN_POW2_0 else HASH_FILE_FLAG_HASHFN_DIV) :: u64)) zero_extent =
    (new_extent m (length exts) rm, True)"
  proof (cases ?pow2)
    case True
    then obtain e where "0 < e" "e < 32" "rm = 2 ^ e" using pow by blast
    then show ?thesis using pow2_word[of e] True rm
      by (simp add: set_extent_def new_extent_def zero_extent_def HASH_FILE_FLAG_HASHFN_MASK_def HASH_FILE_FLAG_HASHFN_DIV_def
          HASH_FILE_FLAG_HASHFN_POW2_0_def Let_def)
  next
    case False
    then show ?thesis using rm
      by (simp add: set_extent_def new_extent_def zero_extent_def HASH_FILE_FLAG_HASHFN_MASK_def HASH_FILE_FLAG_HASHFN_DIV_def Let_def)
  qed
  have "rm \<le> (ULONG_MAX - file_len m - sizeof_header) div sizeof_record"
    using lim by (simp add: less_eq_div_iff_mult_less_eq sizeof_record_def)
  then have "fill_extent (extended m rm) (length exts) (file_len m) zero_extent = (new_extent m (length exts) rm, True) \<and>
      \<not> he_is_broken (new_extent m (length exts) rm)"
    unfolding fill_extent_iff w extended_len rm using lim se by (simp add: zero_extent_def)
  moreover have "ext_ok (new_extent m (length exts) rm)"
    using pos pow pow2_word(1) by (auto simp: ext_ok_def new_extent_def)
  ultimately show ?thesis by blast
qed

lemma extended_layout:
  assumes L: "layout m 0 0 exts" and ce: "size_ok m rm"
  shows "layout (extended m rm) 0 0 (exts @ [new_extent m (length exts) rm])"
proof -
  have "layout m i off es \<Longrightarrow> i + length es = length exts \<Longrightarrow> layout (extended m rm) i off (es @ [new_extent m (length exts) rm])" for i off es
  proof (induction es arbitrary: i off)
    case Nil
    then show ?case using new_extent_fill[OF assms] by (simp add: extended_len new_extent_def)
  next
    case (Cons e es)
    have f: "fill_extent m i off zero_extent = (e, True)" "\<not> he_is_broken e" using Cons.prems by auto
    have "off + 80 \<le> file_len m" using fill_extentD(4,5)[OF f] by (simp add: sizeof_header_def)
    then have "hm_file (extended m rm) ! (off div 8) = hm_file m ! (off div 8)"
      "hm_file (extended m rm) ! (off div 8 + 9) = hm_file m ! (off div 8 + 9)"
      by (auto simp: extended_def file_len_def nth_append)
    then have "fill_extent (extended m rm) i off zero_extent = (e, True)"
      using fill_extent_grow[OF f] by (simp add: extended_len)
    then show ?case using Cons by simp
  qed
  from this[OF L] show ?thesis by simp
qed

lemma extended_words: "p < length (hm_file m) \<Longrightarrow> hm_file (extended m rm) ! p = hm_file m ! p"
  by (simp add: extended_def nth_append)

lemma extended_empty:
  assumes "f < rm"
  shows "hm_file (extended m rm) ! rec_pos (new_extent m i rm) f = 0"
proof -
  have "rec_pos (new_extent m i rm) f = length (hm_file m) + 10 + 3 * f"
    by (simp add: rec_pos_def new_extent_def file_len_def sizeof_header_def)
  then show ?thesis using assms by (simp add: extended_def nth_append)
qed

lemma extended_slots [simp]: "slots (extended m rm) e k = slots m e k"
  by (simp add: slots_def extended_def)

lemma find_extended:
  assumes L: "layout m 0 0 exts" and ce: "size_ok m rm" and n: "0 < hm_max_seek m mod 2 ^ 32"
    and E: "E = new_extent m (length exts) rm"
  shows "find (hit (hm_file (extended m rm)) k) (probes (extended m rm) (exts @ [E]) k) =
    (case find (hit (hm_file m) k) (probes m exts k) of Some p \<Rightarrow> Some p | None \<Rightarrow> Some (rec_pos E (hash_of E k)))"
    "hm_file (extended m rm) ! rec_pos E (hash_of E k) = 0"
proof -
  have "hit (hm_file (extended m rm)) k p = hit (hm_file m) k p" if "p \<in> set (probes m exts k)" for p
    using that probes_records[OF L, of k] records_bound[OF L, of p] extended_words[of p m rm] by (auto simp: hit_def)
  from find_eq[OF this]
  have 1: "find (hit (hm_file (extended m rm)) k) (probes m exts k) = find (hit (hm_file m) k) (probes m exts k)" .
  have "ext_ok E" using new_extent_fill[OF L ce] E by simp
  then have h: "hash_of E k < he_hash_rec_max E" using calc_hash_ok by blast
  obtain j where j: "hm_max_seek m mod 2 ^ 32 = Suc j" using n by (cases "hm_max_seek m mod 2 ^ 32") auto
  have sl: "slots m E k = rec_pos E (hash_of E k) # map (\<lambda>j. rec_pos E ((hash_of E k + Suc j) mod he_hash_rec_max E)) [0..<j]"
    unfolding slots_def j find_map_upt_Suc using h by simp
  show 0: "hm_file (extended m rm) ! rec_pos E (hash_of E k) = 0"
    using extended_empty[of "hash_of E k" rm m "length exts"] h E by (simp add: new_extent_def)
  show "find (hit (hm_file (extended m rm)) k) (probes (extended m rm) (exts @ [E]) k) =
    (case find (hit (hm_file m) k) (probes m exts k) of Some p \<Rightarrow> Some p | None \<Rightarrow> Some (rec_pos E (hash_of E k)))"
    using 1 0 by (simp add: probes_def find_append_option sl hit_def split: option.split)
qed

lemma extended_ok:
  assumes S: "store_ok m exts" and ce: "size_ok m rm" and E: "E = new_extent m (length exts) rm"
  shows "store_ok (extended m rm) (exts @ [E])" "k \<noteq> 0 \<Longrightarrow> counters (extended m rm) (exts @ [E]) k = counters m exts k"
proof -
  note ok = store_okD[OF S]
  have L: "layout m 0 0 exts" and P: "placed m exts" and n: "0 < hm_max_seek m mod 2 ^ 32"
    using ok by (auto simp: hash_ok_def)
  note fe = find_extended[OF L ce n E]
  have old: "hm_file (extended m rm) ! p = hm_file m ! p \<and> entry (extended m rm) p = entry m p" if "p \<in> records exts" for p
    using records_bound[OF L that] extended_words[of _ m rm] by (simp add: entry_def)
  have "placed (extended m rm) (exts @ [E])"
    unfolding placed_def
  proof (intro ballI impI)
    fix p
    assume p: "p \<in> records (exts @ [E])" "hm_file (extended m rm) ! p \<noteq> 0"
    have "p \<in> records exts"
    proof (rule ccontr)
      assume "p \<notin> records exts"
      with p(1) obtain f where "f < rm" "p = rec_pos E f" by (auto simp: records_def E new_extent_def)
      then show False using extended_empty[of f rm m "length exts"] p(2) E by simp
    qed
    then show "find (hit (hm_file (extended m rm)) (hm_file (extended m rm) ! p)) (probes (extended m rm) (exts @ [E]) (hm_file (extended m rm) ! p)) = Some p"
      using old[of p] P p(2) fe(1)[of "hm_file m ! p"] by (auto simp: placed_def)
  qed
  moreover have "cache_ok (extended m rm) (exts @ [E])"
    using ok by (auto simp: hash_ok_def cache_ok_def extended_def)
  ultimately show "store_ok (extended m rm) (exts @ [E])"
    using extended_layout[OF L ce] n E by (simp add: store_ok_def hash_ok_def) (simp add: extended_def)
  show "counters (extended m rm) (exts @ [E]) k = counters m exts k" if "k \<noteq> 0"
  proof (cases "find (hit (hm_file m) k) (probes m exts k)")
    case None
    then show ?thesis using fe[of k] that by (simp add: counters_def located_def)
  next
    case (Some p)
    then have "p \<in> records exts" using probes_records[OF L, of k] by (auto dest: find_SomeD)
    then show ?thesis using fe(1)[of k] Some old[of p] by (simp add: counters_def located_def)
  qed
qed

text \<open>
  Whether the file takes a further extent when a token finds no place in those it has.
\<close>

definition grows :: "hash_drv_map \<Rightarrow> hash_drv_extent list \<Rightarrow> bool" where
  "grows m exts \<longleftrightarrow> has (hm_flags m) HMAP_AUTOEXTEND \<and> (hm_max_extents m = 0 \<or> length exts \<le> hm_max_extents m)"

lemma set_unfound:
  assumes S: "store_ok m exts" and io: "io_fine io" and f: "find (hit (hm_file m) k) (probes m exts k) = None"
  shows "\<exists>c. find_record (scan_fuel m) io m None k True = Inr (m\<lparr>hm_extents := c\<rparr>, Some (last exts), None) \<and>
    store_ok (m\<lparr>hm_extents := c\<rparr>) exts \<and> Suc (he_idx (last exts)) = length exts"
proof -
  note ok = store_okD[OF S]
  have L: "layout m 0 0 exts" using ok by auto
  obtain c j where c: "find_record (scan_fuel m) io m None k True = Inr (m\<lparr>hm_extents := c\<rparr>, Some (exts ! j), None)"
    "hash_ok (m\<lparr>hm_extents := c\<rparr>) exts" "Suc j = length exts"
    using find_from_start[of m exts io k True] ok io f by (auto simp: scan_insert io_fine_def)
  have l: "exts ! j = last exts" using c(3) ok by (metis diff_Suc_1 last_conv_nth)
  have "he_idx (last exts) = j" using layout_fields(1)[OF L, of j] c(3) l by simp
  then show ?thesis using c l ok by (auto simp: store_ok_def)
qed

lemma set_grows:
  assumes S: "store_ok m exts" and k: "k \<noteq> 0" and io: "io_fine io" and f: "find (hit (hm_file m) k) (probes m exts k) = None"
    and g: "grows m exts"
  shows "\<exists>c. hash_drv_set_spamrecord (Suc fuel) io m k ns s 0 =
      cbind (hash_drv_autoextend io (m\<lparr>hm_extents := c\<rparr>) (Some (last exts))) (\<lambda>(m2, r).
        if r = 0 then hash_drv_set_spamrecord fuel io m2 k ns s 0 else Inr (m2, EFAILURE)) \<and>
    store_ok (m\<lparr>hm_extents := c\<rparr>) exts"
  using set_unfound[OF S io f] g store_okD[OF S] by (auto simp: grows_def hash_drv_set_spamrecord.simps Let_def)

lemma set_full:
  assumes S: "store_ok m exts" and k: "k \<noteq> 0" and io: "io_fine io" and f: "find (hit (hm_file m) k) (probes m exts k) = None"
  shows "\<not> grows m exts \<Longrightarrow> \<exists>c. hash_drv_set_spamrecord (Suc fuel) io m k ns s 0 = Inr (m\<lparr>hm_extents := c\<rparr>, EFAILURE) \<and>
      store_ok (m\<lparr>hm_extents := c\<rparr>) exts"
    and "grows m exts \<Longrightarrow> can_extend m exts rm \<Longrightarrow> \<exists>c. hash_drv_set_spamrecord (Suc fuel) io m k ns s 0 =
      hash_drv_set_spamrecord fuel io (extended (m\<lparr>hm_extents := c\<rparr>) rm) k ns s 0 \<and> store_ok (m\<lparr>hm_extents := c\<rparr>) exts"
proof -
  show "\<exists>c. hash_drv_set_spamrecord (Suc fuel) io m k ns s 0 = Inr (m\<lparr>hm_extents := c\<rparr>, EFAILURE) \<and>
      store_ok (m\<lparr>hm_extents := c\<rparr>) exts" if "\<not> grows m exts"
    using set_unfound[OF S io f] that store_okD[OF S] by (auto simp: grows_def hash_drv_set_spamrecord.simps Let_def)
  show "\<exists>c. hash_drv_set_spamrecord (Suc fuel) io m k ns s 0 =
      hash_drv_set_spamrecord fuel io (extended (m\<lparr>hm_extents := c\<rparr>) rm) k ns s 0 \<and> store_ok (m\<lparr>hm_extents := c\<rparr>) exts"
    if g: "grows m exts" and ce: "can_extend m exts rm"
  proof -
    obtain c where c: "hash_drv_set_spamrecord (Suc fuel) io m k ns s 0 =
        cbind (hash_drv_autoextend io (m\<lparr>hm_extents := c\<rparr>) (Some (last exts))) (\<lambda>(m2, r).
          if r = 0 then hash_drv_set_spamrecord fuel io m2 k ns s 0 else Inr (m2, EFAILURE))" "store_ok (m\<lparr>hm_extents := c\<rparr>) exts"
      using set_grows[OF S k io f g] by blast
    have "can_extend (m\<lparr>hm_extents := c\<rparr>) exts rm" using ce by (simp add: can_extend_def size_ok_def calculate_next_rec_max_def)
    then show ?thesis using c autoextend_ok[OF io] by (intro exI[of _ c]) simp
  qed
qed

text \<open>
  What storing does: the view of one token changes, records stay where they are.
\<close>

definition stored ::
    "hash_drv_map \<Rightarrow> hash_drv_extent list \<Rightarrow> u64 \<Rightarrow> u64 \<times> u64 \<Rightarrow> hash_drv_map \<Rightarrow> hash_drv_extent list \<Rightarrow> bool" where
  "stored m exts k v m' exts' \<longleftrightarrow> store_ok m' exts' \<and> hm_flags m' = hm_flags m \<and>
     (\<forall>k'. k' \<noteq> 0 \<longrightarrow> counters m' exts' k' = ((counters m exts)(k \<mapsto> v)) k') \<and>
     (\<forall>k' p. k' \<noteq> 0 \<longrightarrow> located m exts k' = Some p \<longrightarrow> located m' exts' k' = Some p)"

lemma put_stored:
  assumes S: "store_ok m exts" and k: "k \<noteq> 0" and f: "find (hit (hm_file m) k) (probes m exts k) = Some p"
    and S': "store_ok ((put m p k ns s)\<lparr>hm_extents := c\<rparr>) exts"
  shows "stored m exts k (ns, s) ((put m p k ns s)\<lparr>hm_extents := c\<rparr>) exts"
proof -
  note ok = store_okD[OF S]
  have L: "layout m 0 0 exts" and P: "placed m exts" using ok by auto
  define M where "M = put m p k ns s"
  note pp = put_placed[OF L P k f M_def]
  have "located M exts k' = Some q" if "k' \<noteq> 0" "located m exts k' = Some q" for k' q
  proof (cases "k' = k")
    case True
    then show ?thesis using that f pp(2) by (auto simp: located_def split: if_splits)
  next
    case False
    then show ?thesis using pp(3)[OF that(1)] that(2) by simp
  qed
  moreover have "hm_flags M = hm_flags m" by (simp add: M_def put_def)
  ultimately show ?thesis using S' put_store_ok(2)[OF S k f, of ns s] put_store_ok(3)[OF S k f, where ns = ns and s = s] by (auto simp: stored_def M_def)
qed

lemma set_step:
  assumes "store_ok m exts" "k \<noteq> 0" "io_fine io" "find (hit (hm_file m) k) (probes m exts k) = Some p"
  shows "\<exists>m' r. hash_drv_set_spamrecord (Suc fuel) io m k ns s 0 = Inr (m', r) \<and> 0 \<le> r \<and> stored m exts k (ns, s) m' exts"
proof -
  have "io_realloc io" using assms(3) by (simp add: io_fine_def)
  from set_found[OF assms(1,2) this assms(4), of fuel ns s] show ?thesis using put_stored[OF assms(1,2,4)] by blast
qed

lemma set_extends:
  assumes S: "store_ok m exts" and k: "k \<noteq> 0" and io: "io_fine io"
    and f: "find (hit (hm_file m) k) (probes m exts k) = None" and g: "grows m exts" and ce: "can_extend m exts rm"
  shows "\<exists>m' exts' r. hash_drv_set_spamrecord 2 io m k ns s 0 = Inr (m', r) \<and> 0 \<le> r \<and> stored m exts k (ns, s) m' exts'"
proof -
  obtain c where c: "hash_drv_set_spamrecord 2 io m k ns s 0 = hash_drv_set_spamrecord 1 io (extended (m\<lparr>hm_extents := c\<rparr>) rm) k ns s 0"
    "store_ok (m\<lparr>hm_extents := c\<rparr>) exts"
    using set_full(2)[OF S k io f g ce, where fuel = 1 and ns = ns and s = s] by (auto simp: numeral_2_eq_2)
  define m1 where "m1 = m\<lparr>hm_extents := c\<rparr>"
  define E where "E = new_extent m1 (length exts) rm"
  have sz: "size_ok m1 rm" using ce by (auto simp: m1_def can_extend_def size_ok_def)
  note ex = extended_ok[OF c(2)[folded m1_def] sz E_def]
  have L: "layout m1 0 0 exts" "0 < hm_max_seek m1 mod 2 ^ 32" using store_okD[OF c(2)[folded m1_def]] by (auto simp: hash_ok_def)
  note fe = find_extended[OF L(1) sz L(2) E_def]
  have "find (hit (hm_file (extended m1 rm)) k) (probes (extended m1 rm) (exts @ [E]) k) = Some (rec_pos E (hash_of E k))"
    using fe(1)[of k] f by (simp add: m1_def)
  from set_step[OF ex(1) k io this, of 0 ns s] obtain m' r where r: "hash_drv_set_spamrecord 1 io (extended m1 rm) k ns s 0 = Inr (m', r)"
    "0 \<le> r" "stored (extended m1 rm) (exts @ [E]) k (ns, s) m' (exts @ [E])" by auto
  have "located (extended m1 rm) (exts @ [E]) k' = Some p" if "k' \<noteq> 0" "located m exts k' = Some p" for k' p
  proof -
    have p: "find (hit (hm_file m) k') (probes m exts k') = Some p" "hm_file m ! p = k'"
      using that(2) by (auto simp: located_def split: option.splits if_splits)
    then have "p < length (hm_file m)" using probes_records[OF L(1), of k'] records_bound[OF L(1), of p] by (auto simp: m1_def dest!: find_SomeD)
    then show ?thesis using fe(1)[of k'] p extended_words[of p m1 rm] by (simp add: located_def m1_def)
  qed
  moreover have "hm_flags (extended m1 rm) = hm_flags m" by (simp add: extended_def m1_def)
  ultimately have "stored m exts k (ns, s) m' (exts @ [E])" using r(3) ex(2) by (auto simp: stored_def m1_def)
  then show ?thesis using c(1) r(1,2) by (auto simp: m1_def)
qed

text \<open>Storing succeeds where there is room; and where it succeeds, it has stored.\<close>

lemma set_stores:
  assumes S: "store_ok m exts" and k: "k \<noteq> 0" and io: "io_fine io"
    and room: "find (hit (hm_file m) k) (probes m exts k) = None \<Longrightarrow> grows m exts \<and> can_extend m exts rm"
  shows "\<exists>m' exts' r. hash_drv_set_spamrecord 2 io m k ns s 0 = Inr (m', r) \<and> 0 \<le> r \<and> stored m exts k (ns, s) m' exts'"
proof (cases "find (hit (hm_file m) k) (probes m exts k)")
  case None
  then show ?thesis using set_extends[OF S k io None] room by blast
next
  case (Some p)
  from set_step[OF S k io Some, of 1 ns s] show ?thesis unfolding numeral_2_eq_2 One_nat_def by blast
qed

lemma set_success:
  assumes S: "store_ok m exts" and k: "k \<noteq> 0" and io: "io_fine io" and nopow: "\<not> has (hm_flags m) HMAP_POW2"
    and off: "off = 0 \<or> (\<exists>p. located m exts k = Some p \<and> off = 8 * p)"
    and set: "hash_drv_set_spamrecord 2 io m k ns s off = Inr (m', r)" "0 \<le> r"
  shows "\<exists>exts'. stored m exts k (ns, s) m' exts'"
proof (cases "off = 0")
  case False
  then obtain p where p: "located m exts k = Some p" "off = 8 * p" using off by blast
  then have f: "find (hit (hm_file m) k) (probes m exts k) = Some p" by (auto simp: located_def split: option.splits if_splits)
  have "m' = (put m p k ns s)\<lparr>hm_extents := hm_extents (put m p k ns s)\<rparr>"
    using set_at_offset[OF S k p(1), of 1 io ns s] set(1) p(2) by (simp add: numeral_2_eq_2)
  then show ?thesis using put_stored[OF S k f, where ns = ns and s = s and c = "hm_extents (put m p k ns s)"] put_store_ok(1)[OF S k f, where ns = ns and s = s] by auto
next
  case True
  show ?thesis
  proof (cases "find (hit (hm_file m) k) (probes m exts k)")
    case (Some p)
    from set_step[OF S k io this, of 1 ns s] set True show ?thesis by (auto simp: numeral_2_eq_2)
  next
    case None
    note ok = store_okD[OF S]
    have g: "grows m exts"
    proof (rule ccontr)
      assume "\<not> grows m exts"
      from set_full(1)[OF S k io None this, where fuel = 1 and ns = ns and s = s] set True show False by (auto simp: numeral_2_eq_2 EFAILURE_def)
    qed
    obtain c where c: "hash_drv_set_spamrecord 2 io m k ns s 0 =
        cbind (hash_drv_autoextend io (m\<lparr>hm_extents := c\<rparr>) (Some (last exts))) (\<lambda>(m2, r).
          if r = 0 then hash_drv_set_spamrecord 1 io m2 k ns s 0 else Inr (m2, EFAILURE))"
      using set_grows[OF S k io None g, where fuel = 1 and ns = ns and s = s] by (auto simp: numeral_2_eq_2)
    then obtain m2 where "hash_drv_autoextend io (m\<lparr>hm_extents := c\<rparr>) (Some (last exts)) = Inr (m2, 0)"
      using set True by (auto simp: cbind_Inr_iff EFAILURE_def split: if_splits)
    from autoextend_success[OF io this] nopow obtain rm where "can_extend (m\<lparr>hm_extents := c\<rparr>) exts rm" by auto
    then have "can_extend m exts rm" by (simp add: can_extend_def size_ok_def calculate_next_rec_max_def)
    from set_extends[OF S k io None g this, where ns = ns and s = s] set True show ?thesis by auto
  qed
qed

section \<open>The store as an abstract map\<close>

text \<open>
  The contract of a store of records: storing where there is room succeeds, and changes what
  is looked up for one token. The counters of a token are a pair.
\<close>

locale record_store =
  fixes good :: "'st \<Rightarrow> bool" and look :: "'st \<Rightarrow> u64 \<Rightarrow> (u64 \<times> u64) option"
    and room :: "'st \<Rightarrow> u64 \<Rightarrow> bool" and store :: "'st \<Rightarrow> u64 \<Rightarrow> u64 \<times> u64 \<Rightarrow> 'st option"
  assumes store_law: "good st \<Longrightarrow> k \<noteq> 0 \<Longrightarrow> room st k \<Longrightarrow>
    \<exists>st'. store st k v = Some st' \<and> good st' \<and> (\<forall>k'. k' \<noteq> 0 \<longrightarrow> look st' k' = ((look st)(k \<mapsto> v)) k')"
begin

text \<open>Storing one record after the other; there has to be room for each when its turn comes.\<close>

fun roomy :: "'st \<Rightarrow> (u64 \<times> u64 \<times> u64) list \<Rightarrow> bool" where
  "roomy st [] \<longleftrightarrow> True"
| "roomy st ((k, v) # kvs) \<longleftrightarrow> k \<noteq> 0 \<and> room st k \<and> (\<forall>st'. store st k v = Some st' \<longrightarrow> roomy st' kvs)"

lemma store_all:
  assumes "good st" "roomy st kvs"
  shows "\<exists>st'. foldl (\<lambda>s (k, v). Option.bind s (\<lambda>s. store s k v)) (Some st) kvs = Some st' \<and> good st' \<and>
    (\<forall>k. k \<noteq> 0 \<longrightarrow> look st' k = (look st ++ map_of (rev kvs)) k)"
  using assms
proof (induction kvs arbitrary: st)
  case (Cons kv kvs)
  obtain k v where kv: "kv = (k, v)" by (cases kv)
  then obtain s1 where s1: "store st k v = Some s1" "good s1" "\<forall>k'. k' \<noteq> 0 \<longrightarrow> look s1 k' = ((look st)(k \<mapsto> v)) k'"
    using store_law[of st k v] Cons.prems by auto
  then obtain st' where "foldl (\<lambda>s (k, v). Option.bind s (\<lambda>s. store s k v)) (Some s1) kvs = Some st'" "good st'"
    "\<forall>k. k \<noteq> 0 \<longrightarrow> look st' k = (look s1 ++ map_of (rev kvs)) k"
    using Cons.IH[of s1] Cons.prems kv by auto
  then show ?case using s1 kv by (intro exI[of _ st']) (auto simp: map_add_def split: option.splits)
qed (simp add: map_add_def)

end

text \<open>The hash file as such a store, with system calls that succeed.\<close>

definition io_good :: hash_io where
  "io_good = \<lparr>io_ftruncate = True, io_fallocate = True, io_header = True, io_fill = True, io_restore = True, io_mmap = True, io_realloc = True\<rparr>"

definition hash_good :: "hash_drv_map \<Rightarrow> bool" where
  "hash_good m \<longleftrightarrow> (\<exists>exts. store_ok m exts)"

definition hash_look :: "hash_drv_map \<Rightarrow> u64 \<Rightarrow> (u64 \<times> u64) option" where
  "hash_look m k =
     (case hash_drv_get_spamrecord io_good m k of Inr (_, off, ns, s) \<Rightarrow> if off = 0 then None else Some (ns, s) | Inl _ \<Rightarrow> None)"

definition hash_room :: "hash_drv_map \<Rightarrow> u64 \<Rightarrow> bool" where
  "hash_room m k \<longleftrightarrow> (\<forall>exts. store_ok m exts \<longrightarrow> find (hit (hm_file m) k) (probes m exts k) = None \<longrightarrow>
     grows m exts \<and> (\<exists>rm. can_extend m exts rm))"

definition hash_store :: "hash_drv_map \<Rightarrow> u64 \<Rightarrow> u64 \<times> u64 \<Rightarrow> hash_drv_map option" where
  "hash_store m k v =
     (case hash_drv_set_spamrecord 2 io_good m k (fst v) (snd v) 0 of Inr (m', r) \<Rightarrow> if r < 0 then None else Some m' | Inl _ \<Rightarrow> None)"

lemma io_good_fine: "io_fine io_good" "io_realloc io_good"
  by (simp_all add: io_fine_def io_good_def)

lemma hash_look_counters:
  assumes "store_ok m exts" "k \<noteq> 0"
  shows "hash_look m k = counters m exts k"
proof (cases "located m exts k")
  case None
  then show ?thesis using get_ok[OF assms(1) io_good_fine(2) assms(2)] by (auto simp: hash_look_def counters_def)
next
  case (Some p)
  note ok = store_okD[OF assms(1)]
  then have "p \<in> records exts" using Some probes_records[of m exts k] by (auto simp: located_def dest: find_SomeD split: option.splits if_splits)
  then have "0 < p" using records_bound[of m exts p] ok by simp
  then show ?thesis using get_ok[OF assms(1) io_good_fine(2) assms(2)] Some by (auto simp: hash_look_def counters_def entry_def)
qed

interpretation hs: record_store hash_good hash_look hash_room hash_store
proof
  fix m k and v :: "u64 \<times> u64"
  assume "hash_good m" and k: "k \<noteq> 0" and room: "hash_room m k"
  then obtain exts where S: "store_ok m exts" by (auto simp: hash_good_def)
  obtain rm where rm: "find (hit (hm_file m) k) (probes m exts k) = None \<Longrightarrow> grows m exts \<and> can_extend m exts rm"
    using room S by (auto simp: hash_room_def)
  from set_stores[OF S k io_good_fine(1) rm, of "fst v" "snd v"]
  obtain m' exts' r where "hash_drv_set_spamrecord 2 io_good m k (fst v) (snd v) 0 = Inr (m', r)" "0 \<le> r" "store_ok m' exts'"
    "\<forall>k'. k' \<noteq> 0 \<longrightarrow> counters m' exts' k' = ((counters m exts)(k \<mapsto> v)) k'" by (auto simp: stored_def)
  then show "\<exists>m'. hash_store m k v = Some m' \<and> hash_good m' \<and> (\<forall>k'. k' \<noteq> 0 \<longrightarrow> hash_look m' k' = ((hash_look m)(k \<mapsto> v)) k')"
    using hash_look_counters[OF S] hash_look_counters[of m' exts'] by (auto simp: hash_store_def hash_good_def)
qed

section \<open>A new file\<close>

lemma created_ok:
  assumes "hm_file m = []" "hm_extents m = []" "0 < hm_max_seek m mod 2 ^ 32" "size_ok m rm"
  shows "store_ok (extended m rm) [new_extent m 0 rm]" "k \<noteq> 0 \<Longrightarrow> hash_look (extended m rm) k = None" "hash_room (extended m rm) k"
proof -
  have L0: "layout m 0 0 []" using assms(1) by (simp add: file_len_def)
  have L: "layout (extended m rm) 0 0 [new_extent m 0 rm]" using extended_layout[OF L0 assms(4)] by simp
  have zero: "hm_file (extended m rm) ! p = 0" if "p \<in> records [new_extent m 0 rm]" for p
    using that extended_empty[of _ rm m 0] by (auto simp: records_def new_extent_def)
  show S: "store_ok (extended m rm) [new_extent m 0 rm]"
    using L zero assms(2,3) by (auto simp: store_ok_def hash_ok_def placed_def cache_ok_def) (simp_all add: extended_def)
  show "hash_look (extended m rm) k = None" if "k \<noteq> 0"
    using hash_look_counters[OF S that] zero probes_records[OF L, of k] that
    by (auto simp: counters_def located_def dest!: find_SomeD split: option.splits)
  show "hash_room (extended m rm) k"
    unfolding hash_room_def
  proof (intro allI impI)
    fix exts
    assume S': "store_ok (extended m rm) exts" and f: "find (hit (hm_file (extended m rm)) k) (probes (extended m rm) exts k) = None"
    obtain e es where e: "exts = e # es" using store_okD[OF S'] by (cases exts) auto
    have "e = new_extent m 0 rm" using store_okD[OF S'] L by (simp add: e)
    then have "find (hit (hm_file (extended m rm)) k) (slots m (new_extent m 0 rm) k) = None"
      using f by (auto simp: probes_def e find_append_option split: option.splits)
    then show "grows (extended m rm) exts \<and> (\<exists>rm'. can_extend (extended m rm) exts rm')"
      using find_extended[OF L0 assms(4,3) refl, of k] by (simp add: probes_def)
  qed
qed

section \<open>Sizes of tables\<close>

lemma trial_division_iff:
  assumes "odd f"
  shows "trial_division v f \<longleftrightarrow> 2 \<le> v \<and> (\<forall>g. odd g \<longrightarrow> f \<le> g \<longrightarrow> g * g \<le> v \<longrightarrow> g < 10000 \<longrightarrow> v mod g \<noteq> 0)"
  using assms
proof (induction v f rule: trial_division.induct)
  case (1 v f)
  show ?case
  proof (cases "f * f \<le> v \<and> f < 10000")
    case True
    show ?thesis
    proof (cases "v mod f = 0")
      case True
      then show ?thesis using \<open>f * f \<le> v \<and> f < 10000\<close> 1(2) by (subst trial_division.simps) auto
    next
      case False
      have step: "f \<le> g \<longleftrightarrow> g = f \<or> f + 2 \<le> g" if "odd g" for g
        using that 1(2) by presburger
      have "trial_division v f = trial_division v (f + 2)" using True False by (subst trial_division.simps) simp
      also have "\<dots> \<longleftrightarrow> 2 \<le> v \<and> (\<forall>g. odd g \<longrightarrow> f + 2 \<le> g \<longrightarrow> g * g \<le> v \<longrightarrow> g < 10000 \<longrightarrow> v mod g \<noteq> 0)"
        using 1(1)[OF True False] 1(2) by simp
      also have "\<dots> \<longleftrightarrow> 2 \<le> v \<and> (\<forall>g. odd g \<longrightarrow> f \<le> g \<longrightarrow> g * g \<le> v \<longrightarrow> g < 10000 \<longrightarrow> v mod g \<noteq> 0)"
        using False step by blast
      finally show ?thesis .
    qed
  next
    case False
    have "\<not> (g * g \<le> v \<and> g < 10000)" if "f \<le> g" for g
      using False mult_le_mono[OF that that] that by linarith
    then show ?thesis using False by (subst trial_division.simps) auto
  qed
qed

lemma small_divisor:
  assumes "(d :: nat) dvd v" "1 < d" "d < v"
  obtains g where "g dvd v" "1 < g" "g * g \<le> v"
proof -
  obtain c where c: "v = d * c" using assms(1) by (rule dvdE)
  then have "1 < c" using assms by (cases "c \<le> 1") (auto simp: le_Suc_eq)
  show ?thesis
  proof (cases "d \<le> c")
    case True
    then show ?thesis using that[of d] assms c by simp
  next
    case False
    then show ?thesis using that[of c] c \<open>1 < c\<close> by simp
  qed
qed

lemma is_prime_correct:
  assumes "v < 100000000"
  shows "is_prime v \<longleftrightarrow> 2 \<le> v \<and> (\<forall>d. 1 < d \<longrightarrow> d < v \<longrightarrow> \<not> d dvd v)"
proof -
  have lim: "g < 10000" if "g * g \<le> v" for g
    using mult_le_mono[of 10000 g 10000 g] that assms by (cases "g < 10000") auto
  have "is_prime v \<longleftrightarrow> \<not> (v > 2 \<and> even v) \<and> 2 \<le> v \<and> (\<forall>g. odd g \<longrightarrow> 3 \<le> g \<longrightarrow> g * g \<le> v \<longrightarrow> \<not> g dvd v)"
    unfolding is_prime_def even_iff_mod_2_eq_zero dvd_eq_mod_eq_0[of _ v] trial_division_iff[OF odd_numeral] using lim by auto
  also have "\<dots> \<longleftrightarrow> 2 \<le> v \<and> (\<forall>d. 1 < d \<longrightarrow> d < v \<longrightarrow> \<not> d dvd v)" (is "?L \<longleftrightarrow> ?R")
  proof
    assume L: ?L
    show ?R
    proof (intro conjI allI impI notI)
      fix d assume d: "1 < d" "d < v" "d dvd v"
      obtain g where g: "g dvd v" "1 < g" "g * g \<le> v" using small_divisor[OF d(3,1,2)] .
      have "odd g"
      proof
        assume "even g"
        then have "even v" using g(1) dvd_trans by blast
        then show False using L d by simp
      qed
      moreover from this g(2) have "3 \<le> g" by presburger
      ultimately show False using L g by blast
    qed (use L in simp)
  next
    assume R: ?R
    have "g < v" if "3 \<le> g" "g * g \<le> v" for g :: nat
      using that mult_le_mono[of 3 g g g] by linarith
    then show ?L using R by fastforce
  qed
  finally show ?thesis .
qed

lemma next_prime_spec:
  "v \<le> next_prime v \<and> (is_prime (next_prime v) \<or> ULONG_MAX \<le> next_prime v) \<and> (\<forall>u. v \<le> u \<longrightarrow> u < next_prime v \<longrightarrow> \<not> is_prime u)"
proof (induction v rule: next_prime.induct)
  case (1 v)
  show ?case
  proof (cases "\<not> is_prime v \<and> v < ULONG_MAX")
    case True
    then have "next_prime v = next_prime (v + 1)" by (subst next_prime.simps) simp
    then show ?thesis using 1[OF True] True by (metis Suc_eq_plus1 Suc_leI le_neq_implies_less less_or_eq_imp_le order_trans le_add1)
  next
    case False
    then have "next_prime v = v" by (subst next_prime.simps) auto
    then show ?thesis using False by auto
  qed
qed

section \<open>Properties\<close>

text \<open>There is room for each record of a list when its turn comes.\<close>

fun fits :: "hash_drv_map \<Rightarrow> (u64 \<times> u64 \<times> u64) list \<Rightarrow> bool" where
  "fits m [] \<longleftrightarrow> True"
| "fits m ((k, v) # kvs) \<longleftrightarrow> k \<noteq> 0 \<and> hash_room m k \<and> (\<forall>m'. hash_store m k v = Some m' \<longrightarrow> fits m' kvs)"

lemma fits_roomy: "fits m kvs = hs.roomy m kvs"
  by (induction m kvs rule: fits.induct) auto

text \<open>
  C16. The hash file is a map from tokens to counters. Storing any list of records for which
  there is room, by extension of the file where its tables are full, succeeds and leaves a
  well-formed file; a lookup then gives the counters stored last for a token, and what the
  file held before for a token that was not stored.
\<close>

theorem hash_file_refines_map:
  assumes "hash_good m" "fits m kvs"
  shows "\<exists>m'. foldl (\<lambda>s (k, v). Option.bind s (\<lambda>s. hash_store s k v)) (Some m) kvs = Some m' \<and> hash_good m' \<and>
    (\<forall>k. k \<noteq> 0 \<longrightarrow> hash_look m' k = (hash_look m ++ map_of (rev kvs)) k)"
  using hs.store_all[of m kvs] assms by (simp add: fits_roomy)

definition empty_map :: hash_drv_map where
  "empty_map = \<lparr>hm_file = [], hm_mapped = True, hm_max_seek = 100, hm_max_extents = 0, hm_extent_size = 49157,
     hm_pctincrease = 0, hm_flags = HMAP_AUTOEXTEND, hm_extents = []\<rparr>"

lemma empty_map_fresh:
  "store_ok (extended empty_map 3) [new_extent empty_map 0 3]" "k \<noteq> 0 \<Longrightarrow> hash_look (extended empty_map 3) k = None"
  "hash_room (extended empty_map 3) k"
  using created_ok[of empty_map 3] by (simp_all add: empty_map_def size_ok_def file_len_def sizeof_header_def sizeof_record_def
      OFF_MAX_def has_def HMAP_AUTOEXTEND_def HMAP_POW2_def)

theorem hash_file_refines_map_witness:
  "\<exists>m'. foldl (\<lambda>s (k, v). Option.bind s (\<lambda>s. hash_store s k v)) (Some (extended empty_map 3)) [(5, 1, 2)] = Some m' \<and>
    hash_look m' 5 = Some (1, 2) \<and> hash_look m' 6 = None"
proof -
  have "hash_good (extended empty_map 3)" "fits (extended empty_map 3) [(5, 1, 2)]"
    using empty_map_fresh(1,3) by (auto simp: hash_good_def)
  from hash_file_refines_map[OF this] show ?thesis using empty_map_fresh(2)[of 6] by (auto simp: map_add_def)
qed

text \<open>
  The size of a table. Without the power-of-two flag the size asked for is rounded up to
  the least prime that is not below it, as long as that is less than a hundred million, where
  trial division below ten thousand decides primality.
\<close>

theorem roundup_least_prime:
  assumes "roundup_hash_op flags v = Inr p" "\<not> has flags HMAP_POW2" "p < 100000000"
  shows "v \<le> p \<and> 2 \<le> p \<and> (\<forall>d. 1 < d \<longrightarrow> d < p \<longrightarrow> \<not> d dvd p) \<and>
    (\<forall>u. v \<le> u \<longrightarrow> u < p \<longrightarrow> \<not> (2 \<le> u \<and> (\<forall>d. 1 < d \<longrightarrow> d < u \<longrightarrow> \<not> d dvd u)))"
proof -
  have p: "p = next_prime v" using assms by (simp add: roundup_hash_op_def)
  then have "is_prime p" using next_prime_spec[of v] assms(3) by (auto simp: ULONG_MAX_def)
  moreover have "\<not> is_prime u" if "v \<le> u" "u < p" for u using next_prime_spec[of v] p that by blast
  ultimately show ?thesis using next_prime_spec[of v] p is_prime_correct[OF assms(3)] is_prime_correct assms(3) by (metis less_trans)
qed

theorem roundup_least_prime_witness: "\<exists>p. roundup_hash_op 0 24 = Inr p \<and> 24 \<le> p \<and> \<not> 2 dvd p"
proof -
  have "is_prime 29" "\<not> is_prime 24" "\<not> is_prime 25" "\<not> is_prime 26" "\<not> is_prime 27" "\<not> is_prime 28"
    by (simp_all add: is_prime_def trial_division.simps)
  then have r: "roundup_hash_op 0 24 = Inr 29"
    by (simp add: roundup_hash_op_def has_def next_prime.simps ULONG_MAX_def)
  show ?thesis using roundup_least_prime[OF r] r by (auto simp: has_def)
qed

end
