(* ===== verification/Ds_HashDrv.thy ===== *)
theory Ds_HashDrv
  imports Ds_HashStore Ds_Train
begin

text \<open>
  The hash storage driver (\<^verbatim>\<open>hash_drv.c\<close>): opening and closing storage, the totals in the first
  header, and the records of the tokens of a message. What the file system and the locks answer
  are arguments.
\<close>

unbundle bit_operations_syntax

section \<open>Numbers in the configuration\<close>

definition digit_val :: "char \<Rightarrow> nat" where
  "digit_val c =
     (let n = of_char c in
      if 48 \<le> n \<and> n \<le> 57 then n - 48
      else if 97 \<le> n \<and> n \<le> 122 then n - 87
      else if 65 \<le> n \<and> n \<le> 90 then n - 55 else 36)"

definition digits_value :: "nat \<Rightarrow> string \<Rightarrow> nat" where
  "digits_value base s = foldl (\<lambda>n c. n * base + digit_val c) 0 (takeWhile (\<lambda>c. digit_val c < base) s)"

text \<open>\<^verbatim>\<open>strtol\<close> with base 0 or a given base: blanks, a sign, the prefix of the base, digits, saturation.\<close>

definition strtol :: "string \<Rightarrow> nat \<Rightarrow> int" where
  "strtol s base =
     (let s1 = dropWhile c_isspace s;
          neg = (take 1 s1 = ''-'');
          s2 = (if neg \<or> take 1 s1 = ''+'' then drop 1 s1 else s1);
          hex = ((take 2 s2 = ''0x'' \<or> take 2 s2 = ''0X'') \<and> length s2 > 2 \<and> digit_val (s2 ! 2) < 16);
          (b, s3) = (if base = 0 then (if hex then (16, drop 2 s2) else if take 1 s2 = ''0'' then (8, s2) else (10, s2))
                     else (base, s2));
          v = (if neg then - int (digits_value b s3) else int (digits_value b s3))
      in max (- (2 ^ 63)) (min (2 ^ 63 - 1) v))"

definition as_ulong :: "int \<Rightarrow> nat" where
  "as_ulong i = nat (i mod 2 ^ 64)"

definition as_int :: "int \<Rightarrow> int" where
  "as_int i = sint (of_int i :: 32 word)"

section \<open>Opening and closing\<close>

definition HASH_REC_MAX :: nat where "HASH_REC_MAX = 98317"
definition HASH_EXTENT_MAX :: nat where "HASH_EXTENT_MAX = 49157"
definition HASH_SEEK_MAX :: nat where "HASH_SEEK_MAX = 100"

text \<open>What the system answers while storage is opened; the words of the user's file, if there is one.\<close>

record hash_env =
  en_disk :: "u64 list option"
  en_create :: bool
  en_reopen :: bool
  en_lock :: bool
  en_storage :: bool
  en_map :: bool
  en_io :: hash_io

definition zero_map :: hash_drv_map where
  "zero_map = \<lparr>hm_file = [], hm_mapped = False, hm_max_seek = 0, hm_max_extents = 0, hm_extent_size = 0,
     hm_pctincrease = 0, hm_flags = 0, hm_extents = []\<rparr>"

text \<open>A file that is missing is created with one extent; it always uses division, whatever the flags.\<close>

definition hash_drv_open ::
    "hash_env \<Rightarrow> hash_drv_map \<Rightarrow> nat \<Rightarrow> nat \<Rightarrow> nat \<Rightarrow> nat \<Rightarrow> int \<Rightarrow> u32 \<Rightarrow> (hash_drv_map \<times> int) cres" where
  "hash_drv_open env m recmaxifnew max_seek max_extents extent_size pctincrease flags =
     (let m1 = m\<lparr>hm_flags := flags\<rparr>;
          finish = (\<lambda>file.
            (case hash_drv_mmap (en_io env) (m1\<lparr>hm_file := file\<rparr>) of (m2, r) \<Rightarrow>
               if r \<noteq> 0 then Inr (m2, EFAILURE)
               else Inr (m2\<lparr>hm_max_seek := max_seek, hm_max_extents := max_extents, hm_extent_size := extent_size,
                            hm_pctincrease := pctincrease, hm_extents := []\<rparr>, 0)))
      in case en_disk env of
           Some file \<Rightarrow> finish file
         | None \<Rightarrow>
             if recmaxifnew = 0 then Inr (m1, EFILE)
             else cbind (roundup_hash_op flags recmaxifnew) (\<lambda>rec_max.
               if \<not> en_create env then Inr (m1, EFILE)
               else cbind (hash_drv_allocate (en_io env) flags [] rec_max HASH_FILE_FLAG_HASHFN_DIV) (\<lambda>(file, ok).
                 if \<not> ok \<or> \<not> en_reopen env then Inr (m1, EFILE) else finish file)))"

definition hash_drv_close :: "hash_drv_map \<Rightarrow> hash_drv_map \<times> int" where
  "hash_drv_close m = (if \<not> hm_mapped m then (m, EINVAL) else (m\<lparr>hm_mapped := False, hm_extents := []\<rparr>, 0))"

record hash_storage =
  hs_map :: hash_drv_map
  hs_dbh_attached :: bool
  hs_hash_rec_max :: nat
  hs_max_seek :: nat
  hs_max_extents :: nat
  hs_extent_size :: nat
  hs_pctincrease :: int
  hs_flags :: u32

type_synonym 'm hash_ctx = "(hash_storage, 'm) dspam_ctx"

section \<open>Totals\<close>

definition hash_drv_get_spamtotals :: "'m hash_ctx \<Rightarrow> ('m hash_ctx \<times> int) cres" where
  "hash_drv_get_spamtotals CTX =
     (case cx_storage CTX of
        None \<Rightarrow> Inl NullDeref
      | Some s \<Rightarrow>
          let file = hm_file (hs_map s); w = (\<lambda>i. sint (file ! i)) in
          if \<not> hm_mapped (hs_map s) then Inr (CTX, EINVAL)
          else if length file < 9 then Inl OutOfBounds
          else Inr (CTX\<lparr>cx_totals := \<lparr>spam_learned = w 1, innocent_learned = w 2, spam_misclassified = w 3,
                 innocent_misclassified = w 4, spam_corpusfed = w 5, innocent_corpusfed = w 6,
                 spam_classified = w 7, innocent_classified = w 8\<rparr>\<rparr>, 0))"

definition hash_drv_set_spamtotals :: "'m hash_ctx \<Rightarrow> ('m hash_ctx \<times> int) cres" where
  "hash_drv_set_spamtotals CTX =
     (case cx_storage CTX of
        None \<Rightarrow> Inl NullDeref
      | Some s \<Rightarrow>
          let file = hm_file (hs_map s) in
          if \<not> hm_mapped (hs_map s) then Inr (CTX, EINVAL)
          else if length file < 9 then Inl OutOfBounds
          else Inr (CTX\<lparr>cx_storage := Some (s\<lparr>hs_map := (hs_map s)\<lparr>hm_file :=
                 take 1 file @ totals_words (cx_totals CTX) @ drop 9 file\<rparr>\<rparr>)\<rparr>, 0))"

section \<open>The driver\<close>

definition read_long :: "'m hash_ctx \<Rightarrow> string \<Rightarrow> nat \<Rightarrow> nat cres" where
  "read_long CTX key dflt =
     cbind (ds_read_attribute (cx_attributes CTX) key) (\<lambda>v.
       Inr (case v of None \<Rightarrow> dflt | Some s \<Rightarrow> as_ulong (strtol s 0)))"

text \<open>The handle \<open>dbh\<close> is a map that another context opened.\<close>

definition hash_config :: "hash_drv_map option \<Rightarrow> 'm hash_ctx \<Rightarrow> hash_storage cres" where
  "hash_config dbh CTX =
     cbind (read_long CTX ''HashRecMax'' HASH_REC_MAX) (\<lambda>rec_max.
     cbind (read_long CTX ''HashExtentSize'' HASH_EXTENT_MAX) (\<lambda>extent_size.
     cbind (read_long CTX ''HashMaxExtents'' 0) (\<lambda>max_extents.
     cbind (ds_match_attribute (cx_attributes CTX) ''HashAutoExtend'' ''on'') (\<lambda>auto_extend.
     cbind (ds_read_attribute (cx_attributes CTX) ''HashPctIncrease'') (\<lambda>pct.
     cbind (read_long CTX ''HashMaxSeek'' HASH_SEEK_MAX) (\<lambda>max_seek.
       let p = (case pct of None \<Rightarrow> 0 | Some s \<Rightarrow> as_int (strtol s 10)) in
       Inr \<lparr>hs_map = (case dbh of Some m \<Rightarrow> m | None \<Rightarrow> zero_map), hs_dbh_attached = (dbh \<noteq> None), hs_hash_rec_max = rec_max,
            hs_max_seek = max_seek, hs_max_extents = max_extents, hs_extent_size = extent_size,
            hs_pctincrease = (if p > 100 then 0 else p), hs_flags = (if auto_extend then HMAP_AUTOEXTEND else 0)\<rparr>))))))"

definition hash_ready :: "'m hash_ctx \<Rightarrow> hash_storage \<Rightarrow> ('m hash_ctx \<times> int) cres" where
  "hash_ready CTX s =
     cbind (hash_drv_get_spamtotals (CTX\<lparr>cx_storage := Some s\<rparr>)) (\<lambda>(C, r).
       Inr (if r \<noteq> 0 then C\<lparr>cx_totals := no_totals\<rparr> else C, 0))"

definition hash_init_storage :: "hash_env \<Rightarrow> hash_drv_map option \<Rightarrow> 'm hash_ctx \<Rightarrow> ('m hash_ctx \<times> int) cres" where
  "hash_init_storage env dbh CTX =
     (if cx_home CTX = None \<or> has (cx_flags CTX) DSF_MERGED \<or> cx_storage CTX \<noteq> None then Inr (CTX, EINVAL)
      else if \<not> en_storage env \<or> (dbh = None \<and> \<not> en_map env) then Inr (CTX, EUNKNOWN)
      else
        cbind (hash_config dbh CTX) (\<lambda>s.
          if dbh = None \<and> cx_username CTX \<noteq> None then
            (if \<not> en_lock env then Inr (CTX, EFAILURE)
             else cbind (hash_drv_open env (hs_map s) (hs_hash_rec_max s) (hs_max_seek s) (hs_max_extents s)
                           (hs_extent_size s) (hs_pctincrease s) (hs_flags s)) (\<lambda>(m, r).
               if r \<noteq> 0 then Inr (CTX, EFAILURE) else hash_ready CTX (s\<lparr>hs_map := m\<rparr>)))
          else hash_ready CTX s))"

text \<open>Closing gives the words the file then holds; \<open>unlocked\<close> tells whether the lock is released.\<close>

definition hash_shutdown_storage :: "bool \<Rightarrow> 'm hash_ctx \<Rightarrow> ('m hash_ctx \<times> u64 list \<times> int) cres" where
  "hash_shutdown_storage unlocked CTX =
     (if cx_storage CTX = None then Inr (CTX, [], EINVAL)
      else
        cbind (if cx_operating_mode CTX \<noteq> DSM_CLASSIFY then hash_drv_set_spamtotals CTX else Inr (CTX, 0)) (\<lambda>(CTX1, _).
          case cx_storage CTX1 of
            None \<Rightarrow> Inl NullDeref
          | Some s \<Rightarrow>
              let file = hm_file (hs_map s) in
              if hs_dbh_attached s then Inr (CTX1\<lparr>cx_storage := None\<rparr>, file, 0)
              else if \<not> unlocked \<and> \<not> (cx_group CTX1 = None \<and> cx_username CTX1 = None)
              then Inr (CTX1\<lparr>cx_storage := Some (s\<lparr>hs_map := fst (hash_drv_close (hs_map s))\<rparr>)\<rparr>, file, EUNKNOWN)
              else Inr (CTX1\<lparr>cx_storage := None\<rparr>, file, 0)))"

section \<open>Records of tokens\<close>

text \<open>The counters of a record are 28 bits wide.\<close>

definition counter_word :: "int \<Rightarrow> u64" where
  "counter_word h = of_int (min 0x0fffffff (max 0 h))"

definition hash_get_spamrecord :: "hash_io \<Rightarrow> hash_storage \<Rightarrow> u64 \<Rightarrow> ds_spam_stat \<Rightarrow> (hash_storage \<times> ds_spam_stat \<times> int) cres" where
  "hash_get_spamrecord io s token stat =
     cbind (hash_drv_get_spamrecord io (hs_map s) token) (\<lambda>(m, offset, nonspam, spam).
       if offset = 0 then Inr (s\<lparr>hs_map := m\<rparr>, stat\<lparr>st_offset := 0\<rparr>, EFAILURE)
       else Inr (s\<lparr>hs_map := m\<rparr>,
              \<lparr>st_probability = Fin 0, st_spam_hits = uint (spam AND 0x0fffffff),
               st_innocent_hits = uint (nonspam AND 0x0fffffff), st_status = 0, st_offset = offset\<rparr>, 0))"

definition hash_set_spamrecord :: "hash_io \<Rightarrow> hash_storage \<Rightarrow> u64 \<Rightarrow> ds_spam_stat \<Rightarrow> (hash_storage \<times> int) cres" where
  "hash_set_spamrecord io s token stat =
     cbind (hash_drv_set_spamrecord 2 io (hs_map s) token (counter_word (st_innocent_hits stat))
              (counter_word (st_spam_hits stat)) (st_offset stat)) (\<lambda>(m, rc).
       Inr (s\<lparr>hs_map := m\<rparr>, if rc < 0 then rc else 0))"

text \<open>Reading all tokens; the counters of a token that is not stored are 0.\<close>

definition getall_term :: "hash_io \<Rightarrow> hash_storage \<times> int \<Rightarrow> ds_term \<Rightarrow> ((hash_storage \<times> int) \<times> ds_term) cres" where
  "getall_term io st t =
     (case st of (s, ret) \<Rightarrow>
        let t1 = t\<lparr>tm_s := (tm_s t)\<lparr>st_spam_hits := 0, st_innocent_hits := 0, st_offset := 0\<rparr>\<rparr> in
        cbind (hash_get_spamrecord io s (tm_key t) zero_stat) (\<lambda>(s1, stat, x).
          if x = 0 then Inr ((s1, ret), t1\<lparr>tm_s := stat\<rparr>)
          else Inr ((s1, if x \<noteq> EFAILURE then x else ret), t1)))"

definition hash_getall_spamrecords :: "hash_io \<Rightarrow> 'm hash_ctx \<Rightarrow> ds_diction \<Rightarrow> ('m hash_ctx \<times> ds_diction \<times> int) cres" where
  "hash_getall_spamrecords io CTX d =
     (case cx_storage CTX of
        None \<Rightarrow> Inl NullDeref
      | Some s \<Rightarrow> cbind (dict_each (getall_term io) (s, 0) d) (\<lambda>((s', ret), d').
          Inr (CTX\<lparr>cx_storage := Some s'\<rparr>, d', ret)))"

text \<open>
  Which tokens are stored, and with which counters: a message that was only classified stores
  its whitelist token and its patterns.
\<close>

definition setall_skips :: "'m hash_ctx \<Rightarrow> ds_diction \<Rightarrow> bool" where
  "setall_skips CTX d \<longleftrightarrow> cx_operating_mode CTX = DSM_CLASSIFY \<and>
     (cx_training_mode CTX \<noteq> DST_TOE \<or> (dd_whitelist_token d = 0 \<and> \<not> has (cx_flags CTX) DSF_NOISE))"

definition term_skips :: "'m hash_ctx \<Rightarrow> u64 \<Rightarrow> ds_term \<Rightarrow> bool" where
  "term_skips CTX whitelist_token t \<longleftrightarrow> st_status (tm_s t) AND TST_DIRTY = 0 \<or>
     (cx_training_mode CTX = DST_TOE \<and> cx_classification CTX = DSR_NONE \<and> cx_operating_mode CTX = DSM_CLASSIFY \<and>
      whitelist_token \<noteq> tm_key t \<and> (case tm_name t of None \<Rightarrow> True | Some name \<Rightarrow> take 4 name \<noteq> ''bnr.''))"

definition cap_hits :: "ds_spam_totals \<Rightarrow> ds_spam_stat \<Rightarrow> ds_spam_stat" where
  "cap_hits tot s = s\<lparr>st_spam_hits := min (st_spam_hits s) (spam_learned tot),
     st_innocent_hits := min (st_innocent_hits s) (innocent_learned tot)\<rparr>"

definition setall_term ::
    "hash_io \<Rightarrow> 'm hash_ctx \<Rightarrow> u64 \<Rightarrow> hash_storage \<times> int \<Rightarrow> ds_term \<Rightarrow> ((hash_storage \<times> int) \<times> ds_term) cres" where
  "setall_term io CTX whitelist_token st t =
     (case st of (s, ret) \<Rightarrow>
        if term_skips CTX whitelist_token t then Inr (st, t)
        else
          (let t1 = t\<lparr>tm_s := cap_hits (cx_totals CTX) (tm_s t)\<rparr> in
           cbind (hash_set_spamrecord io s (tm_key t) (tm_s t1)) (\<lambda>(s1, rc).
             Inr ((s1, if rc < 0 \<and> ret = 0 then rc else ret), t1))))"

definition hash_setall_spamrecords :: "hash_io \<Rightarrow> 'm hash_ctx \<Rightarrow> ds_diction \<Rightarrow> ('m hash_ctx \<times> ds_diction \<times> int) cres" where
  "hash_setall_spamrecords io CTX d =
     (if setall_skips CTX d then Inr (CTX, d, 0)
      else case cx_storage CTX of
             None \<Rightarrow> Inl NullDeref
           | Some s \<Rightarrow> cbind (dict_each (setall_term io CTX (dd_whitelist_token d)) (s, 0) d) (\<lambda>((s', ret), d').
               Inr (CTX\<lparr>cx_storage := Some s'\<rparr>, d', ret)))"

definition hash_driver :: "hash_env \<Rightarrow> (hash_storage, 'm) storage_driver" where
  "hash_driver env = \<lparr>ds_init_storage = hash_init_storage env None,
     ds_shutdown_storage = (\<lambda>CTX. cbind (hash_shutdown_storage (en_lock env) CTX) (\<lambda>(C, _, r). Inr (C, r))),
     ds_getall_spamrecords = hash_getall_spamrecords (en_io env),
     ds_setall_spamrecords = hash_setall_spamrecords (en_io env)\<rparr>"

text \<open>The driver keeps the request.\<close>

interpretation hash: storage "hash_driver env"
  by unfold_locales
    (auto simp: hash_driver_def hash_getall_spamrecords_def hash_setall_spamrecords_def same_request_def cbind_Inr_iff
      split: option.splits if_splits)

section \<open>Reading all tokens\<close>

definition loaded :: "hash_drv_map \<Rightarrow> hash_drv_extent list \<Rightarrow> ds_term \<Rightarrow> ds_term" where
  "loaded m exts t =
     (case located m exts (tm_key t) of
        None \<Rightarrow> t\<lparr>tm_s := (tm_s t)\<lparr>st_spam_hits := 0, st_innocent_hits := 0, st_offset := 0\<rparr>\<rparr>
      | Some p \<Rightarrow> t\<lparr>tm_s := \<lparr>st_probability = Fin 0, st_spam_hits = uint (snd (entry m p) AND 0x0fffffff),
          st_innocent_hits = uint (fst (entry m p) AND 0x0fffffff), st_status = 0, st_offset = 8 * p\<rparr>\<rparr>)"

lemma located_pos: "store_ok m exts \<Longrightarrow> located m exts k = Some p \<Longrightarrow> 0 < p"
  using probes_records[of m exts k] records_bound[of m exts p]
  by (auto simp: located_def dest!: store_okD find_SomeD split: option.splits if_splits)

lemma get_record:
  assumes "store_ok (hs_map s) exts" "io_realloc io" "k \<noteq> 0"
  shows "\<exists>c. hash_get_spamrecord io s k stat = Inr (s\<lparr>hs_map := (hs_map s)\<lparr>hm_extents := c\<rparr>\<rparr>,
      case located (hs_map s) exts k of
        None \<Rightarrow> (stat\<lparr>st_offset := 0\<rparr>, EFAILURE)
      | Some p \<Rightarrow> (\<lparr>st_probability = Fin 0, st_spam_hits = uint (snd (entry (hs_map s) p) AND 0x0fffffff),
          st_innocent_hits = uint (fst (entry (hs_map s) p) AND 0x0fffffff), st_status = 0, st_offset = 8 * p\<rparr>, 0)) \<and>
    store_ok ((hs_map s)\<lparr>hm_extents := c\<rparr>) exts"
proof -
  obtain c where c: "hash_drv_get_spamrecord io (hs_map s) k =
      Inr ((hs_map s)\<lparr>hm_extents := c\<rparr>, case located (hs_map s) exts k of None \<Rightarrow> (0, 0, 0) | Some p \<Rightarrow> (8 * p, entry (hs_map s) p))"
    "store_ok ((hs_map s)\<lparr>hm_extents := c\<rparr>) exts" using get_ok[OF assms] by blast
  then show ?thesis using located_pos[OF assms(1), of k]
    by (cases "located (hs_map s) exts k") (auto simp: hash_get_spamrecord_def entry_def intro!: exI[of _ c])
qed

lemma getall_terms:
  assumes "store_ok (hs_map s) exts" "io_realloc io" "\<And>t. t \<in> set ts \<Longrightarrow> tm_key t \<noteq> 0"
  shows "\<exists>c. terms_each (getall_term io) (s, ret) ts =
      Inr ((s\<lparr>hs_map := (hs_map s)\<lparr>hm_extents := c\<rparr>\<rparr>, ret), map (loaded (hs_map s) exts) ts) \<and>
    store_ok ((hs_map s)\<lparr>hm_extents := c\<rparr>) exts"
  using assms(1,3)
proof (induction ts arbitrary: s)
  case Nil
  show ?case by (rule exI[of _ "hm_extents (hs_map s)"]) (simp add: Nil)
next
  case (Cons t ts)
  have k: "tm_key t \<noteq> 0" using Cons.prems(2) by simp
  obtain c where c: "hash_get_spamrecord io s (tm_key t) zero_stat = Inr (s\<lparr>hs_map := (hs_map s)\<lparr>hm_extents := c\<rparr>\<rparr>,
      case located (hs_map s) exts (tm_key t) of
        None \<Rightarrow> (zero_stat\<lparr>st_offset := 0\<rparr>, EFAILURE)
      | Some p \<Rightarrow> (\<lparr>st_probability = Fin 0, st_spam_hits = uint (snd (entry (hs_map s) p) AND 0x0fffffff),
          st_innocent_hits = uint (fst (entry (hs_map s) p) AND 0x0fffffff), st_status = 0, st_offset = 8 * p\<rparr>, 0))"
    "store_ok ((hs_map s)\<lparr>hm_extents := c\<rparr>) exts" using get_record[OF Cons.prems(1) assms(2) k] by blast
  define s1 where "s1 = s\<lparr>hs_map := (hs_map s)\<lparr>hm_extents := c\<rparr>\<rparr>"
  have step: "getall_term io (s, ret) t = Inr ((s1, ret), loaded (hs_map s) exts t)"
    using c(1) by (cases "located (hs_map s) exts (tm_key t)") (auto simp: getall_term_def loaded_def s1_def EFAILURE_def Let_def)
  have same: "loaded (hs_map s1) exts = loaded (hs_map s) exts" by (simp add: s1_def loaded_def fun_eq_iff split: option.split)
  obtain c' where "terms_each (getall_term io) (s1, ret) ts =
      Inr ((s1\<lparr>hs_map := (hs_map s1)\<lparr>hm_extents := c'\<rparr>\<rparr>, ret), map (loaded (hs_map s1) exts) ts)"
    "store_ok ((hs_map s1)\<lparr>hm_extents := c'\<rparr>) exts"
    using Cons.IH[of s1] c(2) Cons.prems(2) by (auto simp: s1_def)
  then show ?case using step unfolding same by (auto simp: s1_def)
qed

section \<open>Storing all tokens\<close>

definition pair_of :: "ds_spam_totals \<Rightarrow> ds_term \<Rightarrow> u64 \<times> u64" where
  "pair_of tot t = (counter_word (st_innocent_hits (cap_hits tot (tm_s t))), counter_word (st_spam_hits (cap_hits tot (tm_s t))))"

definition offset_at :: "hash_drv_map \<Rightarrow> hash_drv_extent list \<Rightarrow> ds_term \<Rightarrow> bool" where
  "offset_at m exts t \<longleftrightarrow> st_offset (tm_s t) = 0 \<or> (\<exists>p. located m exts (tm_key t) = Some p \<and> st_offset (tm_s t) = 8 * p)"

lemma setall_error_stays:
  "terms_each (setall_term io CTX w) (s, ret) ts = Inr ((s', ret'), ts') \<Longrightarrow> ret \<noteq> 0 \<Longrightarrow> ret' \<noteq> 0"
proof (induction ts arbitrary: s ret ts')
  case (Cons t ts)
  then obtain s1 r1 t1 ts1 where 1: "setall_term io CTX w (s, ret) t = Inr ((s1, r1), t1)"
    "terms_each (setall_term io CTX w) (s1, r1) ts = Inr ((s', ret'), ts1)" by (auto simp: cbind_Inr_iff)
  have "r1 = ret" using 1(1) Cons.prems(2) by (auto simp: setall_term_def cbind_Inr_iff Let_def split: if_splits)
  then show ?case using Cons.IH[OF 1(2)] Cons.prems(2) by simp
qed simp

lemma setall_terms:
  assumes "store_ok (hs_map s) exts" "io_fine io" "\<not> has (hm_flags (hs_map s)) HMAP_POW2"
    "\<And>t. t \<in> set ts \<Longrightarrow> tm_key t \<noteq> 0 \<and> offset_at (hs_map s) exts t"
    "terms_each (setall_term io CTX w) (s, 0) ts = Inr ((s', 0), ts')"
  shows "\<exists>exts'. store_ok (hs_map s') exts' \<and> (\<forall>k. k \<noteq> 0 \<longrightarrow> counters (hs_map s') exts' k =
    (counters (hs_map s) exts ++ map_of (rev (map (\<lambda>t. (tm_key t, pair_of (cx_totals CTX) t)) (filter (\<lambda>t. \<not> term_skips CTX w t) ts)))) k)"
  using assms(1,3-5)
proof (induction ts arbitrary: s exts ts')
  case (Cons t ts)
  obtain s1 r1 t1 ts1 where 1: "setall_term io CTX w (s, 0) t = Inr ((s1, r1), t1)"
    "terms_each (setall_term io CTX w) (s1, r1) ts = Inr ((s', 0), ts1)" using Cons.prems(4) by (auto simp: cbind_Inr_iff)
  have r1: "r1 = 0" using setall_error_stays[OF 1(2)] by blast
  show ?case
  proof (cases "term_skips CTX w t")
    case True
    then have "s1 = s" using 1(1) by (simp add: setall_term_def)
    then show ?thesis using Cons.IH[OF Cons.prems(1,2) _ 1(2)[unfolded r1 \<open>s1 = s\<close>]] Cons.prems(3) True by simp
  next
    case False
    define v where "v = pair_of (cx_totals CTX) t"
    have k: "tm_key t \<noteq> 0" "offset_at (hs_map s) exts t" using Cons.prems(3) by auto
    obtain rc where rc: "hash_drv_set_spamrecord 2 io (hs_map s) (tm_key t) (fst v) (snd v) (st_offset (tm_s t)) = Inr (hs_map s1, rc)"
      "0 \<le> rc"
      using 1(1) r1 False by (auto simp: setall_term_def hash_set_spamrecord_def v_def pair_of_def cbind_Inr_iff Let_def cap_hits_def split: if_splits)
    obtain exts1 where st: "stored (hs_map s) exts (tm_key t) (fst v, snd v) (hs_map s1) exts1"
      using set_success[OF Cons.prems(1) k(1) assms(2) Cons.prems(2) _ rc] k(2) by (auto simp: offset_at_def)
    have s1: "store_ok (hs_map s1) exts1" "\<not> has (hm_flags (hs_map s1)) HMAP_POW2"
      using st Cons.prems(2) by (auto simp: stored_def)
    have off1: "tm_key u \<noteq> 0 \<and> offset_at (hs_map s1) exts1 u" if "u \<in> set ts" for u
      using Cons.prems(3)[of u] that st by (auto simp: stored_def offset_at_def)
    from Cons.IH[OF s1 off1 1(2)[unfolded r1]] obtain exts' where "store_ok (hs_map s') exts'"
      "\<forall>k. k \<noteq> 0 \<longrightarrow> counters (hs_map s') exts' k = (counters (hs_map s1) exts1 ++
        map_of (rev (map (\<lambda>t. (tm_key t, pair_of (cx_totals CTX) t)) (filter (\<lambda>t. \<not> term_skips CTX w t) ts)))) k" by blast
    then show ?thesis using st False
      by (intro exI[of _ exts']) (auto simp: stored_def v_def map_add_def split: option.split)
  qed
qed auto

section \<open>The file after it is closed\<close>

text \<open>Two maps of the same file up to the totals in the first header.\<close>

definition same_records :: "hash_drv_map \<Rightarrow> hash_drv_map \<Rightarrow> bool" where
  "same_records m m' \<longleftrightarrow> length (hm_file m') = length (hm_file m) \<and> hm_max_seek m' = hm_max_seek m \<and>
     (\<forall>i. i = 0 \<or> 9 \<le> i \<longrightarrow> hm_file m' ! i = hm_file m ! i)"

lemma fill_whole:
  assumes "same_records m m'" "off = 0 \<or> 80 \<le> off" "fill_extent m i off zero_extent = (e, True)" "\<not> he_is_broken e"
  shows "fill_extent m' i off zero_extent = (e, True)"
proof -
  have "off div 8 = 0 \<or> 10 \<le> off div 8" using assms(2) div_le_mono[of 80 off 8] by auto
  then have words: "hm_file m' ! (off div 8) = hm_file m ! (off div 8)" "hm_file m' ! (off div 8 + 9) = hm_file m ! (off div 8 + 9)"
    using assms(1) by (auto simp: same_records_def)
  have len: "file_len m' = file_len m" using assms(1) by (simp add: same_records_def file_len_def)
  have "\<not> file_len m < off + sizeof_header + unat (hm_file m ! (off div 8)) * sizeof_record"
    using assms(3,4) by (auto simp: fill_extent_def set_extent_def Let_def split: if_splits)
  then show ?thesis using assms(3) unfolding fill_extent_def words len Let_def by (simp cong: if_cong split: if_splits)
qed

lemma layout_same:
  "same_records m m' \<Longrightarrow> off = 0 \<or> 80 \<le> off \<Longrightarrow> layout m i off exts \<Longrightarrow> layout m' i off exts"
proof (induction exts arbitrary: i off)
  case Nil
  then show ?case by (simp add: same_records_def file_len_def)
next
  case (Cons e es)
  then have "fill_extent m' i off zero_extent = (e, True)" using fill_whole by auto
  moreover have "80 \<le> he_next_offset e"
    using Cons.prems(3) by (auto simp: fill_extent_def set_extent_def sizeof_header_def Let_def split: if_splits)
  ultimately show ?case using Cons by simp
qed

lemma view_same:
  assumes "same_records m m'" "store_ok m exts" "hm_mapped m'" "hm_extents m' = []"
  shows "store_ok m' exts" "counters m' exts k = counters m exts k"
proof -
  note ok = store_okD[OF assms(2)]
  have pos: "hm_file m' ! (p + j) = hm_file m ! (p + j)" if "p \<in> records exts" for p j
  proof -
    have "10 \<le> p" using that by (auto simp: records_def rec_pos_def sizeof_header_def)
    then show ?thesis using assms(1) by (simp add: same_records_def)
  qed
  have probes: "probes m' exts k = probes m exts k" for k using assms(1) by (simp add: probes_def slots_def same_records_def)
  have sub: "p \<in> records exts" if "p \<in> set (probes m exts k)" for p k using that probes_records ok by blast
  have hits: "find (hit (hm_file m') k) (probes m' exts k) = find (hit (hm_file m) k) (probes m exts k)" for k
    unfolding probes by (rule List.find_cong[OF refl]) (use sub pos[of _ 0] in \<open>auto simp: hit_def\<close>)
  show "store_ok m' exts"
    using ok assms layout_same[OF assms(1), of 0 0 exts] pos[of _ 0]
    by (auto simp: store_ok_def hash_ok_def placed_def hits cache_ok_def same_records_def)
  have found: "p \<in> records exts" if "find (hit (hm_file m) k) (probes m exts k) = Some p" for p
    using find_SomeD[OF that] sub by auto
  show "counters m' exts k = counters m exts k"
    using found pos[of _ 0] pos[of _ 1] pos[of _ 2]
    by (auto simp: counters_def located_def hits entry_def split: option.split)
qed

lemma sint_of_int_long:
  assumes "- (2 ^ 63) \<le> i" "i < 2 ^ 63"
  shows "sint (of_int i :: u64) = i"
proof -
  have "sint (of_int i :: u64) = signed_take_bit 63 i" by (simp add: signed_of_int)
  also have "\<dots> = i" using assms by (intro signed_take_bit_int_eq_self) auto
  finally show ?thesis .
qed

text \<open>The totals in the words of the header.\<close>

definition totals_list :: "ds_spam_totals \<Rightarrow> int list" where
  "totals_list t = [spam_learned t, innocent_learned t, spam_misclassified t, innocent_misclassified t,
     spam_corpusfed t, innocent_corpusfed t, spam_classified t, innocent_classified t]"

lemma totals_words_list: "totals_words t = map of_int (totals_list t)" and length_totals_list: "length (totals_list t) = 8"
  by (simp_all add: totals_words_def totals_list_def)

lemma length_totals_words [simp]: "length (totals_words t) = 8"
  by (simp add: totals_words_def)

lemma store_file_length: "store_ok m exts \<Longrightarrow> 10 \<le> length (hm_file m)"
  by (cases exts) (auto dest!: store_okD simp: fill_extent_def file_len_def sizeof_header_def split: if_splits)

lemma totals_other_words:
  assumes "10 \<le> length (f :: u64 list)" "i = 0 \<or> 9 \<le> i"
  shows "(take 1 f @ totals_words t @ drop 9 f) ! i = f ! i"
proof (cases "i = 0")
  case False
  then show ?thesis using assms by (auto simp: nth_append)
qed (use assms in \<open>simp add: nth_append\<close>)

lemma read_totals:
  assumes "\<And>i. i \<in> set (totals_list t) \<Longrightarrow> - (2 ^ 63) \<le> i \<and> i < 2 ^ 63" "10 \<le> length (f :: u64 list)"
  shows "(let w = (\<lambda>i. sint ((take 1 f @ totals_words t @ drop 9 f) ! i)) in
    \<lparr>spam_learned = w 1, innocent_learned = w 2, spam_misclassified = w 3, innocent_misclassified = w 4,
     spam_corpusfed = w 5, innocent_corpusfed = w 6, spam_classified = w 7, innocent_classified = w 8\<rparr>) = t"
proof -
  have "sint ((take 1 f @ totals_words t @ drop 9 f) ! (j + 1)) = totals_list t ! j" if "j < 8" for j
  proof -
    have "(take 1 f @ totals_words t @ drop 9 f) ! (j + 1) = totals_words t ! j"
      using assms(2) that by (simp add: nth_append)
    also have "\<dots> = of_int (totals_list t ! j)" using that by (simp add: totals_words_list length_totals_list)
    finally show ?thesis using sint_of_int_long assms(1)[of "totals_list t ! j"] that by (simp add: length_totals_list)
  qed
  from this[of 0] this[of 1] this[of 2] this[of 3] this[of 4] this[of 5] this[of 6] this[of 7]
  show ?thesis by (simp add: totals_list_def Let_def eval_nat_numeral)
qed

lemma open_existing:
  assumes "en_disk env = Some file" "hash_drv_open env m rm ms me es pct fl = Inr (m', 0)"
  shows "hm_file m' = file \<and> hm_mapped m' \<and> hm_extents m' = [] \<and> hm_max_seek m' = ms"
  using assms by (auto simp: hash_drv_open_def hash_drv_mmap_def EFAILURE_def Let_def split: if_splits)

text \<open>A context that was initialised from a file that exists.\<close>

lemma init_existing:
  assumes "en_disk env = Some file" "9 \<le> length file" "cx_username CTX \<noteq> None" "hash_init_storage env None CTX = Inr (CTX', 0)"
  obtains s where "cx_storage CTX' = Some s" "hm_file (hs_map s) = file" "hm_mapped (hs_map s)" "hm_extents (hs_map s) = []"
    "hm_max_seek (hs_map s) = hs_max_seek s" "hash_drv_get_spamtotals (CTX\<lparr>cx_storage := Some s\<rparr>) = Inr (CTX', 0)"
proof -
  from assms(3,4) obtain s0 m where m: "hash_drv_open env (hs_map s0) (hs_hash_rec_max s0) (hs_max_seek s0) (hs_max_extents s0)
      (hs_extent_size s0) (hs_pctincrease s0) (hs_flags s0) = Inr (m, 0)" "hash_ready CTX (s0\<lparr>hs_map := m\<rparr>) = Inr (CTX', 0)"
    by (auto simp: hash_init_storage_def cbind_Inr_iff EINVAL_def EUNKNOWN_def EFAILURE_def split: if_splits)
  note opened = open_existing[OF assms(1) m(1)]
  with assms(2) have "hash_drv_get_spamtotals (CTX\<lparr>cx_storage := Some (s0\<lparr>hs_map := m\<rparr>)\<rparr>) = Inr (CTX', 0) \<and> cx_storage CTX' = Some (s0\<lparr>hs_map := m\<rparr>)"
    using m(2) by (auto simp: hash_ready_def hash_drv_get_spamtotals_def Let_def)
  then show ?thesis using that[of "s0\<lparr>hs_map := m\<rparr>"] opened by auto
qed

section \<open>Properties\<close>

lemma counter_word_read: "uint (counter_word h AND 0x0fffffff) = min 0x0fffffff (max 0 h)"
proof -
  define n where "n = min 0x0fffffff (max 0 h)"
  have n: "0 \<le> n" "n < 2 ^ 28" by (auto simp: n_def)
  have "(0x0fffffff :: u64) = mask 28" by (simp add: mask_eq_exp_minus_1)
  then have "uint (counter_word h AND 0x0fffffff) = uint (take_bit 28 (of_int n :: u64))"
    by (simp add: counter_word_def n_def take_bit_eq_mask)
  also have "\<dots> = take_bit 28 (take_bit 64 n)" by (simp add: unsigned_take_bit_eq uint_word_of_int_eq)
  also have "\<dots> = n" using n by (simp add: take_bit_int_eq_self)
  finally show ?thesis by (simp add: n_def)
qed

text \<open>The offset of a term is the one its record was read from, or none.\<close>

definition offset_valid :: "hash_io \<Rightarrow> hash_storage \<Rightarrow> ds_term \<Rightarrow> bool" where
  "offset_valid io s t \<longleftrightarrow> st_offset (tm_s t) = 0 \<or>
     (\<exists>s1 stat. hash_get_spamrecord io s (tm_key t) zero_stat = Inr (s1, stat, 0) \<and> st_offset stat = st_offset (tm_s t))"

lemma offset_valid_at:
  assumes "store_ok (hs_map s) exts" "io_realloc io" "tm_key t \<noteq> 0" "offset_valid io s t"
  shows "offset_at (hs_map s) exts t"
  using get_record[OF assms(1-3), of zero_stat] assms(4)
  by (auto simp: offset_valid_def offset_at_def EFAILURE_def split: option.splits)

lemma setall_spec:
  assumes "cx_storage CTX = Some s" "store_ok (hs_map s) exts" "\<not> has (hm_flags (hs_map s)) HMAP_POW2" "io_fine io"
    "\<And>t. t \<in> set (dict_terms d) \<Longrightarrow> tm_key t \<noteq> 0 \<and> offset_valid io s t"
    "\<not> setall_skips CTX d" "hash_setall_spamrecords io CTX d = Inr (CTX', d', 0)"
  shows "\<exists>s' exts'. cx_storage CTX' = Some s' \<and> store_ok (hs_map s') exts' \<and> (\<forall>k. k \<noteq> 0 \<longrightarrow> counters (hs_map s') exts' k =
    (counters (hs_map s) exts ++ map_of (rev (map (\<lambda>t. (tm_key t, pair_of (cx_totals CTX) t))
      (filter (\<lambda>t. \<not> term_skips CTX (dd_whitelist_token d) t) (dict_terms d))))) k)"
proof -
  obtain s' tbl where b: "buckets_each (setall_term io CTX (dd_whitelist_token d)) (s, 0) (dd_tbl d) = Inr ((s', 0), tbl)"
    "cx_storage CTX' = Some s'"
    using assms(1,6,7) by (auto simp: hash_setall_spamrecords_def dict_each_def cbind_Inr_iff)
  have "tm_key t \<noteq> 0 \<and> offset_at (hs_map s) exts t" if "t \<in> set (concat (dd_tbl d))" for t
    using assms(5)[of t] that offset_valid_at[OF assms(2)] assms(4) by (auto simp: dict_terms_def io_fine_def)
  from setall_terms[OF assms(2,4,3) this buckets_each_terms[OF b(1)]] b(2)
  show ?thesis by (auto simp: dict_terms_def)
qed

text \<open>A context with one token to store in a file of three records.\<close>

definition dirty_term :: ds_term where
  "dirty_term = word_term\<lparr>tm_s := zero_stat\<lparr>st_spam_hits := 3, st_status := TST_DIRTY\<rparr>\<rparr>"

definition dirty_dict :: ds_diction where
  "dirty_dict = small_dict\<lparr>dd_items := 1, dd_tbl := (replicate 53 [])[7 := [dirty_term]]\<rparr>"

definition store_ctx :: "unit hash_ctx" where
  "store_ctx = (the (dspam_create (\<lambda>_. True) None (Some ''user'') None (Some ''home'') DSM_PROCESS 0))\<lparr>
     cx_totals := no_totals\<lparr>spam_learned := 5\<rparr>,
     cx_storage := Some \<lparr>hs_map = extended empty_map 3, hs_dbh_attached = False, hs_hash_rec_max = 3, hs_max_seek = 100,
       hs_max_extents = 0, hs_extent_size = 3, hs_pctincrease = 0, hs_flags = HMAP_AUTOEXTEND\<rparr>\<rparr>"

lemma dirty_dict_ok: "dict_ok dirty_dict" "ds_diction_find dirty_dict 7 = Some dirty_term" "dict_terms dirty_dict = [dirty_term]"
proof -
  have "ds_diction_find small_dict 7 = None" by (simp add: find_small_dict)
  then show ok: "dict_ok dirty_dict"
    using dict_ok_put[OF small_dict_ok, of dirty_term]
    by (simp add: dirty_dict_def dirty_term_def word_term_def small_dict_def dd_bucket_def)
  show f: "ds_diction_find dirty_dict 7 = Some dirty_term"
    by (simp add: ds_diction_find_def dirty_dict_def small_dict_def dd_bucket_def chain_find_def dirty_term_def word_term_def)
  have "length (dict_terms dirty_dict) = 1" using ok by (simp add: dict_ok_def dict_terms_def) (simp add: dirty_dict_def)
  then show "dict_terms dirty_dict = [dirty_term]"
    using f find_iff[OF ok] by (cases "dict_terms dirty_dict") auto
qed

lemma store_ctx_fields [simp]:
  "cx_operating_mode store_ctx = DSM_PROCESS" "cx_training_mode store_ctx = DST_TEFT" "cx_totals store_ctx = no_totals\<lparr>spam_learned := 5\<rparr>"
  by (simp_all add: store_ctx_def dspam_create_def)

lemma store_ctx_stores: "\<exists>C d. hash_setall_spamrecords io_good store_ctx dirty_dict = Inr (C, d, 0)"
proof -
  define s where "s = the (cx_storage store_ctx)"
  have s: "cx_storage store_ctx = Some s" "hs_map s = extended empty_map 3" by (simp_all add: s_def store_ctx_def)
  have "hash_room (extended empty_map 3) 7" by (rule empty_map_fresh(3))
  then obtain m' where "hash_store (extended empty_map 3) 7 (0, 3) = Some m'"
    using hs.store_law[of "extended empty_map 3" 7 "(0, 3)"] empty_map_fresh(1) by (auto simp: hash_good_def)
  then obtain r where "hash_drv_set_spamrecord 2 io_good (extended empty_map 3) 7 0 3 0 = Inr (m', r)" "0 \<le> r"
    by (auto simp: hash_store_def split: sum.splits if_splits)
  then have "terms_each (setall_term io_good store_ctx (dd_whitelist_token dirty_dict)) (s, 0) (dict_terms dirty_dict) =
      Inr ((s\<lparr>hs_map := m'\<rparr>, 0), [dirty_term\<lparr>tm_s := cap_hits (cx_totals store_ctx) (tm_s dirty_term)\<rparr>])"
    by (simp add: dirty_dict_ok(3) setall_term_def term_skips_def hash_set_spamrecord_def s(2) dirty_term_def word_term_def
        cap_hits_def counter_word_def no_totals_def zero_stat_def TST_DIRTY_def Let_def)
  from dict_each_ex[OF this] show ?thesis
    by (auto simp: hash_setall_spamrecords_def setall_skips_def s(1))
qed

text \<open>
  C17. What is trained is read back. When all tokens of a message have been stored without an
  error, a lookup gives each the hits of the message, capped by the number of learned messages
  and to what a record can hold (0 to \<open>2\<^sup>28 - 1\<close>); a token that was not in the message is looked
  up as before. The file may have grown meanwhile.
\<close>

theorem stored_hits_read_back:
  assumes "cx_storage CTX = Some s" "hash_good (hs_map s)" "\<not> has (hm_flags (hs_map s)) HMAP_POW2" "io_fine io"
    "dict_ok d" "\<And>t. t \<in> set (dict_terms d) \<Longrightarrow> tm_key t \<noteq> 0 \<and> offset_valid io s t" "\<not> setall_skips CTX d"
    "hash_setall_spamrecords io CTX d = Inr (CTX', d', 0)"
  shows "\<exists>s'. cx_storage CTX' = Some s' \<and> hash_good (hs_map s') \<and>
    (\<forall>k t. ds_diction_find d k = Some t \<longrightarrow> \<not> term_skips CTX (dd_whitelist_token d) t \<longrightarrow>
       (\<exists>s'' stat. hash_get_spamrecord io s' k zero_stat = Inr (s'', stat, 0) \<and>
          st_spam_hits stat = min 0x0fffffff (max 0 (min (st_spam_hits (tm_s t)) (spam_learned (cx_totals CTX)))) \<and>
          st_innocent_hits stat = min 0x0fffffff (max 0 (min (st_innocent_hits (tm_s t)) (innocent_learned (cx_totals CTX)))))) \<and>
    (\<forall>k. k \<noteq> 0 \<longrightarrow> ds_diction_find d k = None \<longrightarrow> hash_look (hs_map s') k = hash_look (hs_map s) k)"
proof -
  obtain exts where S: "store_ok (hs_map s) exts" using assms(2) by (auto simp: hash_good_def)
  let ?w = "dd_whitelist_token d"
  define upd where "upd = map (\<lambda>t. (tm_key t, pair_of (cx_totals CTX) t)) (filter (\<lambda>t. \<not> term_skips CTX ?w t) (dict_terms d))"
  obtain s' exts' where s': "cx_storage CTX' = Some s'" and S': "store_ok (hs_map s') exts'"
    and cnt: "\<And>k. k \<noteq> 0 \<Longrightarrow> counters (hs_map s') exts' k = (counters (hs_map s) exts ++ map_of (rev upd)) k"
    using setall_spec[OF assms(1) S assms(3,4,6,7,8)] unfolding upd_def by blast
  have keys: "fst ` set upd \<subseteq> tm_key ` set (dict_terms d)" by (auto simp: upd_def)
  have dist: "distinct (map fst upd)"
    using distinct_terms[OF assms(5)] by (simp add: upd_def comp_def distinct_map_filter)
  have found: "map_of (rev upd) k = Some (pair_of (cx_totals CTX) t)"
    if "ds_diction_find d k = Some t" "\<not> term_skips CTX ?w t" for k t
  proof -
    have "(k, pair_of (cx_totals CTX) t) \<in> set upd" using that find_iff[OF assms(5)] by (auto simp: upd_def)
    then show ?thesis using dist by (simp add: map_of_eq_Some_iff rev_map[symmetric])
  qed
  have "\<exists>s'' stat. hash_get_spamrecord io s' k zero_stat = Inr (s'', stat, 0) \<and>
      st_spam_hits stat = min 0x0fffffff (max 0 (min (st_spam_hits (tm_s t)) (spam_learned (cx_totals CTX)))) \<and>
      st_innocent_hits stat = min 0x0fffffff (max 0 (min (st_innocent_hits (tm_s t)) (innocent_learned (cx_totals CTX))))"
    if t: "ds_diction_find d k = Some t" "\<not> term_skips CTX ?w t" for k t
  proof -
    have k: "k \<noteq> 0" using t(1) assms(6) find_iff[OF assms(5)] by auto
    then have "counters (hs_map s') exts' k = Some (pair_of (cx_totals CTX) t)" using cnt found[OF t] by (simp add: map_add_def)
    then obtain p where "located (hs_map s') exts' k = Some p" "entry (hs_map s') p = pair_of (cx_totals CTX) t"
      by (auto simp: counters_def)
    moreover have "io_realloc io" using assms(4) by (simp add: io_fine_def)
    ultimately show ?thesis using get_record[OF S' _ k, of io zero_stat]
      by (auto simp: pair_of_def counter_word_read cap_hits_def)
  qed
  moreover have "hash_look (hs_map s') k = hash_look (hs_map s) k" if "k \<noteq> 0" "ds_diction_find d k = None" for k
  proof -
    have "k \<notin> fst ` set upd" using keys that(2) find_iff[OF assms(5), of k] by (metis image_iff option.distinct(1) subsetD)
    then have "map_of (rev upd) k = None" by (simp add: map_of_eq_None_iff)
    then show ?thesis using cnt[OF that(1)] hash_look_counters[OF S that(1)] hash_look_counters[OF S' that(1)] by (simp add: map_add_def)
  qed
  ultimately show ?thesis using s' S' by (auto simp: hash_good_def)
qed

theorem stored_hits_read_back_witness:
  "\<exists>C d s s' stat. hash_setall_spamrecords io_good store_ctx dirty_dict = Inr (C, d, 0) \<and> cx_storage C = Some s \<and>
     hash_get_spamrecord io_good s 7 zero_stat = Inr (s', stat, 0) \<and> st_spam_hits stat = 3"
proof -
  obtain C d where C: "hash_setall_spamrecords io_good store_ctx dirty_dict = Inr (C, d, 0)" using store_ctx_stores by blast
  define s where "s = the (cx_storage store_ctx)"
  have s: "cx_storage store_ctx = Some s" "hs_map s = extended empty_map 3" by (simp_all add: s_def store_ctx_def)
  have "hash_good (hs_map s)" "\<not> has (hm_flags (hs_map s)) HMAP_POW2"
    using empty_map_fresh(1) by (auto simp: s(2) hash_good_def extended_def empty_map_def has_def HMAP_AUTOEXTEND_def HMAP_POW2_def)
  moreover have "\<And>t. t \<in> set (dict_terms dirty_dict) \<Longrightarrow> tm_key t \<noteq> 0 \<and> offset_valid io_good s t"
    by (simp add: dirty_dict_ok(3) dirty_term_def word_term_def offset_valid_def zero_stat_def)
  moreover have "\<not> setall_skips store_ctx dirty_dict" "\<not> term_skips store_ctx (dd_whitelist_token dirty_dict) dirty_term"
    by (simp_all add: setall_skips_def term_skips_def dirty_term_def word_term_def TST_DIRTY_def)
  ultimately obtain s' s'' stat where "cx_storage C = Some s'" "hash_get_spamrecord io_good s' 7 zero_stat = Inr (s'', stat, 0)"
    "st_spam_hits stat = min 0x0fffffff (max 0 (min (st_spam_hits (tm_s dirty_term)) (spam_learned (cx_totals store_ctx))))"
    using stored_hits_read_back[OF s(1) _ _ io_good_fine(1) dirty_dict_ok(1) _ _ C] dirty_dict_ok(2) by blast
  then show ?thesis using C by (auto simp: dirty_term_def word_term_def zero_stat_def)
qed

text \<open>
  C18. What a context leaves in the hash file a later one finds there. After a context that was
  not only classifying has shut its storage down, a context initialised from the file has the
  totals of the first, as long as they fit a \<^verbatim>\<open>long\<close>; and with the same limit on probing its file
  is well-formed and every token has the counters it had.
\<close>

theorem storage_persists:
  assumes "cx_storage CTX = Some s" "hash_good (hs_map s)" "cx_operating_mode CTX \<noteq> DSM_CLASSIFY"
    "\<And>i. i \<in> set (totals_list (cx_totals CTX)) \<Longrightarrow> - (2 ^ 63) \<le> i \<and> i < 2 ^ 63"
    "hash_shutdown_storage unlocked CTX = Inr (CTX1, file, r)"
    "en_disk env = Some file" "cx_username CTX2 \<noteq> None" "hash_init_storage env None CTX2 = Inr (CTX3, 0)"
  shows "cx_totals CTX3 = cx_totals CTX \<and> (\<exists>s3. cx_storage CTX3 = Some s3 \<and>
    (hs_max_seek s3 = hm_max_seek (hs_map s) \<longrightarrow> hash_good (hs_map s3) \<and>
      (\<forall>k. k \<noteq> 0 \<longrightarrow> hash_look (hs_map s3) k = hash_look (hs_map s) k)))"
proof -
  obtain exts where S: "store_ok (hs_map s) exts" using assms(2) by (auto simp: hash_good_def)
  note len = store_file_length[OF S]
  have mapped: "hm_mapped (hs_map s)" using store_okD[OF S] by simp
  have contents: "file = take 1 (hm_file (hs_map s)) @ totals_words (cx_totals CTX) @ drop 9 (hm_file (hs_map s))"
    using assms(1,3,5) mapped len
    by (auto simp: hash_shutdown_storage_def hash_drv_set_spamtotals_def cbind_Inr_iff Let_def split: if_splits)
  have flen: "length file = length (hm_file (hs_map s))" "9 \<le> length file" using len by (auto simp: contents)
  obtain s3 where s3: "cx_storage CTX3 = Some s3" "hm_file (hs_map s3) = file" "hm_mapped (hs_map s3)"
    "hm_extents (hs_map s3) = []" "hm_max_seek (hs_map s3) = hs_max_seek s3"
    "hash_drv_get_spamtotals (CTX2\<lparr>cx_storage := Some s3\<rparr>) = Inr (CTX3, 0)"
    using init_existing[OF assms(6) flen(2) assms(7,8)] .
  have tot: "cx_totals CTX3 = cx_totals CTX"
    using s3(2,3,6) flen(2) read_totals[OF assms(4) len] by (auto simp: hash_drv_get_spamtotals_def contents Let_def)
  have "hash_good (hs_map s3) \<and> (\<forall>k. k \<noteq> 0 \<longrightarrow> hash_look (hs_map s3) k = hash_look (hs_map s) k)"
    if "hs_max_seek s3 = hm_max_seek (hs_map s)"
  proof -
    have "same_records (hs_map s) (hs_map s3)"
      unfolding same_records_def s3(2,5) using that flen(1) totals_other_words[OF len] by (auto simp: contents)
    note v = view_same[OF this S s3(3,4)]
    then show ?thesis using hash_look_counters[OF S] hash_look_counters[OF v(1)] by (auto simp: hash_good_def)
  qed
  then show ?thesis using tot s3(1) by blast
qed
text \<open>A fresh context of the same user, and a system in which everything succeeds.\<close>

definition fresh_ctx :: "unit hash_ctx" where
  "fresh_ctx = the (dspam_create (\<lambda>_. True) None (Some ''user'') None (Some ''home'') DSM_PROCESS 0)"

definition good_env :: "u64 list option \<Rightarrow> hash_env" where
  "good_env disk = \<lparr>en_disk = disk, en_create = True, en_reopen = True, en_lock = True, en_storage = True, en_map = True, en_io = io_good\<rparr>"

lemma fresh_attributes:
  "ds_read_attribute (cx_attributes fresh_ctx) key = Inr None" "ds_match_attribute (cx_attributes fresh_ctx) key val = Inr False"
proof -
  have "ds_find_attribute (cx_attributes fresh_ctx) key = Inr None"
    by (simp add: ds_find_attribute_def find_attribute_from.simps(2) slot_at_def fresh_ctx_def dspam_create_def config_create_def
        del: length_replicate)
  then show "ds_read_attribute (cx_attributes fresh_ctx) key = Inr None" "ds_match_attribute (cx_attributes fresh_ctx) key val = Inr False"
    by (simp_all add: ds_read_attribute_def ds_match_attribute_def)
qed

lemma fresh_config: "\<exists>s. hash_config None fresh_ctx = Inr s \<and> hs_max_seek s = 100"
  by (simp add: hash_config_def read_long_def fresh_attributes HASH_SEEK_MAX_def)

lemma fresh_init:
  assumes "9 \<le> length disk"
  shows "\<exists>C s. hash_init_storage (good_env (Some disk)) None fresh_ctx = Inr (C, 0) \<and> cx_storage C = Some s \<and> hs_max_seek s = 100"
proof -
  obtain s where s: "hash_config None fresh_ctx = Inr s" "hs_max_seek s = 100" using fresh_config by blast
  have f: "cx_home fresh_ctx \<noteq> None" "\<not> has (cx_flags fresh_ctx) DSF_MERGED" "cx_storage fresh_ctx = None" "cx_username fresh_ctx \<noteq> None"
    by (simp_all add: fresh_ctx_def dspam_create_def has_def)
  show ?thesis using assms s
    by (auto simp: hash_init_storage_def f good_env_def hash_drv_open_def hash_drv_mmap_def io_good_def hash_ready_def
        hash_drv_get_spamtotals_def Let_def)
qed

lemma shutdown_ok:
  assumes "cx_storage CTX = Some s" "hm_mapped (hs_map s)" "10 \<le> length (hm_file (hs_map s))" "cx_operating_mode CTX = DSM_PROCESS"
  shows "\<exists>C disk. hash_shutdown_storage True CTX = Inr (C, disk, 0) \<and> 9 \<le> length disk"
  using assms by (auto simp: hash_shutdown_storage_def hash_drv_set_spamtotals_def Let_def)

theorem storage_persists_witness:
  "\<exists>C1 disk C3 s3. hash_shutdown_storage True store_ctx = Inr (C1, disk, 0) \<and>
     hash_init_storage (good_env (Some disk)) None fresh_ctx = Inr (C3, 0) \<and> cx_storage C3 = Some s3 \<and>
     spam_learned (cx_totals C3) = 5 \<and> hash_good (hs_map s3) \<and> hash_look (hs_map s3) 7 = None"
proof -
  define s where "s = the (cx_storage store_ctx)"
  have s: "cx_storage store_ctx = Some s" "hs_map s = extended empty_map 3" "hm_max_seek (hs_map s) = 100"
    by (simp_all add: s_def store_ctx_def extended_def empty_map_def)
  have S: "store_ok (hs_map s) [new_extent empty_map 0 3]" using empty_map_fresh(1) by (simp add: s)
  obtain C1 disk where down: "hash_shutdown_storage True store_ctx = Inr (C1, disk, 0)" "9 \<le> length disk"
    using shutdown_ok[OF s(1) _ _ store_ctx_fields(1)] store_okD[OF S] store_file_length[OF S] by auto
  obtain C3 s3 where up: "hash_init_storage (good_env (Some disk)) None fresh_ctx = Inr (C3, 0)" "cx_storage C3 = Some s3" "hs_max_seek s3 = 100"
    using fresh_init[OF down(2)] by blast
  have "hash_good (hs_map s)" using S by (auto simp: hash_good_def)
  moreover have "\<And>i. i \<in> set (totals_list (cx_totals store_ctx)) \<Longrightarrow> - (2 ^ 63) \<le> i \<and> i < 2 ^ 63"
    by (auto simp: totals_list_def no_totals_def)
  moreover have "cx_username fresh_ctx \<noteq> None" by (simp add: fresh_ctx_def dspam_create_def)
  ultimately have "cx_totals C3 = cx_totals store_ctx \<and> hash_good (hs_map s3) \<and>
      (\<forall>k. k \<noteq> 0 \<longrightarrow> hash_look (hs_map s3) k = hash_look (hs_map s) k)"
    using storage_persists[OF s(1) _ _ _ down(1) _ _ up(1)] up(2,3) s(3) by (auto simp: good_env_def)
  then show ?thesis using down(1) up(1,2) empty_map_fresh(2)[of 7] by (auto simp: s(2))
qed


end
