(* ===== verification/Ds_Operate.thy ===== *)
theory Ds_Operate
  imports Ds_Noise Ds_Result Ds_Degenerate Ds_HashDrv
begin

text \<open>
  Processing a message (\<^verbatim>\<open>_ds_operate\<close> and \<^verbatim>\<open>dspam_process\<close> of \<^verbatim>\<open>libdspam.c\<close>): tokens, statistics
  from storage, noise reduction, the heap of significant tokens, whitelisting, the verdict,
  learning, and the signature. The storage driver, the mathematics library and, for
  \<^verbatim>\<open>dspam_process\<close>, the parser and the degeneration of a message are arguments.
\<close>

section \<open>Operating on headers and body\<close>

definition heap_size :: "u32 \<Rightarrow> int" where
  "heap_size alg = (if has alg DSA_BURTON then int BURTON_WINDOW_SIZE else if has alg DSA_ROBINSON then 25 else 15)"

text \<open>\<^verbatim>\<open>strlen\<close>, \<^verbatim>\<open>strcpy\<close> and the tokenizer follow a pointer that may be NULL.\<close>

definition deref :: "'a option \<Rightarrow> 'a cres" where
  "deref x = (case x of None \<Rightarrow> Inl NullDeref | Some v \<Rightarrow> Inr v)"

definition stores_text :: "('s, 'm) dspam_ctx \<Rightarrow> bool" where
  "stores_text CTX \<longleftrightarrow> cx_tokenizer CTX = DSZ_SBPH \<and> has (cx_flags CTX) DSF_SIGNATURE \<and>
     ((cx_operating_mode CTX \<noteq> DSM_CLASSIFY \<and> cx_classification CTX = DSR_NONE) \<or> \<not> cx_sig_provided CTX) \<and>
     cx_source CTX \<noteq> DSS_CORPUS"

text \<open>A fresh signature in place of the one the context refers to; None when it cannot be allocated.\<close>

definition renew_signature :: "bool \<Rightarrow> char option list \<Rightarrow> ('s, 'm) dspam_ctx \<Rightarrow> ('s, 'm) dspam_ctx cres" where
  "renew_signature alloc mem CTX =
     cbind (ds_spam_signature_put (cx_signature CTX)) (\<lambda>_.
       Inr (CTX\<lparr>cx_signature := ds_spam_signature_new alloc (Some mem) (length mem)\<rparr>))"

definition text_signature :: "string \<Rightarrow> string \<Rightarrow> char option list" where
  "text_signature headers body = map Some (headers @ [CHR 0x01] @ body @ [CHR 0x00])"

text \<open>The error exit gives up the signature.\<close>

definition bail :: "('s, 'm) dspam_ctx \<Rightarrow> int \<Rightarrow> (('s, 'm) dspam_ctx \<times> int) cres" where
  "bail CTX errcode =
     cbind (ds_spam_signature_put (cx_signature CTX)) (\<lambda>_. Inr (CTX\<lparr>cx_signature := None\<rparr>, errcode))"

text \<open>The tokens of the message: from a given signature, or from its text.\<close>

definition sig_length_of :: "char option list sig_cell option \<Rightarrow> nat cres" where
  "sig_length_of sig =
     (case sig of None \<Rightarrow> Inl NullDeref | Some Freed \<Rightarrow> Inl UseAfterFree | Some (Live s) \<Rightarrow> Inr (sg_length s))"

definition load_tokens ::
    "('s, 'm) dspam_ctx \<Rightarrow> string option \<Rightarrow> string option \<Rightarrow> ds_diction \<Rightarrow> (ds_diction \<times> u64) cres" where
  "load_tokens CTX headers body d =
     (if has (cx_flags CTX) DSF_SIGNATURE \<and> cx_operating_mode CTX = DSM_CLASSIFY \<and> cx_sig_provided CTX then
        cbind (sig_length_of (cx_signature CTX)) (\<lambda>len.
        let n = len div sizeof_sig_token in
        if n = 0 then Inr (d, 0)
        else cbind (sig_memory (cx_signature CTX)) (\<lambda>m.
             cbind (sig_load (\<lambda>tok. ''E: '' @ dec_digits (unat tok)) m n d) (\<lambda>d1. Inr (d1, 0))))
      else
        cbind (deref headers) (\<lambda>h. cbind (deref body) (\<lambda>b.
        cbind (ds_tokenize CTX h b (Some d)) (\<lambda>(d1, _).
          case d1 of None \<Rightarrow> Inl NullDeref | Some d2 \<Rightarrow> Inr (d2, dd_whitelist_token d2)))))"

text \<open>Division of a \<^verbatim>\<open>long\<close> truncates towards zero.\<close>

definition c_div :: "int \<Rightarrow> int \<Rightarrow> int" where
  "c_div a b = (if 0 \<le> a then a div b else - ((- a) div b))"

definition whitelists :: "('s, 'm) dspam_ctx \<Rightarrow> u64 \<Rightarrow> ds_term \<Rightarrow> bool" where
  "whitelists CTX whitelist_token t \<longleftrightarrow>
     has (cx_flags CTX) DSF_WHITELIST \<and> tm_key t = whitelist_token \<and>
     st_spam_hits (tm_s t) \<le> c_div (st_innocent_hits (tm_s t)) 15 \<and>
     st_innocent_hits (tm_s t) > cx_wh_threshold CTX \<and> cx_classification CTX = DSR_NONE"

definition complexity_of :: "string option \<Rightarrow> nat cres" where
  "complexity_of name = (case name of None \<Rightarrow> Inr 1 | Some s \<Rightarrow> ds_compute_complexity s)"

definition rank_term ::
    "('s, 'm) dspam_ctx \<Rightarrow> u64 \<Rightarrow> ds_heap \<times> bool \<Rightarrow> ds_term \<Rightarrow> ((ds_heap \<times> bool) \<times> ds_term) cres" where
  "rank_term CTX whitelist_token st t =
     (case st of (h, white) \<Rightarrow>
        if tm_key t = CONTROL_TOKEN then Inr (st, t)
        else
          cbind (if feq (st_probability (tm_s t)) (Fin 0) \<or> cx_classification CTX \<noteq> DSR_NONE
                 then cbind (ds_calc_stat CTX (Some t) (tm_s t) DTT_DEFAULT None) (\<lambda>s. Inr (t\<lparr>tm_s := s\<rparr>))
                 else Inr t) (\<lambda>t1.
            let white1 = (white \<or> whitelists CTX whitelist_token t1) in
            if tm_frequency t1 > 0 \<and> tm_type t1 = CHR ''D'' then
              cbind (complexity_of (tm_name t1)) (\<lambda>cx.
                Inr ((fst (ds_heap_insert h (st_probability (tm_s t1)) (tm_key t1) (nat (tm_frequency t1)) (int cx)), white1), t1))
            else Inr ((h, white1), t1)))"

text \<open>Learning and storing, once the verdict is known.\<close>

definition learn_and_store ::
    "('s, 'm) storage_driver \<Rightarrow> ('s, 'm) dspam_ctx \<Rightarrow> ds_diction \<Rightarrow> (('s, 'm) dspam_ctx \<times> int) cres" where
  "learn_and_store drv CTX d =
     cbind (ds_increment_tokens (operate_totals CTX) d) (\<lambda>(CTX1, d1).
     cbind (if cx_training_mode CTX1 = DST_NOTRAIN then Inr (CTX1, 0)
            else cbind (ds_setall_spamrecords drv CTX1 d1) (\<lambda>(CTX2, _, r). Inr (CTX2, r))) (\<lambda>(CTX2, r).
       if r \<noteq> 0 then bail CTX2 EUNKNOWN
       else
         (let CTX3 = (case cx_classification CTX2 of
                        DSR_ISINNOCENT \<Rightarrow> CTX2\<lparr>cx_probability := Fin 0, cx_result := DSR_ISINNOCENT\<rparr>
                      | DSR_ISSPAM \<Rightarrow> CTX2\<lparr>cx_probability := Fin 1, cx_result := DSR_ISSPAM\<rparr>
                      | DSR_NONE \<Rightarrow> CTX2)
          in Inr (CTX3, dsr_code (cx_result CTX3)))))"

text \<open>The verdict from the ranked tokens, with the signature it will be recorded in.\<close>

definition judge ::
    "('s, 'm) storage_driver \<Rightarrow> libm \<Rightarrow> bool \<Rightarrow> ('s, 'm) dspam_ctx \<Rightarrow> ds_heap \<Rightarrow> bool \<Rightarrow> ds_diction \<Rightarrow> (('s, 'm) dspam_ctx \<times> int) cres" where
  "judge drv m alloc CTX h white d =
     (if hp_items h = 0 then bail CTX EINVAL
      else
        cbind (if records_signature CTX then renew_signature alloc (replicate (sizeof_sig_token * dd_items d) None) CTX
               else Inr CTX) (\<lambda>CTX1.
        if records_signature CTX \<and> cx_signature CTX1 = None then bail CTX1 EUNKNOWN
        else
          cbind (ds_calc_result m CTX1 h d) (\<lambda>(CTX2, _).
            learn_and_store drv
              (if has (cx_flags CTX2) DSF_WHITELIST \<and> white
               then CTX2\<lparr>cx_result := DSR_ISINNOCENT, cx_class := LANG_CLASS_WHITELISTED\<rparr> else CTX2) d)))"

text \<open>
  \<open>alloc 0\<close> allocates the dictionary, \<open>alloc 1 0\<close> and \<open>alloc 2 0\<close> the two kinds of signature, the
  rest are those of the noise reduction.
\<close>

definition operate_tokens ::
    "('s, 'm) storage_driver \<Rightarrow> libm \<Rightarrow> (nat \<Rightarrow> nat \<Rightarrow> bool) \<Rightarrow> ('s, 'm) dspam_ctx \<Rightarrow> string option \<Rightarrow> string option \<Rightarrow> ds_diction \<Rightarrow>
     (('s, 'm) dspam_ctx \<times> int) cres" where
  "operate_tokens drv m alloc CTX headers body d =
     cbind (load_tokens CTX headers body d) (\<lambda>(d1, whitelist_token).
     cbind (ds_getall_spamrecords drv CTX d1) (\<lambda>(CTX1, d2, r).
       if r \<noteq> 0 then bail CTX1 EUNKNOWN
       else
         cbind (if has (cx_flags CTX1) DSF_NOISE
                then cbind (ds_apply_bnr drv (\<lambda>i. alloc (3 + i)) CTX1 d2) (\<lambda>(C, d, _). Inr (C, d))
                else Inr (CTX1, d2)) (\<lambda>(CTX2, d3).
         cbind (dict_each (rank_term CTX2 whitelist_token) (ds_heap_create (heap_size (cx_algorithms CTX)) HP_DELTA, False) d3)
           (\<lambda>((h, white), d4). judge drv m (alloc 2 0) CTX2 h white d4))))"

definition ds_operate ::
    "('s, 'm) storage_driver \<Rightarrow> libm \<Rightarrow> (nat \<Rightarrow> nat \<Rightarrow> bool) \<Rightarrow> ('s, 'm) dspam_ctx \<Rightarrow> string option \<Rightarrow> string option \<Rightarrow>
     (('s, 'm) dspam_ctx \<times> int) cres" where
  "ds_operate drv m alloc CTX headers body =
     cbind (ds_diction_create (alloc 0) 24593) (\<lambda>diction.
     cbind (if stores_text CTX
            then cbind (deref headers) (\<lambda>h. cbind (deref body) (\<lambda>b. renew_signature (alloc 1 0) (text_signature h b) CTX))
            else Inr CTX) (\<lambda>CTX1.
       if stores_text CTX \<and> cx_signature CTX1 = None then bail CTX1 EUNKNOWN
       else case diction of
         None \<Rightarrow> bail CTX1 EUNKNOWN
       | Some d \<Rightarrow>
           operate_tokens drv m alloc
             (CTX1\<lparr>cx_result := (if cx_classification CTX1 = DSR_ISSPAM then DSR_ISSPAM else DSR_ISINNOCENT)\<rparr>) headers body d))"

section \<open>Processing a message\<close>

definition undertrained :: "('s, 'm) dspam_ctx \<Rightarrow> bool" where
  "undertrained CTX \<longleftrightarrow> cx_training_mode CTX = DST_TOE \<and>
     (innocent_learned (cx_totals CTX) \<le> 100 \<or> spam_learned (cx_totals CTX) \<le> 100) \<and>
     \<not> has (cx_algorithms CTX) DSP_MARKOV"

definition classifies_only :: "('s, 'm) dspam_ctx \<Rightarrow> bool" where
  "classifies_only CTX \<longleftrightarrow> cx_operating_mode CTX = DSM_PROCESS \<and> cx_classification CTX = DSR_NONE \<and>
     (cx_training_mode CTX = DST_TOE \<or> cx_training_mode CTX = DST_NOTRAIN)"

definition invalid_request :: "('s, 'm) dspam_ctx \<Rightarrow> bool" where
  "invalid_request CTX \<longleftrightarrow>
     (cx_operating_mode CTX = DSM_CLASSIFY \<and> cx_classification CTX \<noteq> DSR_NONE) \<or>
     cx_algorithms CTX = 0 \<or>
     (cx_classification CTX \<noteq> DSR_NONE \<and> cx_source CTX = DSS_NONE) \<or>
     (cx_classification CTX = DSR_NONE \<and> cx_source CTX \<noteq> DSS_NONE)"

text \<open>The text of an SBPH signature as a C string.\<close>

definition sig_text :: "char option list \<Rightarrow> string cres" where
  "sig_text m =
     (let s = takeWhile (\<lambda>c. c \<noteq> Some (CHR 0x00)) m in
      if None \<in> set s then Inl Uninitialised
      else if length s = length m then Inl OutOfBounds
      else Inr (map the s))"

definition stored_parts :: "('s, 'm) dspam_ctx \<Rightarrow> (string option \<times> string option) cres" where
  "stored_parts CTX =
     cbind (sig_memory (cx_signature CTX)) (\<lambda>m. cbind (sig_text m) (\<lambda>y.
       case strtok_r y [CHR 0x01] of
         None \<Rightarrow> Inr (None, None)
       | Some (h, rest) \<Rightarrow> Inr (Some h, map_option fst (strtok_r rest [CHR 0x01]))))"

text \<open>The verdict applied to the context.\<close>

definition apply_verdict :: "('s, 'm) dspam_ctx \<Rightarrow> int \<Rightarrow> ('s, 'm) dspam_ctx \<times> int" where
  "apply_verdict CTX spam_result =
     (if spam_result \<noteq> dsr_code DSR_ISSPAM \<and> spam_result \<noteq> dsr_code DSR_ISINNOCENT then (CTX, EFAILURE)
      else
        (let r = (case cx_classification CTX of
                    DSR_NONE \<Rightarrow> if spam_result = dsr_code DSR_ISSPAM then DSR_ISSPAM else DSR_ISINNOCENT
                  | c \<Rightarrow> c)
         in (CTX\<lparr>cx_result := r, cx_class := class_of_result r (cx_class CTX)\<rparr>, 0)))"

text \<open>\<open>lines\<close> tells which allocations of the parser succeed.\<close>

definition parse_message :: "(nat \<Rightarrow> bool) \<Rightarrow> 's msg_ctx \<Rightarrow> string option \<Rightarrow> 's msg_ctx cres" where
  "parse_message lines CTX message =
     (if cx_message CTX = None \<and> message \<noteq> None
      then cbind (ds_actualize_message lines message) (\<lambda>msg. Inr (CTX\<lparr>cx_message := msg\<rparr>)) else Inr CTX)"

definition message_text :: "'s msg_ctx \<Rightarrow> ('s msg_ctx \<times> string \<times> string) cres" where
  "message_text CTX =
     (if has (cx_flags CTX) DSF_SIGNATURE \<and> cx_operating_mode CTX = DSM_CLASSIFY \<and> cx_signature CTX \<noteq> None
      then Inr (CTX, [], [])
      else cbind (ds_degenerate_message CTX [] []) (\<lambda>(CTX', header, body, _). Inr (CTX', header, body)))"

definition operate_text ::
    "('s, 'm) storage_driver \<Rightarrow> libm \<Rightarrow> (nat \<Rightarrow> nat \<Rightarrow> bool) \<Rightarrow> ('s, 'm) dspam_ctx \<Rightarrow> string \<Rightarrow> string \<Rightarrow> (('s, 'm) dspam_ctx \<times> int) cres" where
  "operate_text drv m alloc CTX header body =
     (let CTX1 = CTX\<lparr>cx_result := DSR_NONE\<rparr> in
      if cx_tokenizer CTX1 = DSZ_SBPH \<and> cx_operating_mode CTX1 \<noteq> DSM_CLASSIFY \<and>
         cx_classification CTX1 \<noteq> DSR_NONE \<and> has (cx_flags CTX1) DSF_SIGNATURE
      then cbind (stored_parts CTX1) (\<lambda>(h, b). ds_operate drv m alloc CTX1 h b)
      else ds_operate drv m alloc CTX1 (Some header) (Some body))"

definition process_text ::
    "('s, ds_message) storage_driver \<Rightarrow> libm \<Rightarrow> (nat \<Rightarrow> nat \<Rightarrow> bool) \<Rightarrow> (nat \<Rightarrow> bool) \<Rightarrow> 's msg_ctx \<Rightarrow> string option \<Rightarrow>
     ('s msg_ctx \<times> int) cres" where
  "process_text drv m alloc lines CTX message =
     cbind (parse_message lines CTX message) (\<lambda>CTX1.
     cbind (message_text CTX1) (\<lambda>(CTX2, header, body).
     cbind (operate_text drv m alloc CTX2 header body) (\<lambda>(CTX3, spam_result). Inr (apply_verdict CTX3 spam_result))))"

text \<open>\<open>buffers\<close> tells whether the two buffers can be allocated.\<close>

definition process_request ::
    "('s, ds_message) storage_driver \<Rightarrow> libm \<Rightarrow> (nat \<Rightarrow> nat \<Rightarrow> bool) \<Rightarrow> bool \<Rightarrow> (nat \<Rightarrow> bool) \<Rightarrow> 's msg_ctx \<Rightarrow> string option \<Rightarrow>
     ('s msg_ctx \<times> int) cres" where
  "process_request drv m alloc buffers lines CTX message =
     (if cx_operating_mode CTX = DSM_PROCESS \<and> cx_classification CTX \<noteq> DSR_NONE \<and>
         has (cx_flags CTX) DSF_SIGNATURE \<and> cx_tokenizer CTX \<noteq> DSZ_SBPH
      then ds_process_signature drv (alloc 0) CTX
      else if \<not> buffers then Inr (CTX, EUNKNOWN)
      else process_text drv m alloc lines CTX message)"

definition dspam_process ::
    "('s, ds_message) storage_driver \<Rightarrow> libm \<Rightarrow> (nat \<Rightarrow> nat \<Rightarrow> bool) \<Rightarrow> bool \<Rightarrow> (nat \<Rightarrow> bool) \<Rightarrow> 's msg_ctx \<Rightarrow> string option \<Rightarrow>
     ('s msg_ctx \<times> int) cres" where
  "dspam_process drv m alloc buffers lines CTX message =
     (let CTX1 = CTX\<lparr>cx_sig_provided := cx_sig_provided CTX \<or> cx_signature CTX \<noteq> None\<rparr> in
      if invalid_request CTX1 then Inr (CTX1, EINVAL)
      else
        (let is_undertrain = undertrained CTX1;
             CTX2 = (if is_undertrain then CTX1\<lparr>cx_training_mode := DST_TEFT\<rparr> else CTX1);
             is_toe = classifies_only CTX2;
             CTX3 = (if is_toe then CTX2\<lparr>cx_operating_mode := DSM_CLASSIFY\<rparr> else CTX2)
         in cbind (process_request drv m alloc buffers lines CTX3 message) (\<lambda>(CTX4, r).
              let CTX5 = (if is_toe then CTX4\<lparr>cx_operating_mode := DSM_PROCESS\<rparr> else CTX4)
              in Inr (if is_undertrain then CTX5\<lparr>cx_training_mode := DST_TOE\<rparr> else CTX5, r))))"

section \<open>What processing keeps of the request\<close>

lemma same_requestI [intro]:
  "same_setup C C' \<Longrightarrow> same_request C C'"
  by (simp add: same_setup_def same_request_def)

lemma increment_request:
  assumes "ds_increment_tokens CTX d = Inr (CTX', d')"
  shows "same_request CTX CTX' \<and> cx_result CTX' = cx_result CTX"
proof -
  have step: "increment_term occ w a t = Inr (a', t') \<Longrightarrow>
      same_request (fst a) (fst a') \<and> cx_result (fst a') = cx_result (fst a)" for occ w t t' and a a' :: "('a, 'b) dspam_ctx \<times> nat"
    by (cases a) (auto simp: increment_term_def cbind_Inr_iff same_request_def split: if_splits)
  have "terms_each (increment_term occ w) a ts = Inr (a', ts') \<Longrightarrow>
      same_request (fst a) (fst a') \<and> cx_result (fst a') = cx_result (fst a)" for occ w ts ts' and a a' :: "('a, 'b) dspam_ctx \<times> nat"
  proof (induction ts arbitrary: a ts')
    case (Cons t ts)
    then obtain a1 t' ts1 where 1: "increment_term occ w a t = Inr (a1, t')" "terms_each (increment_term occ w) a1 ts = Inr (a', ts1)"
      by (auto simp: cbind_Inr_iff)
    show ?case using step[OF 1(1)] Cons.IH[OF 1(2)] by (auto intro: same_request_trans)
  qed simp
  from this[of _ _ "(CTX, 0)"] show ?thesis
    using assms by (force simp: ds_increment_tokens_def cbind_Inr_iff dict_each_def dest: buckets_each_terms)
qed

lemma bail_request: "bail CTX e = Inr (CTX', r) \<Longrightarrow> same_request CTX CTX' \<and> r = e"
  by (auto simp: bail_def cbind_Inr_iff same_request_def)

lemma renew_request: "renew_signature a mem CTX = Inr CTX' \<Longrightarrow> same_request CTX CTX' \<and> cx_result CTX' = cx_result CTX"
  by (auto simp: renew_signature_def cbind_Inr_iff same_request_def)

lemma operate_totals_request [simp]: "same_request CTX (operate_totals CTX)"
  by (simp add: same_request_def operate_totals_def Let_def)

text \<open>What a return of the operation says: the request is as it was, and an error code is none of a verdict.\<close>

definition ended :: "('a, 'b) dspam_ctx \<Rightarrow> ('a, 'b) dspam_ctx \<times> int \<Rightarrow> bool" where
  "ended CTX res \<longleftrightarrow> same_request CTX (fst res) \<and>
     (snd res = dsr_code (cx_result (fst res)) \<or> snd res = EUNKNOWN \<or> snd res = EINVAL)"

lemma bail_ended: "bail CTX e = Inr res \<Longrightarrow> same_request C CTX \<Longrightarrow> e = EUNKNOWN \<or> e = EINVAL \<Longrightarrow> ended C res"
  using bail_request[of CTX e "fst res" "snd res"] by (auto simp: ended_def intro: same_request_trans)

text \<open>What a processed request leaves: the request, and on success a verdict that is the given class where there is one.\<close>

definition processed :: "('a, 'b) dspam_ctx \<Rightarrow> ('a, 'b) dspam_ctx \<times> int \<Rightarrow> bool" where
  "processed CTX res \<longleftrightarrow> same_request CTX (fst res) \<and>
     (snd res = 0 \<longrightarrow> cx_result (fst res) \<noteq> DSR_NONE \<and>
        (cx_classification CTX \<noteq> DSR_NONE \<longrightarrow> cx_result (fst res) = cx_classification CTX))"

lemma apply_verdict_processed: "ended CTX (C, r) \<Longrightarrow> processed CTX (apply_verdict C r)"
  by (auto simp: ended_def processed_def apply_verdict_def same_request_def Let_def EFAILURE_def EUNKNOWN_def EINVAL_def split: dsr.splits)

context storage
begin

lemma learn_ended:
  assumes "learn_and_store drv CTX d = Inr res" "same_request C CTX"
  shows "ended C res"
proof -
  obtain C1 d1 C2 r where 1: "ds_increment_tokens (operate_totals CTX) d = Inr (C1, d1)"
    and 2: "(if cx_training_mode C1 = DST_NOTRAIN then Inr (C1, 0)
            else cbind (ds_setall_spamrecords drv C1 d1) (\<lambda>(CTX2, _, r). Inr (CTX2, r))) = Inr (C2, r)"
    and 3: "(if r \<noteq> 0 then bail C2 EUNKNOWN
       else
         (let CTX3 = (case cx_classification C2 of
                        DSR_ISINNOCENT \<Rightarrow> C2\<lparr>cx_probability := Fin 0, cx_result := DSR_ISINNOCENT\<rparr>
                      | DSR_ISSPAM \<Rightarrow> C2\<lparr>cx_probability := Fin 1, cx_result := DSR_ISSPAM\<rparr>
                      | DSR_NONE \<Rightarrow> C2)
          in Inr (CTX3, dsr_code (cx_result CTX3)))) = Inr res"
    using assms(1) by (auto simp: learn_and_store_def cbind_Inr_iff)
  have "same_request C1 C2"
    using 2 by (auto simp: cbind_Inr_iff split: if_splits dest: setall_request)
  then have C2: "same_request C C2"
    using increment_request[OF 1] assms(2) operate_totals_request[of CTX] by (blast intro: same_request_trans)
  show ?thesis
  proof (cases "r = 0")
    case True
    then show ?thesis using 3 C2 by (cases "cx_classification C2") (auto simp: ended_def same_request_def Let_def)
  next
    case False
    then show ?thesis using 3 bail_ended[of C2 EUNKNOWN res C] C2 by simp
  qed
qed

lemma judge_ended:
  assumes "judge drv m a CTX h white d = Inr res" "same_request C CTX"
  shows "ended C res"
proof (cases "hp_items h = 0")
  case False
  then obtain C1 where 1: "(if records_signature CTX then renew_signature a (replicate (sizeof_sig_token * dd_items d) None) CTX
               else Inr CTX) = Inr C1"
    and 2: "(if records_signature CTX \<and> cx_signature C1 = None then bail C1 EUNKNOWN
        else
          cbind (ds_calc_result m C1 h d) (\<lambda>(CTX2, _).
            learn_and_store drv
              (if has (cx_flags CTX2) DSF_WHITELIST \<and> white
               then CTX2\<lparr>cx_result := DSR_ISINNOCENT, cx_class := LANG_CLASS_WHITELISTED\<rparr> else CTX2) d)) = Inr res"
    using assms(1) by (auto simp: judge_def cbind_Inr_iff)
  have C1: "same_request C C1"
    using 1 assms(2) by (auto split: if_splits intro: same_request_trans dest: renew_request)
  show ?thesis
  proof (cases "records_signature CTX \<and> cx_signature C1 = None")
    case True
    then show ?thesis using 2 bail_ended[of C1 EUNKNOWN res C] C1 by simp
  next
    case False
    then obtain C2 r where 3: "ds_calc_result m C1 h d = Inr (C2, r)"
      and 4: "learn_and_store drv
              (if has (cx_flags C2) DSF_WHITELIST \<and> white
               then C2\<lparr>cx_result := DSR_ISINNOCENT, cx_class := LANG_CLASS_WHITELISTED\<rparr> else C2) d = Inr res"
      using 2 by (auto simp only: if_False cbind_Inr_iff split: prod.splits)
    have "same_request C C2" using calc_result_setup[OF 3] C1 by (blast intro: same_request_trans)
    then show ?thesis using learn_ended[OF 4] by (auto simp: same_request_def)
  qed
qed (use assms in \<open>auto simp: judge_def intro: bail_ended\<close>)

lemma apply_bnr_request: "ds_apply_bnr drv a CTX d = Inr (CTX', d', p) \<Longrightarrow> same_request CTX CTX'"
  unfolding ds_apply_bnr_def cbind_Inr_iff Let_def
  by (elim exE conjE, rename_tac c, case_tac c)
    (auto simp: cbind_Inr_iff dest!: getall_request split: option.split_asm if_split_asm)

lemma operate_tokens_ended:
  assumes "operate_tokens drv m a CTX hdr bdy d = Inr res" "same_request C CTX"
  shows "ended C res"
proof -
  obtain d1 w C1 d2 r where 1: "ds_getall_spamrecords drv CTX d1 = Inr (C1, d2, r)"
    and 2: "(if r \<noteq> 0 then bail C1 EUNKNOWN
       else
         cbind (if has (cx_flags C1) DSF_NOISE
                then cbind (ds_apply_bnr drv (\<lambda>i. a (3 + i)) C1 d2) (\<lambda>(C, d, _). Inr (C, d))
                else Inr (C1, d2)) (\<lambda>(CTX2, d3).
         cbind (dict_each (rank_term CTX2 w) (ds_heap_create (heap_size (cx_algorithms CTX)) HP_DELTA, False) d3)
           (\<lambda>((h, white), d4). judge drv m (a 2 0) CTX2 h white d4))) = Inr res"
    using assms(1) by (auto simp: operate_tokens_def cbind_Inr_iff)
  have C1: "same_request C C1" using getall_request[OF 1] assms(2) by (rule same_request_trans[rotated])
  show ?thesis
  proof (cases "r = 0")
    case True
    then obtain C2 d3 h white d4 where 3: "(if has (cx_flags C1) DSF_NOISE
                then cbind (ds_apply_bnr drv (\<lambda>i. a (3 + i)) C1 d2) (\<lambda>(C, d, _). Inr (C, d))
                else Inr (C1, d2)) = Inr (C2, d3)" and 4: "judge drv m (a 2 0) C2 h white d4 = Inr res"
      using 2 by (auto simp: cbind_Inr_iff)
    have "same_request C1 C2" using 3 by (auto simp: cbind_Inr_iff split: if_splits dest: apply_bnr_request)
    then show ?thesis using judge_ended[OF 4] C1 by (blast intro: same_request_trans)
  next
    case False
    then show ?thesis using 2 bail_ended[of C1 EUNKNOWN res C] C1 by simp
  qed
qed

lemma operate_ended:
  assumes "ds_operate drv m a CTX hdr bdy = Inr res"
  shows "ended CTX res"
proof -
  obtain dict C1 where 1: "(if stores_text CTX
            then cbind (deref hdr) (\<lambda>h. cbind (deref bdy) (\<lambda>b. renew_signature (a 1 0) (text_signature h b) CTX))
            else Inr CTX) = Inr C1"
    and 2: "(if stores_text CTX \<and> cx_signature C1 = None then bail C1 EUNKNOWN
       else case dict of
         None \<Rightarrow> bail C1 EUNKNOWN
       | Some d \<Rightarrow>
           operate_tokens drv m a
             (C1\<lparr>cx_result := (if cx_classification C1 = DSR_ISSPAM then DSR_ISSPAM else DSR_ISINNOCENT)\<rparr>) hdr bdy d) = Inr res"
    using assms by (auto simp: ds_operate_def cbind_Inr_iff)
  have C1: "same_request CTX C1"
    using 1 renew_request by (auto simp: cbind_Inr_iff split: if_splits)
  show ?thesis
  proof (cases "(stores_text CTX \<and> cx_signature C1 = None) \<or> dict = None")
    case True
    then show ?thesis using 2 bail_ended[of C1 EUNKNOWN res CTX] C1 by (auto split: if_splits)
  next
    case False
    then show ?thesis using 2 C1 by (auto intro!: operate_tokens_ended simp: same_request_def)
  qed
qed

lemma retrain_request: "retrain_tokens drv CTX d mem n occ = Inr (CTX', r) \<Longrightarrow> same_request CTX CTX'"
  by (auto simp: retrain_tokens_def cbind_Inr_iff split: if_splits dest!: setall_request getall_request intro: same_request_trans)

lemma process_signature_ended:
  assumes "ds_process_signature drv a CTX = Inr (CTX', r)"
  shows "same_request CTX CTX' \<and> (r = 0 \<longrightarrow> cx_classification CTX \<noteq> DSR_NONE \<longrightarrow> cx_result CTX' = cx_classification CTX)"
proof (cases "\<exists>s. cx_signature CTX = Some (Live s)")
  case True
  then obtain s where s: "cx_signature CTX = Some (Live s)" by blast
  define C1 where "C1 = CTX\<lparr>cx_result := DSR_NONE, cx_learned := cx_learned CTX \<or> \<not> has (cx_flags CTX) DSF_UNLEARN,
     cx_totals := signature_totals CTX, cx_class := class_of_result (cx_classification CTX) (cx_class CTX)\<rparr>"
  have C1: "same_request CTX C1" by (simp add: C1_def same_request_def)
  define fin where "fin = (\<lambda>(C2 :: ('s, 'm) dspam_ctx, r2 :: int). if r2 \<noteq> 0 then Inr (C2, r2)
      else if cx_classification C2 = DSR_ISSPAM then Inr (C2\<lparr>cx_probability := Fin 1, cx_result := DSR_ISSPAM\<rparr>, 0)
      else Inr (C2\<lparr>cx_probability := Fin 0, cx_result := DSR_ISINNOCENT\<rparr>, 0) :: (('s, 'm) dspam_ctx \<times> int) cres)"
  define n where "n = sg_length s div sizeof_sig_token"
  obtain dict where dict: "ds_diction_create a 24593 = Inr dict" using assms by (auto simp: ds_process_signature_def cbind_Inr_iff)
  show ?thesis
  proof (cases dict)
    case None
    then show ?thesis using assms dict by (auto simp: ds_process_signature_def cbind_Inr_iff EUNKNOWN_def)
  next
    case (Some d)
    then have "cbind (word_frequency CTX) (\<lambda>occ. cbind (if n = 0 then Inr (C1, 0)
        else cbind (sig_memory (cx_signature C1)) (\<lambda>m. retrain_tokens drv C1 d m n occ)) fin) = Inr (CTX', r)"
      using assms s dict by (simp add: ds_process_signature_def C1_def n_def fin_def Let_def cong: if_cong)
    then obtain occ C2 r2 where 2: "(if n = 0 then Inr (C1, 0)
        else cbind (sig_memory (cx_signature C1)) (\<lambda>m. retrain_tokens drv C1 d m n occ)) = Inr (C2, r2)"
        "fin (C2, r2) = Inr (CTX', r)" by (auto simp: cbind_Inr_iff)
    have "same_request C1 C2" using 2(1) by (auto simp: cbind_Inr_iff split: if_splits dest: retrain_request)
    then have "same_request CTX C2" using C1 by (blast intro: same_request_trans)
    then show ?thesis using 2(2)
      by (cases "cx_classification CTX") (auto simp: same_request_def fin_def split: if_splits)
  qed
next
  case False
  then have "cx_signature CTX = None \<or> cx_signature CTX = Some Freed" by (metis option.exhaust sig_cell.exhaust)
  then show ?thesis
    using assms by (auto simp: ds_process_signature_def cbind_Inr_iff EUNKNOWN_def EINVAL_def split: option.split_asm)
qed

end

lemma parse_message_request: "parse_message lines CTX message = Inr CTX' \<Longrightarrow> same_request CTX CTX'"
  by (auto simp: parse_message_def same_request_def cbind_Inr_iff split: if_splits)

lemma message_text_request: "message_text CTX = Inr (CTX', h, b) \<Longrightarrow> same_request CTX CTX'"
  by (auto simp: message_text_def ds_degenerate_message_def same_request_def cbind_Inr_iff split: option.splits if_splits)

lemma operate_text_ended:
  assumes "storage drv" "operate_text drv m a CTX h b = Inr res"
  shows "ended CTX res"
proof -
  obtain h' b' where "ds_operate drv m a (CTX\<lparr>cx_result := DSR_NONE\<rparr>) h' b' = Inr res"
    using assms(2) by (auto simp: operate_text_def Let_def cbind_Inr_iff split: if_splits)
  from storage.operate_ended[OF assms(1) this] show ?thesis by (cases res) (simp add: ended_def same_request_def)
qed

lemma process_text_processed:
  assumes "storage drv" "process_text drv m a lines CTX message = Inr res"
  shows "processed CTX res"
proof -
  obtain C1 C2 h b C3 r where c: "parse_message lines CTX message = Inr C1" "message_text C1 = Inr (C2, h, b)"
    "operate_text drv m a C2 h b = Inr (C3, r)" "res = apply_verdict C3 r"
    using assms(2) by (auto simp: process_text_def cbind_Inr_iff)
  have "same_request CTX C2" using parse_message_request[OF c(1)] message_text_request[OF c(2)] by (rule same_request_trans)
  then show ?thesis using operate_text_ended[OF assms(1) c(3)] c(4)
    by (auto intro!: apply_verdict_processed simp: ended_def intro: same_request_trans)
qed

lemma process_request_processed:
  assumes drv: "storage drv" and run: "process_request drv m a buffers lines CTX message = Inr res"
  shows "processed CTX res"
  using run process_text_processed[OF drv] storage.process_signature_ended[OF drv, of "a 0" CTX "fst res" "snd res"]
  by (auto simp: process_request_def processed_def EUNKNOWN_def split: if_splits)

lemma process_processed:
  assumes drv: "storage drv" and run: "dspam_process drv m a buffers lines CTX message = Inr res"
  shows "processed CTX res"
proof -
  define C1 where "C1 = CTX\<lparr>cx_sig_provided := cx_sig_provided CTX \<or> cx_signature CTX \<noteq> None\<rparr>"
  define C2 where "C2 = (if undertrained C1 then C1\<lparr>cx_training_mode := DST_TEFT\<rparr> else C1)"
  define C3 where "C3 = (if classifies_only C2 then C2\<lparr>cx_operating_mode := DSM_CLASSIFY\<rparr> else C2)"
  show ?thesis
  proof (cases "invalid_request C1")
    case True
    then have "res = (C1, EINVAL)" using run by (simp add: dspam_process_def C1_def)
    then show ?thesis by (simp add: processed_def EINVAL_def C1_def same_request_def)
  next
    case False
    then obtain C4 r where 4: "process_request drv m a buffers lines C3 message = Inr (C4, r)"
      and res: "res = (let C5 = (if classifies_only C2 then C4\<lparr>cx_operating_mode := DSM_PROCESS\<rparr> else C4)
              in (if undertrained C1 then C5\<lparr>cx_training_mode := DST_TOE\<rparr> else C5, r))"
      using run unfolding dspam_process_def C1_def[symmetric] C2_def[symmetric] C3_def[symmetric] Let_def
      by (auto simp: cbind_Inr_iff C1_def[symmetric] C2_def[symmetric] C3_def[symmetric])
    have "processed C3 (C4, r)" by (rule process_request_processed[OF drv 4])
    then show ?thesis unfolding res
      by (auto simp: processed_def same_request_def C3_def C2_def C1_def undertrained_def classifies_only_def Let_def)
  qed
qed

text \<open>
  C6. Processing leaves the request as it was. Whatever a driver that keeps the request does,
  whether the message is classified, trained, refused or an allocation fails: when
  \<^verbatim>\<open>dspam_process\<close> returns, operating mode, training mode, class, source, flags, algorithms and
  tokenizer are those of the call, although it switches to TEFT while TOE is undertrained and
  to classification for TOE and NOTRAIN. And when it returns 0 the context holds a verdict,
  which is the given class if one was given.
\<close>

theorem process_keeps_request:
  assumes "storage drv" "dspam_process drv m alloc buffers lines CTX message = Inr (CTX', r)"
  shows "same_request CTX CTX' \<and>
    (r = 0 \<longrightarrow> cx_result CTX' \<noteq> DSR_NONE \<and> (cx_classification CTX \<noteq> DSR_NONE \<longrightarrow> cx_result CTX' = cx_classification CTX))"
  using process_processed[OF assms] by (auto simp: processed_def)

text \<open>A correction with an empty signature, on the hash driver.\<close>

definition request_ctx :: "hash_storage msg_ctx" where
  "request_ctx = (the (dspam_create (\<lambda>_. True) None (Some ''user'') None (Some ''home'') DSM_PROCESS 0))\<lparr>cx_algorithms := DSA_GRAHAM\<rparr>"

definition retrain_ctx :: "hash_storage msg_ctx" where
  "retrain_ctx = request_ctx\<lparr>cx_flags := DSF_SIGNATURE, cx_classification := DSR_ISSPAM, cx_source := DSS_ERROR,
     cx_training_mode := DST_TOE, cx_signature := Some (Live \<lparr>sg_data = Some [], sg_length = 0, sg_ref_cnt = 1\<rparr>)\<rparr>"

definition any_libm :: libm where
  "any_libm = \<lparr>c_exp = id, c_log = id, c_pow = (\<lambda>x _. x)\<rparr>"

lemma retrain_run:
  "\<exists>C. dspam_process (hash_driver (good_env None)) any_libm (\<lambda>_ _. True) True (\<lambda>_. True) retrain_ctx None = Inr (C, 0)"
proof -
  obtain d where d: "ds_diction_create (\<lambda>_. True) 24593 = Inr (Some d)"
    by (simp add: ds_diction_create_def ds_prime_list_def)
  have plain: "cx_operating_mode request_ctx = DSM_PROCESS" "cx_tokenizer request_ctx = DSZ_WORD"
    "cx_attributes request_ctx = replicate 128 (Some [])" "cx_algorithms request_ctx = DSA_GRAHAM" "cx_totals request_ctx = no_totals"
    by (simp_all add: request_ctx_def dspam_create_def config_create_def)
  show ?thesis
    by (simp add: dspam_process_def retrain_ctx_def invalid_request_def undertrained_def classifies_only_def process_request_def
        ds_process_signature_def d word_frequency_def plain no_attributes has_def DSF_SIGNATURE_def DSA_GRAHAM_def DSP_MARKOV_def
        no_totals_def Let_def sizeof_sig_token_def cong: if_cong)
qed

theorem process_keeps_request_witness:
  "\<exists>C. dspam_process (hash_driver (good_env None)) any_libm (\<lambda>_ _. True) True (\<lambda>_. True) retrain_ctx None = Inr (C, 0) \<and>
     same_request retrain_ctx C \<and> cx_result C = DSR_ISSPAM"
proof -
  obtain C where C: "dspam_process (hash_driver (good_env None)) any_libm (\<lambda>_ _. True) True (\<lambda>_. True) retrain_ctx None = Inr (C, 0)"
    using retrain_run by blast
  then show ?thesis using process_keeps_request[OF hash.storage_axioms C] by (simp add: retrain_ctx_def)
qed

text \<open>
  C37. A request that makes no sense is refused. Classification with a given class, no
  algorithm, a class without a source and a source without a class each return \<open>EINVAL\<close>
  before storage, tokens or totals are touched: only the mark that a signature was provided
  may change.
\<close>

theorem invalid_requests_refused:
  assumes "(cx_operating_mode CTX = DSM_CLASSIFY \<and> cx_classification CTX \<noteq> DSR_NONE) \<or> cx_algorithms CTX = 0 \<or>
     (cx_classification CTX \<noteq> DSR_NONE) \<noteq> (cx_source CTX \<noteq> DSS_NONE)"
  shows "dspam_process drv m alloc buffers lines CTX message =
     Inr (CTX\<lparr>cx_sig_provided := cx_sig_provided CTX \<or> cx_signature CTX \<noteq> None\<rparr>, EINVAL)"
  using assms by (auto simp: dspam_process_def invalid_request_def Let_def)

theorem invalid_requests_refused_witness:
  "dspam_process (hash_driver (good_env None)) any_libm (\<lambda>_ _. True) True (\<lambda>_. True) (request_ctx\<lparr>cx_classification := DSR_ISSPAM\<rparr>) None =
     Inr (request_ctx\<lparr>cx_classification := DSR_ISSPAM\<rparr>, EINVAL)"
  using invalid_requests_refused[of "request_ctx\<lparr>cx_classification := DSR_ISSPAM\<rparr>"] by (simp add: request_ctx_def dspam_create_def)

end
