(* ===== verification/Ds_Conf.thy ===== *)
theory Ds_Conf
  imports Ds_Context
begin

text \<open>
  read_config.c: the configuration file of the agent, read line by line into the attribute
  table of config\_shared.c, and the choice of algorithms it makes for a context. The
  functions of the C library that the agent uses on strings and files are defined here.
\<close>

section \<open>Strings and files\<close>

text \<open>The position of the first occurrence of a string (\<^verbatim>\<open>strstr\<close>).\<close>

fun strstr :: "string \<Rightarrow> string \<Rightarrow> nat option" where
  "strstr [] needle = (if needle = [] then Some 0 else None)"
| "strstr (c # s) needle = (if take (length needle) (c # s) = needle then Some 0 else map_option Suc (strstr s needle))"

text \<open>
  \<^verbatim>\<open>fgets\<close> into an array of \<open>n\<close> characters reads up to the end of the line or until the array is
  full; a file is read as the list of these chunks. As a string a chunk ends at its first NUL.
\<close>

definition fgets_chunk :: "nat \<Rightarrow> string \<Rightarrow> string" where
  "fgets_chunk n s = take (n - 1) (takeWhile (\<lambda>c. c \<noteq> CHR 0x0A) s @ take 1 (dropWhile (\<lambda>c. c \<noteq> CHR 0x0A) s))"

function fgets_all :: "nat \<Rightarrow> string \<Rightarrow> string list" where
  "fgets_all n s =
     (if n < 2 \<or> s = [] then []
      else fgets_chunk n s # fgets_all n (drop (length (fgets_chunk n s)) s))"
  by auto

lemma fgets_chunk_nonempty: "2 \<le> n \<Longrightarrow> s \<noteq> [] \<Longrightarrow> fgets_chunk n s \<noteq> []"
  by (cases s) (auto simp: fgets_chunk_def)

termination fgets_all
proof (relation "measure (\<lambda>(n, s). length s)", simp, clarsimp)
  fix n :: nat and s :: string assume "\<not> n < 2" "s \<noteq> []"
  then show "length s - length (fgets_chunk n s) < length s" using fgets_chunk_nonempty[of n s] by (cases s) auto
qed

declare fgets_all.simps [simp del]

section \<open>read\_config.c: the lines\<close>

definition is_blank :: "char \<Rightarrow> bool" where
  "is_blank c \<longleftrightarrow> c = CHR '' '' \<or> c = CHR 0x09"

definition next_normal_token :: "string \<Rightarrow> string \<times> string" where
  "next_normal_token p = (takeWhile (\<lambda>c. \<not> is_blank c) p, drop 1 (dropWhile (\<lambda>c. \<not> is_blank c) p))"

definition next_quoted_token :: "string \<Rightarrow> string \<times> string" where
  "next_quoted_token p = (takeWhile (\<lambda>c. c \<noteq> CHR 0x22) p, drop 1 (dropWhile (\<lambda>c. c \<noteq> CHR 0x22) p))"

definition tokenize :: "string \<Rightarrow> (string \<times> string) option" where
  "tokenize text =
     (case dropWhile is_blank text of
        [] \<Rightarrow> None
      | c # p \<Rightarrow> Some (if c = CHR 0x22 then next_quoted_token p else next_normal_token (c # p)))"

lemma tokenize_shorter: "tokenize s = Some (t, r) \<Longrightarrow> length r < length s"
proof -
  assume t: "tokenize s = Some (t, r)"
  then obtain c p where d: "dropWhile is_blank s = c # p" by (auto simp: tokenize_def split: list.splits)
  have b: "length (dropWhile P xs) \<le> length xs" for P :: "char \<Rightarrow> bool" and xs by (rule length_dropWhile_le)
  have "\<not> is_blank c" using d by (metis hd_dropWhile list.distinct(1) list.sel(1))
  then have "length r \<le> length p" using t d b[of "\<lambda>c. c \<noteq> CHR 0x22" p] b[of "\<lambda>c. \<not> is_blank c" p]
    by (auto simp: tokenize_def next_quoted_token_def next_normal_token_def split: if_splits)
  then show "length r < length s" using d b[of is_blank s] by simp
qed

function tokens_of :: "string \<Rightarrow> string list" where
  "tokens_of s = (case tokenize s of None \<Rightarrow> [] | Some (t, r) \<Rightarrow> t # tokens_of r)"
  by auto
termination by (relation "measure length") (auto dest: tokenize_shorter)

declare tokens_of.simps [simp del]

definition remove_comment :: "string \<Rightarrow> string" where
  "remove_comment s = (if CHR ''#'' \<in> set s then takeWhile (\<lambda>c. c \<noteq> CHR ''#'') s else takeWhile (\<lambda>c. c \<noteq> CHR '';'') s)"

text \<open>The name and the values of a line; a line without a token is ignored.\<close>

definition config_line :: "string \<Rightarrow> string list" where
  "config_line buf = tokens_of (remove_comment (chomp (takeWhile (\<lambda>c. c \<noteq> CHR 0x00) buf)))"

section \<open>read\_config.c: the table\<close>

record config_state =
  cs_attrib :: slots
  cs_attrib_size :: nat
  cs_num_root :: nat

text \<open>
  One value of an attribute. The table is enlarged when the number of keys reaches its size;
  the new entries are not initialised. \<open>alloc n\<close> tells whether a table of \<open>n\<close> entries can be
  allocated; without it \<^verbatim>\<open>read_config\<close> returns NULL.
\<close>

definition config_value :: "(nat \<Rightarrow> bool) \<Rightarrow> string \<Rightarrow> config_state option \<Rightarrow> string \<Rightarrow> config_state option cres" where
  "config_value alloc a state v =
     (case state of
        None \<Rightarrow> Inr None
      | Some st \<Rightarrow>
          cbind (ds_find_attribute (cs_attrib st) a) (\<lambda>found.
            if found \<noteq> None
            then cbind (ds_add_attribute True (cs_attrib st) a v) (\<lambda>(t, _). Inr (Some (st\<lparr>cs_attrib := t\<rparr>)))
            else
              (let num_root = cs_num_root st + 1;
                   grow = (num_root \<ge> cs_attrib_size st);
                   attrib_size = (if grow then cs_attrib_size st * 2 else cs_attrib_size st);
                   attrib = cs_attrib st @ replicate (attrib_size - length (cs_attrib st)) None
               in if grow \<and> \<not> alloc attrib_size then Inr None
                  else cbind (ds_add_attribute True attrib a v) (\<lambda>(t, _).
                    Inr (Some \<lparr>cs_attrib = t, cs_attrib_size = attrib_size, cs_num_root = num_root\<rparr>)))))"

definition config_buffer :: "(nat \<Rightarrow> bool) \<Rightarrow> config_state option \<Rightarrow> string \<Rightarrow> config_state option cres" where
  "config_buffer alloc state buf =
     (case config_line buf of
        [] \<Rightarrow> Inr state
      | a # vs \<Rightarrow> cfold (config_value alloc a) state vs)"

text \<open>
  The table of 128 entries is cleared when it is allocated; at the end it is cut to the keys and
  the terminator, where the smaller table can be had. The file is None when it cannot be opened.
\<close>

definition read_config :: "(nat \<Rightarrow> bool) \<Rightarrow> string option \<Rightarrow> slots option cres" where
  "read_config alloc contents =
     (if \<not> alloc 128 then Inr None
      else case contents of
        None \<Rightarrow> Inr None
      | Some s \<Rightarrow>
          cbind (cfold (config_buffer alloc)
                   (Some \<lparr>cs_attrib = replicate 128 (Some []), cs_attrib_size = 128, cs_num_root = 0\<rparr>)
                   (fgets_all 1024 s)) (\<lambda>state.
            case state of
              None \<Rightarrow> Inr None
            | Some st \<Rightarrow>
                let n = cs_num_root st + 1 in
                Inr (Some (if alloc n then take n (cs_attrib st) else cs_attrib st))))"

section \<open>The table as a list of pairs\<close>

definition conf_pairs :: "string \<Rightarrow> (string \<times> string) list" where
  "conf_pairs s = concat (map (\<lambda>buf. case config_line buf of [] \<Rightarrow> [] | a # vs \<Rightarrow> map (Pair a) vs) (fgets_all 1024 s))"

definition cfg_read :: "(string \<times> string) list \<Rightarrow> string \<Rightarrow> string option" where
  "cfg_read ps key = map_option snd (find (\<lambda>p. strcaseeq (fst p) key) ps)"

definition cfg_match :: "(string \<times> string) list \<Rightarrow> string \<Rightarrow> string \<Rightarrow> bool" where
  "cfg_match ps key val \<longleftrightarrow> (\<exists>p\<in>set ps. strcaseeq (fst p) key \<and> strcaseeq (snd p) val)"

definition attr_of :: "string \<times> string \<Rightarrow> attribute" where
  "attr_of p = \<lparr>at_key = fst p, at_value = snd p\<rparr>"

definition represents :: "attribute list list \<Rightarrow> (string \<times> string) list \<Rightarrow> bool" where
  "represents chs ps \<longleftrightarrow> [] \<notin> set chs \<and> (\<forall>key. chain_of chs key =
     (if \<exists>p\<in>set ps. strcaseeq (fst p) key then Some (map attr_of (filter (\<lambda>p. strcaseeq (fst p) key) ps)) else None))"

lemma strcaseeq_cong: "strcaseeq a b \<Longrightarrow> strcaseeq a c = strcaseeq b c"
  by (simp add: strcaseeq_def)

lemma strcaseeq_sym: "strcaseeq a b = strcaseeq b a"
  by (auto simp: strcaseeq_def)

lemma chain_of_cong: "strcaseeq a b \<Longrightarrow> chain_of chs a = chain_of chs b"
  by (simp add: chain_of_def strcaseeq_def)

lemma chain_of_update_other:
  "j < length chs \<Longrightarrow> at_key (hd ch) = at_key (hd (chs ! j)) \<Longrightarrow> \<not> strcaseeq (at_key (hd ch)) key \<Longrightarrow>
    chain_of (chs[j := ch]) key = chain_of chs key"
proof (induction chs arbitrary: j)
  case (Cons x xs)
  then show ?case by (cases j) (auto simp: chain_of_def)
qed simp

lemma represents_new:
  assumes "represents chs ps" "chain_of chs k = None"
  shows "represents (chs @ [[attr_of (k, v)]]) (ps @ [(k, v)])"
proof -
  have n: "\<not> (\<exists>p\<in>set ps. strcaseeq (fst p) k)" using assms by (auto simp: represents_def split: if_splits)
  have "chain_of (chs @ [[attr_of (k, v)]]) key =
      (if \<exists>p\<in>set (ps @ [(k, v)]). strcaseeq (fst p) key then Some (map attr_of (filter (\<lambda>p. strcaseeq (fst p) key) (ps @ [(k, v)]))) else None)" for key
  proof (cases "strcaseeq k key")
    case True
    then have e: "strcaseeq (fst p) key = strcaseeq (fst p) k" for p :: "string \<times> string"
      by (simp add: strcaseeq_def)
    have "filter (\<lambda>p. strcaseeq (fst p) k) ps = []" using n by (auto simp: filter_empty_conv)
    then show ?thesis using True assms(2) chain_of_cong[OF True, of chs] by (simp add: chain_of_append attr_of_def e)
  next
    case False
    then show ?thesis using assms(1) by (auto simp: chain_of_append represents_def attr_of_def)
  qed
  then show ?thesis using assms(1) by (simp add: represents_def)
qed

lemma represents_more:
  assumes "represents chs ps" "j < length chs" "chain_of chs k = Some (chs ! j)" "\<forall>i<j. \<not> strcaseeq (at_key (hd (chs ! i))) k"
  shows "represents (chs[j := chs ! j @ [attr_of (k, v)]]) (ps @ [(k, v)])"
proof -
  have ne: "chs ! j \<noteq> []" using assms(1,2) nth_mem by (fastforce simp: represents_def)
  then have hd: "hd (chs ! j @ [attr_of (k, v)]) = hd (chs ! j)" by simp
  have k: "strcaseeq (at_key (hd (chs ! j))) k" using chain_of_key[OF assms(3)] by simp
  have "chain_of (chs[j := chs ! j @ [attr_of (k, v)]]) key =
      (if \<exists>p\<in>set (ps @ [(k, v)]). strcaseeq (fst p) key then Some (map attr_of (filter (\<lambda>p. strcaseeq (fst p) key) (ps @ [(k, v)]))) else None)" for key
  proof (cases "strcaseeq k key")
    case True
    have s: "strcaseeq x key = strcaseeq x k" for x using True by (simp add: strcaseeq_def)
    have "chain_of (chs[j := chs ! j @ [attr_of (k, v)]]) key = Some (chs ! j @ [attr_of (k, v)])"
      using chain_of_update[of j chs "chs ! j @ [attr_of (k, v)]" key] assms(2,4) k hd s by simp
    moreover have "chs ! j = map attr_of (filter (\<lambda>p. strcaseeq (fst p) k) ps)"
      using assms(1,3) by (auto simp: represents_def split: if_splits)
    ultimately show ?thesis using True by (simp add: s)
  next
    case False
    then have "\<not> strcaseeq (at_key (hd (chs ! j))) key" using k by (auto simp: strcaseeq_def)
    then have "chain_of (chs[j := chs ! j @ [attr_of (k, v)]]) key = chain_of chs key"
      using chain_of_update_other[OF assms(2), of "chs ! j @ [attr_of (k, v)]" key] hd by simp
    then show ?thesis using False assms(1) by (auto simp: represents_def)
  qed
  moreover have "[] \<notin> set (chs[j := chs ! j @ [attr_of (k, v)]])"
    using assms(1) set_update_subset_insert[of chs j "chs ! j @ [attr_of (k, v)]"] by (auto simp: represents_def)
  ultimately show ?thesis by (simp add: represents_def)
qed

text \<open>The table of a state holds the pairs read so far and has room for the terminator.\<close>

definition conf_inv :: "config_state \<Rightarrow> (string \<times> string) list \<Rightarrow> bool" where
  "conf_inv st ps \<longleftrightarrow> (\<exists>chs. cfg_holds (cs_attrib st) chs \<and> represents chs ps \<and> length chs = cs_num_root st \<and>
     length (cs_attrib st) = cs_attrib_size st \<and> cs_num_root st < cs_attrib_size st)"

lemma cfg_holds_grow: "cfg_holds config chs \<Longrightarrow> cfg_holds (config @ xs) chs"
  by (auto simp: cfg_holds_def)

lemma cfg_holds_cut: "cfg_holds config chs \<Longrightarrow> cfg_holds (take (length chs + 1) config) chs"
  by (auto simp: cfg_holds_def)

lemma config_value_inv:
  assumes "conf_inv st ps" "\<forall>n. alloc n"
  shows "\<exists>st'. config_value alloc k (Some st) v = Inr (Some st') \<and> conf_inv st' (ps @ [(k, v)])"
proof -
  obtain chs where c: "cfg_holds (cs_attrib st) chs" "represents chs ps" "length chs = cs_num_root st"
      "length (cs_attrib st) = cs_attrib_size st" "cs_num_root st < cs_attrib_size st"
    using assms(1) by (auto simp: conf_inv_def)
  show ?thesis
  proof (cases rule: find_cases[OF c(1), of k])
    case 1
    let ?size = "if cs_num_root st + 1 \<ge> cs_attrib_size st then cs_attrib_size st * 2 else cs_attrib_size st"
    let ?t = "cs_attrib st @ replicate (?size - length (cs_attrib st)) None"
    have h: "cfg_holds ?t chs" using cfg_holds_grow[OF c(1)] .
    have l: "length ?t = ?size" "length chs + 1 < ?size" using c(3-5) by auto
    then obtain t where "ds_add_attribute True ?t k v = Inr (t, 0)" "length t = ?size" "cfg_holds t (chs @ [[attr_of (k, v)]])"
      using add_holds[OF h, of k v] 1(1) by (auto simp: attr_of_def split: if_splits)
    then show ?thesis using 1 represents_new[OF c(2) 1(1), of v] c(3) l(2) assms(2)
      by (auto simp: config_value_def conf_inv_def Let_def)
  next
    case (2 j)
    from 2(2) add_holds[OF c(1), of k v] obtain t i where t: "ds_add_attribute True (cs_attrib st) k v = Inr (t, 0)"
        "length t = length (cs_attrib st)" "i < length chs" "chs ! i = chs ! j" "\<forall>m<i. \<not> strcaseeq (at_key (hd (chs ! m))) k"
        "cfg_holds t (chs[i := chs ! i @ [attr_of (k, v)]])"
      by (auto simp: attr_of_def)
    have "represents (chs[i := chs ! i @ [attr_of (k, v)]]) (ps @ [(k, v)])"
      using represents_more[OF c(2) t(3) _ t(5)] 2(2) t(4) by simp
    then show ?thesis using t c(3-5) 2(3) by (auto simp: config_value_def conf_inv_def)
  qed
qed

lemma config_values_inv:
  assumes "\<forall>n. alloc n"
  shows "conf_inv st ps \<Longrightarrow> \<exists>st'. cfold (config_value alloc k) (Some st) vs = Inr (Some st') \<and> conf_inv st' (ps @ map (Pair k) vs)"
proof (induction vs arbitrary: st ps)
  case (Cons v vs)
  obtain st1 where "config_value alloc k (Some st) v = Inr (Some st1)" "conf_inv st1 (ps @ [(k, v)])"
    using config_value_inv[OF Cons.prems assms] by blast
  then show ?case using Cons.IH[of st1 "ps @ [(k, v)]"] by auto
qed auto

lemma config_buffers_inv:
  assumes "\<forall>n. alloc n"
  shows "conf_inv st ps \<Longrightarrow> \<exists>st'. cfold (config_buffer alloc) (Some st) bufs = Inr (Some st') \<and>
    conf_inv st' (ps @ concat (map (\<lambda>buf. case config_line buf of [] \<Rightarrow> [] | a # vs \<Rightarrow> map (Pair a) vs) bufs))"
proof (induction bufs arbitrary: st ps)
  case (Cons b bufs)
  have "\<exists>st1. config_buffer alloc (Some st) b = Inr (Some st1) \<and>
      conf_inv st1 (ps @ (case config_line b of [] \<Rightarrow> [] | a # vs \<Rightarrow> map (Pair a) vs))"
    using Cons.prems config_values_inv[OF assms] by (auto simp: config_buffer_def split: list.splits)
  then show ?case using Cons.IH by fastforce
qed auto

lemma represents_read: "represents chs ps \<Longrightarrow> map_option (\<lambda>ch. at_value (hd ch)) (chain_of chs key) = cfg_read ps key"
proof -
  have "find P xs = (if \<exists>x\<in>set xs. P x then Some (hd (filter P xs)) else None)" for P :: "string \<times> string \<Rightarrow> bool" and xs
    by (induction xs) auto
  moreover have "hd (map f xs) = f (hd xs)" if "xs \<noteq> []" for f :: "string \<times> string \<Rightarrow> attribute" and xs
    using that by (cases xs) auto
  ultimately show "represents chs ps \<Longrightarrow> ?thesis"
    by (auto simp: represents_def cfg_read_def attr_of_def filter_empty_conv)
qed

lemma represents_match:
  "represents chs ps \<Longrightarrow> (case chain_of chs key of None \<Rightarrow> False | Some ch \<Rightarrow> \<exists>a\<in>set ch. strcaseeq (at_value a) val) = cfg_match ps key val"
  by (force simp: represents_def cfg_match_def attr_of_def)

section \<open>Choice of algorithms\<close>

definition algorithm_flag :: "(string \<times> string) list \<Rightarrow> string \<Rightarrow> string \<Rightarrow> u32 \<Rightarrow> u32 \<Rightarrow> u32" where
  "algorithm_flag conf key val flag algorithms = (if cfg_match conf key val then algorithms OR flag else algorithms)"

definition configure_algorithms :: "(string \<times> string) list \<Rightarrow> ('s, 'm) dspam_ctx \<Rightarrow> ('s, 'm) dspam_ctx" where
  "configure_algorithms conf CTX =
     (let a0 = (if cfg_read conf ''Algorithm'' \<noteq> None then 0 else cx_algorithms CTX);
          a1 = algorithm_flag conf ''Algorithm'' ''graham'' DSA_GRAHAM a0;
          a2 = algorithm_flag conf ''Algorithm'' ''burton'' DSA_BURTON a1;
          a3 = algorithm_flag conf ''Algorithm'' ''robinson'' DSA_ROBINSON a2;
          a4 = algorithm_flag conf ''Algorithm'' ''naive'' DSA_NAIVE a3;
          a5 = a4 OR (if cfg_match conf ''PValue'' ''robinson'' then DSP_ROBINSON
                      else if cfg_match conf ''PValue'' ''markov'' then DSP_MARKOV else DSP_GRAHAM);
          z = (if cfg_match conf ''Tokenizer'' ''word'' then DSZ_WORD
               else if cfg_match conf ''Tokenizer'' ''chain'' \<or> cfg_match conf ''Tokenizer'' ''chained'' then DSZ_CHAIN
               else if cfg_match conf ''Tokenizer'' ''sbph'' then DSZ_SBPH
               else if cfg_match conf ''Tokenizer'' ''osb'' then DSZ_OSB
               else cx_tokenizer CTX)
      in CTX\<lparr>cx_algorithms := algorithm_flag conf ''Algorithm'' ''chi-square'' DSA_CHI_SQUARE a5, cx_tokenizer := z\<rparr>)"

section \<open>Properties\<close>

text \<open>
  C11. Whatever the configuration file holds, reading it stays within the table, and the
  table that results answers every read with the first value the file gives for the key and every
  match with whether one of the values given for the key is the one asked for.
\<close>

theorem read_config_complete:
  assumes "\<forall>n. alloc n"
  shows "\<exists>table. read_config alloc (Some contents) = Inr (Some table) \<and>
    (\<forall>key. ds_read_attribute table key = Inr (cfg_read (conf_pairs contents) key)) \<and>
    (\<forall>key val. ds_match_attribute table key val = Inr (cfg_match (conf_pairs contents) key val))"
proof -
  let ?st = "\<lparr>cs_attrib = replicate 128 (Some []), cs_attrib_size = 128, cs_num_root = 0\<rparr>"
  have "represents [] []" by (simp add: represents_def chain_of_def)
  moreover have "cfg_holds (replicate 128 (Some [])) []" by (auto simp: cfg_holds_def numeral_eq_Suc)
  ultimately have "conf_inv ?st []" by (auto simp: conf_inv_def)
  then obtain st where st: "cfold (config_buffer alloc) (Some ?st) (fgets_all 1024 contents) = Inr (Some st)" "conf_inv st (conf_pairs contents)"
    using config_buffers_inv[OF assms, of ?st "[]" "fgets_all 1024 contents"] by (auto simp: conf_pairs_def)
  then obtain chs where c: "cfg_holds (cs_attrib st) chs" "represents chs (conf_pairs contents)" "length chs = cs_num_root st"
    by (auto simp: conf_inv_def)
  let ?t = "take (cs_num_root st + 1) (cs_attrib st)"
  have h: "cfg_holds ?t chs" using cfg_holds_cut[OF c(1)] c(3) by simp
  have "read_config alloc (Some contents) = Inr (Some ?t)" using st(1) assms by (simp add: read_config_def)
  then show ?thesis using read_holds[OF h] match_holds[OF h] represents_read[OF c(2)] represents_match[OF c(2)] by auto
qed

theorem read_config_complete_witness:
  "\<exists>table. read_config (\<lambda>_. True) (Some (''# c'' @ [CHR 0x0A] @ ''Trust root mail'' @ [CHR 0x0A])) = Inr (Some table) \<and>
    ds_read_attribute table ''trust'' = Inr (Some ''root'') \<and> ds_match_attribute table ''Trust'' ''MAIL'' = Inr True"
proof -
  have "conf_pairs (''# c'' @ [CHR 0x0A] @ ''Trust root mail'' @ [CHR 0x0A]) = [(''Trust'', ''root''), (''Trust'', ''mail'')]"
    by code_simp
  moreover have "cfg_read [(''Trust'', ''root''), (''Trust'', ''mail'')] ''trust'' = Some ''root''"
    "cfg_match [(''Trust'', ''root''), (''Trust'', ''mail'')] ''Trust'' ''MAIL''" by code_simp+
  ultimately show ?thesis
    using read_config_complete[of "\<lambda>_. True" "''# c'' @ [CHR 0x0A] @ ''Trust root mail'' @ [CHR 0x0A]"] by metis
qed

end
