(* ===== verification/Ds_Path.thy ===== *)
theory Ds_Path
  imports Ds_Conf
begin

text \<open>
  The files of a user (\<^verbatim>\<open>_ds_userdir_path\<close> and \<^verbatim>\<open>_ds_prepare_path_for\<close> of util.c). The layout of the
  directories is a choice of the build: one directory for each user, two levels of letters
  (\<^verbatim>\<open>LARGESCALE\<close>), or one directory for each domain (\<^verbatim>\<open>DOMAINSCALE\<close>).
\<close>

record layout =
  la_largescale :: bool
  la_domainscale :: bool

definition MAX_FILENAME_LENGTH :: nat where "MAX_FILENAME_LENGTH = 4096"

definition path_cut :: "string \<Rightarrow> string" where
  "path_cut s = take (MAX_FILENAME_LENGTH - 1) s"

section \<open>Paths\<close>

text \<open>
  The directory below the data directory and the name of the files of a user. A name without a
  user part has no token, which the code prints as the null pointer.
\<close>

definition domain_user :: "layout \<Rightarrow> string \<Rightarrow> (string \<times> string) cres" where
  "domain_user lay filename =
     (if la_domainscale lay
      then (case strtok_r filename ''@'' of
              None \<Rightarrow> Inl NullDeref
            | Some (user, rest) \<Rightarrow>
                let domain = (case strtok_r rest ''@'' of None \<Rightarrow> ''local'' | Some (d, _) \<Rightarrow> d)
                in Inr (path_cut (domain @ ''/'' @ user), path_cut user))
      else Inr (path_cut filename, path_cut filename))"

text \<open>The letters of the two levels; a name of one letter has one level.\<close>

definition letters :: "string \<Rightarrow> string" where
  "letters filename = (if length filename > 1 then [filename ! 0, CHR ''/'', filename ! 1] else [filename ! 0])"

definition large_path :: "string \<Rightarrow> string \<Rightarrow> string option \<Rightarrow> string" where
  "large_path home filename extension =
     path_cut (home @ ''/data/'' @ letters filename @ ''/'' @ filename @
       (case extension of
          None \<Rightarrow> []
        | Some e \<Rightarrow> ''/'' @ filename @ (if e = [] then [] else ''.'' @ e)))"

definition ds_userdir_path :: "layout \<Rightarrow> string \<Rightarrow> string \<Rightarrow> string option \<Rightarrow> string cres" where
  "ds_userdir_path lay home filename extension =
     (if filename = [] then Inr []
      else cbind (domain_user lay filename) (\<lambda>(userpath, username).
        Inr (if extension = Some ''nodspam'' \<or> extension = Some ''dspam''
             then path_cut (home @ ''/opt-'' @ (if extension = Some ''nodspam'' then ''out'' else ''in'') @ ''/'' @ userpath @ ''.'' @ the extension)
             else if la_largescale lay then large_path home filename extension
             else path_cut (home @ ''/data/'' @ userpath @
               (case extension of None \<Rightarrow> [] | Some e \<Rightarrow> ''/'' @ username @ ''.'' @ e)))))"

section \<open>Directories\<close>

text \<open>
  The directories that exist are a set; every prefix of the path that ends before a slash is
  created where it does not exist. \<open>can_mkdir\<close> tells which can be created.
\<close>

fun prepare_dirs :: "(string \<Rightarrow> bool) \<Rightarrow> string set \<Rightarrow> string \<Rightarrow> string list \<Rightarrow> string set \<times> int" where
  "prepare_dirs can_mkdir dirs path [] = (dirs, 0)"
| "prepare_dirs can_mkdir dirs path [d] = (dirs, 0)"
| "prepare_dirs can_mkdir dirs path (d # e # ds) =
     (let path1 = path_cut (path @ d) in
      if path1 \<notin> dirs \<and> path1 \<noteq> []
      then if can_mkdir path1 then prepare_dirs can_mkdir (insert path1 dirs) (path_cut (path1 @ ''/'')) (e # ds)
           else (dirs, EFILE)
      else prepare_dirs can_mkdir dirs (path_cut (path1 @ ''/'')) (e # ds))"

function components :: "string \<Rightarrow> string list" where
  "components s =
     (case dropWhile (\<lambda>c. c \<noteq> CHR ''/'') s of
        [] \<Rightarrow> [s]
      | _ # rest \<Rightarrow> takeWhile (\<lambda>c. c \<noteq> CHR ''/'') s # components rest)"
  by auto
termination
proof (relation "measure length", simp, clarsimp)
  fix s rest :: string and c assume "dropWhile (\<lambda>c. c \<noteq> CHR ''/'') s = c # rest"
  then show "length rest < length s" using length_dropWhile_le[of "\<lambda>c. c \<noteq> CHR ''/''" s] by simp
qed

declare components.simps [simp del]

definition ds_prepare_path_for :: "(string \<Rightarrow> bool) \<Rightarrow> string set \<Rightarrow> string option \<Rightarrow> string set \<times> int" where
  "ds_prepare_path_for can_mkdir dirs filename =
     (case filename of
        None \<Rightarrow> (dirs, EINVAL)
      | Some f \<Rightarrow> prepare_dirs can_mkdir dirs [] (components f))"

section \<open>Users have their own files\<close>

definition slash_free :: "string \<Rightarrow> bool" where
  "slash_free s \<longleftrightarrow> CHR ''/'' \<notin> set s"

lemma last_component:
  assumes "xs @ CHR ''/'' # a = ys @ CHR ''/'' # b" "slash_free a" "slash_free b"
  shows "a = b"
proof -
  have t: "takeWhile (\<lambda>c. c \<noteq> CHR ''/'') (rev (zs @ CHR ''/'' # c)) = rev c" if "slash_free c" for zs c
    using that by (simp add: slash_free_def takeWhile_append)
  then show ?thesis using assms by (metis rev_rev_ident)
qed

definition uncut :: "string \<Rightarrow> string \<Rightarrow> string \<Rightarrow> bool" where
  "uncut home u ext \<longleftrightarrow> length home + 2 * length u + length ext + 12 < MAX_FILENAME_LENGTH"

lemma user_file:
  assumes "u \<noteq> []" "\<not> la_domainscale lay" "ext \<noteq> []" "ext \<noteq> ''nodspam''" "ext \<noteq> ''dspam''" "uncut home u ext"
  shows "\<exists>pre. ds_userdir_path lay home u (Some ext) = Inr (pre @ ''/'' @ u @ ''.'' @ ext)"
proof -
  have "path_cut s = s" if "length s < MAX_FILENAME_LENGTH" for s
    using that by (simp add: path_cut_def)
  moreover have "length (letters u) \<le> 3" by (simp add: letters_def)
  ultimately show ?thesis using assms by (auto simp: ds_userdir_path_def domain_user_def large_path_def uncut_def)
qed



end
