(* ===== verification/Ds_Pref.thy ===== *)
theory Ds_Pref
  imports Ds_Path Ds_Decode
begin

text \<open>
  pref.c and the preferences of read\_config.c and dspam.c: sets of preferences, their
  aggregation, and the flat files they are kept in. A set is an array of 32 pointers that ends
  with NULL; it is modelled by its entries, and an entry that would leave no room for the NULL is
  written out of bounds. Allocations succeed. Files are a map from paths to contents.
\<close>

section \<open>Sets of preferences\<close>

record pref =
  pr_attribute :: string
  pr_value :: string

type_synonym prefs = "pref list"
type_synonym files = "string \<Rightarrow> string option"

definition PREF_MAX :: nat where "PREF_MAX = 32"

definition ds_pref_new :: "string \<Rightarrow> string \<Rightarrow> pref" where
  "ds_pref_new attribute val = \<lparr>pr_attribute = attribute, pr_value = val\<rparr>"

text \<open>A missing preference and a missing set have the empty value.\<close>

definition ds_pref_val :: "prefs option \<Rightarrow> string \<Rightarrow> string" where
  "ds_pref_val PTX attrib =
     (case PTX of
        None \<Rightarrow> []
      | Some ps \<Rightarrow> (case find (\<lambda>p. strcaseeq (pr_attribute p) attrib) ps of None \<Rightarrow> [] | Some p \<Rightarrow> pr_value p))"

definition put_pref :: "prefs \<Rightarrow> pref \<Rightarrow> prefs cres" where
  "put_pref PTX p = (if length PTX + 1 < PREF_MAX then Inr (PTX @ [p]) else Inl OutOfBounds)"

fun set_first :: "prefs \<Rightarrow> pref \<Rightarrow> prefs option" where
  "set_first [] u = None"
| "set_first (p # ps) u =
     (if strcaseeq (pr_attribute p) (pr_attribute u) then Some (p\<lparr>pr_value := pr_value u\<rparr> # ps)
      else map_option ((#) p) (set_first ps u))"

definition override_pref :: "(string \<times> string) list \<Rightarrow> prefs \<Rightarrow> pref \<Rightarrow> prefs cres" where
  "override_pref conf PTX u =
     (if cfg_match conf ''AllowOverride'' (pr_attribute u)
      then (case set_first PTX u of
              Some PTX' \<Rightarrow> Inr PTX'
            | None \<Rightarrow> put_pref PTX (ds_pref_new (pr_attribute u) (pr_value u)))
      else Inr PTX)"

definition ds_pref_aggregate :: "(string \<times> string) list \<Rightarrow> prefs option \<Rightarrow> prefs option \<Rightarrow> prefs cres" where
  "ds_pref_aggregate conf STX UTX =
     cbind (cfold (\<lambda>PTX s. put_pref PTX (ds_pref_new (pr_attribute s) (pr_value s))) [] (case STX of None \<Rightarrow> [] | Some ps \<Rightarrow> ps)) (\<lambda>PTX.
     cfold (override_pref conf) PTX (case UTX of None \<Rightarrow> [] | Some ps \<Rightarrow> ps))"

section \<open>Preferences of the configuration file\<close>

text \<open>
  The values of \<^verbatim>\<open>Preference\<close>, each a copy of exactly its length. Without an equals sign the
  value is read beyond the copy, and without a name the loop stays at the same attribute.
\<close>

definition config_pref :: "prefs \<Rightarrow> string \<Rightarrow> prefs cres" where
  "config_pref PTX v =
     (case strtok_r v ''='' of
        None \<Rightarrow> Inl NoReturn
      | Some (p, q) \<Rightarrow>
          if length (dropWhile (\<lambda>c. c = CHR ''='') v) = length p then Inl OutOfBounds
          else put_pref PTX (ds_pref_new p q))"

definition pref_config :: "(string \<times> string) list \<Rightarrow> prefs cres" where
  "pref_config conf = cfold config_pref [] (map snd (filter (\<lambda>p. strcaseeq (fst p) ''Preference'') conf))"

section \<open>Flat files\<close>

definition pref_filename :: "layout \<Rightarrow> string \<Rightarrow> string option \<Rightarrow> string cres" where
  "pref_filename lay home user =
     (case user of
        None \<Rightarrow> Inr (path_cut (home @ ''/default.prefs''))
      | Some u \<Rightarrow> ds_userdir_path lay home u (Some ''prefs''))"

text \<open>The string at a position of an array whose bytes may be uninitialised.\<close>

definition str_at :: "char option list \<Rightarrow> nat \<Rightarrow> string cres" where
  "str_at mem i =
     (let w = takeWhile (\<lambda>b. b \<noteq> None \<and> b \<noteq> Some (CHR 0x00)) (drop i mem) in
      case drop (i + length w) mem of
        [] \<Rightarrow> Inl OutOfBounds
      | None # _ \<Rightarrow> Inl Uninitialised
      | Some _ # _ \<Rightarrow> Inr (map the w))"

definition put_chunk :: "char option list \<Rightarrow> string \<Rightarrow> char option list" where
  "put_chunk buff s = map Some s @ Some (CHR 0x00) # drop (length s + 1) buff"

text \<open>
  The loop over the lines. The array keeps what earlier lines left in it: where a line has no
  equals sign the value is what follows the terminator.
\<close>

fun load_lines :: "char option list \<Rightarrow> prefs \<Rightarrow> string list \<Rightarrow> prefs cres" where
  "load_lines buff PTX [] = Inr PTX"
| "load_lines buff PTX (l # ls) =
     (if length PTX \<ge> PREF_MAX - 1 then Inr PTX
      else
        (let buff1 = put_chunk buff l;
             s = c_str l
         in if take 1 s = ''#'' \<or> s = [] then load_lines buff1 PTX ls
            else
              (let c = chomp s;
                   buff2 = take (length c) buff1 @ replicate (length s - length c) (Some (CHR 0x00)) @ drop (length s) buff1
               in case strtok_r c ''='' of
                    None \<Rightarrow> load_lines buff2 PTX ls
                  | Some (p, _) \<Rightarrow>
                      (let e = (length c - length (dropWhile (\<lambda>x. x = CHR ''='') c)) + length p;
                           buff3 = (if e < length c then buff2[e := Some (CHR 0x00)] else buff2)
                       in cbind (str_at buff3 (e + 1)) (\<lambda>q. load_lines buff3 (PTX @ [ds_pref_new p q]) ls)))))"

declare load_lines.simps(2) [simp del]

definition ds_ff_pref_load :: "layout \<Rightarrow> files \<Rightarrow> string option \<Rightarrow> string \<Rightarrow> prefs option cres" where
  "ds_ff_pref_load lay fs user home =
     cbind (pref_filename lay home user) (\<lambda>filename.
       case fs filename of
         None \<Rightarrow> Inr None
       | Some contents \<Rightarrow> cbind (load_lines (replicate 258 None) [] (fgets_all 258 contents)) (\<lambda>PTX. Inr (Some PTX)))"

text \<open>What the operating system lets the program do with the copy.\<close>

record pref_io =
  io_open :: bool
  io_write :: bool
  io_close :: bool
  io_rename :: bool
  io_unlink :: bool

definition backup_name :: "string \<Rightarrow> string" where
  "backup_name filename = path_cut (filename @ ''.bak'')"

text \<open>The lines that are kept and their number; None without a copy.\<close>

definition ds_ff_pref_prepare_file :: "pref_io \<Rightarrow> files \<Rightarrow> string \<Rightarrow> string \<Rightarrow> files \<times> (string \<times> nat) option" where
  "ds_ff_pref_prepare_file io fs filename omission =
     (if \<not> io_open io then (fs, None)
      else
        (let pre = take 1023 (omission @ ''='');
             ls = (case fs filename of
                     None \<Rightarrow> []
                   | Some contents \<Rightarrow> filter (\<lambda>l. take (length pre) l \<noteq> pre) (map c_str (fgets_all 1024 contents)))
         in if ls \<noteq> [] \<and> \<not> io_write io then (fs(backup_name filename := None), None)
            else (fs, Some (concat ls, length ls))))"

definition ds_ff_pref_commit :: "pref_io \<Rightarrow> files \<Rightarrow> string \<Rightarrow> string \<Rightarrow> files \<times> int" where
  "ds_ff_pref_commit io fs filename out =
     (if \<not> io_close io then (fs(backup_name filename := Some out), EFAILURE)
      else if \<not> io_rename io then (fs(backup_name filename := None), EFAILURE)
      else (fs(backup_name filename := None, filename := Some out), 0))"

definition ds_ff_pref_set :: "pref_io \<Rightarrow> layout \<Rightarrow> files \<Rightarrow> string option \<Rightarrow> string \<Rightarrow> string \<Rightarrow> string \<Rightarrow> (files \<times> int) cres" where
  "ds_ff_pref_set io lay fs username home preference val =
     cbind (pref_filename lay home username) (\<lambda>filename.
       Inr (case ds_ff_pref_prepare_file io fs filename preference of
              (fs', None) \<Rightarrow> (fs', EFAILURE)
            | (fs', Some (out, _)) \<Rightarrow> ds_ff_pref_commit io fs' filename (out @ preference @ ''='' @ val @ [CHR 0x0A])))"

definition ds_ff_pref_del :: "pref_io \<Rightarrow> layout \<Rightarrow> files \<Rightarrow> string option \<Rightarrow> string \<Rightarrow> string \<Rightarrow> (files \<times> int) cres" where
  "ds_ff_pref_del io lay fs username home preference =
     cbind (pref_filename lay home username) (\<lambda>filename.
       Inr (case ds_ff_pref_prepare_file io fs filename preference of
              (fs', None) \<Rightarrow> (fs', EFAILURE)
            | (fs', Some (out, nlines)) \<Rightarrow>
                if nlines = 0
                then if fs' filename \<noteq> None \<and> io_unlink io then (fs'(backup_name filename := None, filename := None), 0)
                     else (fs'(backup_name filename := None), - 1)
                else ds_ff_pref_commit io fs' filename out))"

section \<open>The preferences of a user\<close>

text \<open>
  \<open>load\<close> is \<^verbatim>\<open>_ds_pref_load\<close>, from the flat files or from the storage driver. The user's
  preferences, those of the domain, or the default ones override the system's.
\<close>

definition load_aggregated_prefs :: "(string option \<Rightarrow> prefs option cres) \<Rightarrow> (string \<times> string) list \<Rightarrow> string option \<Rightarrow> prefs cres" where
  "load_aggregated_prefs load conf username =
     cbind (load username) (\<lambda>U1.
     cbind (case username of
              Some u \<Rightarrow>
                if U1 = None \<and> cfg_match conf ''FallbackDomains'' ''on'' \<and> CHR ''@'' \<in> set u
                then cbind (load (Some (dropWhile (\<lambda>c. c \<noteq> CHR ''@'') u))) (\<lambda>D.
                       Inr (if D \<noteq> None \<and> ds_pref_val D ''fallbackDomain'' = ''on'' then D else None))
                else Inr U1
            | None \<Rightarrow> Inr U1) (\<lambda>U2.
     cbind (if U2 = None then load None else Inr U2) (\<lambda>U3.
     cbind (load None) (\<lambda>S1.
     cbind (if S1 = None \<or> S1 = Some [] then cbind (pref_config conf) (\<lambda>p. Inr (Some p)) else Inr S1) (\<lambda>S2.
       ds_pref_aggregate conf S2 U3)))))"

section \<open>Aggregation\<close>

lemma ds_pref_val_Nil [simp]: "ds_pref_val (Some []) a = []"
  by (simp add: ds_pref_val_def)

lemma cfg_match_cong: "strcaseeq a b \<Longrightarrow> cfg_match conf key a = cfg_match conf key b"
  by (simp add: cfg_match_def strcaseeq_def)

lemma set_first_Some:
  "set_first ps u = Some ps' \<Longrightarrow> length ps' = length ps \<and>
    ds_pref_val (Some ps') a = (if strcaseeq (pr_attribute u) a then pr_value u else ds_pref_val (Some ps) a)"
  by (induction ps arbitrary: ps') (auto simp: ds_pref_val_def strcaseeq_def split: if_splits option.splits)

lemma set_first_None: "set_first ps u = None \<longleftrightarrow> (\<forall>p\<in>set ps. \<not> strcaseeq (pr_attribute p) (pr_attribute u))"
  by (induction ps) auto

lemma ds_pref_val_snoc:
  assumes "\<forall>p\<in>set ps. \<not> strcaseeq (pr_attribute p) (pr_attribute u)"
  shows "ds_pref_val (Some (ps @ [u])) a = (if strcaseeq (pr_attribute u) a then pr_value u else ds_pref_val (Some ps) a)"
proof -
  have "find P (xs @ [x]) = (case find P xs of Some y \<Rightarrow> Some y | None \<Rightarrow> if P x then Some x else None)" for P xs and x :: pref
    by (induction xs) auto
  moreover have "find (\<lambda>p. strcaseeq (pr_attribute p) a) ps = None" if "strcaseeq (pr_attribute u) a"
    using assms that by (auto simp: find_None_iff strcaseeq_def)
  ultimately show ?thesis by (auto simp: ds_pref_val_def split: option.splits)
qed

lemma override_pref_val:
  assumes "override_pref conf P u = Inr P'"
  shows "ds_pref_val (Some P') a =
    (if cfg_match conf ''AllowOverride'' a \<and> strcaseeq (pr_attribute u) a then pr_value u else ds_pref_val (Some P) a)"
proof (cases "set_first P u")
  case None
  have n: "\<forall>p\<in>set P. \<not> strcaseeq (pr_attribute p) (pr_attribute u)" using None by (simp add: set_first_None)
  show ?thesis
    using assms None n ds_pref_val_snoc[of P "ds_pref_new (pr_attribute u) (pr_value u)" a] cfg_match_cong[of "pr_attribute u" a conf "''AllowOverride''"]
    by (auto simp: override_pref_def put_pref_def ds_pref_new_def split: if_splits)
next
  case (Some P1)
  then show ?thesis using assms set_first_Some[OF Some, of a] cfg_match_cong[of "pr_attribute u" a conf "''AllowOverride''"]
    by (auto simp: override_pref_def split: if_splits)
qed

lemma override_prefs_val:
  "cfold (override_pref conf) P us = Inr P' \<Longrightarrow> ds_pref_val (Some P') a =
    (if cfg_match conf ''AllowOverride'' a \<and> (\<exists>u\<in>set us. strcaseeq (pr_attribute u) a)
     then pr_value (last (filter (\<lambda>u. strcaseeq (pr_attribute u) a) us)) else ds_pref_val (Some P) a)"
proof (induction us arbitrary: P)
  case (Cons u us)
  then obtain P1 where "override_pref conf P u = Inr P1" "cfold (override_pref conf) P1 us = Inr P'" by (auto simp: cbind_Inr_iff)
  then show ?case using Cons.IH[of P1] override_pref_val[of conf P u P1 a] by (auto simp: filter_empty_conv)
qed simp

lemma copy_prefs:
  "length acc + length ps < PREF_MAX \<Longrightarrow> cfold (\<lambda>PTX s. put_pref PTX (ds_pref_new (pr_attribute s) (pr_value s))) acc ps = Inr (acc @ ps)"
  by (induction ps arbitrary: acc) (auto simp: put_pref_def ds_pref_new_def)

lemma override_room:
  "length P + length us < PREF_MAX \<Longrightarrow> \<exists>P'. cfold (override_pref conf) P us = Inr P'"
proof (induction us arbitrary: P)
  case (Cons u us)
  have "\<exists>P1. override_pref conf P u = Inr P1 \<and> length P1 \<le> length P + 1"
    using Cons.prems set_first_Some[of P u] by (auto simp: override_pref_def put_pref_def split: option.splits)
  then obtain P1 where p: "override_pref conf P u = Inr P1" "length P1 \<le> length P + 1" by blast
  show ?case using Cons.IH[of P1] Cons.prems p by simp
qed simp

section \<open>Files of preferences\<close>

definition pref_line :: "pref \<Rightarrow> string" where
  "pref_line p = pr_attribute p @ ''='' @ pr_value p @ [CHR 0x0A]"

definition pref_file :: "prefs \<Rightarrow> string" where
  "pref_file ps = concat (map pref_line ps)"

text \<open>A preference that fits a line: no equals sign in the name, no line end, no comment sign.\<close>

definition pref_ok :: "pref \<Rightarrow> bool" where
  "pref_ok p \<longleftrightarrow> pr_attribute p \<noteq> [] \<and> hd (pr_attribute p) \<noteq> CHR ''#'' \<and> CHR ''='' \<notin> set (pr_attribute p) \<and>
     CHR 0x0A \<notin> set (pr_attribute p @ pr_value p) \<and> CHR 0x00 \<notin> set (pr_attribute p @ pr_value p) \<and>
     (pr_value p \<noteq> [] \<longrightarrow> last (pr_value p) \<noteq> CHR 0x0D) \<and> length (pr_attribute p) + length (pr_value p) \<le> 255"

lemma pref_okD:
  assumes "pref_ok p"
  shows "pr_attribute p \<noteq> []" "hd (pr_attribute p) \<noteq> CHR ''#''" "CHR ''='' \<notin> set (pr_attribute p)"
    "CHR 0x0A \<notin> set (pr_attribute p)" "CHR 0x0A \<notin> set (pr_value p)" "CHR 0x00 \<notin> set (pr_attribute p)" "CHR 0x00 \<notin> set (pr_value p)"
    "pr_value p \<noteq> [] \<Longrightarrow> last (pr_value p) \<noteq> CHR 0x0D" "length (pr_attribute p) + length (pr_value p) \<le> 255"
  using assms by (auto simp: pref_ok_def)

lemma fgets_all_line:
  assumes "CHR 0x0A \<notin> set x" "length x + 1 < n"
  shows "fgets_all n (x @ CHR 0x0A # s) = (x @ [CHR 0x0A]) # fgets_all n s"
proof -
  have "takeWhile (\<lambda>c. c \<noteq> CHR 0x0A) (x @ CHR 0x0A # s) = x" "dropWhile (\<lambda>c. c \<noteq> CHR 0x0A) (x @ CHR 0x0A # s) = CHR 0x0A # s"
    using assms(1) by (auto simp: takeWhile_append dropWhile_append)
  then have "fgets_chunk n (x @ CHR 0x0A # s) = x @ [CHR 0x0A]" using assms(2) by (simp add: fgets_chunk_def)
  then show ?thesis using assms(2) by (subst fgets_all.simps) simp
qed

lemma fgets_pref_file: "\<forall>p\<in>set ps. pref_ok p \<Longrightarrow> 257 < n \<Longrightarrow> fgets_all n (pref_file ps) = map pref_line ps"
proof (induction ps)
  case Nil
  then show ?case by (simp add: pref_file_def fgets_all.simps)
next
  case (Cons p ps)
  note ok = pref_okD[of p]
  have "fgets_all n (pref_file (p # ps)) = pref_line p # fgets_all n (pref_file ps)"
    using fgets_all_line[of "pr_attribute p @ ''='' @ pr_value p" n "pref_file ps"] ok(4,5,9) Cons.prems
    by (auto simp: pref_file_def pref_line_def)
  then show ?case using Cons by simp
qed

lemma c_str_id: "CHR 0x00 \<notin> set s \<Longrightarrow> c_str s = s"
  unfolding c_str_def takeWhile_eq_all_conv by auto

lemma c_str_pref_line: "pref_ok p \<Longrightarrow> c_str (pref_line p) = pref_line p"
  using pref_okD(6,7)[of p] by (intro c_str_id) (auto simp: pref_line_def)

lemma chomp_pref_line: "pref_ok p \<Longrightarrow> chomp (pref_line p) = pr_attribute p @ ''='' @ pr_value p"
  using pref_okD(8)[of p] by (auto simp: chomp_def pref_line_def Let_def butlast_append last_append)

lemma strtok_pref:
  assumes "a \<noteq> []" "CHR ''='' \<notin> set a"
  shows "strtok_r (a @ CHR ''='' # v) ''='' = Some (a, v)" "dropWhile (\<lambda>x. x = CHR ''='') (a @ CHR ''='' # v) = a @ CHR ''='' # v"
proof -
  obtain x xs where a: "a = x # xs" "x \<noteq> CHR ''=''" using assms by (cases a) auto
  then show "dropWhile (\<lambda>x. x = CHR ''='') (a @ CHR ''='' # v) = a @ CHR ''='' # v" by simp
  have "takeWhile (\<lambda>c. c \<notin> {CHR ''=''}) (a @ CHR ''='' # v) = a" "dropWhile (\<lambda>c. c \<notin> {CHR ''=''}) (a @ CHR ''='' # v) = CHR ''='' # v"
    using assms(2) by (auto simp: takeWhile_append dropWhile_append)
  then show "strtok_r (a @ CHR ''='' # v) ''='' = Some (a, v)" using a by (simp add: strtok_r_def)
qed

lemma str_at_here:
  assumes "CHR 0x00 \<notin> set v"
  shows "str_at (map Some a @ x # map Some v @ Some (CHR 0x00) # rest) (length a + 1) = Inr v"
proof -
  have "takeWhile (\<lambda>b. b \<noteq> None \<and> b \<noteq> Some (CHR 0x00)) (map Some v @ Some (CHR 0x00) # rest) = map Some v"
    using assms by (subst takeWhile_append) auto
  then show ?thesis by (simp add: str_at_def comp_def)
qed

lemma load_pref_line:
  assumes "pref_ok p" "length PTX < 31"
  shows "\<exists>buff'. load_lines buff PTX (pref_line p # ls) = load_lines buff' (PTX @ [p]) ls"
proof -
  note ok = pref_okD[OF assms(1)]
  let ?a = "pr_attribute p" and ?v = "pr_value p" and ?l = "pref_line p"
  let ?c = "?a @ CHR ''='' # ?v"
  let ?b1 = "put_chunk buff ?l"
  let ?rest = "Some (CHR 0x00) # drop (length ?l + 1) buff"
  have l: "?l = ?c @ [CHR 0x0A]" by (simp add: pref_line_def)
  have ne: "take 1 ?l \<noteq> ''#''" "?l \<noteq> []" using ok(1,2) by (cases ?a; simp add: pref_line_def)+
  have c: "chomp ?l = ?c" using chomp_pref_line[OF assms(1)] by simp
  have b1: "?b1 = map Some ?c @ Some (CHR 0x0A) # ?rest" by (simp add: put_chunk_def l)
  let ?b2 = "take (length ?c) ?b1 @ replicate (length ?l - length ?c) (Some (CHR 0x00)) @ drop (length ?l) ?b1"
  have b2: "?b2 = map Some ?c @ Some (CHR 0x00) # ?rest" unfolding b1 by (simp add: l)
  let ?b3 = "?b2[length ?a := Some (CHR 0x00)]"
  have b3: "?b3 = map Some ?a @ Some (CHR 0x00) # map Some ?v @ Some (CHR 0x00) # ?rest"
    unfolding b2 by (simp add: list_update_append)
  have "str_at ?b3 (length ?a + 1) = Inr ?v" unfolding b3 by (rule str_at_here) (rule ok(7))
  moreover have "ds_pref_new ?a ?v = p" by (cases p) (simp add: ds_pref_new_def)
  ultimately have "load_lines buff PTX (?l # ls) = load_lines ?b3 (PTX @ [p]) ls"
    using assms(2) strtok_pref[OF ok(1,3), of ?v] c_str_pref_line[OF assms(1)] ne c
    by (simp add: load_lines.simps(2) PREF_MAX_def Let_def)
  then show ?thesis by blast
qed

lemma load_pref_lines:
  "\<forall>p\<in>set ps. pref_ok p \<Longrightarrow> length PTX + length ps \<le> 31 \<Longrightarrow> load_lines buff PTX (map pref_line ps) = Inr (PTX @ ps)"
proof (induction ps arbitrary: buff PTX)
  case (Cons p ps)
  then obtain buff' where "load_lines buff PTX (map pref_line (p # ps)) = load_lines buff' (PTX @ [p]) (map pref_line ps)"
    using load_pref_line[of p PTX buff "map pref_line ps"] by auto
  then show ?case using Cons.IH[of "PTX @ [p]" buff'] Cons.prems by simp
qed simp

lemma load_pref_file:
  assumes "\<forall>p\<in>set ps. pref_ok p" "length ps \<le> 31" "pref_filename lay home user = Inr f" "fs f = Some (pref_file ps)"
  shows "ds_ff_pref_load lay fs user home = Inr (Some ps)"
  using assms load_pref_lines[of ps "[]" "replicate 258 None"] fgets_pref_file[of ps 258] by (simp add: ds_ff_pref_load_def)

lemma pref_line_prefix:
  assumes "CHR ''='' \<notin> set a" "CHR ''='' \<notin> set (pr_attribute q)"
  shows "take (length (a @ ''='')) (pref_line q) = a @ ''='' \<longleftrightarrow> pr_attribute q = a"
proof
  assume t: "take (length (a @ ''='')) (pref_line q) = a @ ''=''"
  have "takeWhile (\<lambda>c. c \<noteq> CHR ''='') (a @ ''='' @ drop (length (a @ ''='')) (pref_line q)) = a"
    using assms(1) by (simp add: takeWhile_append)
  moreover have "takeWhile (\<lambda>c. c \<noteq> CHR ''='') (pref_line q) = pr_attribute q" using assms(2) by (simp add: pref_line_def takeWhile_append)
  ultimately show "pr_attribute q = a" by (metis append.assoc append_take_drop_id t)
qed (simp add: pref_line_def)

lemma prepare_pref_file:
  assumes "\<forall>q\<in>set ps. pref_ok q" "pref_ok p" "io_open io" "io_write io"
    and "fs f = (if ps = [] then None else Some (pref_file ps)) \<or> fs f = Some (pref_file ps)"
  shows "ds_ff_pref_prepare_file io fs f (pr_attribute p) =
    (fs, Some (pref_file (filter (\<lambda>q. pr_attribute q \<noteq> pr_attribute p) ps), length (filter (\<lambda>q. pr_attribute q \<noteq> pr_attribute p) ps)))"
proof -
  let ?pre = "take 1023 (pr_attribute p @ ''='')"
  have pre: "?pre = pr_attribute p @ ''=''" using pref_okD(9)[OF assms(2)] by simp
  have "filter (\<lambda>l. take (length ?pre) l \<noteq> ?pre) (map c_str (map pref_line ps)) = map pref_line (filter (\<lambda>q. pr_attribute q \<noteq> pr_attribute p) ps)"
    using assms(1) unfolding pre
  proof (induction ps)
    case (Cons q qs)
    then show ?case using c_str_pref_line[of q] pref_line_prefix[of "pr_attribute p" q] pref_okD(3)[OF assms(2)] pref_okD(3)[of q] by auto
  qed simp
  then show ?thesis using assms(3-5) fgets_pref_file[OF assms(1), of 1024]
    by (auto simp: ds_ff_pref_prepare_file_def Let_def pref_file_def comp_def split: if_splits)
qed

section \<open>Properties\<close>

text \<open>
  C13. The preferences that hold for a user are those of the system, except that where an override is
  allowed the last one the user gives counts, whatever the case the name is written in.
\<close>

theorem aggregate_precedence:
  assumes "length STX + length UTX < PREF_MAX"
  shows "\<exists>PTX. ds_pref_aggregate conf (Some STX) (Some UTX) = Inr PTX \<and>
    (\<forall>a. ds_pref_val (Some PTX) a =
      (if cfg_match conf ''AllowOverride'' a \<and> (\<exists>u\<in>set UTX. strcaseeq (pr_attribute u) a)
       then pr_value (last (filter (\<lambda>u. strcaseeq (pr_attribute u) a) UTX)) else ds_pref_val (Some STX) a))"
proof -
  obtain P where "cfold (override_pref conf) STX UTX = Inr P" using override_room[OF assms] by blast
  then show ?thesis using copy_prefs[of "[]" STX] override_prefs_val[of conf STX UTX P] assms
    by (auto simp: ds_pref_aggregate_def)
qed

theorem aggregate_precedence_witness:
  "\<exists>PTX. ds_pref_aggregate [(''AllowOverride'', ''spamAction'')] (Some [ds_pref_new ''spamAction'' ''tag'', ds_pref_new ''optIn'' ''off''])
      (Some [ds_pref_new ''SPAMACTION'' ''deliver'', ds_pref_new ''optIn'' ''on'']) = Inr PTX \<and>
    ds_pref_val (Some PTX) ''spamAction'' = ''deliver'' \<and> ds_pref_val (Some PTX) ''optIn'' = ''off''"
proof -
  let ?s = "[ds_pref_new ''spamAction'' ''tag'', ds_pref_new ''optIn'' ''off'']"
  let ?u = "[ds_pref_new ''SPAMACTION'' ''deliver'', ds_pref_new ''optIn'' ''on'']"
  let ?c = "[(''AllowOverride'', ''spamAction'')]"
  have "cfg_match ?c ''AllowOverride'' ''spamAction''" "\<not> cfg_match ?c ''AllowOverride'' ''optIn''"
    "strcaseeq ''SPAMACTION'' ''spamAction''" "\<not> strcaseeq ''optIn'' ''spamAction''" "ds_pref_val (Some ?s) ''optIn'' = ''off''" by code_simp+
  then show ?thesis using aggregate_precedence[of ?s ?u ?c] by (auto simp: PREF_MAX_def ds_pref_new_def)
qed

text \<open>
  C12. Setting a preference replaces the line of that name in the user's file by one at the
  end, and a load returns the other preferences in their order and the new one; no other file is
  changed but the backup copy.
\<close>

theorem pref_set_load:
  assumes "\<forall>q\<in>set ps. pref_ok q" "pref_ok p" "length ps < 31"
    and "pref_filename lay home user = Inr f" "fs f = Some (pref_file ps) \<or> ps = [] \<and> fs f = None"
    and "io_open io" "io_write io" "io_close io" "io_rename io"
  shows "\<exists>fs'. ds_ff_pref_set io lay fs user home (pr_attribute p) (pr_value p) = Inr (fs', 0) \<and>
    ds_ff_pref_load lay fs' user home = Inr (Some (filter (\<lambda>q. pr_attribute q \<noteq> pr_attribute p) ps @ [p])) \<and>
    (\<forall>g. g \<noteq> f \<and> g \<noteq> backup_name f \<longrightarrow> fs' g = fs g)"
proof -
  let ?ps = "filter (\<lambda>q. pr_attribute q \<noteq> pr_attribute p) ps"
  let ?fs = "fs(backup_name f := None, f := Some (pref_file (?ps @ [p])))"
  have "ds_ff_pref_prepare_file io fs f (pr_attribute p) = (fs, Some (pref_file ?ps, length ?ps))"
    using prepare_pref_file[of ps p io fs f] assms by auto
  then have "ds_ff_pref_set io lay fs user home (pr_attribute p) (pr_value p) = Inr (?fs, 0)"
    using assms(4,8,9) by (simp add: ds_ff_pref_set_def ds_ff_pref_commit_def pref_file_def pref_line_def)
  moreover have "length (?ps @ [p]) \<le> 31" using le_less_trans[OF length_filter_le assms(3)] by (simp add: Suc_le_eq)
  then have "ds_ff_pref_load lay ?fs user home = Inr (Some (?ps @ [p]))"
    by (intro load_pref_file[OF _ _ assms(4)]) (use assms(1,2) in auto)
  ultimately show ?thesis by auto
qed

definition all_io :: pref_io where
  "all_io = \<lparr>io_open = True, io_write = True, io_close = True, io_rename = True, io_unlink = True\<rparr>"

theorem pref_set_load_witness:
  "\<exists>fs'. ds_ff_pref_set all_io \<lparr>la_largescale = False, la_domainscale = False\<rparr>
      [''/var/default.prefs'' \<mapsto> ''a=1'' @ [CHR 0x0A] @ ''b=2'' @ [CHR 0x0A]] None ''/var'' ''a'' ''3'' = Inr (fs', 0) \<and>
    ds_ff_pref_load \<lparr>la_largescale = False, la_domainscale = False\<rparr> fs' None ''/var'' = Inr (Some [ds_pref_new ''b'' ''2'', ds_pref_new ''a'' ''3''])"
proof -
  let ?ps = "[ds_pref_new ''a'' ''1'', ds_pref_new ''b'' ''2'']"
  have "pref_file ?ps = ''a=1'' @ [CHR 0x0A] @ ''b=2'' @ [CHR 0x0A]" by (simp add: pref_file_def pref_line_def ds_pref_new_def)
  moreover have "\<forall>q\<in>set ?ps. pref_ok q" "pref_ok (ds_pref_new ''a'' ''3'')" by (simp_all add: pref_ok_def ds_pref_new_def)
  ultimately show ?thesis
    using pref_set_load[of ?ps "ds_pref_new ''a'' ''3''" "\<lparr>la_largescale = False, la_domainscale = False\<rparr>" "''/var''" None "''/var/default.prefs''"
        "[''/var/default.prefs'' \<mapsto> ''a=1'' @ [CHR 0x0A] @ ''b=2'' @ [CHR 0x0A]]" all_io]
    by (auto simp: pref_filename_def path_cut_def MAX_FILENAME_LENGTH_def all_io_def ds_pref_new_def)
qed

end
