(* ===== verification/Ds_Agent.thy ===== *)
theory Ds_Agent
  imports Ds_Pref Ds_HashDrv
begin

text \<open>
  agent\_shared.c: the context of the agent, its command line, the defaults of the configuration
  file, and the message that is read from standard input. The build has trusted-user security and
  the daemon. Arrays of characters are the strings they hold, cut as the bounded copies do;
  nodetrees of names are lists. Allocations succeed.
\<close>

section \<open>The context\<close>

definition DAF_STDOUT :: u64 where "DAF_STDOUT = 0x01"
definition DAF_DELIVER_SPAM :: u64 where "DAF_DELIVER_SPAM = 0x02"
definition DAF_DELIVER_INNOCENT :: u64 where "DAF_DELIVER_INNOCENT = 0x04"
definition DAF_WHITELIST :: u64 where "DAF_WHITELIST = 0x08"
definition DAF_GLOBAL :: u64 where "DAF_GLOBAL = 0x10"
definition DAF_INOCULATE :: u64 where "DAF_INOCULATE = 0x20"
definition DAF_NOISE :: u64 where "DAF_NOISE = 0x40"
definition DAF_MERGED :: u64 where "DAF_MERGED = 0x80"
definition DAF_SUMMARY :: u64 where "DAF_SUMMARY = 0x100"
definition DAF_UNLEARN :: u64 where "DAF_UNLEARN = 0x200"
definition DAF_FIXED_TR_MODE :: u64 where "DAF_FIXED_TR_MODE = 0x400"

record agent_ctx =
  ax_operating_mode :: dsm
  ax_fork :: bool
  ax_client_mode :: bool
  ax_training_mode :: dst
  ax_classification :: dsr
  ax_source :: dss
  ax_trusted :: bool
  ax_feature :: bool
  ax_train_pristine :: bool
  ax_flags :: u64
  ax_training_buffer :: int
  ax_mailer_args :: string
  ax_spam_args :: string
  ax_managed_group :: string
  ax_signature :: string
  ax_mailfrom :: string
  ax_users :: "string list"
  ax_inoc_users :: "string list"
  ax_classify_users :: "string list"
  ax_recipients :: "string list option"
  ax_client_args :: string
  ax_PTX :: "prefs option"

type_synonym agent_config = "(string \<times> string) list"

text \<open>The user that runs the program, from the password file.\<close>

record pw_entry =
  pw_name :: string
  pw_uid :: nat

definition blank_atx :: agent_ctx where
  "blank_atx = \<lparr>ax_operating_mode = DSM_PROCESS, ax_fork = True, ax_client_mode = False, ax_training_mode = DST_TEFT,
     ax_classification = DSR_NONE, ax_source = DSS_NONE, ax_trusted = False, ax_feature = False, ax_train_pristine = False,
     ax_flags = 0, ax_training_buffer = 0, ax_mailer_args = [], ax_spam_args = [], ax_managed_group = [], ax_signature = [],
     ax_mailfrom = [], ax_users = [], ax_inoc_users = [], ax_classify_users = [], ax_recipients = None, ax_client_args = [],
     ax_PTX = None\<rparr>"

text \<open>Without an entry the program exits.\<close>

definition initialize_atx :: "agent_config \<Rightarrow> pw_entry option \<Rightarrow> agent_ctx option" where
  "initialize_atx conf pw =
     (case pw of
        None \<Rightarrow> None
      | Some p \<Rightarrow>
          let trusted = (pw_uid p = 0 \<or> cfg_match conf ''Trust'' (pw_name p))
          in Some (blank_atx\<lparr>ax_trusted := trusted, ax_users := (if trusted then [] else [pw_name p])\<rparr>))"

section \<open>Bounded strings and tokens\<close>

definition cat_cut :: "nat \<Rightarrow> string \<Rightarrow> string \<Rightarrow> string" where
  "cat_cut n d s = (if length d < n then take (n - 1) (d @ s) else d)"

definition copy_cut :: "nat \<Rightarrow> string \<Rightarrow> string" where
  "copy_cut n s = take (n - 1) s"

function strtoks :: "string \<Rightarrow> string \<Rightarrow> string list" where
  "strtoks s delim = (case strtok_r s delim of None \<Rightarrow> [] | Some (t, r) \<Rightarrow> t # strtoks r delim)"
  by auto

lemma strtok_shorter: "strtok_r s delim = Some (t, r) \<Longrightarrow> length r < length s"
proof -
  assume a: "strtok_r s delim = Some (t, r)"
  let ?d = "dropWhile (\<lambda>c. c \<in> set delim) s"
  have d: "?d \<noteq> []" "r = drop 1 (dropWhile (\<lambda>c. c \<notin> set delim) ?d)" using a by (auto simp: strtok_r_def Let_def split: if_splits)
  have "length (dropWhile (\<lambda>c. c \<notin> set delim) ?d) \<le> length ?d" by (rule length_dropWhile_le)
  moreover have "length ?d \<le> length s" by (rule length_dropWhile_le)
  moreover have "length ?d > 0" using d(1) by simp
  ultimately show "length r < length s" unfolding d(2) length_drop by linarith
qed

termination strtoks
  by (relation "measure (\<lambda>(s, d). length s)") (auto dest: strtok_shorter)

declare strtoks.simps [simp del]

definition atoi :: "string \<Rightarrow> int" where
  "atoi s = as_int (strtol s 10)"

section \<open>Modes and features\<close>

definition add_flag :: "u64 \<Rightarrow> agent_ctx \<Rightarrow> agent_ctx" where
  "add_flag f ATX = ATX\<lparr>ax_flags := ax_flags ATX OR f\<rparr>"

definition hasf :: "agent_ctx \<Rightarrow> u64 \<Rightarrow> bool" where
  "hasf ATX f \<longleftrightarrow> ax_flags ATX AND f \<noteq> 0"

definition process_mode :: "agent_ctx \<Rightarrow> string option \<Rightarrow> agent_ctx \<times> int" where
  "process_mode ATX mode =
     (case mode of
        None \<Rightarrow> (ATX, EINVAL)
      | Some m \<Rightarrow>
          if m = ''toe'' then (ATX\<lparr>ax_training_mode := DST_TOE\<rparr>, 0)
          else if m = ''teft'' then (ATX\<lparr>ax_training_mode := DST_TEFT\<rparr>, 0)
          else if m = ''tum'' then (ATX\<lparr>ax_training_mode := DST_TUM\<rparr>, 0)
          else if m = ''notrain'' then (ATX\<lparr>ax_training_mode := DST_NOTRAIN\<rparr>, 0)
          else if m = ''unlearn'' then (add_flag DAF_UNLEARN (ATX\<lparr>ax_training_mode := DST_TEFT\<rparr>), 0)
          else (ATX, EINVAL))"

definition process_feature :: "agent_ctx \<times> int \<Rightarrow> string \<Rightarrow> agent_ctx \<times> int" where
  "process_feature st ptr =
     (case st of (ATX, ret) \<Rightarrow>
        if take 2 ptr = ''no'' then (add_flag DAF_NOISE ATX, ret)
        else if take 2 ptr = ''wh'' then (add_flag DAF_WHITELIST ATX, ret)
        else if take 3 ptr = ''tb=''
        then (let tb = atoi (drop 3 ptr) in (ATX\<lparr>ax_training_buffer := tb\<rparr>, if tb < 0 \<or> tb > 10 then EINVAL else ret))
        else (ATX, EINVAL))"

definition process_features :: "agent_ctx \<Rightarrow> string \<Rightarrow> agent_ctx \<times> int" where
  "process_features ATX features = foldl process_feature (ATX, 0) (strtoks features '','')"

section \<open>The command line\<close>

record arg_state =
  as_atx :: agent_ctx
  as_conf :: agent_config
  as_flag_u :: bool
  as_flag_r :: bool

text \<open>An argument is processed, ends the loop with an error, or ends the program.\<close>

datatype arg_result = ArgNext arg_state | ArgReturn int | ArgExit

definition MAX_USERNAME_LENGTH :: nat where "MAX_USERNAME_LENGTH = 256"

text \<open>
  Overwriting an attribute of the configuration replaces the first value of its key. The table has
  been cut to its size, so that a key that is not in it is written beyond it.
\<close>

fun replace_first :: "agent_config \<Rightarrow> string \<Rightarrow> string \<Rightarrow> agent_config" where
  "replace_first [] key val = []"
| "replace_first (p # ps) key val = (if strcaseeq (fst p) key then (fst p, val) # ps else p # replace_first ps key val)"

definition cfg_overwrite :: "agent_config \<Rightarrow> string \<Rightarrow> string \<Rightarrow> agent_config cres" where
  "cfg_overwrite conf key val = (if cfg_read conf key = None then Inl OutOfBounds else Inr (replace_first conf key val))"

definition user_case :: "agent_config \<Rightarrow> string \<Rightarrow> string" where
  "user_case conf arg = (if cfg_match conf ''Broken'' ''case'' then fst (lc arg) else arg)"

definition rcpt_argument :: "pw_entry \<Rightarrow> arg_state \<Rightarrow> string \<Rightarrow> arg_result cres" where
  "rcpt_argument pw st arg =
     (let ATX = as_atx st; user = user_case (as_conf st) arg in
      if length arg < MAX_USERNAME_LENGTH
      then if \<not> ax_trusted ATX \<and> user \<noteq> pw_name pw then Inr (ArgReturn EINVAL)
           else if ax_trusted ATX
           then cbind (ds_validate_address user) (\<lambda>valid.
                  Inr (if valid
                       then ArgNext (st\<lparr>as_atx := ATX\<lparr>ax_recipients := map_option (\<lambda>l. l @ [user]) (ax_recipients ATX)\<rparr>\<rparr>)
                       else ArgReturn EINVAL))
           else Inr (ArgNext st)
      else Inr (ArgNext st))"

definition user_argument :: "pw_entry \<Rightarrow> arg_state \<Rightarrow> string \<Rightarrow> arg_result" where
  "user_argument pw st arg =
     (let ATX = as_atx st; user = user_case (as_conf st) arg in
      if length arg < MAX_USERNAME_LENGTH
      then if strstr arg ''../'' \<noteq> None \<or> strstr arg (''..'' @ [CHR 0x5C]) \<noteq> None then ArgReturn EINVAL
           else if \<not> ax_trusted ATX \<and> user \<noteq> pw_name pw then ArgReturn EINVAL
           else if ax_trusted ATX then ArgNext (st\<lparr>as_atx := ATX\<lparr>ax_users := ax_users ATX @ [user]\<rparr>\<rparr>)
           else ArgNext st
      else ArgNext st)"

definition class_argument :: "arg_state \<Rightarrow> string \<Rightarrow> arg_result" where
  "class_argument st ptr =
     (let spam = cfg_read (as_conf st) ''ClassAliasSpam''; nonspam = cfg_read (as_conf st) ''ClassAliasNonspam'' in
      if ptr = ''spam'' \<or> spam = Some ptr then ArgNext (st\<lparr>as_atx := (as_atx st)\<lparr>ax_classification := DSR_ISSPAM\<rparr>\<rparr>)
      else if ptr = ''innocent'' \<or> ptr = ''nonspam'' \<or> nonspam = Some ptr
      then ArgNext (st\<lparr>as_atx := (as_atx st)\<lparr>ax_classification := DSR_ISINNOCENT\<rparr>\<rparr>)
      else ArgReturn EINVAL)"

definition source_argument :: "arg_state \<Rightarrow> string \<Rightarrow> arg_result" where
  "source_argument st ptr =
     (if ptr = ''corpus'' then ArgNext (st\<lparr>as_atx := (as_atx st)\<lparr>ax_source := DSS_CORPUS\<rparr>\<rparr>)
      else if ptr = ''inoculation'' then ArgNext (st\<lparr>as_atx := (as_atx st)\<lparr>ax_source := DSS_INOCULATION\<rparr>\<rparr>)
      else if ptr = ''error'' then ArgNext (st\<lparr>as_atx := (as_atx st)\<lparr>ax_source := DSS_ERROR\<rparr>\<rparr>)
      else ArgReturn EINVAL)"

fun deliver_flags :: "agent_ctx \<Rightarrow> string list \<Rightarrow> agent_ctx option" where
  "deliver_flags ATX [] = Some ATX"
| "deliver_flags ATX (ptr # ptrs) =
     (if ptr = ''stdout'' then deliver_flags (add_flag DAF_STDOUT (add_flag DAF_DELIVER_INNOCENT (add_flag DAF_DELIVER_SPAM ATX))) ptrs
      else if ptr = ''spam'' then deliver_flags (add_flag DAF_DELIVER_SPAM ATX) ptrs
      else if ptr = ''innocent'' \<or> ptr = ''nonspam'' then deliver_flags (add_flag DAF_DELIVER_INNOCENT ATX) ptrs
      else if ptr = ''summary'' then deliver_flags (add_flag DAF_SUMMARY ATX) ptrs
      else None)"

definition profile_argument :: "arg_state \<Rightarrow> string \<Rightarrow> arg_result cres" where
  "profile_argument st profile =
     (if \<not> ax_trusted (as_atx st) then Inr (ArgReturn EINVAL)
      else if \<not> cfg_match (as_conf st) ''Profile'' profile then Inr (ArgReturn EINVAL)
      else cbind (cfg_overwrite (as_conf st) ''DefaultProfile'' profile) (\<lambda>conf. Inr (ArgNext (st\<lparr>as_conf := conf\<rparr>))))"

text \<open>An unknown argument is passed to the delivery agent, unless it is the name of the program.\<close>

definition mailer_argument :: "nat \<Rightarrow> arg_state \<Rightarrow> string \<Rightarrow> arg_result" where
  "mailer_argument i st arg =
     (let ATX = as_atx st in
      if i > 0 \<and> ax_trusted ATX
      then ArgNext (st\<lparr>as_atx := ATX\<lparr>ax_mailer_args :=
             cat_cut 256 (cat_cut 256 (ax_mailer_args ATX) (if arg = [] then [CHR 0x22, CHR 0x22] else arg)) '' ''\<rparr>\<rparr>)
      else ArgNext st)"

definition option_argument :: "nat \<Rightarrow> arg_state \<Rightarrow> string \<Rightarrow> arg_result cres" where
  "option_argument i st arg =
     (let ATX = as_atx st in
      if take 12 arg = ''--mail-from='' then Inr (ArgNext (st\<lparr>as_atx := ATX\<lparr>ax_mailfrom := copy_cut 256 (drop 12 arg)\<rparr>\<rparr>))
      else if take 10 arg = ''--profile='' then profile_argument st (drop 10 arg)
      else if take 12 arg = ''--signature='' then Inr (ArgNext (st\<lparr>as_atx := ATX\<lparr>ax_signature := copy_cut 128 (drop 12 arg)\<rparr>\<rparr>))
      else if take 8 arg = ''--class='' then Inr (class_argument st (drop 8 arg))
      else if take 9 arg = ''--source='' then Inr (source_argument st (drop 9 arg))
      else if arg = ''--classify''
      then Inr (ArgNext (st\<lparr>as_atx := ATX\<lparr>ax_operating_mode := DSM_CLASSIFY, ax_training_mode := DST_NOTRAIN\<rparr>\<rparr>))
      else if arg = ''--process'' then Inr (ArgNext (st\<lparr>as_atx := ATX\<lparr>ax_operating_mode := DSM_PROCESS\<rparr>\<rparr>))
      else if take 10 arg = ''--deliver=''
      then Inr (case deliver_flags ATX (strtoks (drop 10 arg) '','') of
                  None \<Rightarrow> ArgReturn EINVAL
                | Some ATX' \<Rightarrow> ArgNext (st\<lparr>as_atx := ATX'\<rparr>))
      else if take 10 arg = ''--feature=''
      then Inr (ArgNext (st\<lparr>as_atx := fst (process_features (ATX\<lparr>ax_feature := True\<rparr>) (drop 10 arg))\<rparr>))
      else if arg = ''--stdout'' then Inr (ArgNext (st\<lparr>as_atx := add_flag DAF_STDOUT ATX\<rparr>))
      else if arg = ''--help'' \<or> arg = ''--version'' then Inr ArgExit
      else Inr (mailer_argument i st arg))"

text \<open>The arguments for the server when the program is a client.\<close>

definition client_argument :: "agent_config \<Rightarrow> nat \<Rightarrow> arg_state \<Rightarrow> string \<Rightarrow> arg_state" where
  "client_argument conf i st arg =
     (let ATX = as_atx st in
      if cfg_read conf ''ClientHost'' \<noteq> None \<and> \<not> as_flag_u st \<and> \<not> as_flag_r st \<and> i > 0
      then st\<lparr>as_atx := ATX\<lparr>ax_client_args :=
             cat_cut 1024 (foldl (cat_cut 1024) (ax_client_args ATX) (if arg = [] then [[CHR 0x22], arg, [CHR 0x22]] else [arg])) '' ''\<rparr>\<rparr>
      else st)"

definition later_argument :: "pw_entry \<Rightarrow> nat \<Rightarrow> arg_state \<Rightarrow> string \<Rightarrow> arg_result cres" where
  "later_argument pw i st arg =
     (let ATX = as_atx st in
      if arg = ''--debug'' then Inr (ArgNext st)
      else if arg = ''--client'' then Inr (ArgNext (st\<lparr>as_atx := ATX\<lparr>ax_client_mode := True\<rparr>\<rparr>))
      else if arg = ''--daemon'' \<and> ax_trusted ATX then Inr (ArgNext (st\<lparr>as_atx := ATX\<lparr>ax_operating_mode := DSM_DAEMON\<rparr>\<rparr>))
      else if arg = ''--nofork'' then Inr (ArgNext (st\<lparr>as_atx := ATX\<lparr>ax_fork := False\<rparr>\<rparr>))
      else if take 7 arg = ''--mode=''
      then Inr (case process_mode ATX (Some (drop 7 arg)) of
                  (ATX', r) \<Rightarrow> if r \<noteq> 0 then ArgReturn EINVAL else ArgNext (st\<lparr>as_atx := add_flag DAF_FIXED_TR_MODE ATX'\<rparr>))
      else if as_flag_r st then rcpt_argument pw st arg
      else if as_flag_u st then Inr (user_argument pw st arg)
      else option_argument i st arg)"

text \<open>An argument that begins with a dash, or an empty one, ends a list of users or recipients.\<close>

definition process_argument :: "pw_entry \<Rightarrow> agent_config \<Rightarrow> nat \<Rightarrow> arg_state \<Rightarrow> string \<Rightarrow> arg_result cres" where
  "process_argument pw conf i st0 arg =
     (let ends = ((as_flag_u st0 \<or> as_flag_r st0) \<and> (take 1 arg = ''-'' \<or> arg = []));
          st = (if ends then st0\<lparr>as_flag_u := False, as_flag_r := False\<rparr> else st0);
          ATX = as_atx st
      in if ends \<and> arg = ''--'' then Inr (ArgNext st)
         else if arg = ''--user'' then Inr (ArgNext (st\<lparr>as_flag_u := True\<rparr>))
         else if arg = ''--rcpt-to''
         then Inr (ArgNext (st\<lparr>as_flag_r := True,
                as_atx := ATX\<lparr>ax_recipients := Some (case ax_recipients ATX of None \<Rightarrow> [] | Some l \<Rightarrow> l)\<rparr>\<rparr>))
         else later_argument pw i (client_argument conf i st arg) arg)"

fun arguments_from :: "pw_entry \<Rightarrow> agent_config \<Rightarrow> nat \<Rightarrow> arg_state \<Rightarrow> string list \<Rightarrow> arg_result cres" where
  "arguments_from pw conf i st [] = Inr (ArgNext st)"
| "arguments_from pw conf i st (arg # args) =
     cbind (process_argument pw conf i st arg) (\<lambda>r.
       case r of ArgNext st' \<Rightarrow> arguments_from pw conf (Suc i) st' args | _ \<Rightarrow> Inr r)"

text \<open>\<open>conf\<close> for the client arguments is read once, before the loop.\<close>

definition process_arguments :: "pw_entry \<Rightarrow> agent_config \<Rightarrow> agent_ctx \<Rightarrow> string list \<Rightarrow> arg_result cres" where
  "process_arguments pw conf ATX argv =
     arguments_from pw conf 0 \<lparr>as_atx = ATX\<lparr>ax_client_args := []\<rparr>, as_conf = conf, as_flag_u = False, as_flag_r = False\<rparr> argv"

section \<open>Defaults and checks\<close>

definition delivery_key :: "agent_ctx \<Rightarrow> string" where
  "delivery_key ATX = (if ax_trusted ATX then ''TrustedDeliveryAgent'' else ''UntrustedDeliveryAgent'')"

definition delivery_default :: "agent_config \<Rightarrow> agent_ctx \<Rightarrow> agent_ctx \<times> int" where
  "delivery_default conf ATX =
     (if \<not> hasf ATX DAF_STDOUT \<and> ax_operating_mode ATX \<noteq> DSM_CLASSIFY \<and> (hasf ATX DAF_DELIVER_INNOCENT \<or> hasf ATX DAF_DELIVER_SPAM)
      then (case cfg_read conf (delivery_key ATX) of
              Some v \<Rightarrow>
                if ltrim (rtrim v) = [] then (ATX, EINVAL)
                else (let fmt = copy_cut 256 (v @ '' '')
                      in (ATX\<lparr>ax_mailer_args := (if ax_trusted ATX then cat_cut 256 fmt (ax_mailer_args ATX) else fmt)\<rparr>, 0))
            | None \<Rightarrow> if cfg_read conf ''DeliveryHost'' = None then (ATX, EINVAL) else (ATX, 0))
      else (ATX, 0))"

definition apply_defaults :: "agent_config \<Rightarrow> agent_ctx \<Rightarrow> agent_ctx \<times> int" where
  "apply_defaults conf ATX =
     (let (ATX1, r1) = (if hasf ATX DAF_FIXED_TR_MODE then (ATX, 0) else process_mode ATX (cfg_read conf ''TrainingMode'')) in
      if r1 \<noteq> 0 then (ATX1, EINVAL)
      else
        (let (ATX2, r2) = delivery_default conf ATX1 in
         if r2 \<noteq> 0 then (ATX2, EINVAL)
         else
           (let ATX3 = (case cfg_read conf ''QuarantineAgent'' of
                          Some q \<Rightarrow> ATX2\<lparr>ax_spam_args := copy_cut 256 (q @ '' '')\<rparr>
                        | None \<Rightarrow> ATX2)
            in if ax_feature ATX3 then (ATX3, 0)
               else (foldl (\<lambda>A v. fst (process_features A v)) ATX3
                       (map snd (filter (\<lambda>p. strcaseeq (fst p) ''Feature'') conf)), 0))))"

definition check_configuration :: "agent_config \<Rightarrow> agent_ctx \<Rightarrow> int" where
  "check_configuration conf ATX =
     (if ax_classification ATX \<noteq> DSR_NONE \<and> ax_operating_mode ATX = DSM_CLASSIFY then EINVAL
      else if ax_classification ATX \<noteq> DSR_NONE \<and> ax_source ATX = DSS_NONE \<and> \<not> hasf ATX DAF_UNLEARN then EINVAL
      else if ax_source ATX \<noteq> DSS_NONE \<and> ax_classification ATX = DSR_NONE then EINVAL
      else if ax_operating_mode ATX = DSM_NONE then EINVAL
      else if \<not> cfg_match conf ''ParseToHeaders'' ''on'' \<and> ax_users ATX = [] then EINVAL
      else 0)"

section \<open>The message\<close>

text \<open>The first of several strings that occurs.\<close>

fun first_of :: "string \<Rightarrow> string list \<Rightarrow> nat option" where
  "first_of h [] = None"
| "first_of h (n # ns) = (case strstr h n of Some i \<Rightarrow> Some i | None \<Rightarrow> first_of h ns)"

definition alias_marks :: "string \<Rightarrow> string list" where
  "alias_marks tag = map (\<lambda>c. c # tag) [CHR ''<'', CHR '' '', CHR 0x09, CHR '','', CHR '':'']"

text \<open>What follows the alias in a line of the header, and the class the alias stands for.\<close>

definition find_alias :: "string \<Rightarrow> (string \<times> dsr) option" where
  "find_alias h =
     (case first_of h (alias_marks ''spam-'') of
        Some i \<Rightarrow> Some (drop (i + 6) h, DSR_ISSPAM)
      | None \<Rightarrow> (case first_of h (alias_marks ''notspam-'') of
                  Some i \<Rightarrow> Some (drop (i + 9) h, DSR_ISINNOCENT)
                | None \<Rightarrow> None))"

fun alias_lines :: "string list \<Rightarrow> (string \<times> dsr) option" where
  "alias_lines [] = None"
| "alias_lines (h # hs) =
     (case find_alias h of
        Some y \<Rightarrow> Some y
      | None \<Rightarrow> (case hs of
                  [] \<Rightarrow> None
                | h' # _ \<Rightarrow> if take 1 h' = '' '' \<or> take 1 h' = [CHR 0x09] then alias_lines hs else None))"

text \<open>
  The user of an alias replaces the users. Unless the whole address is the name, the at sign is
  looked for in the copy of the header that has been freed before.
\<close>

definition process_parseto :: "agent_config \<Rightarrow> agent_ctx \<Rightarrow> string \<Rightarrow> (agent_ctx \<times> int) cres" where
  "process_parseto conf ATX buf =
     (if take 1 (drop 2 buf) \<noteq> '':'' then Inr (ATX, EINVAL)
      else case alias_lines (strtoks (drop 3 buf) [CHR 0x0A]) of
        None \<Rightarrow> Inr (ATX, 0)
      | Some (y, class) \<Rightarrow>
          let ATX1 = (if cfg_match conf ''ChangeModeOnParse'' ''on'' then ATX\<lparr>ax_classification := class, ax_source := DSS_ERROR\<rparr> else ATX);
              change = (\<lambda>v. cfg_match conf ''ChangeUserOnParse'' v)
          in if change ''on'' \<or> change ''full'' \<or> change ''user''
             then if change ''full''
                  then Inr (case strtok_r y (''>, '' @ [CHR 0x09, CHR 0x0D, CHR 0x0A]) of
                              None \<Rightarrow> (ATX1, 0)
                            | Some (z, _) \<Rightarrow> (ATX1\<lparr>ax_users := [z]\<rparr>, 0))
                  else Inl UseAfterFree
             else Inr (ATX1, 0))"

text \<open>The carriage returns before the last character of a line are removed.\<close>

function strip_cr :: "string \<Rightarrow> string" where
  "strip_cr s =
     (if 1 < length s \<and> s ! (length s - 2) = CHR 0x0D then strip_cr (take (length s - 2) s @ [last s]) else s)"
  by auto
termination by (relation "measure length") auto

declare strip_cr.simps [simp del]

definition user_header :: "agent_ctx \<Rightarrow> string \<Rightarrow> agent_ctx" where
  "user_header ATX buf =
     (if case_prefix ''X-DSPAM-User: '' buf \<and> ax_operating_mode ATX = DSM_PROCESS \<and> ax_classification ATX = DSR_ISINNOCENT \<and>
         ax_source ATX = DSS_ERROR
      then ATX\<lparr>ax_users := [chomp (copy_cut MAX_USERNAME_LENGTH (drop 14 buf))]\<rparr> else ATX)"

text \<open>
  The loop over the lines: the message so far, whether the body has begun, and whether the line is
  the first. A line is never empty unless it begins with a NUL.
\<close>

fun stdin_lines :: "agent_config \<Rightarrow> bool \<Rightarrow> bool \<Rightarrow> string \<Rightarrow> agent_ctx \<Rightarrow> string list \<Rightarrow> (agent_ctx \<times> string) cres" where
  "stdin_lines conf body first msg ATX [] = Inr (ATX, msg)"
| "stdin_lines conf body first msg ATX (l # ls) =
     (let s = c_str l;
          buf = (if cfg_match conf ''Broken'' ''lineStripping'' then strip_cr s else s)
      in if first \<and> take 15 buf = ''From QUARANTINE'' then stdin_lines conf body first msg ATX ls
         else
           (let parse = cfg_match conf ''ParseToHeaders'' ''on'';
                body1 = (body \<or> parse \<and> buf = [])
            in cbind (if parse \<and> \<not> body1 \<and> case_prefix ''To: '' buf then process_parseto conf ATX buf else Inr (ATX, 0)) (\<lambda>(ATX1, _).
                 stdin_lines conf body1 False (msg @ buf) (user_header ATX1 buf) ls)))"

definition read_stdin :: "agent_config \<Rightarrow> agent_ctx \<Rightarrow> string \<Rightarrow> (agent_ctx \<times> string option) cres" where
  "read_stdin conf ATX input =
     (let document = cfg_match conf ''DataSource'' ''document'';
          msg0 = (if document then '': '' @ [CHR 0x0A, CHR 0x0A] else [])
      in cbind (if ax_signature ATX = [] then stdin_lines conf document True msg0 ATX (fgets_all 1024 input) else Inr (ATX, msg0)) (\<lambda>(ATX1, msg).
           Inr (ATX1, if msg \<noteq> [] then Some msg
                      else if ax_signature ATX1 \<noteq> [] then Some [CHR 0x0A, CHR 0x0A] else None)))"

section \<open>Overwriting in the table that was read\<close>

lemma filter_replace_same:
  assumes "strcaseeq key key'"
  shows "filter (\<lambda>p. strcaseeq (fst p) key') (replace_first ps key v) =
    (case filter (\<lambda>p. strcaseeq (fst p) key') ps of [] \<Rightarrow> [] | p # r \<Rightarrow> (fst p, v) # r)"
proof -
  have "strcaseeq x key = strcaseeq x key'" for x using assms by (simp add: strcaseeq_def)
  then show ?thesis by (induction ps) auto
qed

lemma filter_replace_other:
  assumes "\<not> strcaseeq key key'"
  shows "filter (\<lambda>p. strcaseeq (fst p) key') (replace_first ps key v) = filter (\<lambda>p. strcaseeq (fst p) key') ps"
proof -
  have "strcaseeq x key \<Longrightarrow> \<not> strcaseeq x key'" for x using assms by (simp add: strcaseeq_def)
  then show ?thesis by (induction ps) auto
qed

lemma bex_filter: "(\<exists>p\<in>set ps. P p) \<longleftrightarrow> filter P ps \<noteq> []"
  by (simp add: filter_empty_conv)

lemma represents_replace:
  assumes "represents chs ps" "j < length chs" "chs ! j = a # rest" "chain_of chs key = Some (chs ! j)"
    "\<forall>i<j. \<not> strcaseeq (at_key (hd (chs ! i))) key"
  shows "represents (chs[j := a\<lparr>at_value := v\<rparr> # rest]) (replace_first ps key v)"
proof -
  let ?ch = "a\<lparr>at_value := v\<rparr> # rest"
  have k: "strcaseeq (at_key a) key" using chain_of_key[OF assms(4)] assms(3) by simp
  have "chain_of (chs[j := ?ch]) key' = (if filter (\<lambda>p. strcaseeq (fst p) key') (replace_first ps key v) \<noteq> []
      then Some (map attr_of (filter (\<lambda>p. strcaseeq (fst p) key') (replace_first ps key v))) else None)" for key'
  proof (cases "strcaseeq key key'")
    case True
    have s: "strcaseeq x key' = strcaseeq x key" for x using True by (simp add: strcaseeq_def)
    have "map attr_of (filter (\<lambda>p. strcaseeq (fst p) key) ps) = a # rest"
      using assms(1,3,4) by (auto simp: represents_def split: if_splits)
    then obtain p r where "filter (\<lambda>p. strcaseeq (fst p) key) ps = p # r" "attr_of p = a" "map attr_of r = rest" by auto
    then have "filter (\<lambda>p. strcaseeq (fst p) key') (replace_first ps key v) = (fst p, v) # r" "attr_of (fst p, v) = a\<lparr>at_value := v\<rparr>"
      using filter_replace_same[OF True, of ps v] by (auto simp: s attr_of_def)
    moreover have "chain_of (chs[j := ?ch]) key' = Some ?ch" using chain_of_update[of j chs ?ch key'] assms(2,5) k by (simp add: s)
    ultimately show ?thesis using \<open>map attr_of r = rest\<close> by simp
  next
    case False
    then have "\<not> strcaseeq (at_key a) key'" using k by (auto simp: strcaseeq_def)
    then have "chain_of (chs[j := ?ch]) key' = chain_of chs key'" using chain_of_update_other[OF assms(2), of ?ch key'] assms(3) by simp
    then show ?thesis using assms(1) filter_replace_other[OF False] by (simp add: represents_def bex_filter)
  qed
  moreover have "[] \<notin> set (chs[j := ?ch])" using assms(1) set_update_subset_insert[of chs j ?ch] by (auto simp: represents_def)
  ultimately show ?thesis unfolding represents_def bex_filter by blast
qed

text \<open>On a table cut to its size \<^const>\<open>cfg_overwrite\<close> does what \<^verbatim>\<open>_ds_overwrite_attribute\<close> does.\<close>

lemma overwrite_tight:
  assumes "cfg_holds table chs" "represents chs ps" "length table = length chs + 1"
  shows "case cfg_overwrite ps key v of
      Inl e \<Rightarrow> ds_overwrite_attribute True table key v = Inl e
    | Inr ps' \<Rightarrow> \<exists>t chs'. ds_overwrite_attribute True table key v = Inr (t, 0) \<and> cfg_holds t chs' \<and> represents chs' ps' \<and> length t = length chs' + 1"
proof (cases rule: find_cases[OF assms(1), of key])
  case 1
  then have "cfg_read ps key = None" using represents_read[OF assms(2), of key] by simp
  moreover have "ds_add_attribute True table key v = Inl OutOfBounds" using add_holds[OF assms(1), of key v] 1 assms(3) by simp
  ultimately show ?thesis using 1 by (simp add: cfg_overwrite_def ds_overwrite_attribute_def)
next
  case (2 j)
  obtain a rest where ar: "chs ! j = a # rest" using holds_ne[OF assms(1) 2(1)] by (cases "chs ! j") auto
  have "cfg_read ps key \<noteq> None" using represents_read[OF assms(2), of key] 2(2) by (metis option.distinct(1) option.map_disc_iff)
  moreover have "ds_overwrite_attribute True table key v = Inr (table[j := Some (a\<lparr>at_value := v\<rparr> # rest)], 0)"
    using 2 slot_at_holds(1)[OF assms(1) 2(1)] ar assms(3) by (simp add: ds_overwrite_attribute_def slot_write_def)
  moreover have "cfg_holds (table[j := Some (a\<lparr>at_value := v\<rparr> # rest)]) (chs[j := a\<lparr>at_value := v\<rparr> # rest])"
    using hold_update[OF assms(1) 2(1)] by simp
  ultimately show ?thesis using represents_replace[OF assms(2) 2(1) ar 2(2,5), of v] assms(3) by (auto simp: cfg_overwrite_def)
qed

section \<open>Who the agent acts for\<close>

definition path_safe :: "string \<Rightarrow> bool" where
  "path_safe u \<longleftrightarrow> length u < MAX_USERNAME_LENGTH \<and> strstr u ''../'' = None \<and> strstr u (''..'' @ [CHR 0x5C]) = None"

text \<open>What the command line may not change for a user who is not trusted.\<close>

definition confined :: "pw_entry \<Rightarrow> agent_ctx \<Rightarrow> bool" where
  "confined pw ATX \<longleftrightarrow> \<not> ax_trusted ATX \<and> ax_users ATX = [pw_name pw] \<and> (ax_recipients ATX = None \<or> ax_recipients ATX = Some []) \<and>
     ax_mailer_args ATX = [] \<and> ax_operating_mode ATX \<noteq> DSM_DAEMON"

definition names_safe :: "pw_entry \<Rightarrow> agent_ctx \<Rightarrow> bool" where
  "names_safe pw ATX \<longleftrightarrow> (\<forall>u\<in>set (ax_users ATX). path_safe u \<or> u = pw_name pw)"

lemma lower_char: "c_tolower c = d \<longleftrightarrow> c = d" if "d \<in> {CHR ''.'', CHR ''/'', CHR 0x5C}"
proof -
  have "c_tolower c \<notin> {CHR ''.'', CHR ''/'', CHR 0x5C}" if "c_isupper c"
  proof -
    have n: "65 \<le> (of_char c :: nat)" "(of_char c :: nat) \<le> 90" using that by (simp_all add: c_isupper_def)
    then have "of_char (c_tolower c) = (of_char c :: nat) + 32" using that by (simp add: c_tolower_def)
    then show ?thesis using n by auto
  qed
  then show ?thesis using that by (cases "c_isupper c") (auto simp: c_tolower_def c_isupper_def)
qed

lemma strstr_lower:
  assumes "set n \<subseteq> {CHR ''.'', CHR ''/'', CHR 0x5C}"
  shows "strstr (map c_tolower s) n = strstr s n"
proof (induction s)
  case (Cons c s)
  have "map c_tolower xs = ys \<longleftrightarrow> xs = ys" if "set ys \<subseteq> {CHR ''.'', CHR ''/'', CHR 0x5C}" for xs ys
    using that
  proof (induction xs arbitrary: ys)
    case (Cons x xs)
    then show ?case using lower_char[of "hd ys" x] by (cases ys) auto
  qed auto
  then have "take (length n) (map c_tolower (c # s)) = n \<longleftrightarrow> take (length n) (c # s) = n" using assms by (simp only: take_map)
  then show ?case using Cons by simp
qed simp

lemma user_case_safe:
  "strstr (user_case conf arg) ''../'' = strstr arg ''../''" "strstr (user_case conf arg) (''..'' @ [CHR 0x5C]) = strstr arg (''..'' @ [CHR 0x5C])"
  "length (user_case conf arg) = length arg"
  using strstr_lower[of "''../''" arg] strstr_lower[of "''..'' @ [CHR 0x5C]" arg] by (auto simp: user_case_def lc_def)

lemma if_eqE: "(if b then x else y) = z \<Longrightarrow> (x = z \<Longrightarrow> P) \<Longrightarrow> (y = z \<Longrightarrow> P) \<Longrightarrow> P"
  by (cases b) auto

text \<open>What every option but the lists of users leaves alone.\<close>

definition same_target :: "agent_ctx \<Rightarrow> agent_ctx \<Rightarrow> bool" where
  "same_target A A' \<longleftrightarrow> ax_trusted A' = ax_trusted A \<and> ax_users A' = ax_users A \<and> ax_recipients A' = ax_recipients A \<and>
     (ax_trusted A \<or> ax_mailer_args A' = ax_mailer_args A) \<and> ax_operating_mode A' \<in> {ax_operating_mode A, DSM_CLASSIFY, DSM_PROCESS}"

lemma same_target_refl [simp]: "same_target A A"
  by (simp add: same_target_def)

lemma same_target_trans: "same_target A B \<Longrightarrow> same_target B C \<Longrightarrow> same_target A C"
  by (auto simp: same_target_def)

lemma same_target_upd [simp]:
  "same_target A (A\<lparr>ax_mailfrom := s\<rparr>)" "same_target A (A\<lparr>ax_signature := s\<rparr>)" "same_target A (A\<lparr>ax_classification := k\<rparr>)"
  "same_target A (A\<lparr>ax_source := src\<rparr>)" "same_target A (A\<lparr>ax_operating_mode := DSM_CLASSIFY, ax_training_mode := t\<rparr>)"
  "same_target A (A\<lparr>ax_operating_mode := DSM_PROCESS\<rparr>)" "same_target A (A\<lparr>ax_training_mode := t\<rparr>)" "same_target A (add_flag f A)"
  "same_target A (A\<lparr>ax_feature := b\<rparr>)" "same_target A (A\<lparr>ax_training_buffer := tb\<rparr>)" "same_target A (A\<lparr>ax_client_args := s\<rparr>)"
  "same_target A (A\<lparr>ax_client_mode := b\<rparr>)" "same_target A (A\<lparr>ax_fork := b\<rparr>)"
  by (simp_all add: same_target_def add_flag_def)

lemma same_target_add_flag [simp]: "same_target (add_flag f A) B = same_target A B" "same_target A (add_flag f B) = same_target A B"
  by (simp_all add: same_target_def add_flag_def)

lemma process_mode_target: "process_mode A m = (A', r) \<Longrightarrow> same_target A A'"
  by (auto simp: process_mode_def split: option.splits if_splits)

lemma process_features_target: "same_target A (fst (process_features A f))"
proof -
  have step: "same_target (fst st) (fst (process_feature st p))" for st p
    by (cases st) (simp add: process_feature_def Let_def)
  have "same_target (fst st) (fst (foldl process_feature st ps))" for ps st
  proof (induction ps arbitrary: st)
    case (Cons p ps)
    then show ?case using same_target_trans[OF step[of st p] Cons.IH[of "process_feature st p"]] by simp
  qed simp
  then show ?thesis unfolding process_features_def by (metis fst_conv)
qed

lemma deliver_flags_target: "deliver_flags A ps = Some A' \<Longrightarrow> same_target A A'"
proof (induction ps arbitrary: A)
  case (Cons p ps)
  from Cons.prems show ?case unfolding deliver_flags.simps by (elim if_eqE) (auto dest: Cons.IH)
qed simp

lemma client_argument_target: "same_target (as_atx st) (as_atx (client_argument conf i st arg))"
  by (simp add: client_argument_def Let_def)

lemma option_parts_target:
  "class_argument st v = ArgNext st' \<Longrightarrow> same_target (as_atx st) (as_atx st')"
  "source_argument st v = ArgNext st' \<Longrightarrow> same_target (as_atx st) (as_atx st')"
  "mailer_argument i st v = ArgNext st' \<Longrightarrow> same_target (as_atx st) (as_atx st')"
  "profile_argument st v = Inr (ArgNext st') \<Longrightarrow> same_target (as_atx st) (as_atx st')"
  by (auto simp: class_argument_def source_argument_def mailer_argument_def profile_argument_def cbind_Inr_iff Let_def same_target_def
      split: if_splits)

lemma option_argument_target:
  assumes "option_argument i st arg = Inr (ArgNext st')"
  shows "same_target (as_atx st) (as_atx st')"
proof -
  note t = option_parts_target deliver_flags_target and f = same_target_trans[OF same_target_upd(9) process_features_target]
  show ?thesis using assms unfolding option_argument_def Let_def
    by (elim if_eqE) (auto dest: t intro: f split: option.splits)
qed

lemma user_argument_keeps:
  assumes "user_argument pw st arg = ArgNext st'"
  shows "names_safe pw (as_atx st) \<Longrightarrow> names_safe pw (as_atx st')" "confined pw (as_atx st) \<Longrightarrow> confined pw (as_atx st')"
  using assms user_case_safe[of "as_conf st" arg]
  by (auto simp: user_argument_def names_safe_def confined_def path_safe_def Let_def split: if_splits)

lemma rcpt_argument_keeps:
  assumes "rcpt_argument pw st arg = Inr (ArgNext st')"
  shows "ax_users (as_atx st') = ax_users (as_atx st)" "confined pw (as_atx st) \<Longrightarrow> confined pw (as_atx st')"
  using assms by (auto simp: rcpt_argument_def confined_def Let_def cbind_Inr_iff split: if_splits)

lemma same_target_safe:
  "same_target A A' \<Longrightarrow> names_safe pw A \<Longrightarrow> names_safe pw A'" "same_target A A' \<Longrightarrow> confined pw A \<Longrightarrow> confined pw A'"
  by (auto simp: same_target_def names_safe_def confined_def)

lemma later_argument_keeps:
  assumes "later_argument pw i st arg = Inr (ArgNext st')"
  shows "names_safe pw (as_atx st) \<Longrightarrow> names_safe pw (as_atx st')" "confined pw (as_atx st) \<Longrightarrow> confined pw (as_atx st')"
proof -
  have m: "same_target (as_atx st) (as_atx st')" if "(case process_mode (as_atx st) (Some (drop 7 arg)) of
        (ATX', r) \<Rightarrow> if r \<noteq> 0 then ArgReturn EINVAL else ArgNext (st\<lparr>as_atx := add_flag DAF_FIXED_TR_MODE ATX'\<rparr>)) = ArgNext st'"
    using that process_mode_target[of "as_atx st" "Some (drop 7 arg)"] by (auto split: prod.splits if_splits)
  have "(names_safe pw (as_atx st) \<longrightarrow> names_safe pw (as_atx st')) \<and> (confined pw (as_atx st) \<longrightarrow> confined pw (as_atx st'))"
  proof (cases "arg = ''--daemon'' \<and> ax_trusted (as_atx st)")
    case True
    then have "as_atx st' = (as_atx st)\<lparr>ax_operating_mode := DSM_DAEMON\<rparr>" using assms by (auto simp: later_argument_def)
    then show ?thesis using True by (simp add: names_safe_def confined_def)
  next
    case False
    have "same_target (as_atx st) (as_atx st') \<or> rcpt_argument pw st arg = Inr (ArgNext st') \<or> user_argument pw st arg = ArgNext st'"
      using assms unfolding later_argument_def Let_def if_not_P[OF False] by (elim if_eqE) (auto dest: m option_argument_target)
    then show ?thesis
    proof (elim disjE)
      assume "rcpt_argument pw st arg = Inr (ArgNext st')"
      then show ?thesis using rcpt_argument_keeps[of pw st arg st'] by (simp add: names_safe_def)
    qed (blast dest: same_target_safe user_argument_keeps)+
  qed
  then show "names_safe pw (as_atx st) \<Longrightarrow> names_safe pw (as_atx st')" "confined pw (as_atx st) \<Longrightarrow> confined pw (as_atx st')" by auto
qed

lemma process_argument_keeps:
  assumes "process_argument pw conf i st arg = Inr (ArgNext st')"
  shows "names_safe pw (as_atx st) \<Longrightarrow> names_safe pw (as_atx st')" "confined pw (as_atx st) \<Longrightarrow> confined pw (as_atx st')"
proof -
  define st1 where "st1 = (if (as_flag_u st \<or> as_flag_r st) \<and> (take 1 arg = ''-'' \<or> arg = []) then st\<lparr>as_flag_u := False, as_flag_r := False\<rparr> else st)"
  have 1: "as_atx st1 = as_atx st" by (simp add: st1_def)
  note c = client_argument_target[of st1 conf i arg, unfolded 1]
  have l: "(names_safe pw (as_atx st) \<longrightarrow> names_safe pw (as_atx st')) \<and> (confined pw (as_atx st) \<longrightarrow> confined pw (as_atx st'))"
    if "later_argument pw i (client_argument conf i st1 arg) arg = Inr (ArgNext st')"
    using later_argument_keeps[OF that] same_target_safe[OF c, of pw] by blast
  have "as_atx st' = as_atx st1 \<or> as_atx st' = (as_atx st1)\<lparr>ax_recipients := Some (case ax_recipients (as_atx st1) of None \<Rightarrow> [] | Some l \<Rightarrow> l)\<rparr> \<or>
      later_argument pw i (client_argument conf i st1 arg) arg = Inr (ArgNext st')"
    using assms unfolding process_argument_def Let_def st1_def[symmetric] by (elim if_eqE) auto
  then have "(names_safe pw (as_atx st) \<longrightarrow> names_safe pw (as_atx st')) \<and> (confined pw (as_atx st) \<longrightarrow> confined pw (as_atx st'))"
    unfolding 1
  proof (elim disjE)
    assume "as_atx st' = (as_atx st)\<lparr>ax_recipients := Some (case ax_recipients (as_atx st) of None \<Rightarrow> [] | Some l \<Rightarrow> l)\<rparr>"
    then show ?thesis by (auto simp: names_safe_def confined_def)
  qed (simp, rule l)
  then show "names_safe pw (as_atx st) \<Longrightarrow> names_safe pw (as_atx st')" "confined pw (as_atx st) \<Longrightarrow> confined pw (as_atx st')" by blast+
qed

lemma arguments_from_keeps:
  "arguments_from pw conf i st args = Inr (ArgNext st') \<Longrightarrow>
    (names_safe pw (as_atx st) \<longrightarrow> names_safe pw (as_atx st')) \<and> (confined pw (as_atx st) \<longrightarrow> confined pw (as_atx st'))"
proof (induction args arbitrary: i st)
  case (Cons arg args)
  then obtain r where "process_argument pw conf i st arg = Inr r"
      "(case r of ArgNext st1 \<Rightarrow> arguments_from pw conf (Suc i) st1 args | _ \<Rightarrow> Inr r) = Inr (ArgNext st')"
    by (auto simp: cbind_Inr_iff)
  then obtain st1 where s: "process_argument pw conf i st arg = Inr (ArgNext st1)" "arguments_from pw conf (Suc i) st1 args = Inr (ArgNext st')"
    by (cases r) auto
  show ?case using process_argument_keeps[OF s(1)] Cons.IH[OF s(2)] by blast
qed auto

section \<open>Properties\<close>





end
