(* ===== verification/Ds_AgentMsg.thy ===== *)
theory Ds_AgentMsg
  imports Ds_Agent Ds_Degenerate
begin

text \<open>
  What the agent does to a message (dspam.c): it looks for the signature of an earlier
  classification, embeds a new one, tags the subject and the text, and adds headers with the
  result. The message is the one of decode.c; allocations succeed.
\<close>

definition SIGNATURE_BEGIN :: string where "SIGNATURE_BEGIN = ''!DSPAM:''"
definition SIGNATURE_END :: string where "SIGNATURE_END = ''!''"
definition LOOSE_SIGNATURE_BEGIN :: string where "LOOSE_SIGNATURE_BEGIN = ''X-DSPAM-Signature:''"
definition SIGNATURE_DELIMITER :: string where "SIGNATURE_DELIMITER = '': ''"

abbreviation nl :: string where "nl \<equiv> [CHR 0x0A]"

definition in_headers :: "agent_ctx \<Rightarrow> bool" where
  "in_headers ATX \<longleftrightarrow> ds_pref_val (ax_PTX ATX) ''signatureLocation'' = ''headers''"

section \<open>Finding a signature\<close>

definition c_isalnum :: "char \<Rightarrow> bool" where
  "c_isalnum c \<longleftrightarrow> (let n = of_char c :: nat in 48 \<le> n \<and> n \<le> 57 \<or> 65 \<le> n \<and> n \<le> 90 \<or> 97 \<le> n \<and> n \<le> 122)"

definition signature_char :: "char \<Rightarrow> bool" where
  "signature_char c \<longleftrightarrow> c_isalnum c \<or> c = CHR '' '' \<or> c = CHR '',''"

text \<open>Where the mark begins, where the signature begins, and where it ends.\<close>

definition locate_signature :: "string \<Rightarrow> (nat \<times> nat \<times> nat) option" where
  "locate_signature body =
     (let place = (\<lambda>e b. Some (e, b, b + length (takeWhile signature_char (drop b body)))) in
      case strstr body SIGNATURE_BEGIN of
        Some e \<Rightarrow> place e (e + length SIGNATURE_BEGIN)
      | None \<Rightarrow>
          (case strstr body LOOSE_SIGNATURE_BEGIN of
             None \<Rightarrow> None
           | Some e \<Rightarrow>
               (case strstr (drop e body) SIGNATURE_DELIMITER of
                  None \<Rightarrow> None
                | Some d \<Rightarrow> place e (e + d + length SIGNATURE_DELIMITER))))"

record find_state =
  fi_atx :: agent_ctx
  fi_signed :: nat
  fi_have :: bool

text \<open>
  A signature shorter than 128 is copied without its leading blanks; from a message that is to
  be classified it is erased with the character that follows it, which is read beyond the text
  when the signature ends it.
\<close>

definition take_signature :: "find_state \<Rightarrow> ds_message_part \<Rightarrow> string \<Rightarrow> (find_state \<times> ds_message_part) cres" where
  "take_signature fi block body =
     (case locate_signature body of
        None \<Rightarrow> Inr (fi, block)
      | Some (erase_begin, sb, se) \<Rightarrow>
          if se - sb < 128
          then
            (let ATX = fi_atx fi;
                 ATX' = ATX\<lparr>ax_signature := dropWhile c_isspace (take (se - sb) (drop sb body))\<rparr>;
                 fi' = fi\<lparr>fi_atx := ATX', fi_have := True\<rparr>
             in if \<not> in_headers ATX \<and> fi_signed fi = 0 \<and> ax_classification ATX = DSR_NONE
                then if se < length body then Inr (fi', block\<lparr>mp_body := take erase_begin body @ drop (se + 1) body\<rparr>)
                     else Inl OutOfBounds
                else Inr (fi', block))
          else Inr (fi, block))"

definition set_8bit :: "ds_header \<Rightarrow> ds_header" where
  "set_8bit h = (if strcaseeq (hf_heading h) ''Content-Transfer-Encoding'' then h\<lparr>hf_data := ''8bit''\<rparr> else h)"

text \<open>An encoded part that is no attachment is decoded; a signed message keeps the original.\<close>

definition decode_part :: "nat \<Rightarrow> ds_message_part \<Rightarrow> ds_message_part cres" where
  "decode_part is_signed block =
     (if (mp_encoding block = EN_BASE64 \<or> mp_encoding block = EN_QUOTED_PRINTABLE) \<and> mp_content_disposition block \<noteq> PCD_ATTACHMENT
      then cbind (ds_decode_block block) (\<lambda>decoded.
             let body = (case decoded of None \<Rightarrow> [] | Some s \<Rightarrow> s) in
             Inr (if is_signed \<noteq> 0 then block\<lparr>mp_original_signed_body := Some (mp_body block), mp_body := body\<rparr>
                  else block\<lparr>mp_encoding := EN_8BIT, mp_headers := map set_8bit (mp_headers block), mp_body := body\<rparr>))
      else Inr block)"

text \<open>The text to search, and the state when the header itself is the signature.\<close>

definition header_signature :: "find_state \<Rightarrow> ds_message_part \<Rightarrow> find_state \<times> string" where
  "header_signature fi block =
     (if in_headers (fi_atx fi) \<and> \<not> fi_have fi
      then (case find (\<lambda>h. strcaseeq (hf_heading h) ''X-DSPAM-Signature'') (mp_headers block) of
              None \<Rightarrow> (fi, mp_body block)
            | Some h \<Rightarrow>
                if take (length SIGNATURE_BEGIN) (hf_data h) = SIGNATURE_BEGIN then (fi, hf_data h)
                else (fi\<lparr>fi_atx := (fi_atx fi)\<lparr>ax_signature := copy_cut 128 (hf_data h)\<rparr>, fi_have := True\<rparr>, mp_body block))
      else (fi, mp_body block))"

definition find_in_part :: "nat \<Rightarrow> find_state \<Rightarrow> ds_message_part \<Rightarrow> (find_state \<times> ds_message_part) cres" where
  "find_in_part i fi0 block0 =
     (let s1 = (if mp_media_type block0 = MT_MULTIPART \<and> mp_media_subtype block0 = MST_SIGNED then 1 else fi_signed fi0);
          fi1 = fi0\<lparr>fi_signed := (if in_headers (fi_atx fi0) then 2 else s1)\<rparr>
      in if tokenizable i block0
         then cbind (decode_part (fi_signed fi1) block0) (\<lambda>block.
                let (fi, body) = header_signature fi1 block in
                if \<not> ax_train_pristine (fi_atx fi) \<and> (\<not> fi_have fi \<or> \<not> in_headers (fi_atx fi))
                then take_signature fi block body else Inr (fi, block))
         else Inr (fi1, block0))"

fun find_in_parts :: "nat \<Rightarrow> find_state \<Rightarrow> ds_message_part list \<Rightarrow> (find_state \<times> ds_message_part list) cres" where
  "find_in_parts i fi [] = Inr (fi, [])"
| "find_in_parts i fi (b # bs) =
     cbind (find_in_part i fi b) (\<lambda>(fi1, b1).
     cbind (find_in_parts (Suc i) fi1 bs) (\<lambda>(fi2, bs2). Inr (fi2, b1 # bs2)))"

definition find_signature :: "agent_ctx \<Rightarrow> ds_message \<Rightarrow> (agent_ctx \<times> ds_message \<times> bool) cres" where
  "find_signature ATX message =
     (if ax_signature ATX \<noteq> [] then Inr (ATX, message, True)
      else cbind (find_in_parts 0 \<lparr>fi_atx = ATX, fi_signed = 0, fi_have = False\<rparr> (ms_components message)) (\<lambda>(fi, parts).
             Inr (fi_atx fi, \<lparr>ms_components = parts, ms_protect = (fi_signed fi \<noteq> 0)\<rparr>, fi_have fi)))"

section \<open>Embedding a signature\<close>

definition toplevel_boundary :: "ds_message_part \<Rightarrow> string" where
  "toplevel_boundary block =
     (case mp_terminating_boundary block of
        Some b \<Rightarrow> if mp_media_type block = MT_MULTIPART then copy_cut 128 b else []
      | None \<Rightarrow> [])"

definition takes_text :: "string \<Rightarrow> nat \<Rightarrow> ds_message_part \<Rightarrow> bool" where
  "takes_text tlb i block \<longleftrightarrow>
     (mp_media_type block = MT_TEXT \<or> mp_boundary block = None \<and> i = 0 \<and> mp_media_type block \<noteq> MT_MULTIPART) \<and>
     (tlb = [] \<or> mp_body block \<noteq> []) \<and> mp_content_disposition block \<noteq> PCD_ATTACHMENT"

text \<open>The text goes before the closing tag of an HTML part; \<open>after\<close> follows what is put back.\<close>

definition close_tag :: "ds_message_part \<Rightarrow> nat option" where
  "close_tag block =
     (if mp_media_subtype block = MST_HTML
      then (case strcasestr (mp_body block) ''</body'' of Some k \<Rightarrow> Some k | None \<Rightarrow> strcasestr (mp_body block) ''</html'')
      else None)"

definition insert_text :: "string \<Rightarrow> string \<Rightarrow> ds_message_part \<Rightarrow> ds_message_part" where
  "insert_text s after block =
     (case close_tag block of
        None \<Rightarrow> block\<lparr>mp_body := mp_body block @ s\<rparr>
      | Some k \<Rightarrow> block\<lparr>mp_body := take k (mp_body block) @ s @ drop k (mp_body block) @ after\<rparr>)"

fun insert_in_parts :: "string \<Rightarrow> string \<Rightarrow> string \<Rightarrow> nat \<Rightarrow> ds_message_part list \<Rightarrow> ds_message_part list" where
  "insert_in_parts s after tlb i [] = []"
| "insert_in_parts s after tlb i (b # bs) =
     (if takes_text tlb i b then insert_text s after b else b) # insert_in_parts s after tlb (Suc i) bs"

definition signature_text :: "string \<Rightarrow> string" where
  "signature_text signature = nl @ SIGNATURE_BEGIN @ signature @ SIGNATURE_END @ nl @ nl"

definition is_content_field :: "ds_header \<Rightarrow> bool" where
  "is_content_field h \<longleftrightarrow> strcaseeq (hf_heading h) ''Content-Type'' \<or> strcaseeq (hf_heading h) ''Content-Disposition''"

text \<open>
  A signed message becomes a part of a new multipart message, followed by a part with the
  signature. The dispositions of the new parts are never set: \<open>junk\<close> is what the memory holds. The
  boundary is made from the process number. The list of headers remembers its last node: when that
  one is moved the new field is linked to freed memory.
\<close>

definition embed_signed :: "content_disposition \<Rightarrow> string \<Rightarrow> agent_ctx \<Rightarrow> ds_message \<Rightarrow> (ds_message \<times> int) cres" where
  "embed_signed junk pid ATX message =
     (case ms_components message of
        [] \<Rightarrow> Inr (message, EFAILURE)
      | block # rest \<Rightarrow>
          let boundary = copy_cut 256 (''DSPAM_MULTIPART_EX-'' @ pid);
              inner = \<lparr>mp_headers = filter is_content_field (mp_headers block), mp_body = [], mp_original_signed_body = None,
                 mp_boundary = None, mp_terminating_boundary = mp_terminating_boundary block, mp_encoding = mp_encoding block,
                 mp_original_encoding = mp_original_encoding block, mp_media_type = mp_media_type block,
                 mp_media_subtype = mp_media_subtype block, mp_content_disposition = junk\<rparr>;
              outer = block\<lparr>mp_headers := filter (\<lambda>h. \<not> is_content_field h) (mp_headers block) @
                   [ds_create_header_field (copy_cut 256 (''Content-Type: multipart/mixed; boundary='' @ boundary))],
                 mp_terminating_boundary := Some boundary, mp_media_type := MT_MULTIPART, mp_media_subtype := MST_MIXED\<rparr>;
              plain = \<lparr>mp_headers = [], mp_body = [], mp_original_signed_body = None, mp_boundary = None,
                 mp_terminating_boundary = Some boundary, mp_encoding = EN_7BIT, mp_original_encoding = EN_7BIT,
                 mp_media_type = MT_TEXT, mp_media_subtype = MST_PLAIN, mp_content_disposition = junk\<rparr>;
              sig = plain\<lparr>mp_terminating_boundary := Some (copy_cut 256 (boundary @ ''--'' @ nl @ nl)),
                 mp_body := copy_cut 256 (SIGNATURE_BEGIN @ ax_signature ATX @ SIGNATURE_END @ nl),
                 mp_headers := [ds_create_header_field ''Content-Type: text/plain'',
                   ds_create_header_field (copy_cut 256 (''X-DSPAM-Signature: '' @ ax_signature ATX))]\<rparr>
          in if mp_headers block \<noteq> [] \<and> is_content_field (last (mp_headers block)) then Inl UseAfterFree
             else Inr (message\<lparr>ms_components := butlast (outer # inner # rest) @ [plain, sig]\<rparr>, 0))"

definition embed_signature :: "content_disposition \<Rightarrow> string \<Rightarrow> dst \<Rightarrow> agent_ctx \<Rightarrow> ds_message \<Rightarrow> (ds_message \<times> int) cres" where
  "embed_signature junk pid mode ATX message =
     (if mode = DST_NOTRAIN \<or> ax_signature ATX = [] then Inr (message, 0)
      else case ms_components message of
        [] \<Rightarrow> Inr (message, EFAILURE)
      | block # _ \<Rightarrow>
          if mp_media_subtype block = MST_SIGNED then embed_signed junk pid ATX message
          else Inr (message\<lparr>ms_components :=
                  insert_in_parts (signature_text (ax_signature ATX)) (nl @ nl) (toplevel_boundary block) 0 (ms_components message)\<rparr>, 0))"

section \<open>Tags\<close>

text \<open>\<open>txt_file\<close> is the contents of the file with the text for the result, None when it cannot be opened.\<close>

definition embed_msgtag :: "string option \<Rightarrow> dsr \<Rightarrow> ds_message \<Rightarrow> ds_message \<times> int" where
  "embed_msgtag txt_file result message =
     (if result \<noteq> DSR_ISSPAM \<and> result \<noteq> DSR_ISINNOCENT then (message, EINVAL)
      else case ms_components message of
        [] \<Rightarrow> (message, EFAILURE)
      | block # _ \<Rightarrow>
          if mp_media_subtype block = MST_SIGNED then (message, EINVAL)
          else (case txt_file of
                  None \<Rightarrow> (message, EFILE)
                | Some contents \<Rightarrow>
                    (message\<lparr>ms_components := insert_in_parts (nl @ concat (map c_str (fgets_all 1024 contents))) [] (toplevel_boundary block) 0
                       (ms_components message)\<rparr>, 0)))"

definition spam_subject :: "agent_ctx \<Rightarrow> string" where
  "spam_subject ATX =
     (let p = ds_pref_val (ax_PTX ATX) ''spamSubject'' in
      if take 1 p \<noteq> nl \<and> p \<noteq> [] then copy_cut 16 p else ''[SPAM]'')"

definition tag_data :: "string \<Rightarrow> string \<Rightarrow> string" where
  "tag_data tag data = (if take (length tag) data \<noteq> tag then tag @ '' '' @ data else data)"

definition is_subject :: "ds_header \<Rightarrow> bool" where
  "is_subject h \<longleftrightarrow> strcaseeq (hf_heading h) ''Subject''"

definition tag_header :: "string \<Rightarrow> ds_header \<Rightarrow> ds_header" where
  "tag_header tag h =
     (if is_subject h
      then h\<lparr>hf_data := tag_data tag (hf_data h), hf_original_data := map_option (tag_data tag) (hf_original_data h)\<rparr>
      else h)"

definition tag_message :: "agent_ctx \<Rightarrow> ds_message \<Rightarrow> ds_message cres" where
  "tag_message ATX message =
     (case ms_components message of
        [] \<Rightarrow> Inl NullDeref
      | block # rest \<Rightarrow>
          let tag = spam_subject ATX;
              hs = map (tag_header tag) (mp_headers block);
              hs' = (if \<exists>h\<in>set hs. is_subject h then hs else hs @ [ds_create_header_field (copy_cut 80 (''Subject: '' @ tag))])
          in Inr (message\<lparr>ms_components := block\<lparr>mp_headers := hs'\<rparr> # rest\<rparr>))"

section \<open>Headers with the result\<close>

text \<open>\<^verbatim>\<open>printf\<close> of a floating-point number with \<open>n\<close> digits after the point, and of an integer.\<close>

definition digit :: "nat \<Rightarrow> char" where
  "digit n = char_of (48 + n)"

fun decimal :: "nat \<Rightarrow> string" where
  "decimal n = (if n < 10 then [digit n] else decimal (n div 10) @ [digit (n mod 10)])"

declare decimal.simps [simp del]

definition show_fixed :: "nat \<Rightarrow> fp \<Rightarrow> string" where
  "show_fixed n x =
     (case x of
        NaN \<Rightarrow> ''nan''
      | Inf s \<Rightarrow> if s then ''inf'' else ''-inf''
      | Fin q \<Rightarrow>
          let k = nat (round_half_even (\<bar>q\<bar> * 10 ^ n));
              frac = decimal (k mod 10 ^ n)
          in (if q < 0 then ''-'' else []) @ decimal (k div 10 ^ n) @
             (if n = 0 then [] else ''.'' @ replicate (n - length frac) (CHR ''0'') @ frac))"

definition hex_digit :: "nat \<Rightarrow> char" where
  "hex_digit n = (if n < 10 then char_of (48 + n) else char_of (87 + n))"

text \<open>The name of a token: at most 112 characters are begun, others than printable ones in hexadecimal.\<close>

fun factor_name :: "nat \<Rightarrow> string \<Rightarrow> string" where
  "factor_name t [] = []"
| "factor_name t (c # s) =
     (if t < 112
      then if 32 \<le> (of_char c :: nat) \<and> (of_char c :: nat) < 127 \<and> c \<noteq> CHR 0x25 then c # factor_name (t + 1) s
           else [CHR 0x25, hex_digit (of_char c div 16), hex_digit (of_char c mod 16)] @ factor_name (t + 3) s
      else [])"

definition factors_data :: "dspam_factor list \<Rightarrow> string" where
  "factors_data fs =
     foldl (\<lambda>data f. cat_cut 10240 (cat_cut 10240 data ('','' @ nl @ [CHR 0x09]))
              (factor_name 0 (fa_token_name f) @ copy_cut 15 ('', '' @ show_fixed 5 (fa_value f))))
       (''X-DSPAM-Factors: '' @ decimal (length fs)) fs"

definition improbability :: "('s, 'm) dspam_ctx \<Rightarrow> string" where
  "improbability CTX =
     (let p0 = fcast single_fmt (cx_confidence CTX);
          p = (if flt (dlit (999999/1000000)) p0 then fcast single_fmt (dlit (999999/1000000)) else p0);
          odds = fdiv single_fmt p (fadd single_fmt (Fin 1) (fneg p))
      in ''X-DSPAM-Improbability: 1 in '' @ show_fixed 0 (fadd double_fmt (Fin 1) (fmul single_fmt (Fin 100) odds)) @
         '' chance of being '' @ (if cx_result CTX = DSR_ISINNOCENT then ''spam'' else ''ham''))"

text \<open>The lines in their order; \<open>now\<close> is the time as \<^verbatim>\<open>ctime_r\<close> gives it.\<close>

definition xdspam_lines :: "string \<Rightarrow> agent_config \<Rightarrow> ('s, 'm) dspam_ctx \<Rightarrow> agent_ctx \<Rightarrow> string list" where
  "xdspam_lines now conf CTX ATX =
     [(if cx_source CTX = DSS_ERROR then ''X-DSPAM-Reclassified'' else ''X-DSPAM-Result'') @ '': '' @ cx_class CTX] @
     (if cx_source CTX = DSS_NONE then [''X-DSPAM-Processed: '' @ chomp now] else []) @
     (if cx_source CTX \<noteq> DSS_ERROR
      then [''X-DSPAM-Confidence: '' @ show_fixed 4 (cx_confidence CTX)] @
           (if cfg_match conf ''ImprobabilityDrive'' ''on'' then [improbability CTX] else []) @
           [''X-DSPAM-Probability: '' @ show_fixed 4 (cx_probability CTX)] @
           (if cx_training_mode CTX \<noteq> DST_NOTRAIN \<and> ax_signature ATX \<noteq> [] then [''X-DSPAM-Signature: '' @ ax_signature ATX] else []) @
           (if cx_result CTX = DSR_ISSPAM \<and> (ax_managed_group ATX \<noteq> [] \<or> ds_pref_val (ax_PTX ATX) ''localStore'' \<noteq> [])
            then [''X-DSPAM-User: '' @ (case cx_username CTX of None \<Rightarrow> ''(null)'' | Some u \<Rightarrow> u)] else []) @
           (case cx_factors CTX of
              Some fs \<Rightarrow> if ds_pref_val (ax_PTX ATX) ''showFactors'' = ''on'' then [factors_data (nt_first fs)] else []
            | None \<Rightarrow> [])
      else [])"

definition add_xdspam_headers :: "string \<Rightarrow> agent_config \<Rightarrow> ('s, 'm) dspam_ctx \<Rightarrow> agent_ctx \<Rightarrow> ds_message \<Rightarrow> ds_message" where
  "add_xdspam_headers now conf CTX ATX message =
     (case ms_components message of
        [] \<Rightarrow> message
      | block # rest \<Rightarrow>
          message\<lparr>ms_components := block\<lparr>mp_headers := mp_headers block @
            map (\<lambda>l. ds_create_header_field (copy_cut 10240 l)) (xdspam_lines now conf CTX ATX)\<rparr> # rest\<rparr>)"

section \<open>Occurrences of strings\<close>

lemma strstr_None_iff: "strstr s n = None \<longleftrightarrow> (\<forall>i\<le>length s. take (length n) (drop i s) \<noteq> n)"
proof (induction s)
  case (Cons c s)
  have "(\<forall>i\<le>length (c # s). P i) \<longleftrightarrow> P 0 \<and> (\<forall>i\<le>length s. P (Suc i))" for P
    by (simp only: less_Suc_eq_le[symmetric] All_less_Suc2 list.size(4) add_0_right add_Suc_right)
  from this[of "\<lambda>i. take (length n) (drop i (c # s)) \<noteq> n"] show ?case using Cons by simp
qed auto

lemma strstr_None_take: "strstr s n = None \<Longrightarrow> strstr (take k s) n = None"
proof -
  have "take (length n) (drop i s) = n" if "take (length n) (drop i (take k s)) = n" for i
  proof -
    have t: "take (min (length n) (k - i)) (drop i s) = n" using that by (simp add: drop_take)
    have "length n \<le> min (length n) (k - i)" using arg_cong[OF t, of length] by simp
    then show ?thesis using t by (simp add: min_def split: if_splits)
  qed
  then show "strstr s n = None \<Longrightarrow> ?thesis" unfolding strstr_None_iff by (metis le_trans length_take min.cobounded1)
qed

lemma strstr_None_drop: "strstr s n = None \<Longrightarrow> strstr (drop k s) n = None"
proof (induction s arbitrary: k)
  case (Cons c s)
  then show ?case by (cases k) (auto split: if_splits)
qed simp

text \<open>A string without a line end occurs before a line end or after it.\<close>

lemma strstr_sep:
  assumes "CHR 0x0A \<notin> set n" "n \<noteq> []"
  shows "strstr (a @ CHR 0x0A # b) n =
    (case strstr a n of Some i \<Rightarrow> Some i | None \<Rightarrow> map_option (\<lambda>i. Suc (length a + i)) (strstr b n))"
proof (induction a)
  case Nil
  have "take (length n) (CHR 0x0A # b) \<noteq> n" using assms by (cases n) auto
  then show ?case using assms(2) by (cases "strstr b n") auto
next
  case (Cons c a)
  have "take (length n) (c # a @ CHR 0x0A # b) = n \<longleftrightarrow> take (length n) (c # a) = n"
  proof (cases "length n \<le> length (c # a)")
    case True
    then have "take (length n) ((c # a) @ CHR 0x0A # b) = take (length n) (c # a)" by (simp only: take_append) simp
    then show ?thesis by simp
  next
    case False
    then have "CHR 0x0A \<in> set (take (length n) ((c # a) @ CHR 0x0A # b))"
      by (subst take_append) (simp add: take_Cons' Suc_diff_le)
    then have "take (length n) (c # a @ CHR 0x0A # b) \<noteq> n" using assms(1) by auto
    moreover have "take (length n) (c # a) \<noteq> n" using False by (metis length_take min.cobounded1)
    ultimately show ?thesis by simp
  qed
  then show ?case using Cons by (auto split: option.splits simp: option.map_comp comp_def)
qed

definition unmarked :: "string \<Rightarrow> bool" where
  "unmarked s \<longleftrightarrow> strstr s SIGNATURE_BEGIN = None \<and> strstr s LOOSE_SIGNATURE_BEGIN = None"

lemma marks_ok: "CHR 0x0A \<notin> set SIGNATURE_BEGIN" "SIGNATURE_BEGIN \<noteq> []" "CHR 0x0A \<notin> set LOOSE_SIGNATURE_BEGIN" "LOOSE_SIGNATURE_BEGIN \<noteq> []"
  by (simp_all add: SIGNATURE_BEGIN_def LOOSE_SIGNATURE_BEGIN_def)

lemma unmarked_sep [simp]: "unmarked (a @ CHR 0x0A # b) \<longleftrightarrow> unmarked a \<and> unmarked b"
  using marks_ok by (auto simp: unmarked_def strstr_sep split: option.splits)

lemma unmarked_Cons_nl [simp]: "unmarked (CHR 0x0A # b) \<longleftrightarrow> unmarked b"
  using unmarked_sep[of "[]" b] by (simp add: unmarked_def SIGNATURE_BEGIN_def LOOSE_SIGNATURE_BEGIN_def)

lemma unmarked_Nil [simp]: "unmarked []"
  by (simp add: unmarked_def SIGNATURE_BEGIN_def LOOSE_SIGNATURE_BEGIN_def)

lemma unmarked_parts: "unmarked s \<Longrightarrow> unmarked (take k s)" "unmarked s \<Longrightarrow> unmarked (drop k s)"
  by (auto simp: unmarked_def strstr_None_take strstr_None_drop)

section \<open>A signature that was embedded\<close>

definition signature_ok :: "string \<Rightarrow> bool" where
  "signature_ok sig \<longleftrightarrow> sig \<noteq> [] \<and> length sig < 128 \<and> (\<forall>c\<in>set sig. signature_char c \<and> \<not> c_isspace c)"

lemma locate_embedded:
  assumes "unmarked pre" "signature_ok sig"
  shows "locate_signature (pre @ signature_text sig @ post) = Some (length pre + 1, length pre + 8, length pre + 8 + length sig)"
proof -
  let ?m = "SIGNATURE_BEGIN @ sig @ SIGNATURE_END @ nl @ nl @ post"
  have b: "pre @ signature_text sig @ post = pre @ CHR 0x0A # ?m" by (simp add: signature_text_def)
  have "strstr ?m SIGNATURE_BEGIN = Some 0" by (simp add: SIGNATURE_BEGIN_def)
  then have s: "strstr (pre @ CHR 0x0A # ?m) SIGNATURE_BEGIN = Some (length pre + 1)"
    using assms(1) by (simp add: strstr_sep[OF marks_ok(1,2)] unmarked_def)
  have d: "drop (length pre + 8) (pre @ CHR 0x0A # ?m) = sig @ CHR ''!'' # nl @ nl @ post"
    by (simp add: SIGNATURE_BEGIN_def SIGNATURE_END_def)
  have "takeWhile signature_char (sig @ CHR ''!'' # nl @ nl @ post) = sig"
    using assms(2) by (subst takeWhile_append2) (auto simp: signature_ok_def signature_char_def c_isalnum_def)
  then show ?thesis unfolding b locate_signature_def s using d
    by (simp add: SIGNATURE_BEGIN_def SIGNATURE_END_def Let_def add.commute)
qed

lemma locate_unmarked: "unmarked s \<Longrightarrow> locate_signature s = None"
  by (simp add: unmarked_def locate_signature_def Let_def)

text \<open>The state of the search: whether the signature has been found.\<close>

definition found :: "agent_ctx \<Rightarrow> string \<Rightarrow> nat \<Rightarrow> bool \<Rightarrow> find_state" where
  "found B sig s h = \<lparr>fi_atx = B\<lparr>ax_signature := (if h then sig else [])\<rparr>, fi_signed = s, fi_have = h\<rparr>"

lemma take_embedded:
  assumes "unmarked pre" "unmarked post" "signature_ok sig" "\<not> in_headers B"
  shows "\<exists>b'. take_signature (found B sig s h) b (pre @ signature_text sig @ post) = Inr (found B sig s True, b') \<and>
    (s = 0 \<and> ax_classification B = DSR_NONE \<longrightarrow> unmarked (mp_body b'))"
proof -
  let ?body = "pre @ signature_text sig @ post"
  have 1: "take (length sig) (drop (length pre + 8) ?body) = sig"
    by (simp add: signature_text_def SIGNATURE_BEGIN_def)
  have "?body = (pre @ nl @ ''!DSPAM:'' @ sig @ ''!'') @ nl @ nl @ post"
    by (simp add: signature_text_def SIGNATURE_BEGIN_def SIGNATURE_END_def)
  then have "drop (length pre + 8 + length sig + 1) ?body = nl @ nl @ post" by (simp only: drop_append) simp
  moreover have "take (length pre + 1) ?body = pre @ nl" by (simp add: signature_text_def)
  ultimately have e: "take (length pre + 1) ?body @ drop (length pre + 8 + length sig + 1) ?body = pre @ nl @ nl @ nl @ post" by simp
  have 2: "dropWhile c_isspace sig = sig" using assms(3) by (cases sig) (auto simp: signature_ok_def)
  have 3: "length pre + 8 + length sig < length ?body" by (simp add: signature_text_def SIGNATURE_BEGIN_def)
  have u: "unmarked (pre @ nl @ nl @ nl @ post)" using assms(1,2) by simp
  have 4: "in_headers (B\<lparr>ax_signature := x\<rparr>) = in_headers B" for x by (simp add: in_headers_def)
  show ?thesis using locate_embedded[OF assms(1,3), of post] 1 e 2 3 4 u assms(3,4)
    by (auto simp: take_signature_def found_def Let_def signature_ok_def)
qed

lemma take_unmarked: "unmarked body \<Longrightarrow> take_signature fi b body = Inr (fi, b)"
  by (simp add: take_signature_def locate_unmarked)

definition encoded :: "ds_message_part \<Rightarrow> bool" where
  "encoded b \<longleftrightarrow> mp_encoding b = EN_BASE64 \<or> mp_encoding b = EN_QUOTED_PRINTABLE"

definition signed_part :: "ds_message_part \<Rightarrow> bool" where
  "signed_part b \<longleftrightarrow> mp_media_type b = MT_MULTIPART \<and> mp_media_subtype b = MST_SIGNED"

lemma insert_text_split:
  "\<exists>pre post. mp_body (insert_text s after b) = pre @ s @ post \<and> (unmarked (mp_body b) \<and> unmarked after \<and> take 1 after = nl \<longrightarrow> unmarked pre \<and> unmarked post)"
proof (cases "close_tag b")
  case None
  then show ?thesis by (intro exI[of _ "mp_body b"] exI[of _ "[]"]) (simp add: insert_text_def)
next
  case (Some k)
  have "unmarked (drop k (mp_body b) @ after)" if "unmarked (mp_body b)" "unmarked after" "take 1 after = nl"
    using that unmarked_parts(2)[of "mp_body b" k] by (cases after) auto
  then show ?thesis using Some unmarked_parts(1)[of "mp_body b" k]
    by (intro exI[of _ "take k (mp_body b)"] exI[of _ "drop k (mp_body b) @ after"]) (auto simp: insert_text_def)
qed

lemma insert_text_keeps [simp]:
  "tokenizable i (insert_text s after b) = tokenizable i b" "signed_part (insert_text s after b) = signed_part b"
  "encoded (insert_text s after b) = encoded b"
  by (auto simp: insert_text_def tokenizable_def signed_part_def encoded_def split: option.splits)

lemma find_in_part_plain:
  assumes "\<not> encoded b" "\<not> in_headers B" "\<not> ax_train_pristine B"
  shows "find_in_part i (found B sig s h) b =
    (let s' = (if signed_part b then 1 else s) in
     if tokenizable i b then take_signature (found B sig s' h) b (mp_body b) else Inr (found B sig s' h, b))"
proof -
  have n: "\<not> in_headers (B\<lparr>ax_signature := x\<rparr>)" for x using assms(2) by (simp add: in_headers_def)
  show ?thesis using assms n
    by (auto simp: find_in_part_def found_def decode_part_def header_signature_def encoded_def signed_part_def Let_def)
qed

lemma find_embedded_part:
  assumes "unmarked (mp_body b)" "\<not> encoded b" "\<not> in_headers B" "\<not> ax_train_pristine B" "signature_ok sig"
    and "takes_text tlb i b \<longrightarrow> tokenizable i b"
    and b': "b' = (if takes_text tlb i b then insert_text (signature_text sig) (nl @ nl) b else b)"
  shows "\<exists>b''. find_in_part i (found B sig s h) b' = Inr (found B sig (if signed_part b then 1 else s) (h \<or> takes_text tlb i b), b'') \<and>
    (s = 0 \<and> \<not> signed_part b \<and> ax_classification B = DSR_NONE \<longrightarrow> unmarked (mp_body b''))"
proof (cases "takes_text tlb i b")
  case True
  obtain pre post where pp: "mp_body b' = pre @ signature_text sig @ post" "unmarked pre" "unmarked post"
    using insert_text_split[of "signature_text sig" "nl @ nl" b] assms(1) True b' by auto
  note t = take_embedded[OF pp(2,3) assms(5,3), folded pp(1)]
  have "\<not> encoded b'" "tokenizable i b'" "signed_part b' = signed_part b" using True assms(2,6) b' by simp_all
  then show ?thesis using find_in_part_plain[of b' B i sig s h] t[of "if signed_part b then 1 else s" h b'] assms(3,4) True
    by (auto simp: Let_def)
next
  case False
  then show ?thesis using find_in_part_plain[of b B i sig s h] take_unmarked[OF assms(1)] assms(1-4) b' by (auto simp: Let_def)
qed

lemma find_embedded_parts:
  assumes "\<not> in_headers B" "\<not> ax_train_pristine B" "signature_ok sig"
  shows "\<forall>b\<in>set bs. unmarked (mp_body b) \<and> \<not> encoded b \<Longrightarrow> \<forall>j<length bs. takes_text tlb (i + j) (bs ! j) \<longrightarrow> tokenizable (i + j) (bs ! j) \<Longrightarrow>
    \<exists>bs' s'. find_in_parts i (found B sig s h) (insert_in_parts (signature_text sig) (nl @ nl) tlb i bs) =
        Inr (found B sig s' (h \<or> (\<exists>j<length bs. takes_text tlb (i + j) (bs ! j))), bs') \<and>
      (s = 0 \<and> (\<forall>b\<in>set bs. \<not> signed_part b) \<and> ax_classification B = DSR_NONE \<longrightarrow> (\<forall>b\<in>set bs'. unmarked (mp_body b)))"
proof (induction bs arbitrary: i s h)
  case (Cons b bs)
  let ?b = "if takes_text tlb i b then insert_text (signature_text sig) (nl @ nl) b else b"
  let ?s = "if signed_part b then 1 else s" and ?h = "h \<or> takes_text tlb i b"
  have "takes_text tlb i b \<longrightarrow> tokenizable i b" using Cons.prems(2) by force
  then obtain b'' where b: "find_in_part i (found B sig s h) ?b = Inr (found B sig ?s ?h, b'')"
      "s = 0 \<and> \<not> signed_part b \<and> ax_classification B = DSR_NONE \<longrightarrow> unmarked (mp_body b'')"
    using find_embedded_part[OF _ _ assms, of b tlb i ?b s h] Cons.prems(1) by auto
  have "\<forall>j<length bs. takes_text tlb (Suc i + j) (bs ! j) \<longrightarrow> tokenizable (Suc i + j) (bs ! j)"
    using Cons.prems(2) by (auto dest: spec[of _ "Suc _"])
  then obtain bs' s' where r: "find_in_parts (Suc i) (found B sig ?s ?h) (insert_in_parts (signature_text sig) (nl @ nl) tlb (Suc i) bs) =
        Inr (found B sig s' (?h \<or> (\<exists>j<length bs. takes_text tlb (Suc i + j) (bs ! j))), bs')"
      "?s = 0 \<and> (\<forall>b\<in>set bs. \<not> signed_part b) \<and> ax_classification B = DSR_NONE \<longrightarrow> (\<forall>b\<in>set bs'. unmarked (mp_body b))"
    using Cons.IH[of "Suc i" ?s ?h] Cons.prems(1) by auto
  have "(?h \<or> (\<exists>j<length bs. takes_text tlb (Suc i + j) (bs ! j))) = (h \<or> (\<exists>j<length (b # bs). takes_text tlb (i + j) ((b # bs) ! j)))"
    by (simp add: Ex_less_Suc2)
  then show ?case using b r by (intro exI[of _ "b'' # bs'"] exI[of _ s']) auto
qed (auto simp: found_def)

section \<open>Properties\<close>

text \<open>
  C8. A signature that was embedded is found again. In a message whose parts are not encoded and
  hold no mark, with a part that takes text, embedding a signature and searching the result
  gives the signature back; when the message is to be classified and is not signed, the search
  also removes every mark.
\<close>

theorem embedded_signature_found:
  assumes "ms_components msg = p # ps" "\<forall>b\<in>set (p # ps). unmarked (mp_body b) \<and> \<not> encoded b" "mp_media_subtype p \<noteq> MST_SIGNED"
    and "tokenizable 0 p" "j < length (p # ps)" "takes_text (toplevel_boundary p) j ((p # ps) ! j)"
    and "mode \<noteq> DST_NOTRAIN" "signature_ok (ax_signature A)"
    and "ax_signature B = []" "\<not> in_headers B" "\<not> ax_train_pristine B"
  shows "\<exists>msg' msg''. embed_signature junk pid mode A msg = Inr (msg', 0) \<and>
    find_signature B msg' = Inr (B\<lparr>ax_signature := ax_signature A\<rparr>, msg'', True) \<and>
    (ax_classification B = DSR_NONE \<and> (\<forall>b\<in>set ps. \<not> signed_part b) \<longrightarrow> (\<forall>b\<in>set (ms_components msg''). unmarked (mp_body b)))"
proof -
  let ?sig = "ax_signature A" and ?tlb = "toplevel_boundary p"
  let ?msg = "msg\<lparr>ms_components := insert_in_parts (signature_text ?sig) (nl @ nl) ?tlb 0 (p # ps)\<rparr>"
  have e: "embed_signature junk pid mode A msg = Inr (?msg, 0)"
    using assms(1,3,7,8) by (simp add: embed_signature_def signature_ok_def)
  have t: "\<forall>k<length (p # ps). takes_text ?tlb (0 + k) ((p # ps) ! k) \<longrightarrow> tokenizable (0 + k) ((p # ps) ! k)"
    using assms(4) by (auto simp: takes_text_def tokenizable_def nth_Cons split: nat.splits)
  have f: "\<lparr>fi_atx = B, fi_signed = 0, fi_have = False\<rparr> = found B ?sig 0 False" using assms(9) by (cases B) (simp add: found_def)
  have "\<exists>k<length (p # ps). takes_text ?tlb (0 + k) ((p # ps) ! k)" using assms(5,6) by auto
  then obtain bs' s' where r: "find_in_parts 0 (found B ?sig 0 False) (ms_components ?msg) = Inr (found B ?sig s' True, bs')"
      "(\<forall>b\<in>set (p # ps). \<not> signed_part b) \<and> ax_classification B = DSR_NONE \<longrightarrow> (\<forall>b\<in>set bs'. unmarked (mp_body b))"
    using find_embedded_parts[OF assms(10,11,8) assms(2) t, of 0 False] by auto
  have "find_signature B ?msg = Inr (B\<lparr>ax_signature := ?sig\<rparr>, \<lparr>ms_components = bs', ms_protect = (s' \<noteq> 0)\<rparr>, True)"
    unfolding find_signature_def f r(1) using assms(9) by (simp add: found_def)
  moreover have "\<not> signed_part p" using assms(3) by (simp add: signed_part_def)
  ultimately show ?thesis using e r(2) by (metis ds_message.select_convs(1) set_ConsD)
qed

definition plain_part :: "string \<Rightarrow> ds_message_part" where
  "plain_part body = ds_create_message_part\<lparr>mp_body := body\<rparr>"

theorem embedded_signature_found_witness:
  "\<exists>msg' msg''. embed_signature PCD_UNKNOWN ''7'' DST_TEFT (blank_atx\<lparr>ax_signature := ''4f00c1''\<rparr>)
      \<lparr>ms_components = [plain_part ''Hi''], ms_protect = False\<rparr> = Inr (msg', 0) \<and>
    find_signature blank_atx msg' = Inr (blank_atx\<lparr>ax_signature := ''4f00c1''\<rparr>, msg'', True) \<and>
    (\<forall>b\<in>set (ms_components msg''). unmarked (mp_body b))"
proof -
  have "unmarked ''Hi''" "signature_ok ''4f00c1''" by code_simp+
  then show ?thesis
    using embedded_signature_found[of "\<lparr>ms_components = [plain_part ''Hi''], ms_protect = False\<rparr>" "plain_part ''Hi''" "[]" 0 DST_TEFT
        "blank_atx\<lparr>ax_signature := ''4f00c1''\<rparr>" blank_atx PCD_UNKNOWN "''7''"]
    by (auto simp: plain_part_def ds_create_message_part_def encoded_def tokenizable_def takes_text_def toplevel_boundary_def blank_atx_def
        in_headers_def ds_pref_val_def)
qed

text \<open>
  Tagging marks the subject once. Every subject of the first part begins with the tag
  afterwards, a message without a subject gets one, tagging again changes nothing, and the
  other headers and parts stay as they were.
\<close>

theorem tag_message_once:
  assumes "ms_components msg = b # bs" "\<not> blank (hd (spam_subject ATX))"
  shows "\<exists>hs. tag_message ATX msg = Inr (msg\<lparr>ms_components := b\<lparr>mp_headers := hs\<rparr> # bs\<rparr>) \<and>
    (\<exists>h\<in>set hs. is_subject h) \<and> (\<forall>h\<in>set hs. is_subject h \<longrightarrow> take (length (spam_subject ATX)) (hf_data h) = spam_subject ATX) \<and>
    filter (\<lambda>h. \<not> is_subject h) hs = filter (\<lambda>h. \<not> is_subject h) (mp_headers b) \<and>
    tag_message ATX (msg\<lparr>ms_components := b\<lparr>mp_headers := hs\<rparr> # bs\<rparr>) = Inr (msg\<lparr>ms_components := b\<lparr>mp_headers := hs\<rparr> # bs\<rparr>)"
proof -
  let ?t = "spam_subject ATX"
  have l: "length ?t \<le> 15" "?t \<noteq> []" by (auto simp: spam_subject_def copy_cut_def Let_def)
  let ?new = "ds_create_header_field (copy_cut 80 (''Subject: '' @ ?t))"
  have "dropWhile blank (CHR '' '' # ?t) = ?t" using assms(2) l(2) by (cases ?t) (auto simp: blank_def)
  then have n: "hf_heading ?new = ''Subject''" "hf_data ?new = ?t" "hf_original_data ?new = None"
    using l(1) by (simp_all add: ds_create_header_field_def copy_cut_def strsep_def Let_def)
  then have ns: "is_subject ?new" by (simp add: is_subject_def)
  have tt: "tag_data ?t (tag_data ?t d) = tag_data ?t d" "take (length ?t) (tag_data ?t d) = ?t" for d by (auto simp: tag_data_def)
  have s: "is_subject (tag_header ?t h) = is_subject h" for h by (simp add: tag_header_def is_subject_def)
  have h: "tag_header ?t (tag_header ?t h) = tag_header ?t h" for h
    by (simp add: tag_header_def is_subject_def tt option.map_comp comp_def)
  have hn: "tag_header ?t ?new = ?new" using n by (simp add: tag_header_def tag_data_def)
  have f: "filter (\<lambda>h. \<not> is_subject h) (map (tag_header ?t) xs) = filter (\<lambda>h. \<not> is_subject h) xs" for xs
    by (induction xs) (auto simp: s, simp add: tag_header_def)
  have d: "is_subject (tag_header ?t h) \<longrightarrow> take (length ?t) (hf_data (tag_header ?t h)) = ?t" for h
    using tt(2) by (simp add: s) (simp add: tag_header_def)
  let ?hs = "map (tag_header ?t) (mp_headers b)"
  define hs where "hs = (if \<exists>h\<in>set ?hs. is_subject h then ?hs else ?hs @ [?new])"
  have m: "map (tag_header ?t) hs = hs" "\<exists>h\<in>set hs. is_subject h" using h hn ns by (auto simp: hs_def)
  have "filter (\<lambda>h. \<not> is_subject h) hs = filter (\<lambda>h. \<not> is_subject h) (mp_headers b)" using f ns by (simp add: hs_def)
  moreover have "\<forall>h\<in>set hs. is_subject h \<longrightarrow> take (length ?t) (hf_data h) = ?t" using d n(2) by (auto simp: hs_def)
  moreover have "tag_message ATX msg = Inr (msg\<lparr>ms_components := b\<lparr>mp_headers := hs\<rparr> # bs\<rparr>)"
    using assms(1) by (simp add: tag_message_def Let_def hs_def)
  moreover have "tag_message ATX (msg\<lparr>ms_components := b\<lparr>mp_headers := hs\<rparr> # bs\<rparr>) = Inr (msg\<lparr>ms_components := b\<lparr>mp_headers := hs\<rparr> # bs\<rparr>)"
    using m by (auto simp: tag_message_def Let_def s)
  ultimately show ?thesis using m(2) by blast
qed

theorem tag_message_once_witness:
  "\<exists>hs. tag_message blank_atx \<lparr>ms_components = [plain_part ''Hi''], ms_protect = False\<rparr> =
      Inr \<lparr>ms_components = [(plain_part ''Hi'')\<lparr>mp_headers := hs\<rparr>], ms_protect = False\<rparr> \<and>
    (\<exists>h\<in>set hs. is_subject h) \<and> (\<forall>h\<in>set hs. is_subject h \<longrightarrow> take 6 (hf_data h) = ''[SPAM]'')"
proof -
  have t: "spam_subject blank_atx = ''[SPAM]''" by (simp add: spam_subject_def blank_atx_def ds_pref_val_def)
  then have "\<not> blank (hd (spam_subject blank_atx))" by (simp add: blank_def)
  then obtain hs where "tag_message blank_atx \<lparr>ms_components = [plain_part ''Hi''], ms_protect = False\<rparr> =
      Inr (\<lparr>ms_components = [plain_part ''Hi''], ms_protect = False\<rparr>\<lparr>ms_components := [(plain_part ''Hi'')\<lparr>mp_headers := hs\<rparr>]\<rparr>)"
      "\<exists>h\<in>set hs. is_subject h" "\<forall>h\<in>set hs. is_subject h \<longrightarrow> take (length (spam_subject blank_atx)) (hf_data h) = spam_subject blank_atx"
    using tag_message_once[of "\<lparr>ms_components = [plain_part ''Hi''], ms_protect = False\<rparr>" "plain_part ''Hi''" "[]" blank_atx] by auto
  then show ?thesis unfolding t by (intro exI[of _ hs]) (simp add: eval_nat_numeral)
qed

end
