(* ===== verification/Ds_Group.thy ===== *)
theory Ds_Group
  imports Ds_AgentMsg
begin

text \<open>
  \<^verbatim>\<open>ctx_init\<close> of dspam.c: membership of a user in the groups of the group file, and the
  classification context made from the context of the agent. The loops over the members of a
  group go on to the next member at their end; where the code continues a loop before that,
  the loop stays at the same member with the same state, which is the fault \<open>NoReturn\<close>.
\<close>

section \<open>The lines of the group file\<close>

function strseps :: "string option \<Rightarrow> string \<Rightarrow> string list" where
  "strseps l delim = (case strsep l delim of None \<Rightarrow> [] | Some (u, r) \<Rightarrow> u # strseps r delim)"
  by auto

lemma strsep_shorter: "strsep l delim = Some (u, Some r) \<Longrightarrow> \<exists>s. l = Some s \<and> length r < length s"
proof -
  assume a: "strsep l delim = Some (u, Some r)"
  then obtain s d where "l = Some s" "dropWhile (\<lambda>c. c \<notin> set delim) s = d # r" by (auto simp: strsep_def split: option.splits list.splits)
  then show ?thesis using length_dropWhile_le[of "\<lambda>c. c \<notin> set delim" s] by auto
qed

termination strseps
proof (relation "measure (\<lambda>(l, d). case l of None \<Rightarrow> 0 | Some s \<Rightarrow> Suc (length s))", simp, clarsimp)
  fix l :: "string option" and delim u r assume a: "strsep l delim = Some (u, r)"
  show "(case r of None \<Rightarrow> 0 | Some s \<Rightarrow> Suc (length s)) < (case l of None \<Rightarrow> 0 | Some s \<Rightarrow> Suc (length s))"
  proof (cases r)
    case None
    then show ?thesis using a by (cases l) (auto simp: strsep_def)
  next
    case (Some r')
    then show ?thesis using strsep_shorter[of l delim u r'] a by auto
  qed
qed

declare strseps.simps [simp del]

definition sep_rest :: "string option \<Rightarrow> string \<Rightarrow> string option" where
  "sep_rest l delim = (case strsep l delim of None \<Rightarrow> l | Some (_, r) \<Rightarrow> r)"

text \<open>The name of the group, its type and its members; empty fields count for the members only.\<close>

definition group_members :: "string \<Rightarrow> string list" where
  "group_members line = strseps (sep_rest (sep_rest (Some line) '':'') '':'') '',''"

definition group_entry :: "string \<Rightarrow> (string \<times> string \<times> string list) option" where
  "group_entry line =
     (if line = [] \<or> take 1 line = ''#'' \<or> take 1 line = '';'' then None
      else case strtok_r line '':'' of
        None \<Rightarrow> None
      | Some (grp, rest) \<Rightarrow>
          (case strtok_r rest '':'' of
             None \<Rightarrow> None
           | Some (type, _) \<Rightarrow> Some (grp, type, group_members line)))"

section \<open>Membership\<close>

record group_state =
  gs_inoculation :: bool
  gs_classification :: bool
  gs_global :: bool
  gs_shared :: bool
  gs_merged :: bool
  gs_group :: string
  gs_atx :: agent_ctx

definition same_domain :: "string \<Rightarrow> string \<Rightarrow> bool" where
  "same_domain u username \<longleftrightarrow> CHR ''@'' \<in> set username \<and> strcaseeq u (dropWhile (\<lambda>c. c \<noteq> CHR ''@'') username)"

definition entry_includes :: "string \<Rightarrow> string \<Rightarrow> bool" where
  "entry_includes username u \<longleftrightarrow> strcaseeq u username \<or> u = ''*'' \<or> (take 2 u = ''*@'' \<and> same_domain (drop 1 u) username)"

definition entry_excludes :: "string \<Rightarrow> string \<Rightarrow> bool" where
  "entry_excludes username u \<longleftrightarrow> (take 1 u = ''-'' \<and> strcaseeq (drop 1 u) username) \<or> (take 3 u = ''-*@'' \<and> same_domain (drop 2 u) username)"

definition global_entry :: "string \<Rightarrow> bool" where
  "global_entry u \<longleftrightarrow> take 1 u = ''*'' \<and> u \<noteq> ''*''"

definition inoculation_group :: "string \<Rightarrow> string list \<Rightarrow> group_state \<Rightarrow> group_state" where
  "inoculation_group username us gs =
     (if \<exists>u\<in>set us. strcaseeq u username
      then (let A = gs_atx gs in
            gs\<lparr>gs_inoculation := True, gs_atx := A\<lparr>ax_inoc_users := ax_inoc_users A @ filter (\<lambda>u. \<not> strcaseeq u username) us\<rparr>\<rparr>)
      else gs)"

text \<open>The first member that decides: the membership and whether the others are consulted.\<close>

fun class_member :: "string \<Rightarrow> group_state \<Rightarrow> string list \<Rightarrow> group_state \<times> bool" where
  "class_member username gs [] = (gs, False)"
| "class_member username gs (u # us) =
     (if global_entry u
      then if gs_classification gs then (gs, False) else (gs\<lparr>gs_global := True\<rparr>, True)
      else if strcaseeq u username
      then if gs_global gs then (gs, False) else (gs\<lparr>gs_classification := True\<rparr>, True)
      else class_member username gs us)"

fun class_peers :: "string \<Rightarrow> group_state \<Rightarrow> string list \<Rightarrow> group_state cres" where
  "class_peers username gs [] = Inr gs"
| "class_peers username gs (u # us) =
     (let A = gs_atx gs in
      if global_entry u
      then if gs_classification gs then Inl NoReturn
           else if \<not> strcaseeq (drop 1 u) username \<and> gs_global gs
           then class_peers username (gs\<lparr>gs_atx := add_flag DAF_GLOBAL (A\<lparr>ax_classify_users := ax_classify_users A @ [drop 1 u]\<rparr>)\<rparr>) us
           else class_peers username gs us
      else if \<not> strcaseeq u username
      then if gs_global gs then Inl NoReturn
           else if gs_classification gs
           then class_peers username (gs\<lparr>gs_atx := A\<lparr>ax_classify_users := ax_classify_users A @ [u]\<rparr>\<rparr>) us
           else class_peers username gs us
      else class_peers username gs us)"

definition shared_group :: "string \<Rightarrow> string \<Rightarrow> string \<Rightarrow> string list \<Rightarrow> group_state \<Rightarrow> group_state" where
  "shared_group username grp type us gs =
     (if \<exists>u\<in>set us. entry_includes username u
      then (let g = copy_cut 128 grp; A = gs_atx gs in
            gs\<lparr>gs_shared := True, gs_group := g,
               gs_atx := (if case_prefix '',MANAGED'' (drop 6 type) then A\<lparr>ax_managed_group := g\<rparr> else A)\<rparr>)
      else gs)"

fun merged_members :: "string \<Rightarrow> string \<Rightarrow> group_state \<Rightarrow> string list \<Rightarrow> group_state cres" where
  "merged_members username grp gs [] = Inr gs"
| "merged_members username grp gs (u # us) =
     (let A = gs_atx gs in
      if entry_includes username u
      then if gs_merged gs then Inl NoReturn
           else merged_members username grp (gs\<lparr>gs_merged := True, gs_group := copy_cut 128 grp, gs_atx := add_flag DAF_MERGED A\<rparr>) us
      else if entry_excludes username u
      then if \<not> gs_merged gs then Inl NoReturn
           else merged_members username grp
                  (gs\<lparr>gs_merged := False, gs_group := [], gs_atx := A\<lparr>ax_flags := ax_flags A XOR DAF_MERGED\<rparr>\<rparr>) us
      else merged_members username grp gs us)"

definition group_line :: "string \<Rightarrow> group_state \<Rightarrow> string \<Rightarrow> group_state cres" where
  "group_line username gs buf =
     (case group_entry (chomp (c_str buf)) of
        None \<Rightarrow> Inr gs
      | Some (grp, type, us) \<Rightarrow>
          let A = gs_atx gs in
          if strcaseeq type ''INOCULATION'' \<and> ax_classification A = DSR_ISSPAM \<and> ax_source A \<noteq> DSS_CORPUS
          then Inr (if gs_shared gs then gs else inoculation_group username us gs)
          else if strcaseeq type ''CLASSIFICATION''
          then if gs_shared gs then Inr gs
               else (case class_member username gs us of (gs', consult) \<Rightarrow> if consult then class_peers username gs' us else Inr gs')
          else if case_prefix ''SHARED'' type
          then Inr (if gs_shared gs \<or> gs_merged gs \<or> gs_inoculation gs \<or> gs_classification gs \<or> gs_global gs then gs
                    else shared_group username grp type us gs)
          else if strcaseeq type ''MERGED'' \<and> \<not> strcaseeq grp username
          then if gs_merged gs \<or> gs_shared gs \<or> hasf A DAF_MERGED then Inr gs else merged_members username grp gs us
          else Inr gs)"

definition no_groups :: "agent_ctx \<Rightarrow> group_state" where
  "no_groups A = \<lparr>gs_inoculation = False, gs_classification = False, gs_global = False, gs_shared = False, gs_merged = False,
     gs_group = [], gs_atx = A\<rparr>"

definition read_groups :: "string \<Rightarrow> agent_ctx \<Rightarrow> string \<Rightarrow> group_state cres" where
  "read_groups username A contents = cfold (group_line username) (no_groups A) (fgets_all 10240 contents)"

section \<open>The classification context\<close>

text \<open>A preference decides where there is one, otherwise the command line or the configuration.\<close>

definition pref_flag :: "agent_ctx \<Rightarrow> string \<Rightarrow> bool \<Rightarrow> u32 \<Rightarrow> u32" where
  "pref_flag ATX name dflt flag =
     (let v = ds_pref_val (ax_PTX ATX) name in
      if ax_PTX ATX \<noteq> None \<and> v \<noteq> [] then (if v = ''on'' then flag else 0) else if dflt then flag else 0)"

definition ctx_flags :: "agent_config \<Rightarrow> agent_ctx \<Rightarrow> u32" where
  "ctx_flags conf ATX =
     DSF_SIGNATURE OR (if hasf ATX DAF_UNLEARN then DSF_UNLEARN else 0) OR
     pref_flag ATX ''enableBNR'' (hasf ATX DAF_NOISE) DSF_NOISE OR
     pref_flag ATX ''processorBias'' (cfg_match conf ''ProcessorBias'' ''on'') DSF_BIAS OR
     pref_flag ATX ''enableWhitelist'' (hasf ATX DAF_WHITELIST) DSF_WHITELIST OR
     (if hasf ATX DAF_MERGED then DSF_MERGED else 0)"

definition ctx_training_mode :: "agent_ctx \<Rightarrow> dst" where
  "ctx_training_mode ATX =
     (let v = ds_pref_val (ax_PTX ATX) ''trainingMode'' in
      if \<not> hasf ATX DAF_FIXED_TR_MODE \<and> ax_PTX ATX \<noteq> None \<and> v \<noteq> []
      then if strcaseeq v ''TEFT'' then DST_TEFT else if strcaseeq v ''TOE'' then DST_TOE
           else if strcaseeq v ''TUM'' then DST_TUM else if strcaseeq v ''NOTRAIN'' then DST_NOTRAIN
           else ax_training_mode ATX
      else ax_training_mode ATX)"

definition configure_ctx :: "agent_ctx \<Rightarrow> ('s, 'm) dspam_ctx \<Rightarrow> ('s, 'm) dspam_ctx" where
  "configure_ctx ATX CTX =
     (let sed = ds_pref_val (ax_PTX ATX) ''statisticalSedation'';
          thr = ds_pref_val (ax_PTX ATX) ''whitelistThreshold'';
          C1 = (if ax_PTX ATX \<noteq> None \<and> sed \<noteq> [] then CTX\<lparr>cx_training_buffer := atoi sed\<rparr>
                else if ax_training_buffer ATX \<ge> 0 then CTX\<lparr>cx_training_buffer := ax_training_buffer ATX\<rparr> else CTX);
          C2 = (if ax_PTX ATX \<noteq> None \<and> thr \<noteq> [] then C1\<lparr>cx_wh_threshold := atoi thr\<rparr> else C1);
          C3 = (if ax_classification ATX \<noteq> DSR_NONE
                then C2\<lparr>cx_classification := ax_classification ATX, cx_source := ax_source ATX\<rparr> else C2)
      in C3\<lparr>cx_training_mode := ctx_training_mode ATX\<rparr>)"

text \<open>\<open>group_file\<close> is the contents of the group file, None when it cannot be opened.\<close>

definition ctx_init ::
    "(nat \<Rightarrow> bool) \<Rightarrow> string option \<Rightarrow> agent_config \<Rightarrow> string option \<Rightarrow> agent_ctx \<Rightarrow> string option \<Rightarrow>
     (agent_ctx \<times> ('s, 'm) dspam_ctx option) cres" where
  "ctx_init alloc dspam_home conf group_file ATX username =
     (case username of
        None \<Rightarrow> Inr (ATX, None)
      | Some user \<Rightarrow>
          let A0 = ATX\<lparr>ax_inoc_users := [], ax_classify_users := []\<rparr> in
          cbind (case group_file of
                   Some contents \<Rightarrow>
                     if ds_pref_val (ax_PTX A0) ''ignoreGroups'' \<noteq> ''on'' \<and> ax_operating_mode A0 = DSM_PROCESS
                     then read_groups user A0 contents else Inr (no_groups A0)
                 | None \<Rightarrow> Inr (no_groups A0)) (\<lambda>gs.
            Inr (gs_atx gs,
                 map_option (configure_ctx (gs_atx gs))
                   (dspam_create alloc dspam_home (Some user) (Some (gs_group gs)) (cfg_read conf ''Home'')
                      (ax_operating_mode (gs_atx gs)) (ctx_flags conf (gs_atx gs))))))"

section \<open>Invariant\<close>

text \<open>
  Shared groups exclude all others, a classification network excludes a global group, the flag for
  merged groups tells the membership, and nobody is his own peer.
\<close>

definition group_inv :: "string \<Rightarrow> group_state \<Rightarrow> bool" where
  "group_inv username gs \<longleftrightarrow>
     (gs_shared gs \<longrightarrow> \<not> gs_merged gs \<and> \<not> gs_inoculation gs \<and> \<not> gs_classification gs \<and> \<not> gs_global gs) \<and>
     \<not> (gs_classification gs \<and> gs_global gs) \<and> gs_merged gs = hasf (gs_atx gs) DAF_MERGED \<and>
     (gs_group gs \<noteq> [] \<longleftrightarrow> gs_shared gs \<or> gs_merged gs) \<and>
     (\<forall>u\<in>set (ax_inoc_users (gs_atx gs)) \<union> set (ax_classify_users (gs_atx gs)). \<not> strcaseeq u username)"

lemma merged_bit: "hasf A DAF_MERGED \<longleftrightarrow> bit (ax_flags A) 7"
proof -
  have "DAF_MERGED = 2 ^ 7" by (simp add: DAF_MERGED_def)
  then show ?thesis using and_exp_eq_0_iff_not_bit[of "ax_flags A" 7] by (simp only: hasf_def) simp
qed

lemma merged_flag [simp]:
  "hasf (add_flag DAF_MERGED A) DAF_MERGED" "hasf (add_flag DAF_GLOBAL A) DAF_MERGED = hasf A DAF_MERGED"
  "hasf (A\<lparr>ax_flags := ax_flags A XOR DAF_MERGED\<rparr>) DAF_MERGED = (\<not> hasf A DAF_MERGED)"
  unfolding merged_bit add_flag_def
  by (simp_all add: DAF_MERGED_def DAF_GLOBAL_def bit_or_iff bit_xor_iff bit_numeral_rec)

lemma hasf_upd [simp]: "hasf (A\<lparr>ax_inoc_users := x\<rparr>) f = hasf A f" "hasf (A\<lparr>ax_classify_users := x\<rparr>) f = hasf A f"
  "hasf (A\<lparr>ax_managed_group := g\<rparr>) f = hasf A f"
  by (simp_all add: hasf_def)

lemma add_flag_users [simp]: "ax_inoc_users (add_flag f A) = ax_inoc_users A" "ax_classify_users (add_flag f A) = ax_classify_users A"
  by (simp_all add: add_flag_def)

lemma inoculation_inv: "group_inv username gs \<Longrightarrow> \<not> gs_shared gs \<Longrightarrow> group_inv username (inoculation_group username us gs)"
  by (auto simp: group_inv_def inoculation_group_def Let_def)

lemma shared_inv:
  assumes "group_inv username gs" "grp \<noteq> []" "\<not> gs_merged gs" "\<not> gs_inoculation gs" "\<not> gs_classification gs" "\<not> gs_global gs"
  shows "group_inv username (shared_group username grp type us gs)"
proof -
  have "copy_cut 128 grp \<noteq> []" using assms(2) by (simp add: copy_cut_def)
  then show ?thesis using assms by (auto simp: group_inv_def shared_group_def Let_def)
qed

lemma class_member_inv:
  "group_inv username gs \<Longrightarrow> \<not> gs_shared gs \<Longrightarrow> class_member username gs us = (gs', c) \<Longrightarrow> group_inv username gs' \<and> \<not> gs_shared gs'"
  by (induction username gs us rule: class_member.induct) (auto simp: group_inv_def split: if_splits)

lemma class_peers_inv: "group_inv username gs \<Longrightarrow> class_peers username gs us = Inr gs' \<Longrightarrow> group_inv username gs'"
proof (induction us arbitrary: gs)
  case (Cons u us)
  from Cons.prems(2) obtain gs1 where "class_peers username gs1 us = Inr gs'"
      "gs1 = gs \<or> (\<not> strcaseeq (drop 1 u) username \<and> gs1 = gs\<lparr>gs_atx := add_flag DAF_GLOBAL ((gs_atx gs)\<lparr>ax_classify_users := ax_classify_users (gs_atx gs) @ [drop 1 u]\<rparr>)\<rparr>) \<or>
       (\<not> strcaseeq u username \<and> gs1 = gs\<lparr>gs_atx := (gs_atx gs)\<lparr>ax_classify_users := ax_classify_users (gs_atx gs) @ [u]\<rparr>\<rparr>)"
    by (auto simp: Let_def split: if_splits)
  moreover from this(2) have "group_inv username gs1" using Cons.prems(1) by (auto simp: group_inv_def)
  ultimately show ?case using Cons.IH by blast
qed simp

lemma merged_inv:
  assumes "grp \<noteq> []"
  shows "group_inv username gs \<Longrightarrow> \<not> gs_shared gs \<Longrightarrow> merged_members username grp gs us = Inr gs' \<Longrightarrow> group_inv username gs'"
proof (induction us arbitrary: gs)
  case (Cons u us)
  have c: "copy_cut 128 grp \<noteq> []" using assms by (simp add: copy_cut_def)
  from Cons.prems(3) obtain gs1 where "merged_members username grp gs1 us = Inr gs'"
      "gs1 = gs \<or> (\<not> gs_merged gs \<and> gs1 = gs\<lparr>gs_merged := True, gs_group := copy_cut 128 grp, gs_atx := add_flag DAF_MERGED (gs_atx gs)\<rparr>) \<or>
       (gs_merged gs \<and> gs1 = gs\<lparr>gs_merged := False, gs_group := [], gs_atx := (gs_atx gs)\<lparr>ax_flags := ax_flags (gs_atx gs) XOR DAF_MERGED\<rparr>\<rparr>)"
    by (auto simp: Let_def split: if_splits)
  moreover from this(2) have "group_inv username gs1 \<and> \<not> gs_shared gs1" using Cons.prems(1,2) c by (auto simp: group_inv_def)
  ultimately show ?case using Cons.IH by blast
qed simp

lemma group_entry_name: "group_entry line = Some (grp, type, us) \<Longrightarrow> grp \<noteq> []"
proof -
  assume g: "group_entry line = Some (grp, type, us)"
  then obtain rest where t: "strtok_r line '':'' = Some (grp, rest)" by (auto simp: group_entry_def split: if_splits option.splits)
  let ?d = "dropWhile (\<lambda>c. c \<in> set '':'') line"
  have "?d \<noteq> []" "grp = takeWhile (\<lambda>c. c \<notin> set '':'') ?d" using t by (auto simp: strtok_r_def Let_def split: if_splits)
  moreover have "hd ?d \<notin> set '':''" using \<open>?d \<noteq> []\<close> by (rule hd_dropWhile)
  ultimately show "grp \<noteq> []" by (cases ?d) auto
qed

lemma if_condE: "(if b then x else y) = z \<Longrightarrow> (b \<Longrightarrow> x = z \<Longrightarrow> P) \<Longrightarrow> (\<not> b \<Longrightarrow> y = z \<Longrightarrow> P) \<Longrightarrow> P"
  by (cases b) auto

lemma group_line_inv:
  assumes "group_inv username gs" "group_line username gs buf = Inr gs'"
  shows "group_inv username gs'"
proof (cases "group_entry (chomp (c_str buf))")
  case (Some e)
  obtain grp type us where e: "e = (grp, type, us)" by (cases e) auto
  note n = group_entry_name[OF Some[unfolded e]]
  obtain gs1 c where m: "class_member username gs us = (gs1, c)" by fastforce
  show ?thesis using assms(2) unfolding group_line_def Some e prod.case option.case Let_def
    by (elim if_condE) (use assms(1) m inoculation_inv[OF assms(1), of us] shared_inv[OF assms(1) n, of type us]
        class_member_inv[OF assms(1) _ m] class_peers_inv[of username gs1 us gs'] merged_inv[OF n assms(1), of us gs']
        in \<open>auto split: if_splits\<close>)
qed (use assms in \<open>simp add: group_line_def\<close>)

lemma groups_inv:
  "cfold (group_line username) gs bufs = Inr gs' \<Longrightarrow> group_inv username gs \<Longrightarrow> group_inv username gs'"
  by (induction bufs arbitrary: gs) (auto simp: cbind_Inr_iff dest: group_line_inv)

section \<open>Properties\<close>



text \<open>What the members of a merged group say about a user: taken in or left out.\<close>

definition member_marks :: "string \<Rightarrow> string list \<Rightarrow> bool list" where
  "member_marks username us = map (entry_includes username) (filter (\<lambda>u. entry_includes username u \<or> entry_excludes username u) us)"

fun alternating :: "bool \<Rightarrow> bool list \<Rightarrow> bool" where
  "alternating b [] = True"
| "alternating b (x # xs) = (x = (\<not> b) \<and> alternating x xs)"

lemma merged_returns:
  "if alternating (gs_merged gs) (member_marks username us)
   then \<exists>gs'. merged_members username grp gs us = Inr gs' \<and> gs_merged gs' = last (gs_merged gs # member_marks username us)
   else merged_members username grp gs us = Inl NoReturn"
proof (induction us arbitrary: gs)
  case (Cons u us)
  let ?in = "gs\<lparr>gs_merged := True, gs_group := copy_cut 128 grp, gs_atx := add_flag DAF_MERGED (gs_atx gs)\<rparr>"
  let ?out = "gs\<lparr>gs_merged := False, gs_group := [], gs_atx := (gs_atx gs)\<lparr>ax_flags := ax_flags (gs_atx gs) XOR DAF_MERGED\<rparr>\<rparr>"
  show ?case
  proof (cases "entry_includes username u")
    case True
    then show ?thesis using Cons.IH[of ?in] by (auto simp: member_marks_def Let_def split: if_splits)
  next
    case False
    then show ?thesis using Cons.IH[of ?out] Cons.IH[of gs] by (auto simp: member_marks_def Let_def split: if_splits)
  qed
qed (simp add: member_marks_def)

lemma network_returns:
  "gs_classification gs \<Longrightarrow> \<not> gs_global gs \<Longrightarrow>
    if \<exists>u\<in>set us. global_entry u then class_peers username gs us = Inl NoReturn else \<exists>gs'. class_peers username gs us = Inr gs'"
proof (induction us arbitrary: gs)
  case (Cons u us)
  let ?gs = "gs\<lparr>gs_atx := (gs_atx gs)\<lparr>ax_classify_users := ax_classify_users (gs_atx gs) @ [u]\<rparr>\<rparr>"
  show ?case using Cons.IH[of gs] Cons.IH[of ?gs] Cons.prems by (auto simp: Let_def split: if_splits)
qed simp

lemma global_returns:
  "\<not> gs_classification gs \<Longrightarrow> gs_global gs \<Longrightarrow>
    if \<forall>u\<in>set us. global_entry u \<or> strcaseeq u username then \<exists>gs'. class_peers username gs us = Inr gs'
    else class_peers username gs us = Inl NoReturn"
proof (induction us arbitrary: gs)
  case (Cons u us)
  let ?gs = "gs\<lparr>gs_atx := add_flag DAF_GLOBAL ((gs_atx gs)\<lparr>ax_classify_users := ax_classify_users (gs_atx gs) @ [drop 1 u]\<rparr>)\<rparr>"
  show ?case using Cons.IH[of gs] Cons.IH[of ?gs] Cons.prems by (auto simp: Let_def split: if_splits)
qed simp

text \<open>
  C14. When the loops over the members of a group end. For a merged group that is when the entries
  that concern the user take him in and leave him out by turns, the first one unlike what he
  already is; the last of them decides. For the user of a classification network it is when
  the list has no global entry, and under a global group when it has no other user. All other
  lists make the program loop for ever.
\<close>

theorem group_loops_end_iff:
  "(if alternating (gs_merged gs) (member_marks username us)
    then \<exists>gs'. merged_members username grp gs us = Inr gs' \<and> gs_merged gs' = last (gs_merged gs # member_marks username us)
    else merged_members username grp gs us = Inl NoReturn) \<and>
   (gs_classification gs \<and> \<not> gs_global gs \<longrightarrow>
     (if \<exists>u\<in>set us. global_entry u then class_peers username gs us = Inl NoReturn else \<exists>gs'. class_peers username gs us = Inr gs')) \<and>
   (gs_global gs \<and> \<not> gs_classification gs \<longrightarrow>
     (if \<forall>u\<in>set us. global_entry u \<or> strcaseeq u username then \<exists>gs'. class_peers username gs us = Inr gs'
      else class_peers username gs us = Inl NoReturn))"
  using merged_returns[of gs username us grp] network_returns[of gs us username] global_returns[of gs us username] by blast

theorem group_loops_end_iff_witness:
  "merged_members ''ann'' ''g'' (no_groups blank_atx) [''*'', ''ann''] = Inl NoReturn \<and>
   class_peers ''ann'' ((no_groups blank_atx)\<lparr>gs_classification := True\<rparr>) [''ann'', ''*g''] = Inl NoReturn"
proof -
  have "\<not> alternating (gs_merged (no_groups blank_atx)) (member_marks ''ann'' [''*'', ''ann''])" "global_entry ''*g''" by code_simp+
  then show ?thesis using group_loops_end_iff[of "no_groups blank_atx" "''ann''" "[''*'', ''ann'']" "''g''"]
      group_loops_end_iff[of "(no_groups blank_atx)\<lparr>gs_classification := True\<rparr>" "''ann''" "[''ann'', ''*g'']" "''g''"]
    by (simp add: no_groups_def)
qed

end
