(* ===== verification/Ds_Retrain.thy ===== *)
theory Ds_Retrain
  imports Ds_Group Ds_Operate
begin

text \<open>
  How the agent uses the library: config\_api.c, which configures a context and attaches storage
  with failover, and the functions of dspam.c that process a message for other users, retrain it,
  and consult the groups. The operations of the library are a record; their state beyond the
  contexts, such as the database behind several of them, is \<open>'w\<close>.
\<close>

section \<open>The library as the agent sees it\<close>

record ('w, 's) engine =
  en_alloc :: "nat \<Rightarrow> bool"
  en_dspam_home :: "string option"
  en_attach :: "'w \<Rightarrow> 's msg_ctx \<Rightarrow> ('w \<times> 's msg_ctx \<times> int) cres"
  en_process :: "'w \<Rightarrow> 's msg_ctx \<Rightarrow> string option \<Rightarrow> ('w \<times> 's msg_ctx \<times> int) cres"
  en_destroy :: "'w \<Rightarrow> 's msg_ctx \<Rightarrow> 'w cres"

text \<open>The operations of \<^verbatim>\<open>libdspam.c\<close> over a storage driver, where every context has its own storage.\<close>

definition lib_engine ::
    "('s, ds_message) storage_driver \<Rightarrow> libm \<Rightarrow> (nat \<Rightarrow> nat \<Rightarrow> bool) \<Rightarrow> bool \<Rightarrow> (nat \<Rightarrow> bool) \<Rightarrow> string option \<Rightarrow> (unit, 's) engine" where
  "lib_engine drv m alloc buffers lines home =
     \<lparr>en_alloc = (\<lambda>_. True), en_dspam_home = home,
      en_attach = (\<lambda>w CTX. cbind (dspam_attach drv CTX) (\<lambda>(C, r). Inr (w, C, r))),
      en_process = (\<lambda>w CTX message. cbind (dspam_process drv m alloc buffers lines CTX message) (\<lambda>(C, r). Inr (w, C, r))),
      en_destroy = (\<lambda>w CTX. cbind (dspam_destroy drv CTX) (\<lambda>_. Inr w))\<rparr>"

definition lib_create :: "('w, 's) engine \<Rightarrow> agent_config \<Rightarrow> string option \<Rightarrow> string option \<Rightarrow> dsm \<Rightarrow> u32 \<Rightarrow> 's msg_ctx option" where
  "lib_create en conf username grp mode flags =
     dspam_create (en_alloc en) (en_dspam_home en) username grp (cfg_read conf ''Home'') mode flags"

section \<open>config\_api.c\<close>

definition driver_key :: "string \<Rightarrow> bool" where
  "driver_key k \<longleftrightarrow> case_prefix ''MySQL'' k \<or> case_prefix ''PgSQL'' k \<or> case_prefix ''SQLite'' k \<or> strcaseeq k ''LocalMX'' \<or>
     case_prefix ''Storage'' k \<or> case_prefix ''Processor'' k \<or> case_prefix ''Hash'' k"

text \<open>With a profile only the attributes of the profile count, without its name.\<close>

definition driver_attribute :: "string option \<Rightarrow> string \<times> string \<Rightarrow> (string \<times> string) list" where
  "driver_attribute profile p =
     (if \<not> driver_key (fst p) then []
      else if profile = None \<or> profile = Some [] then [p]
      else if CHR ''.'' \<in> set (fst p) \<and> strcaseeq (drop 1 (dropWhile (\<lambda>c. c \<noteq> CHR ''.'') (fst p))) (the profile)
      then [(takeWhile (\<lambda>c. c \<noteq> CHR ''.'') (fst p), snd p)] else [])"

text \<open>The order of the table: the values of a key are in one chain, at the place of the first.\<close>

function table_order :: "agent_config \<Rightarrow> agent_config" where
  "table_order [] = []"
| "table_order (p # ps) = p # filter (\<lambda>q. strcaseeq (fst p) (fst q)) ps @ table_order (filter (\<lambda>q. \<not> strcaseeq (fst p) (fst q)) ps)"
  by pat_completeness auto
termination by (relation "measure length") (auto simp: less_Suc_eq_le)

definition lib_attributes :: "agent_config \<Rightarrow> (string \<times> string) list" where
  "lib_attributes conf = filter (\<lambda>p. strcaseeq (fst p) ''IgnoreHeader'') conf @
     concat (map (driver_attribute (cfg_read conf ''DefaultProfile'')) (table_order conf))"

definition ctx_addattribute :: "('s, 'm) dspam_ctx \<Rightarrow> string \<times> string \<Rightarrow> ('s, 'm) dspam_ctx cres" where
  "ctx_addattribute CTX p =
     cbind (dspam_addattribute True \<lparr>cf_size = cx_config_size CTX, cf_attributes = cx_attributes CTX\<rparr> (fst p) (snd p)) (\<lambda>(cf, _).
       Inr (CTX\<lparr>cx_config_size := cf_size cf, cx_attributes := cf_attributes cf\<rparr>))"

definition set_libdspam_attributes :: "agent_config \<Rightarrow> ('s, 'm) dspam_ctx \<Rightarrow> ('s, 'm) dspam_ctx cres" where
  "set_libdspam_attributes conf CTX =
     cbind (cfold ctx_addattribute CTX (lib_attributes conf)) (\<lambda>C. Inr (configure_algorithms conf C))"

definition clear_ctx_attributes :: "('s, 'm) dspam_ctx \<Rightarrow> ('s, 'm) dspam_ctx" where
  "clear_ctx_attributes CTX = CTX\<lparr>cx_config_size := cf_size config_create, cx_attributes := cf_attributes config_create\<rparr>"

text \<open>The attempts that are left; the profile that failed is replaced by the one it names.\<close>

fun failover :: "('w, 's) engine \<Rightarrow> nat \<Rightarrow> 'w \<Rightarrow> agent_config \<Rightarrow> 's msg_ctx \<Rightarrow> int \<Rightarrow> ('w \<times> agent_config \<times> 's msg_ctx \<times> int) cres" where
  "failover en 0 w conf CTX r = Inr (w, conf, CTX, r)"
| "failover en (Suc n) w conf CTX r =
     (if r = 0 then Inr (w, conf, CTX, r)
      else
        (let profile = (case cfg_read conf ''DefaultProfile'' of None \<Rightarrow> ''(null)'' | Some p \<Rightarrow> p) in
         case cfg_read conf (copy_cut 128 (''Failover.'' @ profile)) of
           None \<Rightarrow> Inr (w, conf, CTX, r)
         | Some next_profile \<Rightarrow>
             cbind (cfg_overwrite conf ''DefaultProfile'' next_profile) (\<lambda>conf1.
             cbind (set_libdspam_attributes conf1 (clear_ctx_attributes CTX)) (\<lambda>CTX1.
             cbind (en_attach en w CTX1) (\<lambda>(w1, CTX2, r1). failover en n w1 conf1 CTX2 r1)))))"

definition attach_context :: "('w, 's) engine \<Rightarrow> 'w \<Rightarrow> agent_config \<Rightarrow> 's msg_ctx \<Rightarrow> ('w \<times> agent_config \<times> 's msg_ctx \<times> int) cres" where
  "attach_context en w conf CTX =
     cbind (en_attach en w CTX) (\<lambda>(w1, CTX1, r).
       if cfg_read conf ''DefaultProfile'' = None then Inr (w1, conf, CTX1, r)
       else failover en (case cfg_read conf ''FailoverAttempts'' of None \<Rightarrow> 1 | Some v \<Rightarrow> nat (atoi v)) w1 conf CTX1 r)"

section \<open>Contexts for other users\<close>

definition base_flags :: "agent_config \<Rightarrow> agent_ctx \<Rightarrow> u32" where
  "base_flags conf ATX =
     (if hasf ATX DAF_NOISE then DSF_NOISE else 0) OR pref_flag ATX ''processorBias'' (cfg_match conf ''ProcessorBias'' ''on'') DSF_BIAS"

text \<open>A context that is configured and attached; it is destroyed when attaching fails.\<close>

definition open_ctx ::
    "('w, 's) engine \<Rightarrow> 'w \<Rightarrow> agent_config \<Rightarrow> 's msg_ctx \<Rightarrow> ('w \<times> agent_config \<times> 's msg_ctx option) cres" where
  "open_ctx en w conf CTX =
     cbind (set_libdspam_attributes conf CTX) (\<lambda>C1.
     cbind (attach_context en w conf C1) (\<lambda>(w1, conf1, C2, r).
       if r \<noteq> 0 then cbind (en_destroy en w1 C2) (\<lambda>w2. Inr (w2, conf1, None)) else Inr (w1, conf1, Some C2)))"

text \<open>
  Processing by signature or by text. The signature is shared with the caller; the reference that is
  taken here is given back when the context is destroyed.
\<close>

definition process_given ::
    "('w, 's) engine \<Rightarrow> 'w \<Rightarrow> 's msg_ctx \<Rightarrow> char option list sig_cell option \<Rightarrow> string option \<Rightarrow> ('w \<times> 's msg_ctx \<times> int) cres" where
  "process_given en w CTX SIG message =
     (if SIG \<noteq> None
      then cbind (ds_spam_signature_get SIG) (\<lambda>(cell, _).
             en_process en w (CTX\<lparr>cx_flags := cx_flags CTX OR DSF_SIGNATURE, cx_signature := cell\<rparr>) None)
      else en_process en w CTX message)"

definition user_classify ::
    "('w, 's) engine \<Rightarrow> 'w \<Rightarrow> agent_config \<Rightarrow> agent_ctx \<Rightarrow> string \<Rightarrow> char option list sig_cell option \<Rightarrow> string option \<Rightarrow>
     ('w \<times> agent_config \<times> int) cres" where
  "user_classify en w conf ATX username SIG message =
     (if SIG = None \<and> message = None then Inr (w, conf, EINVAL)
      else case lib_create en conf (Some username) None DSM_CLASSIFY (base_flags conf ATX) of
        None \<Rightarrow> Inr (w, conf, 0)
      | Some CLX \<Rightarrow>
          cbind (open_ctx en w conf CLX) (\<lambda>(w1, conf1, opened).
            case opened of
              None \<Rightarrow> Inr (w1, conf1, EUNKNOWN)
            | Some C \<Rightarrow>
                cbind (process_given en w1 C SIG message) (\<lambda>(w2, C2, r).
                cbind (en_destroy en w2 C2) (\<lambda>w3. Inr (w3, conf1, if r \<noteq> 0 then EFAILURE else dsr_code (cx_result C2))))))"

definition inoculate_user ::
    "('w, 's) engine \<Rightarrow> 'w \<Rightarrow> agent_config \<Rightarrow> agent_ctx \<Rightarrow> string \<Rightarrow> char option list sig_cell option \<Rightarrow> string option \<Rightarrow>
     ('w \<times> agent_config \<times> int) cres" where
  "inoculate_user en w conf ATX username SIG message =
     cbind (user_classify en w conf ATX username SIG message) (\<lambda>(w1, conf1, k).
       if k = dsr_code DSR_ISSPAM then Inr (w1, conf1, EFAILURE)
       else case lib_create en conf1 (Some username) None DSM_PROCESS (base_flags conf1 ATX) of
         None \<Rightarrow> Inr (w1, conf1, 0)
       | Some INOC \<Rightarrow>
           cbind (open_ctx en w1 conf1 INOC) (\<lambda>(w2, conf2, opened).
             case opened of
               None \<Rightarrow> Inr (w2, conf2, EUNKNOWN)
             | Some C \<Rightarrow>
                 cbind (process_given en w2 (C\<lparr>cx_classification := DSR_ISSPAM, cx_source := DSS_INOCULATION\<rparr>) SIG message) (\<lambda>(w3, C3, r).
                 cbind (en_destroy en w3 C3) (\<lambda>w4. Inr (w4, conf2, r)))))"

section \<open>Retraining\<close>

definition immature :: "('s, 'm) dspam_ctx \<Rightarrow> bool" where
  "immature CTX \<longleftrightarrow> innocent_learned (cx_totals CTX) + innocent_classified (cx_totals CTX) < 1000 \<and> cx_classification CTX = DSR_ISSPAM"

text \<open>
  The test after a training: train again, stop (also when there is no context for the test), or
  report that the test failed.
\<close>

datatype retest = Again | Enough | Failed

definition reclassify ::
    "('w, 's) engine \<Rightarrow> 'w \<Rightarrow> agent_config \<Rightarrow> agent_ctx \<Rightarrow> char option list sig_cell option \<Rightarrow> 's msg_ctx \<Rightarrow> dsr \<Rightarrow>
     ('w \<times> agent_config \<times> retest) cres" where
  "reclassify en w conf ATX SIG CTX expected =
     (case lib_create en conf (cx_username CTX) (cx_group CTX) DSM_CLASSIFY (DSF_SIGNATURE OR base_flags conf ATX) of
        None \<Rightarrow> Inr (w, conf, Enough)
      | Some CLX \<Rightarrow>
          cbind (open_ctx en w conf (CLX\<lparr>cx_training_mode := cx_training_mode CTX\<rparr>)) (\<lambda>(w1, conf1, opened).
            case opened of
              None \<Rightarrow> Inr (w1, conf1, Enough)
            | Some C \<Rightarrow>
                cbind (ds_spam_signature_get SIG) (\<lambda>(cell, _).
                cbind (en_process en w1 (C\<lparr>cx_signature := cell\<rparr>) None) (\<lambda>(w2, C2, r).
                cbind (en_destroy en w2 C2) (\<lambda>w3.
                  Inr (w3, conf1, if r < 0 then Failed else if r = 0 \<or> cx_result C2 = expected then Enough else Again))))))"

text \<open>\<open>n\<close> is the number of iterations left, \<open>t_mode\<close> the source the request came with.\<close>

fun retrain_loop ::
    "('w, 's) engine \<Rightarrow> nat \<Rightarrow> dss \<Rightarrow> 'w \<Rightarrow> agent_config \<Rightarrow> agent_ctx \<Rightarrow> char option list sig_cell option \<Rightarrow> 's msg_ctx \<Rightarrow>
     ('w \<times> agent_config \<times> 's msg_ctx \<times> int) cres" where
  "retrain_loop en 0 t_mode w conf ATX SIG CTX = Inr (w, conf, CTX, 0)"
| "retrain_loop en (Suc n) t_mode w conf ATX SIG CTX =
     (let expected = (if cx_classification CTX = DSR_ISSPAM then DSR_ISSPAM else DSR_ISINNOCENT) in
      cbind (en_process en w CTX None) (\<lambda>(w1, C1, r).
        if r \<noteq> 0 then Inr (w1, conf, C1, EFAILURE)
        else
          (let C2 = C1\<lparr>cx_source := DSS_CORPUS\<rparr> in
           if immature C2 then Inr (w1, conf, C2, 0)
           else cbind (reclassify en w1 conf ATX SIG C2 expected) (\<lambda>(w2, conf2, t).
             if t = Failed then Inr (w2, conf2, C2, EFAILURE)
             else if t = Enough \<or> t_mode = DSS_CORPUS then Inr (w2, conf2, C2, 0)
             else retrain_loop en n t_mode w2 conf2 ATX SIG C2))))"

definition retrain_message ::
    "('w, 's) engine \<Rightarrow> 'w \<Rightarrow> agent_config \<Rightarrow> agent_ctx \<Rightarrow> char option list sig_cell option \<Rightarrow> 's msg_ctx \<Rightarrow>
     ('w \<times> agent_config \<times> 's msg_ctx \<times> int) cres" where
  "retrain_message en w conf ATX SIG CTX =
     (if \<not> cfg_match conf ''TestConditionalTraining'' ''on''
      then cbind (en_process en w CTX None) (\<lambda>(w1, C1, r). Inr (w1, conf, C1, if r \<noteq> 0 then EFAILURE else 0))
      else cbind (retrain_loop en 5 (cx_source CTX) w conf ATX SIG CTX) (\<lambda>(w1, conf1, C1, r).
             Inr (w1, conf1, if r = 0 then C1\<lparr>cx_source := DSS_ERROR\<rparr> else C1, r)))"

section \<open>Groups\<close>

definition LANG_CLASS_VIRUS :: string where "LANG_CLASS_VIRUS = ''Virus''"
definition LANG_CLASS_BLOCKLISTED :: string where "LANG_CLASS_BLOCKLISTED = ''Blocklisted''"
definition LANG_CLASS_BLACKLISTED :: string where "LANG_CLASS_BLACKLISTED = ''Blacklisted''"

definition defers_to_global :: "agent_ctx \<Rightarrow> ('s, 'm) dspam_ctx \<Rightarrow> bool" where
  "defers_to_global ATX CTX \<longleftrightarrow> hasf ATX DAF_GLOBAL \<and>
     (innocent_learned (cx_totals CTX) + innocent_corpusfed (cx_totals CTX) < 1000 \<or>
      spam_learned (cx_totals CTX) + spam_corpusfed (cx_totals CTX) < 250 \<or> cx_training_mode CTX = DST_NOTRAIN)"

text \<open>The peers are asked until one says spam.\<close>

fun ask_peers ::
    "('w, 's) engine \<Rightarrow> 'w \<Rightarrow> agent_config \<Rightarrow> agent_ctx \<Rightarrow> 's msg_ctx \<Rightarrow> int \<Rightarrow> string list \<Rightarrow> ('w \<times> agent_config \<times> 's msg_ctx \<times> int) cres" where
  "ask_peers en w conf ATX CTX result [] = Inr (w, conf, CTX, result)"
| "ask_peers en w conf ATX CTX result (u # us) =
     (if result = dsr_code DSR_ISSPAM then Inr (w, conf, CTX, result)
      else cbind (user_classify en w conf ATX u (cx_signature CTX) None) (\<lambda>(w1, conf1, r).
             ask_peers en w1 conf1 ATX (if r = dsr_code DSR_ISSPAM then CTX\<lparr>cx_result := DSR_ISSPAM\<rparr> else CTX) r us))"

text \<open>
  The user is retrained through a copy of the context that shares its storage and its signature; an
  error gives up the reference to the signature, which the context keeps using.
\<close>

definition retrain_as ::
    "('w, 's) engine \<Rightarrow> 'w \<Rightarrow> 's msg_ctx \<Rightarrow> dsr \<Rightarrow> string \<Rightarrow> (ds_spam_totals \<Rightarrow> ds_spam_totals) \<Rightarrow> ('w \<times> 's msg_ctx) cres" where
  "retrain_as en w CTX k class adjust =
     cbind (en_process en w (CTX\<lparr>cx_operating_mode := DSM_PROCESS, cx_classification := k, cx_source := DSS_ERROR,
              cx_flags := cx_flags CTX OR DSF_SIGNATURE\<rparr>) None) (\<lambda>(w1, C, _).
     cbind (if cx_signature C = None then ds_spam_signature_put (cx_signature CTX) else Inr (cx_signature C)) (\<lambda>sig.
       Inr (w1, CTX\<lparr>cx_storage := cx_storage C, cx_signature := sig, cx_totals := adjust (cx_totals C), cx_class := class, cx_result := k\<rparr>)))"

definition ensure_confident_result ::
    "('w, 's) engine \<Rightarrow> 'w \<Rightarrow> agent_config \<Rightarrow> agent_ctx \<Rightarrow> 's msg_ctx \<Rightarrow> int \<Rightarrow> ('w \<times> agent_config \<times> 's msg_ctx \<times> int) cres" where
  "ensure_confident_result en w conf ATX CTX result =
     (if ax_classify_users ATX = [] \<or>
         cx_class CTX \<in> {LANG_CLASS_WHITELISTED, LANG_CLASS_VIRUS, LANG_CLASS_BLOCKLISTED, LANG_CLASS_BLACKLISTED}
      then Inr (w, conf, CTX, result)
      else
        (let global = defers_to_global ATX CTX;
             was_spam = (global \<and> result = dsr_code DSR_ISSPAM);
             C1 = (if was_spam then CTX\<lparr>cx_result := DSR_ISINNOCENT\<rparr> else CTX);
             C2 = (if global then C1\<lparr>cx_confidence := fcast single_fmt (dlit (6/10))\<rparr> else C1);
             r = (if was_spam then dsr_code DSR_ISINNOCENT else result)
         in if r \<noteq> dsr_code DSR_ISSPAM \<and> cx_operating_mode C2 = DSM_PROCESS \<and> cx_classification C2 = DSR_NONE \<and>
               flt (cx_confidence C2) (dlit (65/100))
            then cbind (ask_peers en w conf ATX C2 r (ax_classify_users ATX)) (\<lambda>(w1, conf1, C3, r1).
                   if r1 = dsr_code DSR_ISSPAM \<and> \<not> was_spam
                   then cbind (retrain_as en w1 C3 DSR_ISSPAM LANG_CLASS_SPAM
                                (\<lambda>t. t\<lparr>spam_misclassified := spam_misclassified t - 1\<rparr>)) (\<lambda>(w2, C4). Inr (w2, conf1, C4, r1))
                   else if r1 = dsr_code DSR_ISINNOCENT \<and> was_spam
                   then cbind (retrain_as en w1 C3 DSR_ISINNOCENT LANG_CLASS_INNOCENT
                                (\<lambda>t. t\<lparr>innocent_misclassified := innocent_misclassified t - 1\<rparr>)) (\<lambda>(w2, C4). Inr (w2, conf1, C4, r1))
                   else Inr (w1, conf1, C3, r1))
            else Inr (w, conf, C2, r)))"

section \<open>Properties\<close>

text \<open>A driver that also keeps the request when it is attached.\<close>

locale attachable = storage drv
  for drv :: "('s, ds_message) storage_driver" +
  assumes init_request: "ds_init_storage drv C = Inr (C', r) \<Longrightarrow> same_request C C'"

lemma hash_ready_request: "hash_ready CTX s = Inr (C, r) \<Longrightarrow> same_request CTX C"
  by (auto simp: hash_ready_def hash_drv_get_spamtotals_def same_request_def cbind_Inr_iff Let_def split: option.splits if_splits)

lemma hash_init_request: "hash_init_storage env dbh CTX = Inr (C, r) \<Longrightarrow> same_request CTX C"
  unfolding hash_init_storage_def cbind_Inr_iff
  by (elim if_eqE) (auto simp: cbind_Inr_iff dest: hash_ready_request elim!: if_eqE)

interpretation hash_att: attachable "hash_driver env"
  by unfold_locales (simp add: hash_driver_def hash_init_request)

text \<open>A request to classify that is not refused.\<close>

definition classifying :: "('s, 'm) dspam_ctx \<Rightarrow> bool" where
  "classifying C \<longleftrightarrow> cx_operating_mode C = DSM_CLASSIFY \<and> cx_classification C = DSR_NONE \<and> cx_source C = DSS_NONE"

lemma algorithm_flag_nonzero: "a \<noteq> 0 \<Longrightarrow> algorithm_flag conf k v f a \<noteq> 0"
  by (simp add: algorithm_flag_def or_eq_0_iff)

lemma configure_algorithms_some: "cx_algorithms (configure_algorithms conf CTX) \<noteq> 0"
proof -
  have "a OR (if x then DSP_ROBINSON else if y then DSP_MARKOV else DSP_GRAHAM) \<noteq> 0" for a :: u32 and x y
    by (auto simp: or_eq_0_iff DSP_ROBINSON_def DSP_MARKOV_def DSP_GRAHAM_def)
  then show ?thesis unfolding configure_algorithms_def Let_def by (simp add: algorithm_flag_nonzero)
qed

lemma configure_algorithms_classifying: "classifying (configure_algorithms conf CTX) = classifying CTX"
  by (simp add: classifying_def configure_algorithms_def Let_def)

lemma set_attributes_classifying:
  assumes "set_libdspam_attributes conf CTX = Inr C" "classifying CTX"
  shows "classifying C \<and> cx_algorithms C \<noteq> 0"
proof -
  have "cfold ctx_addattribute A ps = Inr B \<Longrightarrow> classifying A \<Longrightarrow> classifying B" for A B :: "('a, 'b) dspam_ctx" and ps
    by (induction ps arbitrary: A) (force simp: ctx_addattribute_def cbind_Inr_iff classifying_def)+
  then obtain B where "classifying B" "C = configure_algorithms conf B"
    using assms by (auto simp: set_libdspam_attributes_def cbind_Inr_iff)
  then show ?thesis by (simp add: configure_algorithms_some configure_algorithms_classifying)
qed

lemma classifying_request: "same_request C C' \<Longrightarrow> classifying C \<and> cx_algorithms C \<noteq> 0 \<longleftrightarrow> classifying C' \<and> cx_algorithms C' \<noteq> 0"
  by (simp add: classifying_def same_request_def)

lemma classify_code:
  assumes "dspam_process drv m a buffers lines CTX message = Inr (C, r)" "classifying CTX" "cx_algorithms CTX \<noteq> 0"
  shows "r \<le> 0"
  using assms by (auto simp: dspam_process_def invalid_request_def process_request_def process_text_def apply_verdict_def cbind_Inr_iff
      Let_def classifying_def classifies_only_def undertrained_def EUNKNOWN_def EFAILURE_def split: if_splits)

context attachable
begin

lemma attach_request:
  assumes "en_attach (lib_engine drv m a buffers lines home) w CTX = Inr (w', C, r)"
  shows "same_request CTX C"
  using assms init_request by (auto simp: lib_engine_def dspam_attach_def cbind_Inr_iff)

lemma failover_classifying:
  "failover (lib_engine drv m a buffers lines home) n w conf CTX r = Inr (w', conf', C, r') \<Longrightarrow> classifying CTX \<Longrightarrow> cx_algorithms CTX \<noteq> 0 \<Longrightarrow>
   classifying C \<and> cx_algorithms C \<noteq> 0"
proof (induction n arbitrary: w conf CTX r)
  case (Suc n)
  have c: "classifying (clear_ctx_attributes CTX)" using Suc.prems(2) by (simp add: classifying_def clear_ctx_attributes_def)
  show ?case
    using Suc.prems Suc.IH classifying_request[OF attach_request] set_attributes_classifying[OF _ c]
    by (auto simp: cbind_Inr_iff Let_def split: if_splits option.splits) blast+
qed simp

lemma open_classifying:
  assumes "open_ctx (lib_engine drv m a buffers lines home) w conf CTX = Inr (w', conf', Some C)" "classifying CTX"
  shows "classifying C \<and> cx_algorithms C \<noteq> 0"
proof -
  obtain C1 r where 1: "set_libdspam_attributes conf CTX = Inr C1"
    "attach_context (lib_engine drv m a buffers lines home) w conf C1 = Inr (w', conf', C, r)"
    using assms(1) by (auto simp: open_ctx_def cbind_Inr_iff split: if_splits)
  have "classifying C1 \<and> cx_algorithms C1 \<noteq> 0" using set_attributes_classifying[OF 1(1) assms(2)] .
  then show ?thesis using 1(2) classifying_request[OF attach_request] failover_classifying
    by (auto simp: attach_context_def cbind_Inr_iff split: if_splits) blast+
qed

lemma reclassify_ends:
  assumes "reclassify (lib_engine drv m a buffers lines home) w conf ATX SIG CTX k = Inr (w', conf', t)"
  shows "t \<noteq> Again"
proof
  let ?en = "lib_engine drv m a buffers lines home"
  assume "t = Again"
  then obtain CLX C cell w1 w2 C2 r x where
      clx: "lib_create ?en conf (cx_username CTX) (cx_group CTX) DSM_CLASSIFY (DSF_SIGNATURE OR base_flags conf ATX) = Some CLX"
    and C: "open_ctx ?en w conf (CLX\<lparr>cx_training_mode := cx_training_mode CTX\<rparr>) = Inr (w1, conf', Some C)"
    and p: "en_process ?en w1 (C\<lparr>cx_signature := cell\<rparr>) None = Inr (w2, C2, r)" and r: "0 < r"
    using assms by (auto simp: reclassify_def cbind_Inr_iff split: option.splits if_splits)
  have "classifying (CLX\<lparr>cx_training_mode := cx_training_mode CTX\<rparr>)"
    using clx by (auto simp: lib_create_def dspam_create_def classifying_def split: if_splits)
  from open_classifying[OF C this] have c: "classifying (C\<lparr>cx_signature := cell\<rparr>) \<and> cx_algorithms (C\<lparr>cx_signature := cell\<rparr>) \<noteq> 0"
    by (simp add: classifying_def)
  have "dspam_process drv m a buffers lines (C\<lparr>cx_signature := cell\<rparr>) None = Inr (C2, r)"
    using p by (auto simp: lib_engine_def cbind_Inr_iff)
  from classify_code[OF this] c r show False by simp
qed

lemma retrain_loop_once:
  assumes loop: "retrain_loop (lib_engine drv m a buffers lines home) (Suc n) t w conf ATX SIG CTX = Inr (w', conf', C1, r)"
  shows "\<exists>C k. dspam_process drv m a buffers lines CTX None = Inr (C, k) \<and>
     C1 = (if k \<noteq> 0 then C else C\<lparr>cx_source := DSS_CORPUS\<rparr>) \<and> (k \<noteq> 0 \<longrightarrow> r = EFAILURE)"
proof -
  let ?en = "lib_engine drv m a buffers lines home"
  obtain C k where p: "en_process ?en () CTX None = Inr ((), C, k)"
    using loop by (auto simp: cbind_Inr_iff Let_def)
  have "C1 = (if k \<noteq> 0 then C else C\<lparr>cx_source := DSS_CORPUS\<rparr>) \<and> (k \<noteq> 0 \<longrightarrow> r = EFAILURE)"
  proof (cases "k \<noteq> 0")
    case False
    have "reclassify ?en w conf ATX SIG D e = Inr (w1, conf1, u) \<Longrightarrow> u = Failed \<or> u = Enough" for D e w1 conf1 u
      using reclassify_ends[of m a buffers lines home w conf ATX SIG D e w1 conf1 u] by (cases u) auto
    moreover have "(if immature (C\<lparr>cx_source := DSS_CORPUS\<rparr>) then Inr (w, conf, C\<lparr>cx_source := DSS_CORPUS\<rparr>, 0)
       else cbind (reclassify ?en w conf ATX SIG (C\<lparr>cx_source := DSS_CORPUS\<rparr>)
           (if cx_classification CTX = DSR_ISSPAM then DSR_ISSPAM else DSR_ISINNOCENT)) (\<lambda>(w2, conf2, u).
         if u = Failed then Inr (w2, conf2, C\<lparr>cx_source := DSS_CORPUS\<rparr>, EFAILURE)
         else if u = Enough \<or> t = DSS_CORPUS then Inr (w2, conf2, C\<lparr>cx_source := DSS_CORPUS\<rparr>, 0)
         else retrain_loop ?en n t w2 conf2 ATX SIG (C\<lparr>cx_source := DSS_CORPUS\<rparr>))) = Inr (w', conf', C1, r)"
      using loop False by (simp add: p Let_def cong: if_cong split del: if_split)
    ultimately show ?thesis using False by (auto simp: cbind_Inr_iff split: if_splits)
  qed (use loop p in \<open>simp add: Let_def\<close>)
  then show ?thesis using p by (auto simp: lib_engine_def cbind_Inr_iff)
qed

end

text \<open>
  C35. A correction is trained once. Whether test-conditional training is on or not, and whatever
  the message and the configuration are: when \<^verbatim>\<open>retrain_message\<close> of dspam.c returns, over a driver
  that keeps the request, the context is the one a single call of \<^verbatim>\<open>dspam_process\<close> left, up to its
  source; an error of that call is reported, and success is reported only after its success. The
  five iterations of the loop are never used, since every classification that succeeds meets
  the test that ends it.
\<close>

theorem retrain_trains_once:
  assumes "attachable drv"
    and "retrain_message (lib_engine drv m alloc buffers lines home) w conf ATX SIG CTX = Inr (w', conf', CTX', r)"
  shows "\<exists>C k s. dspam_process drv m alloc buffers lines CTX None = Inr (C, k) \<and> CTX' = C\<lparr>cx_source := s\<rparr> \<and>
     (k \<noteq> 0 \<longrightarrow> r = EFAILURE \<and> CTX' = C) \<and>
     (r = 0 \<longrightarrow> k = 0 \<and> CTX' = (if cfg_match conf ''TestConditionalTraining'' ''on'' then C\<lparr>cx_source := DSS_ERROR\<rparr> else C))"
proof (cases "cfg_match conf ''TestConditionalTraining'' ''on''")
  case False
  then obtain k where k: "dspam_process drv m alloc buffers lines CTX None = Inr (CTX', k)" "r = (if k \<noteq> 0 then EFAILURE else 0)"
    using assms(2) by (auto simp: retrain_message_def lib_engine_def cbind_Inr_iff)
  then show ?thesis using False
    by (intro exI[of _ CTX'] exI[of _ k] exI[of _ "cx_source CTX'"]) (auto simp: EFAILURE_def)
next
  case True
  then obtain C1 where loop: "retrain_loop (lib_engine drv m alloc buffers lines home) (Suc 4) (cx_source CTX) w conf ATX SIG CTX =
      Inr (w', conf', C1, r)"
    and CTX': "CTX' = (if r = 0 then C1\<lparr>cx_source := DSS_ERROR\<rparr> else C1)"
    using assms(2) by (auto simp: retrain_message_def cbind_Inr_iff numeral_eq_Suc simp del: retrain_loop.simps)
  obtain C k where k: "dspam_process drv m alloc buffers lines CTX None = Inr (C, k)"
    "C1 = (if k \<noteq> 0 then C else C\<lparr>cx_source := DSS_CORPUS\<rparr>)" "k \<noteq> 0 \<longrightarrow> r = EFAILURE"
    using attachable.retrain_loop_once[OF assms(1) loop] by blast
  then show ?thesis using True CTX'
    by (intro exI[of _ C] exI[of _ k] exI[of _ "cx_source CTX'"]) (auto simp: EFAILURE_def)
qed

theorem retrain_trains_once_witness:
  "\<forall>ATX. \<exists>C. retrain_message (lib_engine (hash_driver (good_env None)) any_libm (\<lambda>_ _. True) True (\<lambda>_. True) None) () [] ATX None retrain_ctx =
      Inr ((), [], C, 0) \<and>
     dspam_process (hash_driver (good_env None)) any_libm (\<lambda>_ _. True) True (\<lambda>_. True) retrain_ctx None = Inr (C, 0)"
proof
  fix ATX
  obtain C where C: "dspam_process (hash_driver (good_env None)) any_libm (\<lambda>_ _. True) True (\<lambda>_. True) retrain_ctx None = Inr (C, 0)"
    using retrain_run by blast
  let ?en = "lib_engine (hash_driver (good_env None)) any_libm (\<lambda>_ _. True) True (\<lambda>_. True) None"
  have r: "retrain_message ?en () [] ATX None retrain_ctx = Inr ((), [], C, 0)"
    by (simp add: retrain_message_def cfg_match_def lib_engine_def C)
  from retrain_trains_once[OF hash_att.attachable_axioms r] obtain D k where
    "dspam_process (hash_driver (good_env None)) any_libm (\<lambda>_ _. True) True (\<lambda>_. True) retrain_ctx None = Inr (D, k)"
    "k = 0 \<and> C = (if cfg_match [] ''TestConditionalTraining'' ''on'' then D\<lparr>cx_source := DSS_ERROR\<rparr> else D)" by metis
  with r show "\<exists>C. retrain_message ?en () [] ATX None retrain_ctx = Inr ((), [], C, 0) \<and>
     dspam_process (hash_driver (good_env None)) any_libm (\<lambda>_ _. True) True (\<lambda>_. True) retrain_ctx None = Inr (C, 0)"
    by (intro exI[of _ C]) (simp add: cfg_match_def)
qed

end
