(* ===== verification/Ds_Deliver.thy ===== *)
theory Ds_Deliver
  imports Ds_Retrain
begin

text \<open>
  dspam.c: what becomes of a message and of the record of it. Delivery to an agent, a socket or a
  stream, the quarantine mailbox, notices, statistics, logs, and the lists of blocked sources. Files,
  clock, pipes, sockets and the resolver are operations on the outside world \<open>'w\<close>.
\<close>

section \<open>The outside world\<close>

text \<open>How a pipe ends: not opened, not closed, by the exit code or the signal of the agent, or otherwise.\<close>

datatype pipe_end = NoPipe | NotClosed | Exited int | Signalled int | OtherEnd int

text \<open>
  The recipient is a string of a list, a buffer of \<^verbatim>\<open>process_users\<close>, or the array of a
  \<^verbatim>\<open>deliver_message\<close> that has returned. The number is the room of the memory that holds it.
\<close>

datatype rcpt = NoRcpt | Rcpt string nat | RcptGone

definition ERC_SUCCESS :: int where "ERC_SUCCESS = 0"
definition ERC_PROCESS :: int where "ERC_PROCESS = -1"
definition ERC_DELIVERY :: int where "ERC_DELIVERY = -2"
definition ERC_PERMANENT_DELIVERY :: int where "ERC_PERMANENT_DELIVERY = -3"

record agent_result =
  ar_exitcode :: int
  ar_classification :: int
  ar_text :: string

text \<open>The fields of the agent's context that processing sets; \<open>rn_sockfd\<close> tells whether there is a client.\<close>

record agent_run =
  rn_atx :: agent_ctx
  rn_recipient :: rcpt
  rn_status :: string
  rn_learned :: bool
  rn_sockfd :: bool
  rn_sockfd_output :: bool
  rn_results :: "agent_result list option"
  rn_SIG :: "char option list sig_cell option"

record 'w sys =
  sy_read :: "'w \<Rightarrow> string \<Rightarrow> string option"
  sy_size :: "'w \<Rightarrow> string \<Rightarrow> int option"
  sy_lock :: "'w \<Rightarrow> string \<Rightarrow> bool"
  sy_append :: "'w \<Rightarrow> string \<Rightarrow> string \<Rightarrow> 'w option"
  sy_write :: "'w \<Rightarrow> string \<Rightarrow> string \<Rightarrow> 'w option"
  sy_rename :: "'w \<Rightarrow> string \<Rightarrow> string \<Rightarrow> 'w"
  sy_prepare :: "'w \<Rightarrow> string \<Rightarrow> 'w"
  sy_time :: "'w \<Rightarrow> int"
  sy_ctime :: "int \<Rightarrow> string"
  sy_date :: "int \<Rightarrow> string"
  sy_print :: "'w \<Rightarrow> string \<Rightarrow> 'w"
  sy_pipe :: "'w \<Rightarrow> string \<Rightarrow> string \<Rightarrow> 'w \<times> pipe_end"
  sy_socket :: "'w \<Rightarrow> agent_run \<Rightarrow> string \<Rightarrow> bool \<Rightarrow> 'w \<times> string \<times> int"
  sy_resolve :: "'w \<Rightarrow> string \<Rightarrow> string option"
  sy_layout :: layout

definition use_lmtp :: "agent_config \<Rightarrow> bool" where "use_lmtp conf \<longleftrightarrow> cfg_read conf ''DeliveryProto'' = Some ''LMTP''"
definition use_smtp :: "agent_config \<Rightarrow> bool" where "use_smtp conf \<longleftrightarrow> cfg_read conf ''DeliveryProto'' = Some ''SMTP''"

definition LOOKUP :: "prefs option \<Rightarrow> string \<Rightarrow> string" where
  "LOOKUP PTX user = (if ds_pref_val PTX ''localStore'' \<noteq> [] then ds_pref_val PTX ''localStore'' else user)"

definition set_status :: "string \<Rightarrow> agent_run \<Rightarrow> agent_run" where
  "set_status s run = run\<lparr>rn_status := copy_cut 256 s\<rparr>"

text \<open>The file of a user with the given extension.\<close>

definition user_file :: "'w sys \<Rightarrow> agent_config \<Rightarrow> agent_ctx \<Rightarrow> string \<Rightarrow> string \<Rightarrow> string cres" where
  "user_file sys conf ATX user ext =
     (case cfg_read conf ''Home'' of
        None \<Rightarrow> Inl NullDeref
      | Some home \<Rightarrow> ds_userdir_path (sy_layout sys) home (LOOKUP (ax_PTX ATX) user) (Some ext))"

text \<open>The user of a context, and the one whose files record it.\<close>

definition user_of :: "('s, 'm) dspam_ctx \<Rightarrow> string" where
  "user_of CTX = (case cx_username CTX of None \<Rightarrow> [] | Some u \<Rightarrow> u)"

definition owner :: "agent_ctx \<Rightarrow> ('s, 'm) dspam_ctx \<Rightarrow> string" where
  "owner ATX CTX = (if ax_managed_group ATX \<noteq> [] then ax_managed_group ATX else user_of CTX)"

section \<open>The command of the delivery agent\<close>

definition sh_plain :: "char \<Rightarrow> bool" where
  "sh_plain c \<longleftrightarrow> c_isalnum c \<or> c \<in> set ''+_-./@''"

text \<open>The array has 256 bytes. A character that is not plain gets a backslash; what no longer fits is lost.\<close>

function escape_from :: "string \<Rightarrow> nat \<Rightarrow> string" where
  "escape_from a i =
     (if i \<ge> length a then a
      else if sh_plain (a ! i) then escape_from a (i + 1)
      else escape_from (cat_cut 256 (take i a @ [CHR 0x5C]) (drop i a)) (i + 2))"
  by auto
termination
  by (relation "measure (\<lambda>(a, i). max 256 (length a) - i)") (auto simp: cat_cut_def)

declare escape_from.simps [simp del]

definition escape_arg :: "string \<Rightarrow> string" where
  "escape_arg a = (if a = [CHR 0x22, CHR 0x22] then a else escape_from a 0)"

text \<open>An option may carry a backslash.\<close>

definition is_symbol :: "string \<Rightarrow> string \<Rightarrow> bool" where
  "is_symbol s arg \<longleftrightarrow> arg = s \<or> arg = CHR 0x5C # s"

definition expand_arg :: "agent_ctx \<Rightarrow> string \<Rightarrow> string \<Rightarrow> string \<Rightarrow> string" where
  "expand_arg ATX username recipient arg =
     copy_cut 256
       (if is_symbol ''$u'' arg \<or> is_symbol ''%u'' arg then username
        else if is_symbol ''%r'' arg then recipient
        else if is_symbol ''%s'' arg then ax_mailfrom ATX
        else arg)"

text \<open>
  The command grows in an array of 1024 bytes. When the quarantine mailbox was computed the
  recipient is that very array, so \<open>%r\<close> is the command so far.
\<close>

fun build_command :: "agent_ctx \<Rightarrow> string \<Rightarrow> string option \<Rightarrow> string \<Rightarrow> string list \<Rightarrow> string" where
  "build_command ATX username recipient out [] = out"
| "build_command ATX username recipient out (arg # rest) =
     (let r = (case recipient of Some r \<Rightarrow> r | None \<Rightarrow> out);
          out1 = cat_cut 1024 out (escape_arg (expand_arg ATX username r arg))
      in build_command ATX username recipient (if rest = [] then out1 else cat_cut 1024 out1 '' '') rest)"

definition delivery_command :: "agent_ctx \<Rightarrow> string \<Rightarrow> string option \<Rightarrow> string \<Rightarrow> string" where
  "delivery_command ATX username recipient mailer_args =
     build_command ATX username recipient [] (strseps (Some mailer_args) '' '')"

section \<open>Delivery\<close>

definition quarantine_mailbox :: "string \<Rightarrow> string \<Rightarrow> string" where
  "quarantine_mailbox recipient box =
     (let a = takeWhile (\<lambda>c. c \<noteq> CHR ''@'') (copy_cut 1024 recipient);
          b = cat_cut 1024 (takeWhile (\<lambda>c. c \<noteq> CHR ''+'') a) box
      in if CHR ''@'' \<in> set recipient then cat_cut 1024 b (dropWhile (\<lambda>c. c \<noteq> CHR ''@'') recipient) else b)"

definition by_socket :: "agent_config \<Rightarrow> agent_ctx \<Rightarrow> dsr \<Rightarrow> bool" where
  "by_socket conf ATX result \<longleftrightarrow> (use_lmtp conf \<or> use_smtp conf) \<and> \<not> hasf ATX DAF_STDOUT \<and>
     \<not> (result = DSR_ISSPAM \<and> cfg_read conf ''QuarantineAgent'' \<noteq> None \<and>
        ax_PTX ATX \<noteq> None \<and> ds_pref_val (ax_PTX ATX) ''spamAction'' = ''quarantine'')"

definition agent_code :: "agent_config \<Rightarrow> pipe_end \<Rightarrow> int" where
  "agent_code conf e =
     (case e of
        NoPipe \<Rightarrow> EFILE
      | NotClosed \<Rightarrow> EFILE
      | Exited n \<Rightarrow> if n = 0 then 0 else if cfg_match conf ''LMTPLDAErrorsPermanent'' ''on'' then EINVAL else n
      | Signalled n \<Rightarrow> n
      | OtherEnd n \<Rightarrow> n)"

text \<open>What \<open>%r\<close> stands for: None when it is the array of the command.\<close>

definition recipient_of :: "rcpt \<Rightarrow> bool \<Rightarrow> string \<Rightarrow> string option cres" where
  "recipient_of r quarantined username =
     (if quarantined then Inr None
      else case r of NoRcpt \<Rightarrow> Inr (Some username) | Rcpt s _ \<Rightarrow> Inr (Some s) | RcptGone \<Rightarrow> Inl UseAfterFree)"

definition deliver_local ::
    "'w sys \<Rightarrow> agent_config \<Rightarrow> 'w \<Rightarrow> agent_run \<Rightarrow> string \<Rightarrow> string option \<Rightarrow> string \<Rightarrow> dsr \<Rightarrow> bool \<Rightarrow> ('w \<times> int) cres" where
  "deliver_local sys conf w run message mailer_args username result quarantined =
     (let w1 = (if rn_sockfd run \<and> hasf (rn_atx run) DAF_STDOUT
                then sy_print sys w (''X-Daemon-Classification: '' @ (if result = DSR_ISSPAM then ''SPAM'' else ''INNOCENT'') @ [CHR 0x0A])
                else w)
      in case mailer_args of
           None \<Rightarrow> Inr (sy_print sys w1 message, 0)
         | Some args \<Rightarrow>
             cbind (if \<exists>a\<in>set (strseps (Some args) '' ''). is_symbol ''%r'' a
                    then recipient_of (rn_recipient run) quarantined username else Inr None) (\<lambda>r.
               case sy_pipe sys w1 (delivery_command (rn_atx run) username r args) message of
                 (w2, e) \<Rightarrow> Inr (w2, agent_code conf e)))"

definition deliver_message ::
    "'w sys \<Rightarrow> agent_config \<Rightarrow> 'w \<Rightarrow> agent_run \<Rightarrow> string \<Rightarrow> string option \<Rightarrow> string \<Rightarrow> dsr \<Rightarrow> ('w \<times> agent_run \<times> int) cres" where
  "deliver_message sys conf w run message mailer_args username result =
     (let box = cfg_read conf ''QuarantineMailbox''; quarantined = (box \<noteq> None \<and> result = DSR_ISSPAM)
      in cbind (if quarantined
                then (case rn_recipient run of
                        NoRcpt \<Rightarrow> Inl NullDeref
                      | RcptGone \<Rightarrow> Inl UseAfterFree
                      | Rcpt s n \<Rightarrow> Inr (Rcpt (quarantine_mailbox s (the box)) 1024))
                else Inr (rn_recipient run)) (\<lambda>r.
           let run1 = run\<lparr>rn_recipient := r\<rparr>; gone = (if quarantined then RcptGone else r)
           in if by_socket conf (rn_atx run) result
              then (case sy_socket sys w run1 message (use_lmtp conf) of
                      (w1, status, rc) \<Rightarrow> Inr (w1, run\<lparr>rn_recipient := gone, rn_status := status\<rparr>, rc))
              else cbind (deliver_local sys conf w run1 message mailer_args username result quarantined) (\<lambda>(w1, rc).
                     Inr (w1, run\<lparr>rn_recipient := gone\<rparr>, rc))))"

section \<open>Quarantine\<close>

definition from_line :: "string \<Rightarrow> bool" where
  "from_line l \<longleftrightarrow> take 5 l = ''From ''"

definition quote_line :: "string \<Rightarrow> string" where
  "quote_line l = (if from_line l then CHR ''>'' # l else l) @ [CHR 0x0A]"

definition mbox_head :: "string \<Rightarrow> string \<Rightarrow> string" where
  "mbox_head date message = (if from_line message then [] else copy_cut 128 (''From QUARANTINE '' @ date))"

definition mbox_entry :: "string \<Rightarrow> string \<Rightarrow> string" where
  "mbox_entry date message =
     mbox_head date message @
     (case strseps (Some message) [CHR 0x0A] of [] \<Rightarrow> [] | l # ls \<Rightarrow> l @ [CHR 0x0A] @ concat (map quote_line ls)) @ [CHR 0x0A, CHR 0x0A]"

text \<open>Errors of writing are not noticed.\<close>

definition append_locked :: "'w sys \<Rightarrow> 'w \<Rightarrow> string \<Rightarrow> string \<Rightarrow> 'w \<times> int" where
  "append_locked sys w f txt =
     (case sy_append sys w f [] of
        None \<Rightarrow> (w, EFILE)
      | Some w1 \<Rightarrow>
          if \<not> sy_lock sys w1 f then (w1, EFILE)
          else (case sy_append sys w1 f txt of None \<Rightarrow> w1 | Some w2 \<Rightarrow> w2, 0))"

definition quarantine_message :: "'w sys \<Rightarrow> agent_config \<Rightarrow> 'w \<Rightarrow> agent_ctx \<Rightarrow> string \<Rightarrow> string \<Rightarrow> ('w \<times> int) cres" where
  "quarantine_message sys conf w ATX message username =
     cbind (user_file sys conf ATX username ''mbox'') (\<lambda>f.
       let w1 = sy_prepare sys w f
       in Inr (append_locked sys w1 f (mbox_entry (sy_ctime sys (sy_time sys w1)) message)))"

section \<open>Notices\<close>

fun notice_line :: "string \<Rightarrow> string \<Rightarrow> string" where
  "notice_line username (c # d # s) =
     (if c = CHR ''$'' \<and> d = CHR ''u'' then username @ notice_line username s else c # notice_line username (d # s))"
| "notice_line username s = s"

definition notice_text :: "string \<Rightarrow> string \<Rightarrow> string \<Rightarrow> string" where
  "notice_text date username contents = date @ concat (map (notice_line username) (fgets_all 1024 contents))"

definition send_notice ::
    "'w sys \<Rightarrow> agent_config \<Rightarrow> 'w \<Rightarrow> agent_run \<Rightarrow> string \<Rightarrow> string \<Rightarrow> string \<Rightarrow> ('w \<times> agent_run \<times> int) cres" where
  "send_notice sys conf w run filename mailer_args username =
     cbind (case cfg_read conf ''TxtDirectory'' of
              Some d \<Rightarrow> Inr (path_cut (d @ ''/'' @ filename))
            | None \<Rightarrow> (case cfg_read conf ''Home'' of None \<Rightarrow> Inl NullDeref | Some h \<Rightarrow> Inr (path_cut (h @ ''/txt/'' @ filename)))) (\<lambda>f.
       case sy_read sys w f of
         None \<Rightarrow> Inr (w, run, EFILE)
       | Some contents \<Rightarrow>
           deliver_message sys conf w run (notice_text (sy_date sys (sy_time sys w)) username contents) (Some mailer_args) username DSR_ISINNOCENT)"

definition show_int :: "int \<Rightarrow> string" where
  "show_int i = (if i < 0 then CHR ''-'' # decimal (nat (- i)) else decimal (nat i))"

definition wants_notices :: "agent_config \<Rightarrow> agent_ctx \<Rightarrow> bool" where
  "wants_notices conf ATX \<longleftrightarrow>
     (cfg_match conf ''Notifications'' ''on'' \<or> strcaseeq (ds_pref_val (ax_PTX ATX) ''notifications'') ''on'') \<and>
     \<not> strcaseeq (ds_pref_val (ax_PTX ATX) ''notifications'') ''off''"

definition write_if :: "'w sys \<Rightarrow> 'w \<Rightarrow> string \<Rightarrow> string \<Rightarrow> 'w" where
  "write_if sys w f txt = (case sy_write sys w f txt of None \<Rightarrow> w | Some w1 \<Rightarrow> w1)"

text \<open>A notice that is sent once: the mark is written after it, whatever became of it.\<close>

definition notify_once :: "'w sys \<Rightarrow> agent_config \<Rightarrow> string \<Rightarrow> string \<Rightarrow> string \<Rightarrow> 'w \<times> agent_run \<Rightarrow> ('w \<times> agent_run) cres" where
  "notify_once sys conf username ext filename st =
     (case st of (w, run) \<Rightarrow>
        cbind (user_file sys conf (rn_atx run) username ext) (\<lambda>f.
          if sy_read sys w f \<noteq> None then Inr (w, run)
          else cbind (send_notice sys conf w run filename (ax_mailer_args (rn_atx run)) username) (\<lambda>(w1, run1, _).
                 let w2 = sy_prepare sys w1 f
                 in Inr (write_if sys w2 f (show_int (sy_time sys w2) @ [CHR 0x0A]), run1))))"

definition notify_size :: "'w sys \<Rightarrow> agent_config \<Rightarrow> string \<Rightarrow> 'w \<times> agent_run \<Rightarrow> ('w \<times> agent_run) cres" where
  "notify_size sys conf username st =
     (case st of (w, run) \<Rightarrow>
        let warn_size = (case cfg_read conf ''QuarantineWarnSize'' of None \<Rightarrow> 1024 * 1024 * 2 | Some v \<Rightarrow> atoi v) in
        cbind (user_file sys conf (rn_atx run) username ''mbox'') (\<lambda>q.
        cbind (user_file sys conf (rn_atx run) username ''mboxwarn'') (\<lambda>f.
          case sy_size sys w q of
            None \<Rightarrow> Inr (w, run)
          | Some n \<Rightarrow>
              if n \<le> warn_size \<or> sy_size sys w f \<noteq> None then Inr (w, run)
              else
                (let w1 = sy_prepare sys w f
                 in case sy_write sys w1 f (show_int (sy_time sys w1)) of
                      None \<Rightarrow> Inr (w1, run)
                    | Some w2 \<Rightarrow>
                        cbind (send_notice sys conf w2 run ''quarantinefull.txt'' (ax_mailer_args (rn_atx run)) username) (\<lambda>(w3, run1, _).
                          Inr (w3, run1))))))"

definition do_notifications :: "'w sys \<Rightarrow> agent_config \<Rightarrow> 'w \<Rightarrow> agent_run \<Rightarrow> ('s, 'm) dspam_ctx \<Rightarrow> ('w \<times> agent_run) cres" where
  "do_notifications sys conf w run CTX =
     (if \<not> wants_notices conf (rn_atx run) then Inr (w, run)
      else cbind (notify_once sys conf (user_of CTX) ''firstrun'' ''firstrun.txt'' (w, run)) (\<lambda>st1.
           cbind (if cx_result CTX = DSR_ISSPAM then notify_once sys conf (user_of CTX) ''firstspam'' ''firstspam.txt'' st1
                  else Inr st1) (\<lambda>st2.
             notify_size sys conf (user_of CTX) st2)))"

section \<open>Statistics and logs\<close>

definition web_stats_text :: "ds_spam_totals \<Rightarrow> string option \<Rightarrow> string" where
  "web_stats_text t grp =
     concat (map (\<lambda>n. show_int n @ '','')
       [max 0 (spam_learned t + spam_classified t - (spam_misclassified t + spam_corpusfed t)),
        max 0 (innocent_learned t + innocent_classified t - (innocent_misclassified t + innocent_corpusfed t)),
        spam_misclassified t, innocent_misclassified t, spam_corpusfed t]) @ show_int (innocent_corpusfed t) @ [CHR 0x0A] @
     (case grp of None \<Rightarrow> [] | Some g \<Rightarrow> g @ [CHR 0x0A])"

definition write_web_stats :: "'w sys \<Rightarrow> agent_config \<Rightarrow> 'w \<Rightarrow> agent_ctx \<Rightarrow> string \<Rightarrow> string option \<Rightarrow> ds_spam_totals \<Rightarrow> ('w \<times> int) cres" where
  "write_web_stats sys conf w ATX username grp totals =
     cbind (user_file sys conf ATX username ''stats'') (\<lambda>f.
       let w1 = sy_prepare sys w f
       in Inr (case sy_write sys w1 f (web_stats_text totals grp) of None \<Rightarrow> (w1, EFILE) | Some w2 \<Rightarrow> (w2, 0)))"

text \<open>Characters are signed: those above 127 are not below 32.\<close>

definition log_prepare :: "string option \<Rightarrow> string" where
  "log_prepare v = map (\<lambda>c. if of_char c < (32 :: nat) then CHR '' '' else c)
     (take 255 (case v of None \<Rightarrow> ''<None Specified>'' | Some s \<Rightarrow> s))"

text \<open>Subject and sender: the scan ends when a field completes the pair.\<close>

fun log_fields :: "string option \<Rightarrow> string option \<Rightarrow> ds_header list \<Rightarrow> string option \<times> string option" where
  "log_fields subject sender [] = (subject, sender)"
| "log_fields subject sender (h # hs) =
     (if strcaseeq (hf_heading h) ''Subject''
      then (if sender \<noteq> None then (Some (hf_data h), sender) else log_fields (Some (hf_data h)) sender hs)
      else if strcaseeq (hf_heading h) ''From''
      then (if subject \<noteq> None then (subject, Some (hf_data h)) else log_fields subject (Some (hf_data h)) hs)
      else log_fields subject sender hs)"

definition log_class :: "agent_ctx \<Rightarrow> ('s, 'm) dspam_ctx \<Rightarrow> char" where
  "log_class ATX CTX =
     (let c = (if cx_class CTX = LANG_CLASS_WHITELISTED then CHR ''W''
               else if cx_class CTX = LANG_CLASS_VIRUS then CHR ''V''
               else if cx_class CTX = LANG_CLASS_BLACKLISTED then CHR ''A''
               else if cx_class CTX = LANG_CLASS_BLOCKLISTED then CHR ''O''
               else case cx_result CTX of DSR_ISSPAM \<Rightarrow> CHR ''S'' | DSR_ISINNOCENT \<Rightarrow> CHR ''I'' | _ \<Rightarrow> CHR ''U'');
          d = (case cx_source CTX of
                 DSS_ERROR \<Rightarrow> (case cx_classification CTX of DSR_ISSPAM \<Rightarrow> CHR ''M'' | DSR_ISINNOCENT \<Rightarrow> CHR ''F'' | _ \<Rightarrow> c)
               | DSS_INOCULATION \<Rightarrow> CHR ''N'' | DSS_CORPUS \<Rightarrow> CHR ''C'' | _ \<Rightarrow> c)
      in if hasf ATX DAF_UNLEARN then CHR ''E'' else d)"

text \<open>A status that is already set stays, but for an unlearned message, where it becomes the reason of the failure.\<close>

definition log_status :: "agent_run \<Rightarrow> ('s, 'm) dspam_ctx \<Rightarrow> string" where
  "log_status run CTX =
     (let ATX = rn_atx run; action = ds_pref_val (ax_PTX ATX) ''spamAction'';
          s1 = (if rn_status run = [] \<and> cx_source CTX = DSS_ERROR \<and> \<not> hasf ATX DAF_UNLEARN then ''Retrained'' else rn_status run);
          s2 = (if s1 = [] \<and> cx_classification CTX = DSR_NONE \<and> cx_result CTX = DSR_ISSPAM
                then (if action = [] \<or> action = ''quarantine'' then ''Quarantined''
                      else if action = ''tag'' then ''Tagged'' else if action = ''deliver'' then ''Delivered'' else s1)
                else s1);
          s3 = (if s2 = [] \<and> cx_classification CTX = DSR_NONE \<and> cx_result CTX = DSR_ISINNOCENT then ''Delivered'' else s2)
      in if hasf ATX DAF_UNLEARN
         then copy_cut 256 (''Delivery Failed ('' @ (if s3 = [] then ''No error provided'' else s3) @ '')'') else s3)"

definition tabbed :: "string list \<Rightarrow> string" where
  "tabbed fs = concat (map (\<lambda>f. f @ [CHR 0x09]) (butlast fs)) @ last fs @ [CHR 0x0A]"

text \<open>\<open>runtime\<close> is the printed time since the message came.\<close>

definition log_events ::
    "'w sys \<Rightarrow> agent_config \<Rightarrow> string \<Rightarrow> 'w \<Rightarrow> agent_run \<Rightarrow> 's msg_ctx \<Rightarrow> ('w \<times> agent_run) cres" where
  "log_events sys conf runtime w run CTX =
     (let ATX = rn_atx run;
          messageid = (case cx_message CTX of None \<Rightarrow> None | Some m \<Rightarrow> ds_find_header m ''Message-Id'');
          (subject, sender) = (case cx_message CTX of
             Some m \<Rightarrow> (case ms_components m of [] \<Rightarrow> (None, None) | block # _ \<Rightarrow> log_fields None None (mp_headers block))
           | None \<Rightarrow> (None, None));
          run1 = set_status (log_status run CTX) run;
          first = [show_int (sy_time sys w), [log_class ATX CTX], log_prepare sender, ax_signature ATX, log_prepare subject];
          mid = (case messageid of None \<Rightarrow> [] | Some i \<Rightarrow> i)
      in cbind (user_file sys conf ATX (owner ATX CTX) ''log'') (\<lambda>f.
           let w2 = (if cfg_match conf ''UserLog'' ''on''
                     then fst (append_locked sys (sy_prepare sys w f) f
                            (copy_cut 1024 (tabbed (first @ [rn_status run1, mid])) @ [CHR 0x0A]))
                     else w)
           in case cfg_read conf ''Home'' of
                None \<Rightarrow> Inl NullDeref
              | Some home \<Rightarrow>
                  Inr (if cfg_match conf ''SystemLog'' ''on''
                       then fst (append_locked sys w2 (path_cut (home @ ''/system.log''))
                              (copy_cut 1024 (tabbed (first @ [runtime, user_of CTX, rn_status run1, mid]))))
                       else w2, run1)))"

section \<open>Blocked sources\<close>

definition after_last :: "char \<Rightarrow> string \<Rightarrow> string option" where
  "after_last c s = (if c \<in> set s then Some (rev (takeWhile (\<lambda>d. d \<noteq> c) (rev s))) else None)"

text \<open>The domain of the last address, up to a line end, a bracket or a space.\<close>

definition from_domain :: "string \<Rightarrow> string option" where
  "from_domain heading = map_option (takeWhile (\<lambda>c. c \<noteq> CHR 0x0D \<and> c \<noteq> CHR 0x0A \<and> c \<noteq> CHR ''>'' \<and> \<not> c_isspace c)) (after_last (CHR ''@'') heading)"

definition is_blocklisted :: "'w sys \<Rightarrow> agent_config \<Rightarrow> 'w \<Rightarrow> agent_ctx \<Rightarrow> 's msg_ctx \<Rightarrow> bool cres" where
  "is_blocklisted sys conf w ATX CTX =
     cbind (user_file sys conf ATX (owner ATX CTX) ''blocklist'') (\<lambda>f.
       case sy_read sys w f of
         None \<Rightarrow> Inr False
       | Some contents \<Rightarrow>
           (case cx_message CTX of
              None \<Rightarrow> Inl NullDeref
            | Some m \<Rightarrow>
                Inr (case Option.bind (ds_find_header m ''From'') from_domain of
                       None \<Rightarrow> False
                     | Some domain \<Rightarrow> \<exists>l\<in>set (fgets_all 256 contents). strcaseeq (chomp l) domain)))"

text \<open>The token of a Received field that may be an address, and whether qmail is assumed afterwards.\<close>

definition received_token :: "bool \<Rightarrow> string \<Rightarrow> string option \<times> bool" where
  "received_token qmail data =
     (case strstr data ''from'' of
        None \<Rightarrow> (None, qmail)
      | Some k \<Rightarrow>
          let qm = (qmail \<and> CHR ''['' \<notin> set data)
          in (if qm
              then (if CHR '')'' \<in> set data
                    then after_last (CHR ''('') (rev (drop 1 (dropWhile (\<lambda>c. c \<noteq> CHR '')'') (rev data)))) else None)
              else (case strtok_r (drop k data) ''['' of None \<Rightarrow> None | Some (_, rest) \<Rightarrow> map_option fst (strtok_r rest '']'')), qm))"

definition local_address :: "string \<Rightarrow> bool" where
  "local_address tok \<longleftrightarrow> take 4 tok = ''127.'' \<or> take 3 tok = ''10.'' \<or> take 7 tok = ''172.16.'' \<or>
     take 8 tok = ''192.168.'' \<or> take 8 tok = ''169.254.''"

fun source_in :: "('s, 'm) dspam_ctx \<Rightarrow> bool \<Rightarrow> ds_header list \<Rightarrow> string option cres" where
  "source_in CTX qmail [] = Inr None"
| "source_in CTX qmail (h # hs) =
     (if hf_heading h \<noteq> ''Received'' then source_in CTX qmail hs
      else if take 6 (hf_data h) = ''(qmail'' then source_in CTX True hs
      else case received_token qmail (hf_data h) of
        (None, q) \<Rightarrow> source_in CTX q hs
      | (Some tok, q) \<Rightarrow>
          cbind (ds_match_attribute (cx_attributes CTX) ''LocalMX'' tok) (\<lambda>mx.
            if local_address tok \<or> mx then source_in CTX q hs else Inr (Some tok)))"

definition dspam_getsource :: "'s msg_ctx \<Rightarrow> nat \<Rightarrow> (string \<times> int) cres" where
  "dspam_getsource CTX n =
     (case cx_message CTX of
        None \<Rightarrow> Inr ([], EINVAL)
      | Some m \<Rightarrow>
          (case ms_components m of
             [] \<Rightarrow> Inr ([], EINVAL)
           | block # _ \<Rightarrow>
               cbind (source_in CTX False (mp_headers block)) (\<lambda>r.
                 Inr (case r of None \<Rightarrow> ([], EFAILURE) | Some tok \<Rightarrow> (copy_cut n tok, 0)))))"

text \<open>The octets in reverse order; more than four parts are cut, fewer are none.\<close>

definition reversed_octets :: "string \<Rightarrow> string option" where
  "reversed_octets ip =
     (let parts = take 4 (strtoks ip ''.'')
      in if length parts < 4 then None else Some (copy_cut 32 (concat (map (\<lambda>p. p @ ''.'') (rev parts)))))"

fun lookup_lists :: "'w sys \<Rightarrow> 'w \<Rightarrow> string \<Rightarrow> string list \<Rightarrow> string option" where
  "lookup_lists sys w host [] = None"
| "lookup_lists sys w host (zone # zones) =
     (case sy_resolve sys w (copy_cut 256 (host @ zone)) of
        None \<Rightarrow> lookup_lists sys w host zones
      | Some a \<Rightarrow> if take 8 a = ''127.0.0.'' then Some zone else lookup_lists sys w host zones)"

definition is_blacklisted :: "'w sys \<Rightarrow> agent_config \<Rightarrow> 'w \<Rightarrow> agent_run \<Rightarrow> 's msg_ctx \<Rightarrow> (agent_run \<times> bool) cres" where
  "is_blacklisted sys conf w run CTX =
     cbind (dspam_getsource CTX 32) (\<lambda>(ip, r).
       if r \<noteq> 0 then Inr (run, False)
       else case reversed_octets ip of
         None \<Rightarrow> Inr (run, False)
       | Some host \<Rightarrow>
           (case lookup_lists sys w host (map snd (filter (\<lambda>p. strcaseeq (fst p) ''Lookup'') conf)) of
              None \<Rightarrow> Inr (run, False)
            | Some zone \<Rightarrow> Inr (set_status (''Blacklisted ('' @ zone @ '')'') run, True)))"

section \<open>What the shell sees\<close>

text \<open>
  The shell's reading of a command, as far as quoting goes: after a backslash the next character
  stands for itself, a pair of double quotes is an empty word, and anything else that is not plain
  and not a space is exposed to the shell.
\<close>

datatype sh_state = Between | Escaped | Quoting | Exposed

fun sh_step :: "sh_state \<Rightarrow> char \<Rightarrow> sh_state" where
  "sh_step Between c =
     (if c = CHR 0x5C then Escaped else if c = CHR 0x22 then Quoting else if sh_plain c \<or> c = CHR '' '' then Between else Exposed)"
| "sh_step Escaped c = Between"
| "sh_step Quoting c = (if c = CHR 0x22 then Between else Exposed)"
| "sh_step Exposed c = Exposed"

definition sh_scan :: "string \<Rightarrow> sh_state" where
  "sh_scan s = foldl sh_step Between s"

lemma sh_scan_append: "sh_scan (s @ t) = foldl sh_step (sh_scan s) t"
  by (simp add: sh_scan_def)

lemma exposed_stays: "foldl sh_step Exposed s = Exposed"
  by (induction s) auto

lemma scan_take: "sh_scan s \<noteq> Exposed \<Longrightarrow> sh_scan (take n s) \<noteq> Exposed"
  using sh_scan_append[of "take n s" "drop n s"] exposed_stays by auto

lemma plain_not_special: "sh_plain c \<Longrightarrow> c \<noteq> CHR 0x5C \<and> c \<noteq> CHR 0x22"
  by (auto simp: sh_plain_def c_isalnum_def)

lemma escape_from_scan:
  "length a \<le> 255 \<Longrightarrow> i \<le> length a \<and> sh_scan (take i a) = Between \<or> i = Suc (length a) \<and> sh_scan a = Escaped \<Longrightarrow>
   sh_scan (escape_from a i) \<in> {Between, Escaped}"
proof (induction a i rule: escape_from.induct)
  case (1 a i)
  show ?case
  proof (cases "i \<ge> length a")
    case True
    then show ?thesis using 1(4) by (subst escape_from.simps) auto
  next
    case False
    then have b: "sh_scan (take i a) = Between" "i < length a" using 1(4) by auto
    show ?thesis
    proof (cases "sh_plain (a ! i)")
      case True
      then have "sh_scan (take (Suc i) a) = Between"
        using b plain_not_special[OF True] by (simp add: take_Suc_conv_app_nth sh_scan_append)
      then have "sh_scan (escape_from a (i + 1)) \<in> {Between, Escaped}"
        using 1(1)[OF False True] 1(3) b by simp
      then show ?thesis using False True by (subst escape_from.simps) simp
    next
      case np: False
      let ?a = "cat_cut 256 (take i a @ [CHR 0x5C]) (drop i a)"
      have l: "length (take i a @ [CHR 0x5C]) < 256" using b(2) 1(3) by simp
      then have a': "?a = take 255 (take i a @ CHR 0x5C # a ! i # drop (Suc i) a)"
        using b(2) by (simp add: cat_cut_def Cons_nth_drop_Suc)
      have i: "i \<le> 254" using b(2) 1(3) by simp
      have "i + 2 \<le> length ?a \<and> sh_scan (take (i + 2) ?a) = Between \<or> i + 2 = Suc (length ?a) \<and> sh_scan ?a = Escaped"
      proof (cases "i = 254")
        case True
        then have "?a = take i a @ [CHR 0x5C]" using b(2) unfolding a' by simp
        then show ?thesis using b by (simp add: sh_scan_append min_def)
      next
        case False
        then have "i + 2 \<le> 255" using i by simp
        then have "take (i + 2) ?a = take i a @ [CHR 0x5C, a ! i]" "i + 2 \<le> length ?a"
          using b(2) 1(3) unfolding a' by (auto simp: min_def)
        then show ?thesis using b(1) by (simp add: sh_scan_append)
      qed
      moreover have "length ?a \<le> 255" unfolding a' by simp
      ultimately have "sh_scan (escape_from ?a (i + 2)) \<in> {Between, Escaped}" using 1(2)[OF False np] by blast
      then show ?thesis using False np by (subst escape_from.simps) simp
    qed
  qed
qed

lemma escape_arg_scan:
  assumes "length a \<le> 255"
  shows "sh_scan (escape_arg a) \<in> {Between, Escaped}"
  using escape_from_scan[OF assms, of 0] by (simp add: escape_arg_def sh_scan_def)

text \<open>A command that is complete, or cut at the end of the array.\<close>

definition command_ok :: "string \<Rightarrow> bool" where
  "command_ok out \<longleftrightarrow> length out \<le> 1023 \<and> sh_scan out \<noteq> Exposed \<and> (length out < 1023 \<longrightarrow> sh_scan out = Between)"

lemma cat_cut_scan:
  assumes "length out \<le> 1023" "sh_scan out \<noteq> Exposed" "length out < 1023 \<longrightarrow> foldl sh_step (sh_scan out) s \<noteq> Exposed"
  shows "length (cat_cut 1024 out s) \<le> 1023 \<and> sh_scan (cat_cut 1024 out s) \<noteq> Exposed \<and>
    (length (cat_cut 1024 out s) < 1023 \<longrightarrow> sh_scan (cat_cut 1024 out s) = foldl sh_step (sh_scan out) s)"
proof -
  have c: "cat_cut 1024 out s = take 1023 (out @ s)" using assms(1) by (simp add: cat_cut_def)
  show ?thesis
  proof (cases "length out < 1023")
    case True
    then have "sh_scan (out @ s) \<noteq> Exposed" using assms by (simp add: sh_scan_append)
    moreover have "length (take 1023 (out @ s)) < 1023 \<Longrightarrow> take 1023 (out @ s) = out @ s" by simp
    ultimately show ?thesis unfolding c using scan_take[of "out @ s" 1023] by (auto simp: sh_scan_append)
  next
    case False
    then show ?thesis unfolding c using assms(1,2) by simp
  qed
qed

lemma cat_cut_full: "length (cat_cut 1024 out s) < 1023 \<Longrightarrow> length out < 1023"
  by (auto simp: cat_cut_def split: if_splits)

lemma space_between: "x \<in> {Between, Escaped} \<Longrightarrow> sh_step x (CHR '' '') = Between"
  by auto

lemma build_command_scan:
  "command_ok out \<Longrightarrow> sh_scan (build_command ATX username recipient out args) \<noteq> Exposed"
proof (induction args arbitrary: out)
  case (Cons arg rest)
  let ?r = "case recipient of Some r \<Rightarrow> r | None \<Rightarrow> out"
  let ?e = "escape_arg (expand_arg ATX username ?r arg)"
  let ?o = "cat_cut 1024 out ?e"
  have "length (expand_arg ATX username ?r arg) \<le> 255" by (simp add: expand_arg_def copy_cut_def)
  then have e: "sh_scan ?e \<in> {Between, Escaped}" by (rule escape_arg_scan)
  have o: "length out < 1023 \<Longrightarrow> foldl sh_step (sh_scan out) ?e = sh_scan ?e"
    using Cons.prems by (simp add: command_ok_def sh_scan_def)
  have o1: "length ?o \<le> 1023" "sh_scan ?o \<noteq> Exposed" "length ?o < 1023 \<Longrightarrow> sh_scan ?o \<in> {Between, Escaped}"
    using cat_cut_scan[of out ?e] Cons.prems e o by (auto simp: command_ok_def cat_cut_def split: if_splits)
  show ?case
  proof (cases "rest = []")
    case True
    then show ?thesis using o1(2) by (simp add: Let_def)
  next
    case False
    have "length ?o < 1023 \<Longrightarrow> sh_step (sh_scan ?o) (CHR '' '') = Between" using o1(3) space_between by blast
    then have "command_ok (cat_cut 1024 ?o '' '')"
      using cat_cut_scan[OF o1(1,2), of "'' ''"] cat_cut_full[of ?o "'' ''"] by (auto simp: command_ok_def simp del: sh_step.simps)
    from Cons.IH[OF this] False show ?thesis by (simp add: Let_def)
  qed
qed (simp add: command_ok_def)

lemma delivery_command_scan: "sh_scan (delivery_command ATX username recipient mailer_args) \<noteq> Exposed"
  unfolding delivery_command_def by (rule build_command_scan) (simp add: command_ok_def sh_scan_def)

lemma deliver_local_pipe:
  assumes "\<And>w c m. sh_scan c \<noteq> Exposed \<Longrightarrow> g w c m = sy_pipe sys w c m"
  shows "deliver_local (sys\<lparr>sy_pipe := g\<rparr>) conf w run message mailer_args username result q =
    deliver_local sys conf w run message mailer_args username result q"
  unfolding deliver_local_def Let_def by (cases mailer_args) (simp_all add: assms delivery_command_scan)

lemma deliver_message_pipe:
  assumes "\<And>w c m. sh_scan c \<noteq> Exposed \<Longrightarrow> g w c m = sy_pipe sys w c m"
  shows "deliver_message (sys\<lparr>sy_pipe := g\<rparr>) conf w run message mailer_args username result =
    deliver_message sys conf w run message mailer_args username result"
  unfolding deliver_message_def Let_def by (intro arg_cong2[where f = cbind] refl ext) (simp add: deliver_local_pipe[OF assms])

text \<open>
  C5. Nothing a message brings is exposed to the shell. Replacing the pipe to the delivery agent by
  one that does anything else with commands in which a character other than a letter, a digit,
  one of \<open>+ _ - . / @\<close> or a space stands unquoted makes no difference to \<^verbatim>\<open>deliver_message\<close>: whatever
  the user, the recipient, the sender and the configured arguments are, and however the command
  is cut by the arrays of 256 and 1024 bytes, no such command is run.
\<close>

theorem delivery_never_exposes:
  "deliver_message (sys\<lparr>sy_pipe := \<lambda>w c m. if sh_scan c = Exposed then bad w c m else sy_pipe sys w c m\<rparr>)
     conf w run message mailer_args username result =
   deliver_message sys conf w run message mailer_args username result"
  by (rule deliver_message_pipe) simp

section \<open>Reading the quarantine\<close>

text \<open>A reader of the mailbox: a line that starts with \<open>From\<close> and a space starts a message.\<close>

fun mbox_lines :: "string \<Rightarrow> string list" where
  "mbox_lines [] = []"
| "mbox_lines (c # s) =
     (if c = CHR 0x0A then [c] # mbox_lines s else case mbox_lines s of [] \<Rightarrow> [[c]] | l # ls \<Rightarrow> (c # l) # ls)"

fun mbox_group :: "string list \<Rightarrow> string list" where
  "mbox_group [] = []"
| "mbox_group (l # ls) =
     (let gs = mbox_group ls in if ls \<noteq> [] \<and> \<not> from_line (hd ls) then (l @ hd gs) # tl gs else l # gs)"

definition full_line :: "string \<Rightarrow> bool" where
  "full_line l \<longleftrightarrow> (\<exists>t. l = t @ [CHR 0x0A] \<and> CHR 0x0A \<notin> set t)"

lemma full_lineI [intro]: "CHR 0x0A \<notin> set t \<Longrightarrow> full_line (t @ [CHR 0x0A])"
  by (auto simp: full_line_def)

lemma mbox_lines_line: "full_line l \<Longrightarrow> mbox_lines (l @ s) = l # mbox_lines s"
proof -
  have "CHR 0x0A \<notin> set t \<Longrightarrow> mbox_lines (t @ CHR 0x0A # s) = (t @ [CHR 0x0A]) # mbox_lines s" for t
    by (induction t) auto
  then show "full_line l \<Longrightarrow> ?thesis" by (auto simp: full_line_def)
qed

lemma mbox_lines_lines: "\<forall>l\<in>set ls. full_line l \<Longrightarrow> mbox_lines (concat ls @ s) = ls @ mbox_lines s"
  by (induction ls) (auto simp: mbox_lines_line)

lemma mbox_group_message:
  "\<forall>l\<in>set ls. \<not> from_line l \<Longrightarrow> rest = [] \<or> from_line (hd rest) \<Longrightarrow> mbox_group (e # ls @ rest) = concat (e # ls) # mbox_group rest"
proof (induction ls arbitrary: e)
  case (Cons l ls)
  then show ?case by (simp add: Let_def)
qed (auto simp: Let_def)

lemma strseps_lines:
  "strseps (Some m) [c] = takeWhile (\<lambda>d. d \<noteq> c) m #
     (if c \<in> set m then strseps (Some (drop 1 (dropWhile (\<lambda>d. d \<noteq> c) m))) [c] else [])"
proof (cases "dropWhile (\<lambda>d. d \<noteq> c) m")
  case Nil
  then have "\<forall>d\<in>set m. d \<noteq> c" by (simp add: dropWhile_eq_Nil_conv)
  then have m: "c \<notin> set m" "takeWhile (\<lambda>d. d \<noteq> c) m = m" by (auto simp: takeWhile_eq_all_conv)
  have "strseps None [c] = []" by (simp add: strseps.simps strsep_def)
  moreover have "strsep (Some m) [c] = Some (m, None)" by (simp add: strsep_def Nil)
  ultimately have "strseps (Some m) [c] = [m]" by (subst strseps.simps) simp
  then show ?thesis using m by metis
next
  case (Cons x r)
  have c: "c \<in> set m"
  proof (rule ccontr)
    assume "c \<notin> set m"
    then have "dropWhile (\<lambda>d. d \<noteq> c) m = []" by (auto simp: dropWhile_eq_Nil_conv)
    then show False using Cons by simp
  qed
  have "strsep (Some m) [c] = Some (takeWhile (\<lambda>d. d \<noteq> c) m, Some r)" by (simp add: strsep_def Cons)
  then show ?thesis using c by (subst strseps.simps) (simp add: Cons)
qed

lemma strseps_free: "x \<in> set (strseps (Some m) [c]) \<Longrightarrow> c \<notin> set x"
proof (induction "length m" arbitrary: m rule: less_induct)
  case less
  let ?r = "drop 1 (dropWhile (\<lambda>d. d \<noteq> c) m)"
  have "c \<in> set m \<Longrightarrow> length ?r < length m"
    using length_dropWhile_le[of "\<lambda>d. d \<noteq> c" m] by (cases m) (auto simp: less_eq_Suc_le)
  then have "c \<in> set m \<Longrightarrow> x \<in> set (strseps (Some ?r) [c]) \<Longrightarrow> c \<notin> set x" using less.hyps by blast
  then show ?case using less.prems strseps_lines[of m c] by (auto dest: set_takeWhileD split: if_splits)
qed

definition entry_lines :: "string \<Rightarrow> string \<Rightarrow> string list" where
  "entry_lines date m =
     (if from_line m then [] else [''From QUARANTINE '' @ date]) @
     (case strseps (Some m) [CHR 0x0A] of [] \<Rightarrow> [] | l # ls \<Rightarrow> (l @ [CHR 0x0A]) # map quote_line ls) @ [[CHR 0x0A], [CHR 0x0A]]"

definition date_ok :: "string \<Rightarrow> bool" where
  "date_ok date \<longleftrightarrow> full_line date \<and> length date \<le> 111"

lemma entry_lines_concat: "date_ok date \<Longrightarrow> mbox_entry date m = concat (entry_lines date m)"
  by (simp add: mbox_entry_def entry_lines_def mbox_head_def copy_cut_def date_ok_def split: list.split)

lemma take_first_line:
  "length x = n \<Longrightarrow> \<forall>d\<in>set x. P d \<Longrightarrow> \<not> P c \<Longrightarrow> take n (takeWhile P m @ [c]) = x \<longleftrightarrow> take n m = x"
proof (induction x arbitrary: m n)
  case (Cons d x)
  then obtain k where "n = Suc k" "length x = k" by auto
  then show ?case using Cons by (cases m) auto
qed simp

lemma from_line_first: "from_line (takeWhile (\<lambda>d. d \<noteq> CHR 0x0A) m @ [CHR 0x0A]) = from_line m"
  unfolding from_line_def by (rule take_first_line) simp_all

lemma quote_line_ok:
  assumes "CHR 0x0A \<notin> set l"
  shows "full_line (quote_line l) \<and> \<not> from_line (quote_line l)"
proof -
  have "takeWhile (\<lambda>d. d \<noteq> CHR 0x0A) l = l" using assms by (auto simp: takeWhile_eq_all_conv)
  then have "from_line (l @ [CHR 0x0A]) = from_line l" using from_line_first[of l] by metis
  moreover have "full_line (l @ [CHR 0x0A])" "full_line ((CHR ''>'' # l) @ [CHR 0x0A])" using assms full_lineI[of l] full_lineI[of "CHR ''>'' # l"] by simp_all
  ultimately show ?thesis by (simp add: quote_line_def) (simp add: from_line_def)
qed

lemma entry_lines_shape:
  assumes "date_ok date"
  shows "\<exists>e ls. entry_lines date m = e # ls \<and> from_line e \<and> full_line e \<and> (\<forall>l\<in>set ls. full_line l \<and> \<not> from_line l)"
proof -
  let ?f = "takeWhile (\<lambda>d. d \<noteq> CHR 0x0A) m @ [CHR 0x0A]"
  obtain ls where ls: "strseps (Some m) [CHR 0x0A] = takeWhile (\<lambda>d. d \<noteq> CHR 0x0A) m # ls" "\<forall>l\<in>set ls. CHR 0x0A \<notin> set l"
    using strseps_lines[of m "CHR 0x0A"] strseps_free[of _ m "CHR 0x0A"] by (metis list.set_intros(2))
  have f: "full_line ?f" by (rule full_lineI) (auto dest: set_takeWhileD)
  have q: "\<forall>l\<in>set (map quote_line ls @ [[CHR 0x0A], [CHR 0x0A]]). full_line l \<and> \<not> from_line l"
    using ls(2) quote_line_ok full_lineI[of "[]"] by (auto simp: from_line_def)
  obtain d where "date = d @ [CHR 0x0A]" "CHR 0x0A \<notin> set d" using assms by (auto simp: date_ok_def full_line_def)
  then have h: "full_line (''From QUARANTINE '' @ date)" "from_line (''From QUARANTINE '' @ date)"
    using full_lineI[of "''From QUARANTINE '' @ d"] by (simp_all add: from_line_def)
  let ?q = "map quote_line ls @ [[CHR 0x0A], [CHR 0x0A]]"
  show ?thesis
  proof (cases "from_line m")
    case True
    then have "entry_lines date m = ?f # ?q" by (simp add: entry_lines_def ls(1))
    moreover have "from_line ?f" using True from_line_first by blast
    ultimately show ?thesis using q f by blast
  next
    case False
    then have "entry_lines date m = (''From QUARANTINE '' @ date) # ?f # ?q" by (simp add: entry_lines_def ls(1))
    moreover have "\<forall>l\<in>set (?f # ?q). full_line l \<and> \<not> from_line l" using False q f from_line_first[of m] by (metis set_ConsD)
    ultimately show ?thesis using h by blast
  qed
qed

text \<open>
  C15. The quarantine keeps messages apart. A mailbox that holds nothing but entries written by
  \<^verbatim>\<open>quarantine_message\<close>, whatever the messages contain, reads back as exactly these entries when
  every line that starts with \<open>From\<close> and a space starts a new message. The dates are lines of at
  most 111 characters, as \<^verbatim>\<open>ctime\<close> gives them.
\<close>

theorem quarantine_keeps_messages:
  assumes "\<forall>p\<in>set ps. full_line (fst p) \<and> length (fst p) \<le> 111"
  shows "mbox_group (mbox_lines (concat (map (\<lambda>p. mbox_entry (fst p) (snd p)) ps))) = map (\<lambda>p. mbox_entry (fst p) (snd p)) ps"
  using assms
proof (induction ps)
  case (Cons p ps)
  let ?rest = "mbox_lines (concat (map (\<lambda>p. mbox_entry (fst p) (snd p)) ps))"
  have d: "date_ok (fst p)" using Cons.prems by (simp add: date_ok_def)
  obtain e ls where e: "entry_lines (fst p) (snd p) = e # ls" "from_line e" "full_line e" "\<forall>l\<in>set ls. full_line l \<and> \<not> from_line l"
    using entry_lines_shape[OF d] by blast
  have "?rest = [] \<or> from_line (hd ?rest)"
  proof (cases ps)
    case (Cons q qs)
    then have q: "date_ok (fst q)" using \<open>\<forall>p\<in>set (p # ps). _ p\<close> by (simp add: date_ok_def)
    obtain e' ls' where "entry_lines (fst q) (snd q) = e' # ls'" "from_line e'" "full_line e'" "\<forall>l\<in>set ls'. full_line l"
      using entry_lines_shape[OF q] by blast
    then show ?thesis using mbox_lines_line[of e'] by (simp add: Cons entry_lines_concat[OF q])
  qed simp
  then show ?case
    using Cons e mbox_lines_lines[of "e # ls"] mbox_group_message[of ls ?rest e] by (simp add: entry_lines_concat[OF d])
qed simp

theorem quarantine_keeps_messages_witness:
  "mbox_group (mbox_lines (mbox_entry [CHR 0x0A] (''From x'' @ CHR 0x0A # ''From y'') @ mbox_entry [CHR 0x0A] ''z'')) =
    [mbox_entry [CHR 0x0A] (''From x'' @ CHR 0x0A # ''From y''), mbox_entry [CHR 0x0A] ''z'']"
  using quarantine_keeps_messages[of "[([CHR 0x0A], ''From x'' @ CHR 0x0A # ''From y''), ([CHR 0x0A], ''z'')]"] full_lineI[of "[]"] by simp

end
