(* ===== verification/Ds_Process.thy ===== *)
theory Ds_Process
  imports Ds_Deliver
begin

text \<open>
  dspam.c: \<^verbatim>\<open>process_message\<close>, which takes one message through the library for one user, and
  \<^verbatim>\<open>process_users\<close>, the loop over the destination users. The build has the daemon, and neither
  ClamAV, external lookup, debugging nor home directories. Allocations of the agent succeed where
  nothing else is said.
\<close>

section \<open>The environment\<close>

text \<open>
  Beside the library and the system: the connection of the daemon, the signatures the storage
  driver keeps, the preferences it loads, the printed clock and process number, and what
  uninitialised memory holds. \<open>ae_patience\<close> bounds the attempts at a new signature id.
\<close>

record ('w, 's) agent_env =
  ae_sys :: "'w sys"
  ae_engine :: "('w, 's) engine"
  ae_connected :: "'w \<Rightarrow> bool"
  ae_connect :: "'w \<Rightarrow> 's msg_ctx \<Rightarrow> 'w"
  ae_get_signature :: "'w \<Rightarrow> 's msg_ctx \<Rightarrow> string \<Rightarrow> 'w \<times> 's msg_ctx \<times> char option list sig_cell option \<times> int"
  ae_set_signature :: "'w \<Rightarrow> 's msg_ctx \<Rightarrow> string \<Rightarrow> 'w \<times> 's msg_ctx \<times> int"
  ae_signature_id :: "'w \<Rightarrow> 's msg_ctx \<Rightarrow> 'w \<times> string"
  ae_verify_signature :: "'w \<Rightarrow> 's msg_ctx \<Rightarrow> string \<Rightarrow> bool"
  ae_pref_load :: "'w \<Rightarrow> string option \<Rightarrow> prefs option cres"
  ae_lines :: "nat \<Rightarrow> bool"
  ae_now :: "'w \<Rightarrow> string"
  ae_runtime :: "'w \<Rightarrow> string"
  ae_pid :: string
  ae_junk :: content_disposition
  ae_patience :: nat

text \<open>The variables of \<^verbatim>\<open>process_message\<close>.\<close>

record ('w, 's) pm =
  pm_w :: 'w
  pm_conf :: agent_config
  pm_run :: agent_run
  pm_ctx :: "'s msg_ctx"
  pm_text :: string
  pm_have_signature :: bool
  pm_internally_canned :: bool
  pm_original_username :: string
  pm_result :: int

text \<open>A step goes on, or leaves for the label RETURN with a result.\<close>

datatype 'x flow = On 'x | Leave 'x int

definition fbind :: "'x flow cres \<Rightarrow> ('x \<Rightarrow> 'x flow cres) \<Rightarrow> 'x flow cres" where
  "fbind m f = cbind m (\<lambda>r. case r of On x \<Rightarrow> f x | Leave x k \<Rightarrow> Inr (Leave x k))"

abbreviation pm_atx :: "('w, 's) pm \<Rightarrow> agent_ctx" where
  "pm_atx s \<equiv> rn_atx (pm_run s)"

definition with_atx :: "(agent_ctx \<Rightarrow> agent_ctx) \<Rightarrow> agent_run \<Rightarrow> agent_run" where
  "with_atx f run = run\<lparr>rn_atx := f (rn_atx run)\<rparr>"

section \<open>Before the library\<close>

text \<open>The database is attached, once more after a new connection when there is a client.\<close>

definition attach_message :: "('w, 's) agent_env \<Rightarrow> ('w, 's) pm \<Rightarrow> ('w, 's) pm flow cres" where
  "attach_message env s =
     cbind (set_libdspam_attributes (pm_conf s) (pm_ctx s)) (\<lambda>C1.
     cbind (attach_context (ae_engine env)
              (if rn_sockfd (pm_run s) \<and> \<not> ae_connected env (pm_w s) then ae_connect env (pm_w s) C1 else pm_w s) (pm_conf s) C1)
       (\<lambda>(w1, conf1, C2, r).
       let s1 = s\<lparr>pm_w := w1, pm_conf := conf1, pm_ctx := C2\<rparr>
       in if r = 0 then Inr (On s1)
          else if \<not> rn_sockfd (pm_run s) then Inr (Leave s1 EUNKNOWN)
          else cbind (attach_context (ae_engine env) (ae_connect env w1 C2) conf1 C2) (\<lambda>(w2, conf2, C3, r2).
                 let s2 = s\<lparr>pm_w := w2, pm_conf := conf2, pm_ctx := C3\<rparr>
                 in Inr (if r2 = 0 then On s2 else Leave s2 EUNKNOWN))))"

definition actualize :: "('w, 's) agent_env \<Rightarrow> ('w, 's) pm \<Rightarrow> ('w, 's) pm flow cres" where
  "actualize env s =
     cbind (ds_actualize_message (ae_lines env) (Some (pm_text s))) (\<lambda>m.
       Inr (case m of None \<Rightarrow> Leave s EUNKNOWN | Some c \<Rightarrow> On (s\<lparr>pm_ctx := pm_ctx s\<lparr>cx_message := Some c\<rparr>\<rparr>)))"

definition canned :: "string \<Rightarrow> 's msg_ctx \<Rightarrow> 's msg_ctx" where
  "canned class CTX = CTX\<lparr>cx_result := DSR_ISSPAM, cx_probability := Fin 1, cx_confidence := Fin 1, cx_class := class\<rparr>"

definition rbl_inoculates :: "agent_config \<Rightarrow> agent_ctx \<Rightarrow> bool" where
  "rbl_inoculates conf ATX \<longleftrightarrow>
     (cfg_match conf ''RBLInoculate'' ''on'' \<or> strcaseeq (ds_pref_val (ax_PTX ATX) ''RBLInoculate'') ''on'') \<and>
     \<not> strcaseeq (ds_pref_val (ax_PTX ATX) ''RBLInoculate'') ''off''"

definition screen :: "('w, 's) agent_env \<Rightarrow> ('w, 's) pm \<Rightarrow> ('w, 's) pm flow cres" where
  "screen env s =
     cbind (is_blocklisted (ae_sys env) (pm_conf s) (pm_w s) (pm_atx s) (pm_ctx s)) (\<lambda>blocked.
       let s1 = (if blocked then s\<lparr>pm_ctx := canned LANG_CLASS_BLOCKLISTED (pm_ctx s), pm_internally_canned := True\<rparr> else s)
       in if cx_classification (pm_ctx s1) = DSR_NONE \<and> cfg_read (pm_conf s1) ''Lookup'' \<noteq> None \<and>
             \<not> strcaseeq (ds_pref_val (ax_PTX (pm_atx s1)) ''ignoreRBLLookups'') ''on''
          then cbind (is_blacklisted (ae_sys env) (pm_conf s1) (pm_w s1) (pm_run s1) (pm_ctx s1)) (\<lambda>(run2, bad).
                 let s2 = s1\<lparr>pm_run := run2\<rparr>
                 in Inr (On (if \<not> bad then s2
                             else if rbl_inoculates (pm_conf s2) (pm_atx s2)
                             then s2\<lparr>pm_ctx := pm_ctx s2\<lparr>cx_classification := DSR_ISSPAM, cx_source := DSS_INOCULATION\<rparr>\<rparr>
                             else s2\<lparr>pm_ctx := canned LANG_CLASS_BLACKLISTED (pm_ctx s2), pm_internally_canned := True\<rparr>)))
          else Inr (On s1))"

section \<open>The signature that came with the message\<close>

definition trains_pristine :: "agent_config \<Rightarrow> agent_ctx \<Rightarrow> bool" where
  "trains_pristine conf ATX \<longleftrightarrow>
     (cfg_match conf ''TrainPristine'' ''on'' \<or> ds_pref_val (ax_PTX ATX) ''trainPristine'' = ''on'') \<and>
     ds_pref_val (ax_PTX ATX) ''trainPristine'' \<noteq> ''off''"

text \<open>A copy into the memory of the recipient, which need not have the room.\<close>

definition set_recipient :: "string \<Rightarrow> agent_run \<Rightarrow> agent_run cres" where
  "set_recipient user run =
     (case rn_recipient run of
        NoRcpt \<Rightarrow> Inl NullDeref
      | RcptGone \<Rightarrow> Inl UseAfterFree
      | Rcpt _ n \<Rightarrow> if length user < n then Inr (run\<lparr>rn_recipient := Rcpt user n\<rparr>) else Inl OutOfBounds)"

definition reload_prefs :: "('w, 's) agent_env \<Rightarrow> ('w, 's) pm \<Rightarrow> ('w, 's) pm cres" where
  "reload_prefs env s =
     cbind (load_aggregated_prefs (ae_pref_load env (pm_w s)) (pm_conf s) (cx_username (pm_ctx s))) (\<lambda>ptx.
       let run1 = with_atx (\<lambda>A. A\<lparr>ax_PTX := Some ptx\<rparr>) (pm_run s);
           run2 = with_atx (\<lambda>A. A\<lparr>ax_train_pristine := trains_pristine (pm_conf s) A\<rparr>) run1
       in cbind (set_recipient (user_of (pm_ctx s)) run2) (\<lambda>run3. Inr (s\<lparr>pm_run := run3\<rparr>)))"

text \<open>
  The signature of inbound and corpus mail is ignored. The reference the agent keeps and the one
  of the context are to the same signature.
\<close>

definition use_signature ::
    "('w, 's) agent_env \<Rightarrow> ('w, 's) pm \<Rightarrow> 'w \<times> 's msg_ctx \<times> char option list sig_cell option \<times> int \<Rightarrow> ('w, 's) pm flow cres" where
  "use_signature env s got =
     (case got of (w1, C1, sig, r) \<Rightarrow>
        if r \<noteq> 0 then Inr (On (s\<lparr>pm_w := w1, pm_ctx := C1, pm_run := pm_run s\<lparr>rn_SIG := sig\<rparr>, pm_have_signature := False\<rparr>))
        else cbind (ds_spam_signature_get sig) (\<lambda>(cell, _).
               let s1 = s\<lparr>pm_w := w1, pm_ctx := C1\<lparr>cx_signature := cell\<rparr>, pm_run := pm_run s\<lparr>rn_SIG := cell\<rparr>\<rparr>
               in if strcaseeq (user_of C1) (pm_original_username s)
                  then cbind (reload_prefs env s1) (\<lambda>s2. Inr (On s2)) else Inr (On s1)))"

definition fetch_signature :: "('w, 's) agent_env \<Rightarrow> ('w, 's) pm \<Rightarrow> ('w, 's) pm flow cres" where
  "fetch_signature env s =
     (case cx_message (pm_ctx s) of
        None \<Rightarrow> Inl NullDeref
      | Some m \<Rightarrow>
          cbind (find_signature (pm_atx s) m) (\<lambda>(A, m1, found).
            let have = (found \<and> ax_source A \<noteq> DSS_CORPUS \<and> ax_source A \<noteq> DSS_NONE);
                C1 = pm_ctx s\<lparr>cx_message := Some m1\<rparr>;
                s1 = s\<lparr>pm_run := with_atx (\<lambda>_. A) (pm_run s), pm_ctx := C1, pm_have_signature := have, pm_original_username := user_of C1\<rparr>
            in if have then use_signature env s1 (ae_get_signature env (pm_w s) C1 (ax_signature A))
               else if cx_operating_mode C1 = DSM_CLASSIFY \<or> cx_classification C1 \<noteq> DSR_NONE
               then Inr (On (s1\<lparr>pm_ctx := C1\<lparr>cx_flags := cx_flags C1 XOR DSF_SIGNATURE, cx_signature := None\<rparr>\<rparr>))
               else Inr (On s1)))"

section \<open>The library is called\<close>

definition train_or_classify :: "('w, 's) agent_env \<Rightarrow> ('w, 's) pm \<Rightarrow> ('w, 's) pm flow cres" where
  "train_or_classify env s =
     (let C = pm_ctx s in
      if pm_have_signature s \<and> cx_classification C \<noteq> DSR_NONE
      then cbind (retrain_message (ae_engine env) (pm_w s) (pm_conf s) (pm_atx s) (rn_SIG (pm_run s)) C) (\<lambda>(w1, conf1, C1, r).
             let s1 = s\<lparr>pm_w := w1, pm_conf := conf1, pm_ctx := C1\<rparr>
             in Inr (if r \<noteq> 0 then Leave (s1\<lparr>pm_have_signature := False\<rparr>) EFAILURE else On s1))
      else if \<not> ax_train_pristine (pm_atx s) \<and> cx_classification C \<noteq> DSR_NONE \<and> cx_source C = DSS_ERROR
      then Inr (Leave s EFAILURE)
      else if pm_internally_canned s then Inr (On s)
      else cbind (en_process (ae_engine env) (pm_w s) C (Some (pm_text s))) (\<lambda>(w1, C1, r).
             let s1 = s\<lparr>pm_w := w1, pm_ctx := C1\<rparr>
             in Inr (if r \<noteq> 0 then Leave s1 EFAILURE else On s1)))"

text \<open>The result, the notices, and the opinion of the groups.\<close>

definition settle :: "('w, 's) agent_env \<Rightarrow> ('w, 's) pm \<Rightarrow> ('w, 's) pm flow cres" where
  "settle env s =
     (let C = pm_ctx s;
          run1 = (if cx_result C = DSR_ISINNOCENT \<and> cx_class C = LANG_CLASS_WHITELISTED
                  then set_status ''Auto-Whitelisted'' (pm_run s) else pm_run s)
      in cbind (if cx_result C = DSR_ISINNOCENT \<or> cx_result C = DSR_ISSPAM
                then do_notifications (ae_sys env) (pm_conf s) (pm_w s) run1 C else Inr (pm_w s, run1)) (\<lambda>(w2, run2).
         cbind (ensure_confident_result (ae_engine env) w2 (pm_conf s) (rn_atx run2) C (dsr_code (cx_result C))) (\<lambda>(w3, conf3, C3, r).
           let s3 = s\<lparr>pm_w := w3, pm_conf := conf3, pm_run := run2, pm_ctx := C3, pm_result := r\<rparr>
           in Inr (if r < 0 then Leave s3 r else On s3))))"

fun inoculate_users ::
    "('w, 's) agent_env \<Rightarrow> agent_ctx \<Rightarrow> char option list sig_cell option \<Rightarrow> string option \<Rightarrow> 'w \<times> agent_config \<Rightarrow> string list \<Rightarrow> ('w \<times> agent_config) cres" where
  "inoculate_users env ATX SIG message st [] = Inr st"
| "inoculate_users env ATX SIG message st (u # us) =
     cbind (inoculate_user (ae_engine env) (fst st) (snd st) ATX u SIG message) (\<lambda>(w1, conf1, _).
       inoculate_users env ATX SIG message (w1, conf1) us)"

definition inoculate_others :: "('w, 's) agent_env \<Rightarrow> ('w, 's) pm \<Rightarrow> ('w, 's) pm flow cres" where
  "inoculate_others env s =
     (let C = pm_ctx s; users = ax_inoc_users (pm_atx s) in
      if cx_classification C \<noteq> DSR_ISSPAM \<or> cx_source C = DSS_CORPUS \<or> users = [] then Inr (On s)
      else if pm_have_signature s
      then cbind (inoculate_users env (pm_atx s) (rn_SIG (pm_run s)) None (pm_w s, pm_conf s) users) (\<lambda>(w1, conf1).
             Inr (On (s\<lparr>pm_w := w1, pm_conf := conf1\<rparr>)))
      else cbind (inoculate_users env (pm_atx s) None (Some (pm_text s)) (pm_w s, pm_conf s) (users @ [user_of C])) (\<lambda>(w1, conf1).
             Inr (Leave (s\<lparr>pm_w := w1, pm_conf := conf1, pm_ctx := C\<lparr>cx_result := DSR_ISSPAM\<rparr>\<rparr>) (dsr_code DSR_ISSPAM))))"

section \<open>The new signature\<close>

fun signature_loop :: "('w, 's) agent_env \<Rightarrow> nat \<Rightarrow> 'w \<Rightarrow> 's msg_ctx \<Rightarrow> ('w \<times> string) cres" where
  "signature_loop env 0 w CTX = Inl NoReturn"
| "signature_loop env (Suc n) w CTX =
     (case ae_signature_id env w CTX of
        (w1, sig) \<Rightarrow> if ae_verify_signature env w1 CTX (copy_cut 128 sig) then Inr (w1, copy_cut 128 sig) else signature_loop env n w1 CTX)"

definition sign_message :: "('w, 's) agent_env \<Rightarrow> ('w, 's) pm \<Rightarrow> ('w, 's) pm flow cres" where
  "sign_message env s =
     cbind (if pm_internally_canned s
            then cbind (ds_spam_signature_put (cx_signature (pm_ctx s))) (\<lambda>_.
                   Inr (pm_ctx s\<lparr>cx_signature := ds_spam_signature_new True (Some (replicate 8 (Some (CHR 0x00)))) 8\<rparr>))
            else Inr (pm_ctx s)) (\<lambda>C.
       if pm_internally_canned s \<or> cx_operating_mode C = DSM_PROCESS \<and> cx_classification C = DSR_NONE \<and> cx_signature C \<noteq> None
       then cbind (signature_loop env (ae_patience env) (pm_w s) C) (\<lambda>(w1, sig).
              let s1 = s\<lparr>pm_w := w1, pm_ctx := C, pm_run := with_atx (\<lambda>A. A\<lparr>ax_signature := sig\<rparr>) (pm_run s)\<rparr>
              in if cx_classification C = DSR_NONE \<and> cx_training_mode C \<noteq> DST_NOTRAIN \<and> \<not> ax_train_pristine (pm_atx s)
                 then (case ae_set_signature env w1 C sig of (w2, C2, _) \<Rightarrow> Inr (On (s1\<lparr>pm_w := w2, pm_ctx := C2\<rparr>)))
                 else Inr (On s1))
       else Inr (On (s\<lparr>pm_ctx := C\<rparr>)))"

section \<open>The records of the message\<close>

definition keep_stats :: "('w, 's) agent_env \<Rightarrow> ('w, 's) pm \<Rightarrow> ('w, 's) pm cres" where
  "keep_stats env s =
     (let C = pm_ctx s; merged = has (cx_flags C) DSF_MERGED in
      if cx_training_mode C \<noteq> DST_NOTRAIN \<and> cfg_match (pm_conf s) ''WebStats'' ''on''
      then cbind (write_web_stats (ae_sys env) (pm_conf s) (pm_w s) (pm_atx s)
                    (case cx_group C of Some g \<Rightarrow> if merged then user_of C else g | None \<Rightarrow> user_of C)
                    (if merged then cx_group C else None) (cx_totals C)) (\<lambda>(w1, _). Inr (s\<lparr>pm_w := w1\<rparr>))
      else Inr s)"

definition keep_logs :: "('w, 's) agent_env \<Rightarrow> ('w, 's) pm \<Rightarrow> ('w, 's) pm cres" where
  "keep_logs env s =
     (if cx_operating_mode (pm_ctx s) \<noteq> DSM_CLASSIFY \<and> (cfg_match (pm_conf s) ''SystemLog'' ''on'' \<or> cfg_match (pm_conf s) ''UserLog'' ''on'')
      then cbind (log_events (ae_sys env) (pm_conf s) (ae_runtime env (pm_w s)) (pm_w s) (pm_run s) (pm_ctx s)) (\<lambda>(w1, run1).
             Inr (s\<lparr>pm_w := w1, pm_run := run1\<rparr>))
      else Inr s)"

text \<open>A fragment is at most 1023 bytes from the end of the headers, or from the start where there is none.\<close>

definition fragment :: "string \<Rightarrow> string" where
  "fragment txt = copy_cut 1024 (case strstr txt [CHR 0x0A, CHR 0x0A] of None \<Rightarrow> txt | Some k \<Rightarrow> drop k txt) @ [CHR 0x0A]"

definition keep_fragment :: "('w, 's) agent_env \<Rightarrow> ('w, 's) pm \<Rightarrow> ('w, 's) pm cres" where
  "keep_fragment env s =
     (if ds_pref_val (ax_PTX (pm_atx s)) ''storeFragments'' = ''on'' \<and> cx_source (pm_ctx s) \<noteq> DSS_ERROR
      then cbind (user_file (ae_sys env) (pm_conf s) (pm_atx s) (owner (pm_atx s) (pm_ctx s)) ''frag'') (\<lambda>d.
             let f = path_cut (d @ ''/'' @ ax_signature (pm_atx s) @ ''.frag'')
             in Inr (s\<lparr>pm_w := write_if (ae_sys env) (sy_prepare (ae_sys env) (pm_w s) f) f (fragment (pm_text s))\<rparr>))
      else Inr s)"

definition corpus_file :: "string \<Rightarrow> bool \<Rightarrow> string \<Rightarrow> string" where
  "corpus_file d spam sig = path_cut (d @ ''/'' @ (if spam then ''spam'' else ''nonspam'') @ ''/'' @ sig @ ''.msg'')"

definition keep_corpus :: "('w, 's) agent_env \<Rightarrow> ('w, 's) pm \<Rightarrow> ('w, 's) pm cres" where
  "keep_corpus env s =
     (if ds_pref_val (ax_PTX (pm_atx s)) ''makeCorpus'' = ''on''
      then cbind (user_file (ae_sys env) (pm_conf s) (pm_atx s) (owner (pm_atx s) (pm_ctx s)) ''corpus'') (\<lambda>d.
             let spam = (pm_result s = dsr_code DSR_ISSPAM);
                 dest = corpus_file d spam (ax_signature (pm_atx s)); other = corpus_file d (\<not> spam) (ax_signature (pm_atx s));
                 w1 = sy_prepare (ae_sys env) (pm_w s) dest
             in Inr (s\<lparr>pm_w := (if ax_source (pm_atx s) \<noteq> DSS_ERROR then write_if (ae_sys env) w1 dest (pm_text s)
                               else sy_rename (ae_sys env) w1 other dest)\<rparr>))
      else Inr s)"

definition keep_records :: "('w, 's) agent_env \<Rightarrow> ('w, 's) pm \<Rightarrow> ('w, 's) pm flow cres" where
  "keep_records env s =
     (let C = pm_ctx s;
          s1 = (if cx_group C \<noteq> None \<and> \<not> strcaseeq (user_of C) (pm_original_username s)
                then s\<lparr>pm_ctx := C\<lparr>cx_username := Some (pm_original_username s)\<rparr>\<rparr> else s)
      in cbind (keep_stats env s1) (\<lambda>s2. cbind (keep_logs env s2) (\<lambda>s3. cbind (keep_fragment env s3) (\<lambda>s4.
         cbind (keep_corpus env s4) (\<lambda>s5. Inr (On s5))))))"

section \<open>The message is rewritten\<close>

definition msgtag_file :: "agent_config \<Rightarrow> dsr \<Rightarrow> string cres" where
  "msgtag_file conf result =
     (let name = ''msgtag.'' @ (if result = DSR_ISSPAM then ''spam'' else ''nonspam'') in
      case cfg_read conf ''TxtDirectory'' of
        Some d \<Rightarrow> Inr (path_cut (d @ ''/'' @ name))
      | None \<Rightarrow> (case cfg_read conf ''Home'' of None \<Rightarrow> Inl NullDeref | Some h \<Rightarrow> Inr (path_cut (h @ ''/txt/'' @ name))))"

definition wants_msgtag :: "agent_ctx \<Rightarrow> dsr \<Rightarrow> bool" where
  "wants_msgtag ATX result \<longleftrightarrow>
     ds_pref_val (ax_PTX ATX) ''tagSpam'' = ''on'' \<and> result = DSR_ISSPAM \<or>
     ds_pref_val (ax_PTX ATX) ''tagNonspam'' = ''on'' \<and> result = DSR_ISINNOCENT"

definition rewrite :: "('w, 's) agent_env \<Rightarrow> ('w, 's) pm \<Rightarrow> ('w, 's) pm flow cres" where
  "rewrite env s =
     (let C = pm_ctx s; A = pm_atx s; conf = pm_conf s in
      case cx_message C of
        None \<Rightarrow> Inr (Leave s (pm_result s))
      | Some m \<Rightarrow>
          cbind (let m1 = add_xdspam_headers (ae_now env (pm_w s)) conf C A m
                 in if ds_pref_val (ax_PTX A) ''spamAction'' = ''tag'' \<and> pm_result s = dsr_code DSR_ISSPAM
                    then tag_message A m1 else Inr m1) (\<lambda>m2.
          cbind (if wants_msgtag A (cx_result C)
                 then cbind (msgtag_file conf (cx_result C)) (\<lambda>f. Inr (embed_msgtag (sy_read (ae_sys env) (pm_w s) f) (cx_result C) m2))
                 else Inr (m2, 0)) (\<lambda>(m3, i).
            if i < 0 then Inr (Leave s i)
            else cbind (if ds_pref_val (ax_PTX A) ''signatureLocation'' \<noteq> ''headers'' \<and> \<not> ax_train_pristine A \<and>
                           (cx_classification C = DSR_NONE \<or> pm_internally_canned s)
                        then embed_signature (ae_junk env) (ae_pid env) (cx_training_mode C) A m3 else Inr (m3, 0)) (\<lambda>(m4, j).
                   if j < 0 then Inr (Leave s j)
                   else Inr (On (s\<lparr>pm_ctx := C\<lparr>cx_message := Some m4\<rparr>,
                     pm_text := ds_assemble_message m4 (if use_lmtp conf \<or> use_smtp conf then [CHR 0x0D, CHR 0x0A] else [CHR 0x0A])\<rparr>))))))"

text \<open>The name of the dropped file is what the message says its source is.\<close>

definition tracksource :: "'w sys \<Rightarrow> agent_config \<Rightarrow> 'w \<Rightarrow> 's msg_ctx \<Rightarrow> 'w cres" where
  "tracksource sys conf w CTX =
     cbind (dspam_getsource CTX 32) (\<lambda>(ip, r).
       Inr (if r = 0 \<and> innocent_learned (cx_totals CTX) + innocent_classified (cx_totals CTX) > 2500 \<and>
               cx_result CTX = DSR_ISSPAM \<and> cx_class CTX \<noteq> LANG_CLASS_VIRUS \<and> cfg_match conf ''TrackSources'' ''spam''
            then (case cfg_read conf ''RABLQueue'' of None \<Rightarrow> w | Some q \<Rightarrow> write_if sys w (path_cut (q @ ''/'' @ ip)) [])
            else w))"

definition result_line :: "agent_ctx \<Rightarrow> ('s, 'm) dspam_ctx \<Rightarrow> string" where
  "result_line ATX C =
     ''X-DSPAM-Result: '' @ user_of C @ ''; result='' @ [CHR 0x22] @ (if cx_result C = DSR_ISSPAM then ''Spam'' else ''Innocent'') @
     [CHR 0x22] @ ''; class='' @ [CHR 0x22] @ cx_class C @ [CHR 0x22] @ ''; probability='' @ show_fixed 4 (cx_probability C) @
     ''; confidence='' @ show_fixed 2 (cx_confidence C) @ ''; signature='' @
     (if ax_signature ATX \<noteq> [] then ax_signature ATX else ''N/A'') @ [CHR 0x0A]"

definition report :: "('w, 's) agent_env \<Rightarrow> ('w, 's) pm \<Rightarrow> ('w, 's) pm flow cres" where
  "report env s =
     (let C = pm_ctx s in
      cbind (if cfg_read (pm_conf s) ''TrackSources'' \<noteq> None \<and> cx_operating_mode C = DSM_PROCESS \<and>
                cx_source C \<noteq> DSS_CORPUS \<and> cx_source C \<noteq> DSS_ERROR
             then tracksource (ae_sys env) (pm_conf s) (pm_w s) C else Inr (pm_w s)) (\<lambda>w1.
        Inr (On (s\<lparr>pm_w := (if cx_operating_mode C = DSM_CLASSIFY \<or> hasf (pm_atx s) DAF_SUMMARY
                            then sy_print (ae_sys env) w1 (result_line (pm_atx s) C) else w1),
                   pm_run := pm_run s\<lparr>rn_learned := cx_learned C\<rparr>\<rparr>))))"

section \<open>One message for one user\<close>

definition message_steps :: "('w, 's) agent_env \<Rightarrow> ('w, 's) pm \<Rightarrow> ('w, 's) pm flow cres" where
  "message_steps env s0 =
     fbind (attach_message env s0) (\<lambda>s1. fbind (actualize env s1) (\<lambda>s2. fbind (screen env s2) (\<lambda>s3.
     fbind (fetch_signature env s3) (\<lambda>s4. fbind (train_or_classify env s4) (\<lambda>s5. fbind (settle env s5) (\<lambda>s6.
     fbind (inoculate_others env s6) (\<lambda>s7. fbind (sign_message env s7) (\<lambda>s8. fbind (keep_records env s8) (\<lambda>s9.
     fbind (rewrite env s9) (\<lambda>s10. report env s10))))))))))"

text \<open>What the label RETURN does with the agent's context.\<close>

definition release_run :: "agent_run \<Rightarrow> agent_run" where
  "release_run run = with_atx (\<lambda>A. A\<lparr>ax_signature := [], ax_inoc_users := [], ax_classify_users := []\<rparr>) (run\<lparr>rn_SIG := None\<rparr>)"

definition finish :: "('w, 's) agent_env \<Rightarrow> ('w, 's) pm \<Rightarrow> ('w, 's) pm cres" where
  "finish env s =
     cbind (ds_spam_signature_put (rn_SIG (pm_run s))) (\<lambda>_.
     cbind (en_destroy (ae_engine env) (pm_w s) (pm_ctx s)) (\<lambda>w1. Inr (s\<lparr>pm_w := w1, pm_run := release_run (pm_run s)\<rparr>)))"

text \<open>What a call leaves and returns; \<open>po_class\<close> is the result string.\<close>

record 'w pm_out =
  po_w :: 'w
  po_conf :: agent_config
  po_run :: agent_run
  po_text :: string
  po_result :: int
  po_class :: "string option"

definition out_of :: "('w, 's) pm \<Rightarrow> int \<Rightarrow> string option \<Rightarrow> 'w pm_out" where
  "out_of s k class = \<lparr>po_w = pm_w s, po_conf = pm_conf s, po_run = pm_run s, po_text = pm_text s, po_result = k, po_class = class\<rparr>"

definition group_file :: "'w sys \<Rightarrow> agent_config \<Rightarrow> 'w \<Rightarrow> string option" where
  "group_file sys conf w = Option.bind (cfg_read conf ''GroupConfig'') (\<lambda>f. sy_read sys w (path_cut f))"

definition process_message ::
    "('w, 's) agent_env \<Rightarrow> agent_config \<Rightarrow> 'w \<Rightarrow> agent_run \<Rightarrow> string \<Rightarrow> string \<Rightarrow> 'w pm_out cres" where
  "process_message env conf w run txt username =
     cbind (ctx_init (en_alloc (ae_engine env)) (en_dspam_home (ae_engine env)) conf (group_file (ae_sys env) conf w) (rn_atx run) (Some username)) (\<lambda>(A, c).
       let run1 = with_atx (\<lambda>_. A) run in
       case c of
         None \<Rightarrow> cbind (ds_spam_signature_put (rn_SIG run1)) (\<lambda>_.
                   Inr \<lparr>po_w = w, po_conf = conf, po_run = release_run run1, po_text = txt, po_result = EUNKNOWN, po_class = None\<rparr>)
       | Some C \<Rightarrow>
           cbind (message_steps env \<lparr>pm_w = w, pm_conf = conf, pm_run = run1, pm_ctx = C, pm_text = txt, pm_have_signature = False,
                    pm_internally_canned = False, pm_original_username = [], pm_result = 0\<rparr>) (\<lambda>f.
             case f of
               Leave s k \<Rightarrow> cbind (finish env s) (\<lambda>s1. Inr (out_of s1 k None))
             | On s \<Rightarrow> cbind (finish env s) (\<lambda>s1. Inr (out_of s1 (pm_result s) (Some (cx_class (pm_ctx s)))))))"

section \<open>What becomes of the message of a user\<close>

text \<open>The variables of \<^verbatim>\<open>process_users\<close> while it handles one user.\<close>

record 'w pu =
  pu_w :: 'w
  pu_conf :: agent_config
  pu_run :: agent_run
  pu_text :: string
  pu_presult :: agent_result
  pu_retcode :: int

abbreviation pu_atx :: "'w pu \<Rightarrow> agent_ctx" where
  "pu_atx s \<equiv> rn_atx (pu_run s)"

definition deliver_to :: "('w, 's) agent_env \<Rightarrow> 'w pu \<Rightarrow> string \<Rightarrow> string \<Rightarrow> dsr \<Rightarrow> 'w pu cres" where
  "deliver_to env s args user result =
     cbind (deliver_message (ae_sys env) (pu_conf s) (pu_w s) (pu_run s) (pu_text s)
              (if hasf (pu_atx s) DAF_STDOUT then None else Some args) user result) (\<lambda>(w1, run1, rc).
       Inr (s\<lparr>pu_w := w1, pu_retcode := rc,
              pu_run := (if rn_sockfd run1 \<and> hasf (rn_atx run1) DAF_STDOUT then run1\<lparr>rn_sockfd_output := True\<rparr> else run1)\<rparr>))"

definition note_result :: "'w pu \<Rightarrow> 'w pu" where
  "note_result s =
     (let c = (if pu_retcode s = EINVAL then ERC_PERMANENT_DELIVERY else if pu_retcode s \<noteq> 0 then ERC_DELIVERY else ar_exitcode (pu_presult s))
      in s\<lparr>pu_presult := pu_presult s\<lparr>ar_exitcode := c, ar_text := copy_cut 256 (rn_status (pu_run s))\<rparr>\<rparr>)"

text \<open>The class, the source and the flag stay in the agent's context.\<close>

definition unlearn_failed :: "('w, 's) agent_env \<Rightarrow> 'w pu \<Rightarrow> string \<Rightarrow> dsr \<Rightarrow> 'w pu cres" where
  "unlearn_failed env s username result =
     (if cfg_match (pu_conf s) ''OnFail'' ''unlearn'' \<and> rn_learned (pu_run s)
      then cbind (process_message env (pu_conf s) (pu_w s)
                    (with_atx (\<lambda>A. add_flag DAF_UNLEARN (A\<lparr>ax_classification := result, ax_source := DSS_ERROR\<rparr>)) (pu_run s))
                    (pu_text s) username) (\<lambda>po.
             Inr (s\<lparr>pu_w := po_w po, pu_conf := po_conf po, pu_run := po_run po, pu_text := po_text po\<rparr>))
      else Inr s)"

definition failed_delivery :: "('w, 's) agent_env \<Rightarrow> string \<Rightarrow> dsr option \<Rightarrow> 'w pu \<Rightarrow> 'w pu cres" where
  "failed_delivery env username result s =
     (if pu_retcode s = 0 then Inr s
      else case result of None \<Rightarrow> Inr (note_result s) | Some r \<Rightarrow> unlearn_failed env (note_result s) username r)"

text \<open>
  \<open>user\<close> is the name in the list, \<open>username\<close> what is left of it. An error of processing delivers
  the message, unless it was a correction.
\<close>

definition handle_innocent :: "('w, 's) agent_env \<Rightarrow> 'w pu \<Rightarrow> string \<Rightarrow> string \<Rightarrow> int \<Rightarrow> 'w pu cres" where
  "handle_innocent env s user username result =
     (if (result = dsr_code DSR_ISINNOCENT \<or> ax_classification (pu_atx s) = DSR_NONE) \<and> hasf (pu_atx s) DAF_DELIVER_INNOCENT
      then cbind (deliver_to env s (ax_mailer_args (pu_atx s)) user DSR_ISINNOCENT)
             (failed_delivery env username (if result = dsr_code DSR_ISINNOCENT then Some DSR_ISINNOCENT else None))
      else Inr s)"

definition own_quarantine :: "agent_ctx \<Rightarrow> bool" where
  "own_quarantine ATX \<longleftrightarrow> ax_spam_args ATX \<noteq> [] \<or>
     ax_PTX ATX \<noteq> None \<and> (ds_pref_val (ax_PTX ATX) ''spamAction'' = ''tag'' \<or> ds_pref_val (ax_PTX ATX) ''spamAction'' = ''deliver'')"

definition divert_spam :: "('w, 's) agent_env \<Rightarrow> 'w pu \<Rightarrow> string \<Rightarrow> string \<Rightarrow> 'w pu cres" where
  "divert_spam env s user username =
     (let A = pu_atx s; s0 = s\<lparr>pu_retcode := 0\<rparr> in
      if own_quarantine A
      then (if ax_classification A = DSR_NONE
            then cbind (deliver_to env s0 (if ax_spam_args A \<noteq> [] then ax_spam_args A else ax_mailer_args A) user DSR_ISSPAM) (\<lambda>s1.
                   Inr (note_result s1))
            else Inr s0)
      else if (ax_source A = DSS_INOCULATION \<or> ax_classification A = DSR_NONE) \<and> \<not> hasf A DAF_SUMMARY
      then cbind (quarantine_message (ae_sys env) (pu_conf s) (pu_w s) A (pu_text s)
                    (if ax_managed_group A = [] then username else ax_managed_group A)) (\<lambda>(w1, rc).
             Inr (s\<lparr>pu_w := w1, pu_retcode := rc\<rparr>))
      else Inr s0)"

definition handle_spam :: "('w, 's) agent_env \<Rightarrow> 'w pu \<Rightarrow> string \<Rightarrow> string \<Rightarrow> 'w pu cres" where
  "handle_spam env s user username =
     (if hasf (pu_atx s) DAF_DELIVER_SPAM
      then cbind (deliver_to env s (ax_mailer_args (pu_atx s)) user DSR_ISSPAM) (failed_delivery env username (Some DSR_ISSPAM))
      else if ax_source (pu_atx s) = DSS_CORPUS then Inr (s\<lparr>pu_retcode := 0\<rparr>)
      else cbind (divert_spam env s user username) (failed_delivery env username (Some DSR_ISSPAM)))"

section \<open>The users\<close>

definition strip_detail :: "char \<Rightarrow> string \<Rightarrow> string" where
  "strip_detail c u =
     (if c \<in> set u then takeWhile (\<lambda>d. d \<noteq> c) u @ dropWhile (\<lambda>d. d \<noteq> CHR ''@'') (dropWhile (\<lambda>d. d \<noteq> c) u) else u)"

definition plused_char :: "agent_config \<Rightarrow> char" where
  "plused_char conf = (case cfg_read conf ''PlusedCharacter'' of Some (c # _) \<Rightarrow> c | Some [] \<Rightarrow> CHR 0x00 | None \<Rightarrow> CHR ''+'')"

text \<open>The name of the user without detail, and the mailbox that replaces the recipient.\<close>

definition plused_user :: "agent_config \<Rightarrow> string \<Rightarrow> string" where
  "plused_user conf user =
     (if cfg_match conf ''EnablePlusedDetail'' ''on''
      then strip_detail (plused_char conf) (if cfg_match conf ''PlusedUserLowercase'' ''on'' then fst (lc user) else user)
      else user)"

definition plused_recipient :: "agent_config \<Rightarrow> string \<Rightarrow> rcpt \<Rightarrow> rcpt" where
  "plused_recipient conf user r = (if cfg_match conf ''EnablePlusedDetail'' ''on'' then Rcpt (copy_cut 256 user) 256 else r)"

definition opted_out :: "('w, 's) agent_env \<Rightarrow> agent_config \<Rightarrow> 'w \<Rightarrow> agent_ctx \<Rightarrow> string \<Rightarrow> string \<Rightarrow> bool cres" where
  "opted_out env conf w ATX username txt =
     cbind (user_file (ae_sys env) conf ATX username ''dspam'') (\<lambda>fi.
     cbind (user_file (ae_sys env) conf ATX username ''nodspam'') (\<lambda>fo.
       let too_big = (case cfg_read conf ''MaxMessageSize'' of None \<Rightarrow> False | Some v \<Rightarrow> int (length txt) > atoi v)
       in Inr (sy_size (ae_sys env) w fo \<noteq> None \<or> too_big \<or> ds_pref_val (ax_PTX ATX) ''optOut'' = ''on'' \<or>
               cfg_match conf ''Opt'' ''in'' \<and> sy_size (ae_sys env) w fi = None \<and> ds_pref_val (ax_PTX ATX) ''optIn'' \<noteq> ''on'')))"

definition fallback_name :: "agent_ctx \<Rightarrow> string \<Rightarrow> string" where
  "fallback_name ATX user =
     (if ds_pref_val (ax_PTX ATX) ''fallbackDomain'' = ''on'' \<and> CHR ''@'' \<in> set user then dropWhile (\<lambda>c. c \<noteq> CHR ''@'') user else user)"

text \<open>The variables that outlive one user.\<close>

record 'w pl =
  pl_w :: 'w
  pl_conf :: agent_config
  pl_run :: agent_run
  pl_users :: "string list"
  pl_return_code :: int

definition record_result :: "'w pu \<Rightarrow> agent_run" where
  "record_result s =
     with_atx (\<lambda>A. A\<lparr>ax_PTX := None\<rparr>)
       ((pu_run s)\<lparr>rn_results := map_option (\<lambda>rs. rs @ [pu_presult s]) (rn_results (pu_run s))\<rparr>)"

text \<open>The context of the agent when a user's message is handled.\<close>

definition user_run :: "('w, 's) agent_env \<Rightarrow> 'w pl \<Rightarrow> string \<Rightarrow> string \<Rightarrow> rcpt \<Rightarrow> agent_run cres" where
  "user_run env l given user r =
     cbind (load_aggregated_prefs (ae_pref_load env (pl_w l)) (pl_conf l) (Some user)) (\<lambda>ptx.
       let run = with_atx (\<lambda>A. A\<lparr>ax_PTX := Some ptx\<rparr>) ((pl_run l)\<lparr>rn_recipient := plused_recipient (pl_conf l) given r\<rparr>)
       in Inr (with_atx (\<lambda>A. A\<lparr>ax_train_pristine := trains_pristine (pl_conf l) A\<rparr>) run))"

definition start_user :: "'w pl \<Rightarrow> agent_run \<Rightarrow> string \<Rightarrow> 'w pu" where
  "start_user l run txt = \<lparr>pu_w = pl_w l, pu_conf = pl_conf l, pu_run = run, pu_text = txt,
     pu_presult = \<lparr>ar_exitcode = ERC_SUCCESS, ar_classification = 0, ar_text = []\<rparr>, pu_retcode = 0\<rparr>"

definition end_user :: "'w pl \<Rightarrow> 'w pu \<Rightarrow> 'w pl" where
  "end_user l s = l\<lparr>pl_w := pu_w s, pl_conf := pu_conf s, pl_run := record_result s\<rparr>"

definition filter_user :: "('w, 's) agent_env \<Rightarrow> 'w pl \<Rightarrow> 'w pu \<Rightarrow> string \<Rightarrow> string \<Rightarrow> 'w pl cres" where
  "filter_user env l s user username =
     cbind (process_message env (pu_conf s) (pu_w s) (pu_run s) (pu_text s) username) (\<lambda>po.
       let s1 = s\<lparr>pu_w := po_w po, pu_conf := po_conf po, pu_run := po_run po, pu_text := po_text po,
                  pu_presult := pu_presult s\<lparr>ar_classification := po_result po\<rparr>\<rparr>;
           spam = (po_result po = dsr_code DSR_ISSPAM);
           l1 = (if cfg_match (po_conf po) ''Broken'' ''returnCodes'' \<and> spam then l\<lparr>pl_return_code := 99\<rparr> else l)
       in if ax_operating_mode (pu_atx s1) = DSM_CLASSIFY
          then Inr (l1\<lparr>pl_w := pu_w s1, pl_conf := pu_conf s1, pl_run := with_atx (\<lambda>A. A\<lparr>ax_PTX := None\<rparr>) (pu_run s1)\<rparr>)
          else cbind (if spam then handle_spam env s1 user username else handle_innocent env s1 user username (po_result po)) (\<lambda>s2.
                 Inr (end_user l1 s2)))"

definition bypass_user :: "('w, 's) agent_env \<Rightarrow> 'w pl \<Rightarrow> 'w pu \<Rightarrow> string \<Rightarrow> 'w pl cres" where
  "bypass_user env l s user =
     cbind (if hasf (pu_atx s) DAF_DELIVER_INNOCENT
            then cbind (deliver_to env s (ax_mailer_args (pu_atx s)) user DSR_ISINNOCENT) (\<lambda>s1. Inr (note_result s1))
            else Inr s) (\<lambda>s1. Inr (end_user l s1))"

text \<open>One turn: the place of the user in the list, and the recipient where there is a list of them.\<close>

definition process_user :: "('w, 's) agent_env \<Rightarrow> string \<Rightarrow> 'w pl \<Rightarrow> nat \<times> string option \<Rightarrow> 'w pl cres" where
  "process_user env txt l turn =
     (case turn of (i, rcpt) \<Rightarrow>
        if i \<ge> length (pl_users l) then Inl NullDeref
        else
          (let given = pl_users l ! i; user = plused_user (pl_conf l) given;
               addr = (case rcpt of Some a \<Rightarrow> a | None \<Rightarrow> given);
               l1 = l\<lparr>pl_users := (pl_users l)[i := user]\<rparr>
           in cbind (user_run env l1 given user (Rcpt addr (Suc (length addr)))) (\<lambda>run.
                let username = fallback_name (rn_atx run) user
                in cbind (opted_out env (pl_conf l) (pl_w l) (rn_atx run) username txt) (\<lambda>out.
                     if out then bypass_user env l1 (start_user l1 run txt) user
                     else filter_user env l1 (start_user l1 run txt) user username))))"

text \<open>
  The turns with a list of recipients. When the users are used up the first one is taken again; the
  cursor is then still at the end, and its next step leads to the first user once more.
\<close>

definition next_user :: "nat \<Rightarrow> nat option \<Rightarrow> nat option" where
  "next_user n c = (case c of Some i \<Rightarrow> if Suc i < n then Some (Suc i) else None | None \<Rightarrow> if n > 0 then Some 0 else None)"

fun rcpt_turns :: "nat \<Rightarrow> nat option \<Rightarrow> string list \<Rightarrow> (nat \<times> string option) list" where
  "rcpt_turns n c [] = []"
| "rcpt_turns n c (r # rs) = ((case c of Some i \<Rightarrow> i | None \<Rightarrow> 0), Some r) # rcpt_turns n (next_user n c) rs"

definition user_turns :: "string list \<Rightarrow> string list option \<Rightarrow> (nat \<times> string option) list" where
  "user_turns users recipients =
     (case recipients of
        Some (r # rs) \<Rightarrow> rcpt_turns (length users) (if users = [] then None else Some 0) (r # rs)
      | _ \<Rightarrow> map (\<lambda>i. (i, None)) [0..<length users])"

text \<open>Where the loop starts; a client that asks for results is told that there is output.\<close>

definition users_start :: "agent_config \<Rightarrow> 'w \<Rightarrow> agent_run \<Rightarrow> 'w pl" where
  "users_start conf w run =
     (let A = rn_atx run
      in \<lparr>pl_w = w, pl_conf = conf,
          pl_run = (if rn_sockfd run \<and> (ax_operating_mode A = DSM_CLASSIFY \<or> hasf A DAF_SUMMARY)
                    then run\<lparr>rn_sockfd_output := True\<rparr> else run),
          pl_users = ax_users A, pl_return_code = 0\<rparr>)"

definition process_users :: "('w, 's) agent_env \<Rightarrow> agent_config \<Rightarrow> 'w \<Rightarrow> agent_run \<Rightarrow> string \<Rightarrow> ('w \<times> agent_config \<times> agent_run \<times> int) cres" where
  "process_users env conf w run txt =
     cbind (cfold (process_user env txt) (users_start conf w run) (user_turns (ax_users (rn_atx run)) (ax_recipients (rn_atx run)))) (\<lambda>l.
       Inr (pl_w l, pl_conf l, with_atx (\<lambda>B. B\<lparr>ax_users := pl_users l\<rparr>) (pl_run l), pl_return_code l))"

end
