(* ===== verification/Ds_Mail.thy ===== *)
theory Ds_Mail
  imports Ds_Process
begin

text \<open>
  What the agent is told to do stays with it: \<^verbatim>\<open>process_message\<close> keeps the orders of the command
  line whatever it meets, and so every user's message reaches its delivery, until a delivery fails and
  the message is to be unlearned.
\<close>

section \<open>Orders\<close>

text \<open>Class, source, mode and arguments, and the flags that say what to deliver where.\<close>

definition orders :: "agent_ctx \<Rightarrow> dsr \<times> dss \<times> dsm \<times> string \<times> string \<times> u64" where
  "orders A = (ax_classification A, ax_source A, ax_operating_mode A, ax_mailer_args A, ax_spam_args A, ax_flags A AND 0x307)"

definition onfail :: "agent_config \<Rightarrow> bool" where
  "onfail conf \<longleftrightarrow> cfg_match conf ''OnFail'' ''unlearn''"

named_theorems kept \<open>what a step keeps\<close>

lemma orders_other [simp]:
  "orders (A\<lparr>ax_signature := x\<rparr>) = orders A" "orders (A\<lparr>ax_inoc_users := us\<rparr>) = orders A"
  "orders (A\<lparr>ax_classify_users := us\<rparr>) = orders A" "orders (A\<lparr>ax_managed_group := x\<rparr>) = orders A"
  "orders (A\<lparr>ax_PTX := p\<rparr>) = orders A" "orders (A\<lparr>ax_train_pristine := b\<rparr>) = orders A"
  by (simp_all add: orders_def)

lemma orders_group_flags [simp]:
  "orders (add_flag DAF_GLOBAL A) = orders A" "orders (add_flag DAF_MERGED A) = orders A"
  "orders (A\<lparr>ax_flags := ax_flags A XOR DAF_MERGED\<rparr>) = orders A"
  by (simp_all add: orders_def add_flag_def DAF_GLOBAL_def DAF_MERGED_def bit.conj_disj_distrib2 bit.conj_xor_distrib2)

section \<open>The configuration\<close>

lemma replace_first_match:
  "\<not> strcaseeq k key \<Longrightarrow> cfg_match (replace_first conf k v) key x = cfg_match conf key x"
  by (induction conf k v rule: replace_first.induct) (auto simp: cfg_match_def strcaseeq_def)

lemma overwrite_onfail: "cfg_overwrite conf ''DefaultProfile'' v = Inr conf' \<Longrightarrow> onfail conf' = onfail conf"
proof -
  have "\<not> strcaseeq ''DefaultProfile'' ''OnFail''" by code_simp
  then show "cfg_overwrite conf ''DefaultProfile'' v = Inr conf' \<Longrightarrow> ?thesis"
    by (auto simp: cfg_overwrite_def onfail_def replace_first_match split: if_splits)
qed

lemma failover_onfail: "failover en n w conf CTX r = Inr (w', conf', C, r') \<Longrightarrow> onfail conf' = onfail conf"
  by (induction en n w conf CTX r rule: failover.induct)
    (auto simp: cbind_Inr_iff Let_def split: if_splits option.splits dest: overwrite_onfail)

lemma attach_context_onfail [kept]: "attach_context en w conf CTX = Inr (w', conf', C, r) \<Longrightarrow> onfail conf' = onfail conf"
  by (auto simp: attach_context_def cbind_Inr_iff split: if_splits dest: failover_onfail)

lemma open_ctx_onfail: "open_ctx en w conf CTX = Inr (w', conf', C) \<Longrightarrow> onfail conf' = onfail conf"
  by (auto simp: open_ctx_def cbind_Inr_iff split: if_splits dest: attach_context_onfail)

lemma user_classify_onfail: "user_classify en w conf ATX u SIG m = Inr (w', conf', r) \<Longrightarrow> onfail conf' = onfail conf"
  by (auto simp: user_classify_def cbind_Inr_iff split: if_splits option.splits dest: open_ctx_onfail)

lemma inoculate_user_onfail: "inoculate_user en w conf ATX u SIG m = Inr (w', conf', r) \<Longrightarrow> onfail conf' = onfail conf"
  by (auto simp: inoculate_user_def cbind_Inr_iff split: if_splits option.splits dest!: open_ctx_onfail user_classify_onfail)

lemma reclassify_onfail: "reclassify en w conf ATX SIG CTX e = Inr (w', conf', t) \<Longrightarrow> onfail conf' = onfail conf"
  by (auto simp: reclassify_def cbind_Inr_iff split: if_splits option.splits dest: open_ctx_onfail)

lemma retrain_loop_onfail: "retrain_loop en n t w conf ATX SIG CTX = Inr (w', conf', C, r) \<Longrightarrow> onfail conf' = onfail conf"
proof (induction n arbitrary: w conf CTX)
  case (Suc n)
  from Suc.prems show ?case
    unfolding retrain_loop.simps Let_def
    by (auto simp: cbind_Inr_iff elim!: if_eqE dest!: reclassify_onfail Suc.IH)
qed simp

lemma retrain_message_onfail [kept]: "retrain_message en w conf ATX SIG CTX = Inr (w', conf', C, r) \<Longrightarrow> onfail conf' = onfail conf"
  by (auto simp: retrain_message_def cbind_Inr_iff split: if_splits dest: retrain_loop_onfail)

lemma ask_peers_onfail: "ask_peers en w conf ATX CTX k us = Inr (w', conf', C, r) \<Longrightarrow> onfail conf' = onfail conf"
proof (induction us arbitrary: w conf CTX k)
  case (Cons u us)
  from Cons.prems show ?case
    unfolding ask_peers.simps by (elim if_eqE) (auto simp: cbind_Inr_iff dest!: user_classify_onfail Cons.IH)
qed simp

lemma ensure_confident_onfail [kept]:
  "ensure_confident_result en w conf ATX CTX k = Inr (w', conf', C, r) \<Longrightarrow> onfail conf' = onfail conf"
  unfolding ensure_confident_result_def Let_def
  by (elim if_eqE) (auto simp: cbind_Inr_iff dest!: ask_peers_onfail elim!: if_eqE)

lemma inoculate_users_onfail [kept]:
  "inoculate_users env ATX SIG m st us = Inr (w', conf') \<Longrightarrow> onfail conf' = onfail (snd st)"
  by (induction env ATX SIG m st us rule: inoculate_users.induct) (auto simp: cbind_Inr_iff dest!: inoculate_user_onfail)

section \<open>The context of the agent\<close>

lemma class_member_orders: "orders (gs_atx (fst (class_member u gs us))) = orders (gs_atx gs)"
  by (induction u gs us rule: class_member.induct) auto

lemma class_peers_orders: "class_peers u gs us = Inr gs' \<Longrightarrow> orders (gs_atx gs') = orders (gs_atx gs)"
  by (induction u gs us rule: class_peers.induct) (auto simp: Let_def split: if_splits)

lemma merged_members_orders: "merged_members u g gs us = Inr gs' \<Longrightarrow> orders (gs_atx gs') = orders (gs_atx gs)"
  by (induction u g gs us rule: merged_members.induct) (auto simp: Let_def split: if_splits)

lemma group_line_orders: "group_line u gs buf = Inr gs' \<Longrightarrow> orders (gs_atx gs') = orders (gs_atx gs)"
  using class_member_orders[of u gs]
  by (auto simp: group_line_def inoculation_group_def shared_group_def Let_def class_peers_orders merged_members_orders
      split: option.splits if_splits prod.splits) (metis class_peers_orders fst_conv)+

lemma ctx_init_orders [kept]:
  assumes "ctx_init alloc home conf f A u = Inr (A', c)"
  shows "orders A' = orders A"
proof -
  have "cfold (group_line x) gs bufs = Inr gs' \<Longrightarrow> orders (gs_atx gs') = orders (gs_atx gs)" for x gs gs' bufs
    by (induction bufs arbitrary: gs) (auto simp: cbind_Inr_iff dest!: group_line_orders)
  then have "read_groups x B contents = Inr gs' \<Longrightarrow> orders (gs_atx gs') = orders B" for x B contents gs'
    unfolding read_groups_def by (metis group_state.select_convs(7) no_groups_def)
  then show ?thesis using assms
    by (auto simp: ctx_init_def cbind_Inr_iff Let_def no_groups_def split: option.splits if_splits)
qed

lemma find_signature_orders [kept]:
  assumes "find_signature A m = Inr (A', m', b)"
  shows "orders A' = orders A"
proof -
  have t: "take_signature fi block body = Inr (fi', b') \<Longrightarrow> orders (fi_atx fi') = orders (fi_atx fi)" for fi fi' block body b'
    by (auto simp: take_signature_def Let_def split: option.splits if_splits prod.splits)
  have h: "orders (fi_atx (fst (header_signature fi block))) = orders (fi_atx fi)" for fi block
    by (auto simp: header_signature_def split: option.splits)
  have p: "orders (fi_atx fi') = orders (fi_atx fi)" if "find_in_part i fi block = Inr (fi', b')" for i fi fi' block b'
  proof -
    define x where "x = (if in_headers (fi_atx fi) then 2
      else if mp_media_type block = MT_MULTIPART \<and> mp_media_subtype block = MST_SIGNED then 1 else fi_signed fi)"
    define fi1 where "fi1 = fi\<lparr>fi_signed := x\<rparr>"
    have f: "fi_atx fi1 = fi_atx fi" by (simp add: fi1_def)
    have r: "(if tokenizable i block then cbind (decode_part (fi_signed fi1) block) (\<lambda>block.
                let (g, body) = header_signature fi1 block in
                if \<not> ax_train_pristine (fi_atx g) \<and> (\<not> fi_have g \<or> \<not> in_headers (fi_atx g))
                then take_signature g block body else Inr (g, block))
         else Inr (fi1, block)) = Inr (fi', b')"
      using that unfolding find_in_part_def Let_def fi1_def x_def .
    show ?thesis
    proof (cases "tokenizable i block")
      case True
      then obtain blk where "(let (g, body) = header_signature fi1 blk in
                if \<not> ax_train_pristine (fi_atx g) \<and> (\<not> fi_have g \<or> \<not> in_headers (fi_atx g))
                then take_signature g blk body else Inr (g, blk)) = Inr (fi', b')"
        using r by (auto simp: cbind_Inr_iff)
      then show ?thesis using h[of fi1 blk] f by (cases "header_signature fi1 blk") (auto split: if_splits dest: t)
    qed (use r f in auto)
  qed
  have "find_in_parts i fi bs = Inr (fi', bs') \<Longrightarrow> orders (fi_atx fi') = orders (fi_atx fi)" for i fi fi' bs bs'
    by (induction i fi bs arbitrary: bs' rule: find_in_parts.induct) (auto simp: cbind_Inr_iff dest!: p)
  then show ?thesis using assms by (force simp: find_signature_def cbind_Inr_iff split: if_splits)
qed

section \<open>The steps of a message\<close>

lemma deliver_message_atx: "deliver_message sys conf w run m args u r = Inr (w', run', rc) \<Longrightarrow> rn_atx run' = rn_atx run"
  by (auto simp: deliver_message_def cbind_Inr_iff Let_def split: if_splits rcpt.splits prod.splits)

lemma send_notice_atx: "send_notice sys conf w run f args u = Inr (w', run', rc) \<Longrightarrow> rn_atx run' = rn_atx run"
  by (auto simp: send_notice_def cbind_Inr_iff split: option.splits dest: deliver_message_atx)

lemma notify_once_atx: "notify_once sys conf u e f st = Inr (w', run') \<Longrightarrow> rn_atx run' = rn_atx (snd st)"
  by (auto simp: notify_once_def cbind_Inr_iff Let_def split: prod.splits if_splits dest: send_notice_atx)

lemma notify_size_atx: "notify_size sys conf u st = Inr (w', run') \<Longrightarrow> rn_atx run' = rn_atx (snd st)"
  by (auto simp: notify_size_def cbind_Inr_iff Let_def split: prod.splits option.splits if_splits dest: send_notice_atx)

lemma do_notifications_atx: "do_notifications sys conf w run CTX = Inr (w', run') \<Longrightarrow> rn_atx run' = rn_atx run"
  by (auto simp: do_notifications_def cbind_Inr_iff split: if_splits dest!: notify_once_atx notify_size_atx)

lemma set_status_atx [simp]: "rn_atx (set_status t run) = rn_atx run"
  by (simp add: set_status_def)

lemma is_blacklisted_atx: "is_blacklisted sys conf w run CTX = Inr (run', b) \<Longrightarrow> rn_atx run' = rn_atx run"
  by (auto simp: is_blacklisted_def cbind_Inr_iff split: if_splits option.splits prod.splits)

lemma log_events_atx: "log_events sys conf t w run CTX = Inr (w', run') \<Longrightarrow> rn_atx run' = rn_atx run"
  by (auto simp: log_events_def cbind_Inr_iff Let_def split: option.splits prod.splits)

lemma with_atx_atx [simp]: "rn_atx (with_atx f run) = f (rn_atx run)"
  by (simp add: with_atx_def)

lemma set_recipient_atx: "set_recipient u run = Inr run' \<Longrightarrow> rn_atx run' = rn_atx run"
  by (auto simp: set_recipient_def split: rcpt.splits if_splits)

definition same_orders :: "('w, 's) pm \<Rightarrow> ('w, 's) pm \<Rightarrow> bool" where
  "same_orders s s' \<longleftrightarrow> orders (pm_atx s') = orders (pm_atx s) \<and> onfail (pm_conf s') = onfail (pm_conf s)"

fun flow_state :: "'x flow \<Rightarrow> 'x" where
  "flow_state (On x) = x" | "flow_state (Leave x k) = x"

lemma same_orders_refl [simp]: "same_orders s s"
  by (simp add: same_orders_def)

lemma fbind_same:
  assumes "fbind m f = Inr r" "\<And>x. m = Inr x \<Longrightarrow> same_orders s (flow_state x)"
    and "\<And>x r. f x = Inr r \<Longrightarrow> same_orders x (flow_state r)"
  shows "same_orders s (flow_state r)"
proof -
  obtain x where x: "m = Inr x" "(case x of On y \<Rightarrow> f y | Leave y k \<Rightarrow> Inr (Leave y k)) = Inr r"
    using assms(1) by (auto simp: fbind_def cbind_Inr_iff)
  have s: "same_orders s (flow_state x)" by (rule assms(2)[OF x(1)])
  show ?thesis
  proof (cases x)
    case (On y)
    then have "same_orders y (flow_state r)" using x(2) assms(3) by simp
    then show ?thesis using s On by (simp add: same_orders_def)
  next
    case (Leave y k)
    then show ?thesis using x(2) s by auto
  qed
qed

lemma attach_message_same: "attach_message env s = Inr r \<Longrightarrow> same_orders s (flow_state r)"
  by (auto simp: attach_message_def same_orders_def cbind_Inr_iff Let_def split: if_splits dest!: attach_context_onfail)

lemma actualize_same: "actualize env s = Inr r \<Longrightarrow> same_orders s (flow_state r)"
  by (auto simp: actualize_def same_orders_def cbind_Inr_iff split: option.splits)

lemma screen_same:
  assumes "screen env s = Inr r"
  shows "same_orders s (flow_state r)"
proof -
  obtain b where b: "is_blocklisted (ae_sys env) (pm_conf s) (pm_w s) (pm_atx s) (pm_ctx s) = Inr b"
    using assms by (auto simp: screen_def cbind_Inr_iff)
  define s1 where "s1 = (if b then s\<lparr>pm_ctx := canned LANG_CLASS_BLOCKLISTED (pm_ctx s), pm_internally_canned := True\<rparr> else s)"
  have s1: "pm_run s1 = pm_run s" "pm_conf s1 = pm_conf s" by (simp_all add: s1_def)
  have branch: "pm_run (if c then x else if d then x\<lparr>pm_ctx := p\<rparr> else x\<lparr>pm_ctx := q, pm_internally_canned := True\<rparr>) = pm_run x"
    "pm_conf (if c then x else if d then x\<lparr>pm_ctx := p\<rparr> else x\<lparr>pm_ctx := q, pm_internally_canned := True\<rparr>) = pm_conf x"
    for c d p q and x :: "('a, 'b) pm" by simp_all
  show ?thesis using assms unfolding screen_def b cbind.simps Let_def s1_def[symmetric]
    by (elim if_eqE) (auto simp: cbind_Inr_iff same_orders_def s1 branch dest!: is_blacklisted_atx)
qed

lemma reload_prefs_same: "reload_prefs env s = Inr s' \<Longrightarrow> same_orders s s'"
  by (auto simp: reload_prefs_def same_orders_def cbind_Inr_iff Let_def dest!: set_recipient_atx)

lemma use_signature_same:
  assumes "use_signature env s got = Inr r"
  shows "same_orders s (flow_state r)"
proof -
  obtain w1 C1 sig k where g: "got = (w1, C1, sig, k)" by (cases got)
  have reload: "same_orders s t" if "reload_prefs env (s\<lparr>pm_w := w1, pm_ctx := x, pm_run := pm_run s\<lparr>rn_SIG := y\<rparr>\<rparr>) = Inr t" for x y t
    using reload_prefs_same[OF that] by (simp add: same_orders_def)
  show ?thesis
  proof (cases "k = 0")
    case True
    then obtain cell b where "ds_spam_signature_get sig = Inr (cell, b)"
      using assms by (cases "ds_spam_signature_get sig") (auto simp: use_signature_def g)
    then show ?thesis using assms True reload
      by (cases "strcaseeq (user_of C1) (pm_original_username s)") (auto simp: use_signature_def g cbind_Inr_iff Let_def same_orders_def)
  next
    case False
    then show ?thesis using assms by (auto simp: use_signature_def g same_orders_def)
  qed
qed

lemma same_orders_trans: "same_orders s t \<Longrightarrow> same_orders t u \<Longrightarrow> same_orders s u"
  by (simp add: same_orders_def)

lemma fetch_branches_same:
  assumes "(if b then use_signature env s g else if c then Inr (On (s\<lparr>pm_ctx := C1\<rparr>)) else Inr (On s)) = Inr r"
  shows "same_orders s (flow_state r)"
  using assms by (elim if_eqE) (auto dest: use_signature_same simp: same_orders_def)

lemma fetch_signature_same:
  assumes "fetch_signature env s = Inr r"
  shows "same_orders s (flow_state r)"
proof -
  obtain m where m: "cx_message (pm_ctx s) = Some m" using assms by (cases "cx_message (pm_ctx s)") (simp_all add: fetch_signature_def)
  obtain A m1 found where f: "find_signature (pm_atx s) m = Inr (A, m1, found)"
    using assms by (cases "find_signature (pm_atx s) m") (auto simp: fetch_signature_def m)
  show ?thesis
    using assms unfolding fetch_signature_def Let_def m f cbind.simps option.case prod.case
    by (rule same_orders_trans[OF _ fetch_branches_same, rotated]) (simp add: same_orders_def find_signature_orders[OF f])
qed

lemma train_same: "train_or_classify env s = Inr r \<Longrightarrow> same_orders s (flow_state r)"
  by (auto simp: train_or_classify_def same_orders_def cbind_Inr_iff Let_def split: if_splits dest!: retrain_message_onfail)

lemma settle_same: "settle env s = Inr r \<Longrightarrow> same_orders s (flow_state r)"
  by (auto simp: settle_def same_orders_def cbind_Inr_iff Let_def split: if_splits dest!: do_notifications_atx ensure_confident_onfail)

lemma inoculate_same: "inoculate_others env s = Inr r \<Longrightarrow> same_orders s (flow_state r)"
  by (auto simp: inoculate_others_def same_orders_def cbind_Inr_iff Let_def split: if_splits dest!: inoculate_users_onfail)

lemma sign_message_same: "sign_message env s = Inr r \<Longrightarrow> same_orders s (flow_state r)"
  by (auto simp: sign_message_def same_orders_def cbind_Inr_iff Let_def split: if_splits prod.splits)

lemma keep_stats_same: "keep_stats env s = Inr s' \<Longrightarrow> same_orders s s'"
  by (auto simp: keep_stats_def same_orders_def cbind_Inr_iff Let_def elim!: if_eqE)

lemma keep_logs_same: "keep_logs env s = Inr s' \<Longrightarrow> same_orders s s'"
  by (auto simp: keep_logs_def same_orders_def cbind_Inr_iff elim!: if_eqE dest!: log_events_atx)

lemma keep_fragment_same: "keep_fragment env s = Inr s' \<Longrightarrow> same_orders s s'"
  by (auto simp: keep_fragment_def same_orders_def cbind_Inr_iff Let_def elim!: if_eqE)

lemma keep_corpus_same: "keep_corpus env s = Inr s' \<Longrightarrow> same_orders s s'"
  by (auto simp: keep_corpus_def same_orders_def cbind_Inr_iff Let_def elim!: if_eqE)

lemma keep_records_same: "keep_records env s = Inr r \<Longrightarrow> same_orders s (flow_state r)"
  unfolding keep_records_def Let_def cbind_Inr_iff
  by (elim exE conjE, drule keep_stats_same, drule keep_logs_same, drule keep_fragment_same, drule keep_corpus_same)
    (auto simp: same_orders_def split: if_splits)

lemma rewrite_same: "rewrite env s = Inr r \<Longrightarrow> same_orders s (flow_state r)"
  unfolding rewrite_def Let_def cbind_Inr_iff
  by (cases "cx_message (pm_ctx s)") (auto simp: same_orders_def cbind_Inr_iff elim!: if_eqE)

lemma report_same: "report env s = Inr r \<Longrightarrow> same_orders s (flow_state r)"
  by (auto simp: report_def same_orders_def cbind_Inr_iff Let_def)

lemma message_steps_same: "message_steps env s = Inr r \<Longrightarrow> same_orders s (flow_state r)"
  unfolding message_steps_def
  by (erule fbind_same attach_message_same actualize_same screen_same fetch_signature_same train_same settle_same inoculate_same
      sign_message_same keep_records_same rewrite_same report_same)+

lemma process_message_same:
  fixes env :: "('w, 's) agent_env"
  assumes "process_message env conf w run txt u = Inr po"
  shows "orders (rn_atx (po_run po)) = orders (rn_atx run) \<and> onfail (po_conf po) = onfail conf"
proof -
  have rel: "orders (rn_atx (release_run x)) = orders (rn_atx x)" for x
    by (simp add: release_run_def orders_def)
  have fin: "finish env s = Inr s' \<Longrightarrow> same_orders s s'" for s s'
    by (auto simp: finish_def cbind_Inr_iff same_orders_def rel)
  obtain A and c :: "'s msg_ctx option" where c: "ctx_init (en_alloc (ae_engine env)) (en_dspam_home (ae_engine env)) conf (group_file (ae_sys env) conf w) (rn_atx run) (Some u)
      = Inr (A, c)"
    using assms by (auto simp: process_message_def cbind_Inr_iff)
  have A: "orders A = orders (rn_atx run)" by (rule ctx_init_orders[OF c])
  show ?thesis
  proof (cases c)
    case None
    then show ?thesis using assms by (auto simp: process_message_def c cbind_Inr_iff Let_def rel A)
  next
    case (Some C)
    define s where "s = \<lparr>pm_w = w, pm_conf = conf, pm_run = with_atx (\<lambda>_. A) run, pm_ctx = C, pm_text = txt, pm_have_signature = False,
                    pm_internally_canned = False, pm_original_username = [], pm_result = 0\<rparr>"
    obtain f where f: "message_steps env s = Inr f" "(case f of
               Leave s k \<Rightarrow> cbind (finish env s) (\<lambda>s1. Inr (out_of s1 k None))
             | On s \<Rightarrow> cbind (finish env s) (\<lambda>s1. Inr (out_of s1 (pm_result s) (Some (cx_class (pm_ctx s)))))) = Inr po"
      using assms by (auto simp: process_message_def c Some cbind_Inr_iff Let_def s_def)
    have "same_orders s (flow_state f)" by (rule message_steps_same[OF f(1)])
    then show ?thesis using f(2)
      by (cases f) (auto simp: cbind_Inr_iff out_of_def same_orders_def s_def A dest!: fin)
  qed
qed

section \<open>No message is lost\<close>

text \<open>
  A log of the texts that were handed to an agent, a socket, a stream or a mailbox, in a world where
  the mailboxes can be opened and locked.
\<close>

definition keeps_log :: "'w sys \<Rightarrow> ('w \<Rightarrow> string list) \<Rightarrow> bool" where
  "keeps_log sys handed \<longleftrightarrow>
     (\<forall>w c m. handed (fst (sy_pipe sys w c m)) = handed w @ [m]) \<and>
     (\<forall>w r m b. handed (fst (sy_socket sys w r m b)) = handed w @ [m]) \<and>
     (\<forall>w t. handed (sy_print sys w t) = handed w @ [t]) \<and>
     (\<forall>w f t. \<exists>w'. sy_append sys w f t = Some w' \<and> handed w' = handed w @ [t]) \<and> (\<forall>w f. sy_lock sys w f)"

text \<open>The usual orders of a mail server: inbound mail, innocent mail is delivered.\<close>

definition inbound :: "agent_ctx \<Rightarrow> bool" where
  "inbound A \<longleftrightarrow> ax_classification A = DSR_NONE \<and> ax_source A \<noteq> DSS_CORPUS \<and> ax_operating_mode A \<noteq> DSM_CLASSIFY \<and>
     hasf A DAF_DELIVER_INNOCENT \<and> \<not> hasf A DAF_SUMMARY"

lemma inbound_orders: "orders A = orders B \<Longrightarrow> inbound A = inbound B"
proof -
  assume o: "orders A = orders B"
  have "ax_flags X AND f = (ax_flags X AND 0x307) AND f" if "f = DAF_DELIVER_INNOCENT \<or> f = DAF_SUMMARY" for X f
    using that by (auto simp: and.assoc DAF_DELIVER_INNOCENT_def DAF_SUMMARY_def)
  then have "hasf A f = hasf B f" if "f = DAF_DELIVER_INNOCENT \<or> f = DAF_SUMMARY" for f
    using o that unfolding orders_def hasf_def by (metis prod.inject)
  then show ?thesis using o by (simp add: inbound_def orders_def)
qed

definition handed_last :: "('w \<Rightarrow> string list) \<Rightarrow> 'w \<Rightarrow> string \<Rightarrow> bool" where
  "handed_last handed w t \<longleftrightarrow> (\<exists>ts. handed w = ts @ [t] \<or> (\<exists>date. handed w = ts @ [mbox_entry date t]))"

lemma deliver_message_log:
  assumes "keeps_log sys handed" "deliver_message sys conf w run m args u r = Inr (w', run', rc)"
  shows "handed_last handed w' m"
proof -
  have p: "handed (fst (sy_pipe sys x c m)) = handed x @ [m]" "handed (fst (sy_socket sys x y m b)) = handed x @ [m]"
    "handed (sy_print sys x m) = handed x @ [m]" for x c y b using assms(1) by (simp_all add: keeps_log_def)
  have local: "handed_last handed w'' m" if "deliver_local sys conf x y m args u r q = Inr (w'', rc')" for x y q w'' rc'
  proof (cases args)
    case None
    then show ?thesis using that p(3) by (auto simp: deliver_local_def Let_def handed_last_def)
  next
    case (Some a)
    note run = that
    from Some obtain v k where "(case sy_pipe sys v k m of (w2, e) \<Rightarrow> Inr (w2, agent_code conf e)) = (Inr (w'', rc') :: ('a \<times> int) cres)"
      using run by (auto simp: deliver_local_def Let_def cbind_Inr_iff)
    then show ?thesis using p(1)[of v k] by (auto simp: handed_last_def split: prod.splits)
  qed
  have socket: "sy_socket sys x y m b = (w'', st, rc') \<Longrightarrow> handed_last handed w'' m" for x y b w'' st rc'
    using p(2)[of x y b] by (auto simp: handed_last_def)
  from assms(2) obtain x q where "(if by_socket conf (rn_atx run) r
      then case sy_socket sys w (run\<lparr>rn_recipient := x\<rparr>) m (use_lmtp conf) of
             (w1, status, rc) \<Rightarrow> Inr (w1, run\<lparr>rn_recipient := (if q then RcptGone else x), rn_status := status\<rparr>, rc)
      else cbind (deliver_local sys conf w (run\<lparr>rn_recipient := x\<rparr>) m args u r q) (\<lambda>(w1, rc).
             Inr (w1, run\<lparr>rn_recipient := (if q then RcptGone else x)\<rparr>, rc))) = Inr (w', run', rc)"
    unfolding deliver_message_def Let_def cbind_Inr_iff by blast
  then show ?thesis
    by (cases "by_socket conf (rn_atx run) r") (auto simp: cbind_Inr_iff split: prod.splits dest: local socket)
qed

lemma deliver_to_log:
  assumes "keeps_log (ae_sys env) handed" "deliver_to env s args user r = Inr s'"
  shows "handed_last handed (pu_w s') (pu_text s) \<and> pu_atx s' = pu_atx s \<and> pu_conf s' = pu_conf s"
  using assms(2) by (auto simp: deliver_to_def cbind_Inr_iff dest: deliver_message_log[OF assms(1)] deliver_message_atx)

lemma quarantine_log:
  assumes "keeps_log sys handed" "quarantine_message sys conf w ATX m u = Inr (w', rc)"
  shows "handed_last handed w' m"
proof -
  have "\<exists>ts. handed (fst (append_locked sys x f t)) = ts @ [t]" for x f t
  proof -
    have k: "\<exists>w'. sy_append sys y f z = Some w' \<and> handed w' = handed y @ [z]" "sy_lock sys y f" for y z
      using assms(1) by (simp_all add: keeps_log_def)
    obtain w1 w2 where "sy_append sys x f [] = Some w1" "sy_append sys w1 f t = Some w2" "handed w2 = handed w1 @ [t]"
      using k(1) by metis
    then show ?thesis using k(2) by (simp add: append_locked_def)
  qed
  then show ?thesis using assms(2) by (auto simp: quarantine_message_def cbind_Inr_iff Let_def handed_last_def) (metis fst_conv)
qed

lemma note_result_keeps [simp]: "pu_w (note_result s) = pu_w s" "pu_conf (note_result s) = pu_conf s" "pu_run (note_result s) = pu_run s"
  "pu_retcode (note_result s) = pu_retcode s" "pu_text (note_result s) = pu_text s"
  by (simp_all add: note_result_def Let_def)

lemma failed_delivery_quiet:
  assumes "failed_delivery env u r s = Inr s'" "\<not> onfail (pu_conf s)"
  shows "pu_w s' = pu_w s \<and> pu_conf s' = pu_conf s \<and> pu_run s' = pu_run s"
  using assms by (auto simp: failed_delivery_def unlearn_failed_def onfail_def split: if_splits option.splits)

lemma handle_spam_log:
  assumes "keeps_log (ae_sys env) handed" "handle_spam env s user u = Inr s'" "inbound (pu_atx s)" "\<not> onfail (pu_conf s)"
  shows "handed_last handed (pu_w s') (pu_text s) \<and> pu_atx s' = pu_atx s \<and> pu_conf s' = pu_conf s"
proof -
  note log = deliver_to_log[OF assms(1)] and quiet = failed_delivery_quiet
  have d: "handed_last handed (pu_w t) (pu_text s) \<and> pu_atx t = pu_atx s \<and> pu_conf t = pu_conf s" if "divert_spam env s user u = Inr t" for t
  proof (cases "own_quarantine (pu_atx s)")
    case True
    then show ?thesis using that assms(3) log by (auto simp: divert_spam_def inbound_def Let_def cbind_Inr_iff dest!: log)
  next
    case False
    then show ?thesis using that assms(3)
      by (auto simp: divert_spam_def inbound_def Let_def cbind_Inr_iff dest: quarantine_log[OF assms(1)])
  qed
  show ?thesis
  proof (cases "hasf (pu_atx s) DAF_DELIVER_SPAM")
    case True
    then obtain t where t: "deliver_to env s (ax_mailer_args (pu_atx s)) user DSR_ISSPAM = Inr t" "failed_delivery env u (Some DSR_ISSPAM) t = Inr s'"
      using assms(2) by (auto simp: handle_spam_def cbind_Inr_iff)
    then show ?thesis using log[OF t(1)] quiet[OF t(2)] assms(4) by simp
  next
    case False
    then obtain t where t: "divert_spam env s user u = Inr t" "failed_delivery env u (Some DSR_ISSPAM) t = Inr s'"
      using assms(2,3) by (auto simp: handle_spam_def inbound_def cbind_Inr_iff)
    then show ?thesis using d[OF t(1)] quiet[OF t(2)] assms(4) by simp
  qed
qed

lemma handle_innocent_log:
  assumes "keeps_log (ae_sys env) handed" "handle_innocent env s user u k = Inr s'" "inbound (pu_atx s)" "\<not> onfail (pu_conf s)"
  shows "handed_last handed (pu_w s') (pu_text s) \<and> pu_atx s' = pu_atx s \<and> pu_conf s' = pu_conf s"
proof -
  obtain t r where t: "deliver_to env s (ax_mailer_args (pu_atx s)) user DSR_ISINNOCENT = Inr t" "failed_delivery env u r t = Inr s'"
    using assms(2,3) by (auto simp: handle_innocent_def inbound_def cbind_Inr_iff)
  then show ?thesis using deliver_to_log[OF assms(1) t(1)] failed_delivery_quiet[OF t(2)] assms(4) by simp
qed

text \<open>The text of a message for a user: as it came, or as processing it left it.\<close>

definition message_for :: "('w, 's) agent_env \<Rightarrow> string \<Rightarrow> string \<Rightarrow> bool" where
  "message_for env txt t \<longleftrightarrow> t = txt \<or> (\<exists>conf w run u po. process_message env conf w run txt u = Inr po \<and> t = po_text po)"

lemma end_user_keeps: "pl_w (end_user l s) = pu_w s" "pl_conf (end_user l s) = pu_conf s" "orders (rn_atx (pl_run (end_user l s))) = orders (pu_atx s)"
  by (simp_all add: end_user_def record_result_def)

lemma start_user_keeps [simp]: "pu_w (start_user l run txt) = pl_w l" "pu_conf (start_user l run txt) = pl_conf l"
  "pu_run (start_user l run txt) = run" "pu_text (start_user l run txt) = txt"
  by (simp_all add: start_user_def)

lemma bypass_log:
  assumes "keeps_log (ae_sys env) handed" "bypass_user env l s user = Inr l'" "inbound (pu_atx s)"
  shows "handed_last handed (pl_w l') (pu_text s) \<and> orders (rn_atx (pl_run l')) = orders (pu_atx s) \<and> pl_conf l' = pu_conf s"
  using assms(2,3) by (auto simp: bypass_user_def inbound_def cbind_Inr_iff end_user_keeps dest!: deliver_to_log[OF assms(1)])

lemma filter_log:
  assumes "keeps_log (ae_sys env) handed" "filter_user env l s user u = Inr l'" "inbound (pu_atx s)" "\<not> onfail (pu_conf s)"
  shows "\<exists>t. message_for env (pu_text s) t \<and> handed_last handed (pl_w l') t \<and>
    orders (rn_atx (pl_run l')) = orders (pu_atx s) \<and> \<not> onfail (pl_conf l')"
proof -
  obtain po where po: "process_message env (pu_conf s) (pu_w s) (pu_run s) (pu_text s) u = Inr po"
    using assms(2) by (auto simp: filter_user_def cbind_Inr_iff)
  have same: "orders (rn_atx (po_run po)) = orders (pu_atx s)" "\<not> onfail (po_conf po)"
    using process_message_same[OF po] assms(4) by auto
  then have inb: "inbound (rn_atx (po_run po))" using inbound_orders assms(3) by blast
  define s1 where "s1 = s\<lparr>pu_w := po_w po, pu_conf := po_conf po, pu_run := po_run po, pu_text := po_text po,
                  pu_presult := pu_presult s\<lparr>ar_classification := po_result po\<rparr>\<rparr>"
  have s1: "pu_run s1 = po_run po" "pu_conf s1 = po_conf po" "pu_text s1 = po_text po" by (simp_all add: s1_def)
  have m: "ax_operating_mode (pu_atx s1) \<noteq> DSM_CLASSIFY" using inb by (simp add: inbound_def s1)
  obtain s2 l1 where 2: "(if po_result po = dsr_code DSR_ISSPAM then handle_spam env s1 user u else handle_innocent env s1 user u (po_result po)) = Inr s2"
    "l' = end_user l1 s2"
    using assms(2) m unfolding filter_user_def po cbind.simps Let_def s1_def[symmetric] by (auto simp: cbind_Inr_iff)
  have "handed_last handed (pu_w s2) (pu_text s1) \<and> pu_atx s2 = pu_atx s1 \<and> pu_conf s2 = pu_conf s1"
    using 2(1) handle_spam_log[OF assms(1), of s1] handle_innocent_log[OF assms(1), of s1] inb same(2) s1 by (auto split: if_splits)
  moreover have "message_for env (pu_text s) (pu_text s1)" unfolding message_for_def s1(3) using po by blast
  ultimately show ?thesis using 2(2) same s1 by (auto simp: end_user_keeps)
qed

lemma process_user_log:
  assumes "keeps_log (ae_sys env) handed" "process_user env txt l turn = Inr l'" "inbound (rn_atx (pl_run l))" "\<not> onfail (pl_conf l)"
  shows "\<exists>t. message_for env txt t \<and> handed_last handed (pl_w l') t \<and> inbound (rn_atx (pl_run l')) \<and> \<not> onfail (pl_conf l')"
proof -
  obtain i rcpt where turn: "turn = (i, rcpt)" by (cases turn)
  have i: "i < length (pl_users l)" using assms(2) by (simp add: process_user_def turn split: if_splits)
  define given where "given = pl_users l ! i"
  define user where "user = plused_user (pl_conf l) given"
  define addr where "addr = (case rcpt of Some a \<Rightarrow> a | None \<Rightarrow> given)"
  define l1 where "l1 = l\<lparr>pl_users := (pl_users l)[i := user]\<rparr>"
  have step: "cbind (user_run env l1 given user (Rcpt addr (Suc (length addr)))) (\<lambda>run.
                cbind (opted_out env (pl_conf l) (pl_w l) (rn_atx run) (fallback_name (rn_atx run) user) txt) (\<lambda>out.
                  if out then bypass_user env l1 (start_user l1 run txt) user
                  else filter_user env l1 (start_user l1 run txt) user (fallback_name (rn_atx run) user))) = Inr l'"
    using assms(2) i unfolding process_user_def turn Let_def given_def user_def addr_def l1_def prod.case by (simp split del: if_split)
  then obtain run out where run: "user_run env l1 given user (Rcpt addr (Suc (length addr))) = Inr run"
    and out: "(if out then bypass_user env l1 (start_user l1 run txt) user
               else filter_user env l1 (start_user l1 run txt) user (fallback_name (rn_atx run) user)) = Inr l'"
    unfolding cbind_Inr_iff by blast
  have 1: "pl_conf l1 = pl_conf l" "orders (rn_atx run) = orders (rn_atx (pl_run l))"
    using run by (auto simp: l1_def user_run_def cbind_Inr_iff Let_def)
  have inb: "inbound (rn_atx run)" using 1(2) inbound_orders assms(3) by blast
  have "\<exists>t. message_for env txt t \<and> handed_last handed (pl_w l') t \<and> orders (rn_atx (pl_run l')) = orders (rn_atx run) \<and> \<not> onfail (pl_conf l')"
  proof (cases out)
    case True
    then show ?thesis using bypass_log[OF assms(1), of l1 "start_user l1 run txt" user l'] out 1 inb assms(4) by (auto simp: message_for_def)
  next
    case False
    then show ?thesis using filter_log[OF assms(1), of l1 "start_user l1 run txt" user _ l'] out 1 inb assms(4) by auto
  qed
  then show ?thesis using inbound_orders inb by blast
qed

lemma cfold_take: "cfold f s xs = Inr r \<Longrightarrow> \<exists>t. cfold f s (take n xs) = Inr t"
  using cfold_append[of f s "take n xs" "drop n xs"] by (cases "cfold f s (take n xs)") auto

lemma users_log:
  assumes "keeps_log (ae_sys env) handed"
  shows "cfold (process_user env txt) l turns = Inr l' \<Longrightarrow> inbound (rn_atx (pl_run l)) \<Longrightarrow> \<not> onfail (pl_conf l) \<Longrightarrow>
    inbound (rn_atx (pl_run l')) \<and> \<not> onfail (pl_conf l') \<and> (turns \<noteq> [] \<longrightarrow> (\<exists>t. message_for env txt t \<and> handed_last handed (pl_w l') t))"
proof (induction turns arbitrary: l)
  case (Cons x xs)
  then obtain l1 where 1: "process_user env txt l x = Inr l1" "cfold (process_user env txt) l1 xs = Inr l'" by (auto simp: cbind_Inr_iff)
  obtain t where t: "message_for env txt t" "handed_last handed (pl_w l1) t" "inbound (rn_atx (pl_run l1))" "\<not> onfail (pl_conf l1)"
    using process_user_log[OF assms 1(1)] Cons.prems by blast
  show ?case
  proof (cases xs)
    case Nil
    then show ?thesis using 1(2) t by auto
  next
    case (Cons y ys)
    then show ?thesis using Cons.IH[OF 1(2) t(3,4)] by simp
  qed
qed simp


text \<open>A world that is the list of the texts handed over, with mailboxes, agents and streams that take everything.\<close>

definition list_sys :: "string list sys" where
  "list_sys = \<lparr>sy_read = (\<lambda>_ _. None), sy_size = (\<lambda>_ _. None), sy_lock = (\<lambda>_ _. True), sy_append = (\<lambda>w _ t. Some (w @ [t])),
     sy_write = (\<lambda>w _ _. Some w), sy_rename = (\<lambda>w _ _. w), sy_prepare = (\<lambda>w _. w), sy_time = (\<lambda>_. 0), sy_ctime = (\<lambda>_. [CHR 0x0A]),
     sy_date = (\<lambda>_. []), sy_print = (\<lambda>w t. w @ [t]), sy_pipe = (\<lambda>w _ t. (w @ [t], Exited 1)), sy_socket = (\<lambda>w _ t _. (w @ [t], [], 0)),
     sy_resolve = (\<lambda>_ _. None), sy_layout = \<lparr>la_largescale = False, la_domainscale = False\<rparr>\<rparr>"

text \<open>Contexts of the library cannot be allocated, so that every message fails to be processed.\<close>

definition list_env :: "(string list, unit) agent_env" where
  "list_env = \<lparr>ae_sys = list_sys,
     ae_engine = \<lparr>en_alloc = (\<lambda>_. False), en_dspam_home = None, en_attach = (\<lambda>w C. Inr (w, C, 0)), en_process = (\<lambda>w C _. Inr (w, C, 0)),
       en_destroy = (\<lambda>w _. Inr w)\<rparr>,
     ae_connected = (\<lambda>_. True), ae_connect = (\<lambda>w _. w), ae_get_signature = (\<lambda>w C _. (w, C, None, EFAILURE)),
     ae_set_signature = (\<lambda>w C _. (w, C, 0)), ae_signature_id = (\<lambda>w _. (w, [])), ae_verify_signature = (\<lambda>_ _ _. True),
     ae_pref_load = (\<lambda>_ _. Inr None), ae_lines = (\<lambda>_. True), ae_now = (\<lambda>_. []), ae_runtime = (\<lambda>_. []), ae_pid = [], ae_junk = PCD_INLINE,
     ae_patience = 1\<rparr>"

definition inbound_run :: agent_run where
  "inbound_run = \<lparr>rn_atx = blank_atx\<lparr>ax_flags := DAF_DELIVER_INNOCENT, ax_users := [''joe'', ''jane'']\<rparr>, rn_recipient = NoRcpt, rn_status = [],
     rn_learned = False, rn_sockfd = False, rn_sockfd_output = False, rn_results = None, rn_SIG = None\<rparr>"

lemma list_sys_log: "keeps_log (ae_sys list_env) id"
  by (simp add: keeps_log_def list_env_def list_sys_def)

lemma inbound_run_inbound: "inbound (rn_atx inbound_run)"
  by (simp add: inbound_def inbound_run_def blank_atx_def hasf_def DAF_DELIVER_INNOCENT_def DAF_SUMMARY_def)

definition home_conf :: agent_config where
  "home_conf = [(''Home'', ''h'')]"

lemma home_read: "cfg_read home_conf key = (if strcaseeq ''Home'' key then Some ''h'' else None)"
  by (simp add: cfg_read_def home_conf_def)

lemma home_match: "cfg_match home_conf key x = (strcaseeq ''Home'' key \<and> strcaseeq ''h'' x)"
  by (simp add: cfg_match_def home_conf_def)

lemma other_length: "length a \<noteq> length b \<Longrightarrow> \<not> strcaseeq a b"
  by (auto simp: strcaseeq_def dest: map_eq_imp_length_eq)

lemma list_prefs: "load_aggregated_prefs (\<lambda>_. Inr None) home_conf (Some u) = Inr []"
  by (simp add: load_aggregated_prefs_def pref_config_def home_conf_def ds_pref_aggregate_def cfg_match_def other_length config_pref_def)

lemma list_message:
  "rn_SIG run = None \<Longrightarrow> \<exists>po. process_message list_env home_conf w run txt u = Inr po \<and> po_w po = w \<and> po_conf po = home_conf \<and>
     po_text po = txt \<and> po_result po = EUNKNOWN \<and> rn_SIG (po_run po) = None \<and> rn_recipient (po_run po) = rn_recipient run"
  by (simp add: process_message_def list_env_def ctx_init_def dspam_create_def Let_def group_file_def home_read other_length no_groups_def
      with_atx_def release_run_def ds_spam_signature_put_def)

lemma list_deliver:
  assumes "pu_conf s = home_conf" "rn_recipient (pu_run s) \<noteq> RcptGone"
  shows "\<exists>s'. deliver_to list_env s args user DSR_ISINNOCENT = Inr s' \<and> pu_conf s' = home_conf \<and> rn_SIG (pu_run s') = rn_SIG (pu_run s)"
proof -
  have "\<exists>r. recipient_of (rn_recipient (pu_run s)) False user = Inr r" using assms(2) by (cases "rn_recipient (pu_run s)") (auto simp: recipient_of_def)
  then show ?thesis using assms(1)
    by (auto simp: deliver_to_def deliver_message_def deliver_local_def home_read home_match other_length by_socket_def use_lmtp_def use_smtp_def
      list_env_def list_sys_def Let_def cbind_Inr_iff)
qed

lemma list_turn:
  assumes "pl_conf l = home_conf" "rn_SIG (pl_run l) = None" "i < length (pl_users l)"
  shows "\<exists>l'. process_user list_env txt l (i, None) = Inr l' \<and> pl_conf l' = home_conf \<and> rn_SIG (pl_run l') = None \<and> length (pl_users l') = length (pl_users l)"
proof -
  let ?u = "pl_users l ! i"
  have u: "plused_user home_conf ?u = ?u" "plused_recipient home_conf ?u r = r" for r
    by (simp_all add: plused_user_def plused_recipient_def home_match other_length)
  have f: "\<exists>x. user_file list_sys home_conf A u e = Inr x" for A u e
    by (simp add: user_file_def home_read strcaseeq_def ds_userdir_path_def domain_user_def list_sys_def)
  define l1 where "l1 = l\<lparr>pl_users := (pl_users l)[i := ?u]\<rparr>"
  obtain run where run: "user_run list_env l1 ?u ?u (Rcpt ?u (Suc (length ?u))) = Inr run" "rn_SIG run = None" "rn_recipient run \<noteq> RcptGone"
    using assms(1,2) u(2) by (simp add: user_run_def l1_def list_prefs list_env_def Let_def with_atx_def)
  let ?n = "fallback_name (rn_atx run) ?u"
  obtain out where out: "opted_out list_env home_conf (pl_w l) (rn_atx run) ?n txt = Inr out"
    using f by (auto simp: opted_out_def list_env_def cbind_Inr_iff) (metis cbind.simps(2))
  let ?s = "start_user l1 run txt"
  have s: "pu_conf ?s = home_conf" using assms(1) by (simp add: l1_def)
  have "process_user list_env txt l (i, None) = (if out then bypass_user list_env l1 ?s ?u else filter_user list_env l1 ?s ?u ?n)"
    using assms(1,3) run(1) out u(1) by (simp add: process_user_def l1_def Let_def)
  moreover have "\<exists>l'. bypass_user list_env l1 ?s ?u = Inr l' \<and> pl_conf l' = home_conf \<and> rn_SIG (pl_run l') = None \<and> pl_users l' = pl_users l1"
    using list_deliver[of ?s "ax_mailer_args (pu_atx ?s)" ?u] run s
    by (auto simp: bypass_user_def end_user_def record_result_def with_atx_def cbind_Inr_iff)
  moreover have "\<exists>l'. filter_user list_env l1 ?s ?u ?n = Inr l' \<and> pl_conf l' = home_conf \<and> rn_SIG (pl_run l') = None \<and> pl_users l' = pl_users l1"
  proof -
    obtain po where po: "process_message list_env home_conf (pu_w ?s) run txt ?n = Inr po" "po_conf po = home_conf"
        "po_result po = EUNKNOWN" "rn_SIG (po_run po) = None" "rn_recipient (po_run po) \<noteq> RcptGone"
      using list_message[OF run(2), of "pu_w ?s" "txt" ?n] run(3) by auto
    define s1 where "s1 = (start_user l1 run txt)\<lparr>pu_w := po_w po, pu_conf := po_conf po, pu_run := po_run po, pu_text := po_text po,
                  pu_presult := (pu_presult (start_user l1 run txt))\<lparr>ar_classification := po_result po\<rparr>\<rparr>"
    have s1: "pu_conf s1 = home_conf" "pu_run s1 = po_run po" using po(2) by (simp_all add: s1_def)
    have "\<exists>s2. handle_innocent list_env s1 ?u ?n EUNKNOWN = Inr s2 \<and> pu_conf s2 = home_conf \<and> rn_SIG (pu_run s2) = None"
      using list_deliver[of s1 "ax_mailer_args (pu_atx s1)" ?u] po s1
      by (cases "ax_classification (pu_atx s1) = DSR_NONE \<and> hasf (pu_atx s1) DAF_DELIVER_INNOCENT")
        (auto simp: handle_innocent_def failed_delivery_def EUNKNOWN_def)
    then show ?thesis using po s1 s
      by (auto simp: filter_user_def s1_def Let_def EUNKNOWN_def end_user_def record_result_def with_atx_def home_match other_length)
  qed
  ultimately show ?thesis by (auto simp: l1_def)
qed


section \<open>Failed deliveries\<close>

lemma unlearn_flag: "orders A = orders B \<Longrightarrow> hasf A DAF_UNLEARN = hasf B DAF_UNLEARN"
proof -
  assume o: "orders A = orders B"
  have "ax_flags X AND DAF_UNLEARN = (ax_flags X AND 0x307) AND DAF_UNLEARN" for X
    by (simp add: and.assoc DAF_UNLEARN_def)
  then show ?thesis using o unfolding orders_def hasf_def by (metis prod.inject)
qed

text \<open>
  C36. A failed delivery misleads the rest of the run. When a message is unlearned because its delivery
  failed, the agent's context is left with the class, with the source of a correction and with the
  flag that asks to unlearn, and a message that is handled with these orders afterwards is dropped when
  processing it fails, for instance because it carries no signature, where it was to be delivered.
\<close>

theorem failed_delivery_misleads:
  assumes "failed_delivery env username (Some r) s = Inr s'" "pu_retcode s \<noteq> 0" "r \<noteq> DSR_NONE"
    and "cfg_match (pu_conf s) ''OnFail'' ''unlearn''" "rn_learned (pu_run s)"
  shows "ax_classification (pu_atx s') = r \<and> ax_source (pu_atx s') = DSS_ERROR \<and> hasf (pu_atx s') DAF_UNLEARN \<and>
    (\<forall>t user u e. orders (pu_atx t) = orders (pu_atx s') \<and> e \<noteq> dsr_code DSR_ISINNOCENT \<longrightarrow> handle_innocent env t user u e = Inr t)"
proof -
  define run where "run = with_atx (\<lambda>A. add_flag DAF_UNLEARN (A\<lparr>ax_classification := r, ax_source := DSS_ERROR\<rparr>)) (pu_run s)"
  obtain po where po: "process_message env (pu_conf s) (pu_w s) run (pu_text s) username = Inr po" "pu_run s' = po_run po"
    using assms by (auto simp: failed_delivery_def unlearn_failed_def cbind_Inr_iff run_def)
  have o: "orders (pu_atx s') = orders (rn_atx run)" using process_message_same[OF po(1)] po(2) by simp
  have "hasf (rn_atx run) DAF_UNLEARN" by (simp add: run_def hasf_def add_flag_def DAF_UNLEARN_def bit.conj_disj_distrib2 or_eq_0_iff)
  then have f: "hasf (pu_atx s') DAF_UNLEARN" using unlearn_flag[OF o] by simp
  have c: "ax_classification (pu_atx s') = r \<and> ax_source (pu_atx s') = DSS_ERROR" using o by (simp add: orders_def run_def add_flag_def)
  have "ax_classification (pu_atx t) = r" if "orders (pu_atx t) = orders (pu_atx s')" for t :: "'a pu" using that c by (simp add: orders_def)
  then show ?thesis using c f assms(3) by (auto simp: handle_innocent_def)
qed

definition unlearn_conf :: agent_config where
  "unlearn_conf = [(''OnFail'', ''unlearn'')]"

definition failed_pu :: "string list pu" where
  "failed_pu = \<lparr>pu_w = [], pu_conf = unlearn_conf, pu_run = inbound_run\<lparr>rn_learned := True\<rparr>, pu_text = ''m'',
     pu_presult = \<lparr>ar_exitcode = 0, ar_classification = 0, ar_text = []\<rparr>, pu_retcode = 1\<rparr>"

theorem failed_delivery_misleads_witness:
  "\<exists>s'. failed_delivery list_env ''joe'' (Some DSR_ISINNOCENT) failed_pu = Inr s' \<and> ax_classification (pu_atx s') = DSR_ISINNOCENT \<and>
     handle_innocent list_env s' ''jane'' ''jane'' EFAILURE = Inr s'"
proof -
  have c: "cfg_match unlearn_conf ''OnFail'' ''unlearn''" "cfg_read unlearn_conf ''GroupConfig'' = None"
    by (simp_all add: unlearn_conf_def cfg_match_def cfg_read_def other_length strcaseeq_def[of x x for x])
  have "\<exists>s'. failed_delivery list_env ''joe'' (Some DSR_ISINNOCENT) failed_pu = Inr s'"
    using c by (simp add: failed_delivery_def unlearn_failed_def failed_pu_def inbound_run_def note_result_def Let_def process_message_def list_env_def
        ctx_init_def dspam_create_def group_file_def no_groups_def with_atx_def ds_spam_signature_put_def)
  then obtain s' where s': "failed_delivery list_env ''joe'' (Some DSR_ISINNOCENT) failed_pu = Inr s'" ..
  have "pu_retcode failed_pu \<noteq> 0" "cfg_match (pu_conf failed_pu) ''OnFail'' ''unlearn''" "rn_learned (pu_run failed_pu)"
    using c(1) by (simp_all add: failed_pu_def inbound_run_def)
  from failed_delivery_misleads[OF s' this(1) _ this(2,3)] s' show ?thesis by (auto simp: EFAILURE_def)
qed

end
