(* ===== verification/Spec2Isabelle.thy ===== *)
theory Spec2Isabelle
  imports Ds_Operate Ds_Mail
begin

text \<open>A verification library of the classification core of DSPAM.\<close>

end
